(* ===== verification/Rust_Prelude.thy ===== *)
theory Rust_Prelude
  imports Main "HOL-Library.Word" "HOL-Library.Char_ord" "HOL-Library.List_Lexorder"
begin

text \<open>
  The fragment of Rust's standard library that the modelled modules use.

  A Rust \<open>str\<close> is a list of bytes (\<open>string\<close>, a \<open>char\<close> being one byte) that holds
  UTF-8; \<open>len()\<close> is \<open>length\<close>. Searches, ASCII case folding, Unicode trimming, number
  parsing and lossy decoding work on the bytes, as the library's own code does.
  Unsigned integers are \<open>nat\<close> with their saturating, checked and wrapping operations
  written out; \<open>Duration\<close>, \<open>Instant\<close> and \<open>SystemTime\<close> count nanoseconds.
\<close>

named_theorems rust_simps \<open>defining equations of the standard-library fragment\<close>

subsection \<open>Fixed-width arithmetic on nat\<close>

definition u16_max :: nat where "u16_max = 2 ^ 16 - 1"
definition u32_max :: nat where "u32_max = 2 ^ 32 - 1"
definition u64_max :: nat where "u64_max = 2 ^ 64 - 1"
definition u128_max :: nat where "u128_max = 2 ^ 128 - 1"

definition sat_add64 :: "nat \<Rightarrow> nat \<Rightarrow> nat" where
  "sat_add64 a b = min (a + b) u64_max"

definition sat_mul64 :: "nat \<Rightarrow> nat \<Rightarrow> nat" where
  "sat_mul64 a b = min (a * b) u64_max"

definition checked_add128 :: "nat \<Rightarrow> nat \<Rightarrow> nat option" where
  "checked_add128 a b = (if a + b \<le> u128_max then Some (a + b) else None)"

definition checked_mul128 :: "nat \<Rightarrow> nat \<Rightarrow> nat option" where
  "checked_mul128 a b = (if a * b \<le> u128_max then Some (a * b) else None)"

lemmas arith_width_defs = sat_add64_def sat_mul64_def checked_add128_def checked_mul128_def

lemma sat_add64_le [simp]: "sat_add64 a b \<le> u64_max"
  by (simp add: sat_add64_def)

lemma sat_add64_exact: "a + b \<le> u64_max \<Longrightarrow> sat_add64 a b = a + b"
  by (simp add: sat_add64_def)

lemma sat_add64_ge: "a \<le> u64_max \<Longrightarrow> a \<le> sat_add64 a b"
  by (simp add: sat_add64_def)

lemma sat_add64_mono: "a \<le> a' \<Longrightarrow> b \<le> b' \<Longrightarrow> sat_add64 a b \<le> sat_add64 a' b'"
  by (auto simp: sat_add64_def min_def)

subsection \<open>Time\<close>

text \<open>
  \<open>Duration\<close> is a number of nanoseconds. \<open>Instant\<close> (monotonic) and \<open>SystemTime\<close> (wall
  clock, relative to the Unix epoch) are a signed 64-bit number of seconds and
  nanoseconds below one second, so \<open>checked_add\<close> fails beyond \<open>time_max\<close>.
\<close>

type_synonym duration = nat
type_synonym instant = nat
type_synonym systime = int

definition ns_per_sec :: nat where "ns_per_sec = 1000000000"
definition ns_per_ms :: nat where "ns_per_ms = 1000000"
definition from_secs :: "nat \<Rightarrow> duration" where "from_secs n = n * ns_per_sec"
definition from_millis :: "nat \<Rightarrow> duration" where "from_millis n = n * ns_per_ms"
definition as_secs :: "duration \<Rightarrow> nat" where "as_secs d = d div ns_per_sec"
definition time_max :: nat where "time_max = 2 ^ 63 * ns_per_sec - 1"

definition instant_checked_add :: "instant \<Rightarrow> duration \<Rightarrow> instant option" where
  "instant_checked_add t d = (if t + d \<le> time_max then Some (t + d) else None)"

definition systime_checked_add :: "systime \<Rightarrow> duration \<Rightarrow> systime option" where
  "systime_checked_add t d = (if t + int d \<le> int time_max then Some (t + int d) else None)"

text \<open>\<open>Instant::checked_duration_since\<close>, and \<open>SystemTime::duration_since\<close>, whose error
  (the other time lies later) is \<open>None\<close> here.\<close>

definition checked_duration_since :: "instant \<Rightarrow> instant \<Rightarrow> duration option" where
  "checked_duration_since t earlier = (if earlier \<le> t then Some (t - earlier) else None)"

definition duration_since :: "systime \<Rightarrow> systime \<Rightarrow> duration option" where
  "duration_since t earlier = (if earlier \<le> t then Some (nat (t - earlier)) else None)"

lemmas time_defs = ns_per_sec_def ns_per_ms_def from_secs_def from_millis_def as_secs_def
  time_max_def instant_checked_add_def systime_checked_add_def checked_duration_since_def
  duration_since_def

subsection \<open>Bytes\<close>

definition byte :: "char \<Rightarrow> nat" where "byte c = of_char c"

lemma byte_less_256 [simp]: "byte c < 256"
  by (simp add: byte_def)

lemma byte_inj: "byte c = byte d \<longleftrightarrow> c = d"
  by (simp add: byte_def)

definition is_digit :: "char \<Rightarrow> bool" where
  "is_digit c \<longleftrightarrow> 48 \<le> byte c \<and> byte c \<le> 57"

definition digit_val :: "char \<Rightarrow> nat" where "digit_val c = byte c - 48"

definition is_ascii_upper :: "char \<Rightarrow> bool" where
  "is_ascii_upper c \<longleftrightarrow> 65 \<le> byte c \<and> byte c \<le> 90"

definition is_ascii_lower :: "char \<Rightarrow> bool" where
  "is_ascii_lower c \<longleftrightarrow> 97 \<le> byte c \<and> byte c \<le> 122"

definition is_ascii_alphanumeric :: "char \<Rightarrow> bool" where
  "is_ascii_alphanumeric c \<longleftrightarrow> is_digit c \<or> is_ascii_upper c \<or> is_ascii_lower c"

text \<open>\<open>is_ascii_whitespace\<close>: space, tab, line feed, form feed and carriage return (no
  vertical tab, unlike Unicode white space).\<close>

definition is_ascii_ws :: "char \<Rightarrow> bool" where
  "is_ascii_ws c \<longleftrightarrow> byte c \<in> {9, 10, 12, 13, 32}"

text \<open>\<open>to_ascii_lowercase\<close> sets the bit 0x20 of an upper-case letter.\<close>

fun set_bit5 :: "char \<Rightarrow> char" where
  "set_bit5 (Char b0 b1 b2 b3 b4 b5 b6 b7) = Char b0 b1 b2 b3 b4 True b6 b7"

definition ascii_lower :: "char \<Rightarrow> char" where
  "ascii_lower c = (if is_ascii_upper c then set_bit5 c else c)"

lemma byte_set_bit5: "is_ascii_upper c \<Longrightarrow> byte (set_bit5 c) = byte c + 32"
  by (cases c) (auto simp: is_ascii_upper_def byte_def of_bool_def split: if_splits)

definition to_ascii_lowercase :: "string \<Rightarrow> string" where
  "to_ascii_lowercase s = map ascii_lower s"

lemma length_to_ascii_lowercase [simp]: "length (to_ascii_lowercase s) = length s"
  by (simp add: to_ascii_lowercase_def)

lemma ascii_lower_idem [simp]: "ascii_lower (ascii_lower c) = ascii_lower c"
proof (cases "is_ascii_upper c")
  case True
  then have "byte (ascii_lower c) = byte c + 32"
    by (simp add: ascii_lower_def byte_set_bit5)
  with True have "\<not> is_ascii_upper (ascii_lower c)"
    by (simp add: is_ascii_upper_def)
  then show ?thesis by (simp add: ascii_lower_def [of "ascii_lower c"])
next
  case False
  then show ?thesis by (simp add: ascii_lower_def)
qed

lemma to_ascii_lowercase_idem [simp]:
  "to_ascii_lowercase (to_ascii_lowercase s) = to_ascii_lowercase s"
  by (simp add: to_ascii_lowercase_def)

subsection \<open>Substrings\<close>

fun starts_with :: "string \<Rightarrow> string \<Rightarrow> bool" where
  "starts_with s [] = True"
| "starts_with [] (_ # _) = False"
| "starts_with (c # s) (p # ps) = (c = p \<and> starts_with s ps)"

lemma starts_with_iff: "starts_with s p \<longleftrightarrow> take (length p) s = p"
  by (induction s p rule: starts_with.induct) auto

lemma starts_with_append: "starts_with (p @ s) p"
  by (simp add: starts_with_iff)

text \<open>\<open>find\<close> returns the suffix at the first match, so the byte position is
  \<open>length s - length suffix\<close>; the callers all continue behind the match.\<close>

fun find_suffix :: "string \<Rightarrow> string \<Rightarrow> string option" where
  "find_suffix [] p = (if p = [] then Some [] else None)"
| "find_suffix (c # s) p = (if starts_with (c # s) p then Some (c # s) else find_suffix s p)"

definition str_contains :: "string \<Rightarrow> string \<Rightarrow> bool" where
  "str_contains s p \<longleftrightarrow> find_suffix s p \<noteq> None"

lemma find_suffix_starts: "find_suffix s p = Some t \<Longrightarrow> starts_with t p"
  by (induction s p rule: find_suffix.induct) (auto split: if_splits)

lemma find_suffix_length: "find_suffix s p = Some t \<Longrightarrow> length t \<le> length s"
  by (induction s p rule: find_suffix.induct) (auto split: if_splits)

lemma find_suffix_split: "find_suffix s p = Some t \<Longrightarrow> \<exists>u. s = u @ t"
proof (induction s p rule: find_suffix.induct)
  case (2 c s p)
  show ?case
  proof (cases "starts_with (c # s) p")
    case True
    with 2 show ?thesis by simp
  next
    case False
    with 2 obtain u where "s = u @ t" by auto
    then have "c # s = (c # u) @ t" by simp
    then show ?thesis by blast
  qed
qed (auto split: if_splits)

lemma find_suffix_None: "find_suffix s p = None \<Longrightarrow> \<not> (\<exists>u v. s = u @ p @ v)"
proof (induction s p rule: find_suffix.induct)
  case (1 p)
  then show ?case by (auto split: if_splits)
next
  case (2 c s p)
  then have no: "\<not> starts_with (c # s) p" and ih: "\<not> (\<exists>u v. s = u @ p @ v)"
    by (auto split: if_splits)
  show ?case
  proof
    assume "\<exists>u v. c # s = u @ p @ v"
    then obtain u v where eq: "c # s = u @ p @ v" by blast
    show False
    proof (cases u)
      case Nil
      with eq no show False by (metis append_Nil starts_with_append)
    next
      case (Cons d u')
      with eq have "s = u' @ p @ v" by simp
      with ih show False by blast
    qed
  qed
qed

theorem str_contains_iff: "str_contains s p \<longleftrightarrow> (\<exists>u v. s = u @ p @ v)"
proof
  assume "str_contains s p"
  then obtain t where t: "find_suffix s p = Some t" by (auto simp: str_contains_def)
  then obtain u where "s = u @ t" using find_suffix_split by blast
  moreover have "t = p @ drop (length p) t"
    using find_suffix_starts [OF t] by (metis append_take_drop_id starts_with_iff)
  ultimately show "\<exists>u v. s = u @ p @ v" by metis
next
  assume "\<exists>u v. s = u @ p @ v"
  then show "str_contains s p"
    using find_suffix_None [of s p] by (cases "find_suffix s p") (auto simp: str_contains_def)
qed

text \<open>
  \<open>char::is_whitespace\<close> is Unicode white space. \<open>ws_len s\<close> is the number of bytes of the
  white-space character at the head of \<open>s\<close>, 0 if there is none; \<open>ws_len_rev\<close> reads the
  bytes backwards from the end. In UTF-8 these byte patterns start with a lead byte, so
  they match at character boundaries only.
\<close>

definition is_ws1 :: "nat \<Rightarrow> bool" where
  "is_ws1 a \<longleftrightarrow> (9 \<le> a \<and> a \<le> 13) \<or> a = 32"

definition is_ws2 :: "nat \<Rightarrow> nat \<Rightarrow> bool" where
  "is_ws2 a b \<longleftrightarrow> a = 0xC2 \<and> (b = 0x85 \<or> b = 0xA0)"

definition is_ws3 :: "nat \<Rightarrow> nat \<Rightarrow> nat \<Rightarrow> bool" where
  "is_ws3 a b c \<longleftrightarrow>
     a = 0xE1 \<and> b = 0x9A \<and> c = 0x80 \<or>
     a = 0xE2 \<and> b = 0x80 \<and> (0x80 \<le> c \<and> c \<le> 0x8A \<or> c = 0xA8 \<or> c = 0xA9 \<or> c = 0xAF) \<or>
     a = 0xE2 \<and> b = 0x81 \<and> c = 0x9F \<or>
     a = 0xE3 \<and> b = 0x80 \<and> c = 0x80"

fun ws_len :: "string \<Rightarrow> nat" where
  "ws_len [] = 0"
| "ws_len [a] = (if is_ws1 (byte a) then 1 else 0)"
| "ws_len [a, b] =
     (if is_ws1 (byte a) then 1 else if is_ws2 (byte a) (byte b) then 2 else 0)"
| "ws_len (a # b # c # _) =
     (if is_ws1 (byte a) then 1 else if is_ws2 (byte a) (byte b) then 2
      else if is_ws3 (byte a) (byte b) (byte c) then 3 else 0)"

fun ws_len_rev :: "string \<Rightarrow> nat" where
  "ws_len_rev [] = 0"
| "ws_len_rev [a] = (if is_ws1 (byte a) then 1 else 0)"
| "ws_len_rev [b, a] =
     (if is_ws1 (byte b) then 1 else if is_ws2 (byte a) (byte b) then 2 else 0)"
| "ws_len_rev (c # b # a # _) =
     (if is_ws1 (byte c) then 1 else if is_ws2 (byte b) (byte c) then 2
      else if is_ws3 (byte a) (byte b) (byte c) then 3 else 0)"

lemma ws_len_le: "ws_len s \<le> length s"
  by (cases s rule: ws_len.cases) auto

lemma ws_len_rev_le: "ws_len_rev s \<le> length s"
  by (cases s rule: ws_len_rev.cases) auto

function trim_start :: "string \<Rightarrow> string" where
  "trim_start s = (if ws_len s = 0 then s else trim_start (drop (ws_len s) s))"
  by pat_completeness auto
termination
proof (relation "measure length")
  fix s assume "ws_len s \<noteq> 0"
  then show "(drop (ws_len s) s, s) \<in> measure length"
    using ws_len_le [of s] by simp
qed simp

function trim_start_rev :: "string \<Rightarrow> string" where
  "trim_start_rev s = (if ws_len_rev s = 0 then s else trim_start_rev (drop (ws_len_rev s) s))"
  by pat_completeness auto
termination
proof (relation "measure length")
  fix s assume "ws_len_rev s \<noteq> 0"
  then show "(drop (ws_len_rev s) s, s) \<in> measure length"
    using ws_len_rev_le [of s] by simp
qed simp

declare trim_start.simps [simp del] trim_start_rev.simps [simp del]

definition trim_end :: "string \<Rightarrow> string" where
  "trim_end s = rev (trim_start_rev (rev s))"

definition trim :: "string \<Rightarrow> string" where
  "trim s = trim_end (trim_start s)"

lemma length_trim_start: "length (trim_start s) \<le> length s"
proof (induction s rule: trim_start.induct)
  case (1 s)
  show ?case
  proof (cases "ws_len s = 0")
    case True
    then show ?thesis by (simp add: trim_start.simps [of s])
  next
    case False
    with 1 have "length (trim_start (drop (ws_len s) s)) \<le> length (drop (ws_len s) s)" by simp
    with False show ?thesis by (simp add: trim_start.simps [of s])
  qed
qed

text \<open>\<open>str::split(char::is_whitespace).next()\<close>: the bytes before the first white space.\<close>

fun until_ws :: "string \<Rightarrow> string" where
  "until_ws [] = []"
| "until_ws (c # s) = (if ws_len (c # s) = 0 then c # until_ws s else [])"

text \<open>\<open>trim_end_matches\<close> and \<open>trim_start_matches\<close> with a set of ASCII characters.\<close>

definition trim_end_matches :: "(char \<Rightarrow> bool) \<Rightarrow> string \<Rightarrow> string" where
  "trim_end_matches P s = rev (dropWhile P (rev s))"

definition trim_start_matches :: "(char \<Rightarrow> bool) \<Rightarrow> string \<Rightarrow> string" where
  "trim_start_matches P s = dropWhile P s"

subsection \<open>Numbers\<close>

fun digits_val :: "nat \<Rightarrow> string \<Rightarrow> nat" where
  "digits_val acc [] = acc"
| "digits_val acc (c # s) = digits_val (acc * 10 + digit_val c) s"

text \<open>\<open>str::parse\<close> for an unsigned type with maximum \<open>bound\<close>: an optional plus sign, at
  least one digit, digits only, no overflow.\<close>

definition parse_uint :: "nat \<Rightarrow> string \<Rightarrow> nat option" where
  "parse_uint bound s =
     (let ds = (case s of c # r \<Rightarrow> if c = CHR ''+'' then r else s | [] \<Rightarrow> s)
      in if ds = [] \<or> \<not> list_all is_digit ds \<or> bound < digits_val 0 ds then None
         else Some (digits_val 0 ds))"

lemma parse_uint_le: "parse_uint bound s = Some n \<Longrightarrow> n \<le> bound"
  by (auto simp: parse_uint_def Let_def split: if_splits)

subsection \<open>Lossy UTF-8 decoding\<close>

text \<open>
  \<open>utf8_chunk s\<close> looks at the head of a non-empty byte list: \<open>(True, n)\<close> is a valid
  character of \<open>n\<close> bytes, \<open>(False, n)\<close> an invalid sequence of \<open>n\<close> bytes that
  \<open>String::from_utf8_lossy\<close> replaces by one U+FFFD.
\<close>

definition is_cont :: "nat \<Rightarrow> bool" where "is_cont b \<longleftrightarrow> 0x80 \<le> b \<and> b \<le> 0xBF"

text \<open>A read past the end gives the byte 0, which is no continuation byte.\<close>

definition byte_at :: "string \<Rightarrow> nat \<Rightarrow> nat" where
  "byte_at s i = (if i < length s then byte (s ! i) else 0)"

definition second3_ok :: "nat \<Rightarrow> nat \<Rightarrow> bool" where
  "second3_ok a b \<longleftrightarrow>
     a = 0xE0 \<and> 0xA0 \<le> b \<and> b \<le> 0xBF \<or>
     (0xE1 \<le> a \<and> a \<le> 0xEC \<or> a = 0xEE \<or> a = 0xEF) \<and> is_cont b \<or>
     a = 0xED \<and> 0x80 \<le> b \<and> b \<le> 0x9F"

definition second4_ok :: "nat \<Rightarrow> nat \<Rightarrow> bool" where
  "second4_ok a b \<longleftrightarrow>
     a = 0xF0 \<and> 0x90 \<le> b \<and> b \<le> 0xBF \<or>
     0xF1 \<le> a \<and> a \<le> 0xF3 \<and> is_cont b \<or>
     a = 0xF4 \<and> 0x80 \<le> b \<and> b \<le> 0x8F"

definition utf8_chunk :: "string \<Rightarrow> bool \<times> nat" where
  "utf8_chunk s =
     (let a = byte_at s 0; b = byte_at s 1; c = byte_at s 2; d = byte_at s 3 in
      if a < 0x80 then (True, 1)
      else if 0xC2 \<le> a \<and> a \<le> 0xDF then (if is_cont b then (True, 2) else (False, 1))
      else if 0xE0 \<le> a \<and> a \<le> 0xEF then
        (if \<not> second3_ok a b then (False, 1) else if \<not> is_cont c then (False, 2) else (True, 3))
      else if 0xF0 \<le> a \<and> a \<le> 0xF4 then
        (if \<not> second4_ok a b then (False, 1) else if \<not> is_cont c then (False, 2)
         else if \<not> is_cont d then (False, 3) else (True, 4))
      else (False, 1))"

lemma utf8_chunk_pos: "0 < snd (utf8_chunk s)"
  by (simp add: utf8_chunk_def Let_def)

definition replacement_char :: string where
  "replacement_char = [CHR 0xEF, CHR 0xBF, CHR 0xBD]"

function from_utf8_lossy :: "string \<Rightarrow> string" where
  "from_utf8_lossy s =
     (if s = [] then []
      else (if fst (utf8_chunk s) then take (snd (utf8_chunk s)) s else replacement_char)
           @ from_utf8_lossy (drop (snd (utf8_chunk s)) s))"
  by pat_completeness auto
termination
proof (relation "measure length")
  fix s :: string
  assume "s \<noteq> []"
  then show "(drop (snd (utf8_chunk s)) s, s) \<in> measure length"
    using utf8_chunk_pos [of s] by (cases s) auto
qed simp

declare from_utf8_lossy.simps [simp del]

lemma from_utf8_lossy_ascii:
  "list_all (\<lambda>c. byte c < 128) s \<Longrightarrow> from_utf8_lossy s = s"
proof (induction s)
  case Nil
  then show ?case by (simp add: from_utf8_lossy.simps)
next
  case (Cons c s)
  then show ?case
    by (simp add: from_utf8_lossy.simps [of "c # s"] utf8_chunk_def byte_at_def Let_def)
qed

text \<open>A byte offset of a \<open>str\<close> is a character boundary when it is an end or the byte there
  is no continuation byte; \<open>truncate\<close> and slicing panic elsewhere.\<close>

definition is_char_boundary :: "string \<Rightarrow> nat \<Rightarrow> bool" where
  "is_char_boundary s i \<longleftrightarrow> i = 0 \<or> i = length s \<or> i < length s \<and> \<not> is_cont (byte (s ! i))"

definition char_count :: "string \<Rightarrow> nat" where
  "char_count s = length (filter (\<lambda>c. \<not> is_cont (byte c)) s)"

subsection \<open>Iterators\<close>

primrec find_map :: "('a \<Rightarrow> 'b option) \<Rightarrow> 'a list \<Rightarrow> 'b option" where
  "find_map f [] = None"
| "find_map f (x # xs) = (case f x of Some y \<Rightarrow> Some y | None \<Rightarrow> find_map f xs)"

lemma find_map_Some: "find_map f xs = Some y \<Longrightarrow> \<exists>x \<in> set xs. f x = Some y"
  by (induction xs) (auto split: option.splits)

lemma find_map_None: "find_map f xs = None \<longleftrightarrow> (\<forall>x \<in> set xs. f x = None)"
  by (induction xs) (auto split: option.splits)

text \<open>\<open>rposition\<close>: the index of the last element that satisfies \<open>P\<close>.\<close>

fun rposition :: "('a \<Rightarrow> bool) \<Rightarrow> 'a list \<Rightarrow> nat option" where
  "rposition P [] = None"
| "rposition P (x # xs) =
     (case rposition P xs of Some i \<Rightarrow> Some (Suc i) | None \<Rightarrow> if P x then Some 0 else None)"

lemma rposition_None: "rposition P xs = None \<longleftrightarrow> (\<forall>x \<in> set xs. \<not> P x)"
  by (induction xs) (auto split: option.splits)

lemma rposition_SomeD:
  "rposition P xs = Some i \<Longrightarrow>
     i < length xs \<and> P (xs ! i) \<and> (\<forall>j. i < j \<and> j < length xs \<longrightarrow> \<not> P (xs ! j))"
proof (induction xs arbitrary: i)
  case (Cons x xs)
  show ?case
  proof (cases "rposition P xs")
    case None
    with Cons.prems have "P x" "i = 0" by (auto split: if_splits)
    moreover have "\<not> P (xs ! k)" if "k < length xs" for k
      using None that by (simp add: rposition_None)
    ultimately show ?thesis by (auto simp: nth_Cons')
  next
    case (Some k)
    with Cons.prems have i: "i = Suc k" by simp
    have "\<not> P ((x # xs) ! j)" if "i < j" "j < length (x # xs)" for j
      using that i Cons.IH [OF Some] by (cases j) auto
    with i Cons.IH [OF Some] show ?thesis by auto
  qed
qed simp

lemma rposition_cong: "length xs = length ys \<Longrightarrow> (\<And>i. i < length xs \<Longrightarrow> P (xs ! i) = P (ys ! i)) \<Longrightarrow>
    rposition P xs = rposition P ys"
proof (induction xs ys rule: list_induct2)
  case (Cons x xs y ys)
  have "P x = P y" using Cons.prems [of 0] by simp
  moreover have "rposition P xs = rposition P ys"
    using Cons.prems [of "Suc _"] by (intro Cons.IH) auto
  ultimately show ?case by simp
qed simp

subsection \<open>File names\<close>

text \<open>\<open>Path::extension\<close> and \<open>Path::file_stem\<close>: a leading dot starts no extension.\<close>

definition last_dot :: "string \<Rightarrow> nat option" where
  "last_dot name =
     (case rposition (\<lambda>c. c = CHR ''.'') name of Some (Suc i) \<Rightarrow> Some (Suc i) | _ \<Rightarrow> None)"

definition file_extension :: "string \<Rightarrow> string option" where
  "file_extension name = (case last_dot name of Some i \<Rightarrow> Some (drop (Suc i) name) | None \<Rightarrow> None)"

definition file_stem :: "string \<Rightarrow> string" where
  "file_stem name = (case last_dot name of Some i \<Rightarrow> take i name | None \<Rightarrow> name)"

subsection \<open>Decimal text\<close>

text \<open>\<open>to_string()\<close> of an unsigned integer.\<close>

fun show_nat :: "nat \<Rightarrow> string" where
  "show_nat n = (if n < 10 then [char_of (48 + n)] else show_nat (n div 10) @ [char_of (48 + n mod 10)])"

declare show_nat.simps [simp del]

lemma byte_digit_char: "n < 10 \<Longrightarrow> byte (char_of (48 + n)) = 48 + n"
  by (simp add: byte_def)

lemma digit_char [simp]:
  "n < 10 \<Longrightarrow> is_digit (char_of (48 + n))" "n < 10 \<Longrightarrow> digit_val (char_of (48 + n)) = n"
  by (simp_all add: is_digit_def digit_val_def byte_digit_char)

lemma digits_val_append: "digits_val acc (s @ t) = digits_val (digits_val acc s) t"
  by (induction acc s rule: digits_val.induct) simp_all

lemma show_nat_digits: "list_all is_digit (show_nat n) \<and> show_nat n \<noteq> []"
proof (induction n rule: show_nat.induct)
  case (1 n)
  then show ?case by (simp add: show_nat.simps [of n])
qed

lemma digits_val_show_nat: "digits_val 0 (show_nat n) = n"
proof (induction n rule: show_nat.induct)
  case (1 n)
  then show ?case by (auto simp: show_nat.simps [of n] digits_val_append)
qed

lemma digits_not_plus: "is_digit c \<Longrightarrow> c \<noteq> CHR ''+''"
  by (auto simp: is_digit_def byte_def)

lemma parse_uint_digits:
  assumes "list_all is_digit s" and "s \<noteq> []" and "digits_val 0 s \<le> bound"
  shows "parse_uint bound s = Some (digits_val 0 s)"
  using assms by (cases s) (auto simp: parse_uint_def Let_def dest: digits_not_plus)

lemma parse_uint_show_nat: "n \<le> bound \<Longrightarrow> parse_uint bound (show_nat n) = Some n"
  using show_nat_digits [of n] by (simp add: parse_uint_digits digits_val_show_nat)

lemmas [rust_simps] = byte_def is_digit_def digit_val_def is_ascii_upper_def is_ascii_lower_def
  is_ascii_ws_def ascii_lower_def to_ascii_lowercase_def str_contains_def is_ws1_def is_ws2_def
  is_ws3_def trim_start.simps trim_start_rev.simps trim_end_def trim_def trim_end_matches_def
  trim_start_matches_def parse_uint_def u16_max_def u32_max_def u64_max_def u128_max_def

subsection \<open>Ordered maps\<close>

text \<open>A \<open>BTreeMap\<close> is its list of entries in key order.\<close>

fun btree_insert :: "'k::linorder \<Rightarrow> 'v \<Rightarrow> ('k \<times> 'v) list \<Rightarrow> ('k \<times> 'v) list" where
  "btree_insert k v [] = [(k, v)]"
| "btree_insert k v ((k', v') # m) =
     (if k < k' then (k, v) # (k', v') # m
      else if k = k' then (k, v) # m
      else (k', v') # btree_insert k v m)"

lemma map_of_btree_insert [simp]:
  "sorted (map fst m) \<Longrightarrow> distinct (map fst m) \<Longrightarrow>
   map_of (btree_insert k v m) = (map_of m)(k \<mapsto> v)"
proof (induction k v m rule: btree_insert.induct)
  case (2 k v k' v' m)
  then show ?case by (auto simp: fun_eq_iff)
qed simp

lemma fst_btree_insert: "fst ` set (btree_insert k v m) = insert k (fst ` set m)"
  by (induction k v m rule: btree_insert.induct) auto

definition btree_ok :: "('k::linorder \<times> 'v) list \<Rightarrow> bool" where
  "btree_ok m \<longleftrightarrow> sorted (map fst m) \<and> distinct (map fst m)"

lemma btree_ok_insert: "btree_ok m \<Longrightarrow> btree_ok (btree_insert k v m)"
  by (induction k v m rule: btree_insert.induct) (auto simp: btree_ok_def fst_btree_insert)

lemma map_of_btree_insert_ok [simp]:
  "btree_ok m \<Longrightarrow> map_of (btree_insert k v m) = (map_of m)(k \<mapsto> v)"
  by (simp add: btree_ok_def)

end
