(* ===== verification/Json_Value.thy ===== *)
theory Json_Value
  imports Rust_Prelude
begin

text \<open>
  \<open>serde_json::Value\<close> as the modules match on it, with the accessors they call. The crate
  is built with \<open>preserve_order\<close>: an object is a list of members in insertion order with
  distinct names, \<open>insert\<close> replaces in place or appends, \<open>remove\<close> is the documented
  swap-remove. Parsing and printing are not modelled here: they are parameters
  (\<open>parse_json\<close>, \<open>json_text\<close>) of the definitions that use them. A double is carried as
  its text, because no modelled operation computes with it.
\<close>

datatype jnum = PosInt nat | NegInt int | Float string

datatype json =
    JNull
  | JBool bool
  | JNum jnum
  | JStr string
  | JArr "json list"
  | JObj "(string \<times> json) list"

type_synonym jmap = "(string \<times> json) list"

fun as_str :: "json \<Rightarrow> string option" where
  "as_str (JStr s) = Some s"
| "as_str _ = None"

fun as_u64 :: "json \<Rightarrow> nat option" where
  "as_u64 (JNum (PosInt n)) = Some n"
| "as_u64 _ = None"

fun as_i64 :: "json \<Rightarrow> int option" where
  "as_i64 (JNum (PosInt n)) = (if n < 2 ^ 63 then Some (int n) else None)"
| "as_i64 (JNum (NegInt i)) = Some i"
| "as_i64 _ = None"

fun as_array :: "json \<Rightarrow> json list option" where
  "as_array (JArr xs) = Some xs"
| "as_array _ = None"

fun as_object :: "json \<Rightarrow> jmap option" where
  "as_object (JObj kvs) = Some kvs"
| "as_object _ = None"

definition is_object :: "json \<Rightarrow> bool" where "is_object v \<longleftrightarrow> as_object v \<noteq> None"

text \<open>\<open>Value::get\<close> with a name: the member of an object, nothing on any other value.\<close>

fun json_get :: "json \<Rightarrow> string \<Rightarrow> json option" where
  "json_get (JObj kvs) k = map_of kvs k"
| "json_get _ _ = None"

definition get_str :: "json \<Rightarrow> string \<Rightarrow> string option" where
  "get_str v k = Option.bind (json_get v k) as_str"

definition obj_str :: "jmap \<Rightarrow> string \<Rightarrow> string option" where
  "obj_str kvs k = Option.bind (map_of kvs k) as_str"

lemma get_str_object: "as_object v = Some obj \<Longrightarrow> get_str v k = obj_str obj k"
  by (cases v) (simp_all add: get_str_def obj_str_def)

lemma json_get_object: "as_object v = Some obj \<Longrightarrow> json_get v k = map_of obj k"
  by (cases v) simp_all

definition obj_u64 :: "jmap \<Rightarrow> string \<Rightarrow> nat option" where
  "obj_u64 kvs k = Option.bind (map_of kvs k) as_u64"

fun obj_insert :: "string \<Rightarrow> json \<Rightarrow> jmap \<Rightarrow> jmap" where
  "obj_insert k v [] = [(k, v)]"
| "obj_insert k v ((k', v') # kvs) =
     (if k' = k then (k, v) # kvs else (k', v') # obj_insert k v kvs)"

text \<open>Swap-remove: the last member takes the place of the removed one.\<close>

fun obj_remove :: "string \<Rightarrow> jmap \<Rightarrow> jmap" where
  "obj_remove k [] = []"
| "obj_remove k ((k', v') # kvs) =
     (if k' = k then (if kvs = [] then [] else last kvs # butlast kvs)
      else (k', v') # obj_remove k kvs)"

text \<open>The invariant of the crate's map: names are distinct.\<close>

definition obj_ok :: "jmap \<Rightarrow> bool" where "obj_ok kvs \<longleftrightarrow> distinct (map fst kvs)"

subsection \<open>Laws of objects\<close>

lemma map_of_obj_insert [simp]: "map_of (obj_insert k v kvs) = (map_of kvs)(k \<mapsto> v)"
  by (induction kvs) auto

lemma names_obj_insert:
  "map fst (obj_insert k v kvs) =
     (if k \<in> set (map fst kvs) then map fst kvs else map fst kvs @ [k])"
  by (induction k v kvs rule: obj_insert.induct) simp_all

lemma obj_ok_insert [simp]: "obj_ok kvs \<Longrightarrow> obj_ok (obj_insert k v kvs)"
  by (simp add: obj_ok_def names_obj_insert)

lemma mset_rotate_last: "kvs \<noteq> [] \<Longrightarrow> set (last kvs # butlast kvs) = set kvs"
  by (metis append_butlast_last_id rotate1.simps(2) set_rotate1)

lemma distinct_rotate_last:
  assumes "kvs \<noteq> []"
  shows "distinct (map f (last kvs # butlast kvs)) = distinct (map f kvs)"
proof -
  have "distinct (map f kvs) = distinct (map f (butlast kvs @ [last kvs]))"
    using assms by simp
  also have "\<dots> = distinct (map f (last kvs # butlast kvs))"
    by (auto simp del: append_butlast_last_id)
  finally show ?thesis by simp
qed

lemma set_obj_remove_subset: "set (obj_remove k kvs) \<subseteq> set kvs"
proof (induction k kvs rule: obj_remove.induct)
  case (2 k k' v' kvs)
  show ?case
  proof (cases "k' = k \<and> kvs \<noteq> []")
    case True
    then show ?thesis using mset_rotate_last [of kvs] by auto
  next
    case False
    with 2 show ?thesis by auto
  qed
qed simp

lemma obj_ok_Cons: "obj_ok ((k, v) # kvs) \<longleftrightarrow> k \<notin> fst ` set kvs \<and> obj_ok kvs"
  by (simp add: obj_ok_def)

lemma obj_ok_rotate_last: "kvs \<noteq> [] \<Longrightarrow> obj_ok (last kvs # butlast kvs) = obj_ok kvs"
  unfolding obj_ok_def by (rule distinct_rotate_last)

lemma map_of_rotate_last:
  assumes "kvs \<noteq> []" and "obj_ok kvs"
  shows "map_of (last kvs # butlast kvs) = map_of kvs"
proof (rule map_of_inject_set [THEN iffD2])
  show "distinct (map fst (last kvs # butlast kvs))" and "distinct (map fst kvs)"
    using assms obj_ok_rotate_last [OF assms(1)] unfolding obj_ok_def by blast+
  show "set (last kvs # butlast kvs) = set kvs"
    using assms(1) by (rule mset_rotate_last)
qed

lemma obj_ok_remove [simp]: "obj_ok kvs \<Longrightarrow> obj_ok (obj_remove k kvs)"
proof (induction k kvs rule: obj_remove.induct)
  case (2 k k' v' kvs)
  then have ok: "obj_ok kvs" and new: "k' \<notin> fst ` set kvs" by (simp_all add: obj_ok_Cons)
  show ?case
  proof (cases "k' = k")
    case True
    with ok show ?thesis by (cases "kvs = []") (simp_all add: obj_ok_rotate_last)
  next
    case False
    with 2 ok new set_obj_remove_subset [of k kvs] show ?thesis by (auto simp: obj_ok_Cons)
  qed
qed simp

lemma map_of_obj_remove:
  "obj_ok kvs \<Longrightarrow> map_of (obj_remove k kvs) = (map_of kvs)(k := None)"
proof (induction k kvs rule: obj_remove.induct)
  case (2 k k' v' kvs)
  then have ok: "obj_ok kvs" and new: "k' \<notin> fst ` set kvs" by (simp_all add: obj_ok_Cons)
  show ?case
  proof (cases "k' = k")
    case True
    with new have "map_of kvs k = None" by (simp add: map_of_eq_None_iff)
    moreover have "map_of (obj_remove k ((k', v') # kvs)) = map_of kvs"
      using True ok map_of_rotate_last [of kvs] by (cases "kvs = []") simp_all
    ultimately show ?thesis using True by (simp add: fun_eq_iff)
  next
    case False
    with 2 ok show ?thesis by (auto simp: fun_upd_twist)
  qed
qed simp

lemma map_of_obj_remove_other [simp]:
  "obj_ok kvs \<Longrightarrow> k \<noteq> k' \<Longrightarrow> map_of (obj_remove k kvs) k' = map_of kvs k'"
  by (simp add: map_of_obj_remove)

lemma map_of_obj_remove_same [simp]: "obj_ok kvs \<Longrightarrow> map_of (obj_remove k kvs) k = None"
  by (simp add: map_of_obj_remove)

text \<open>\<open>get_mut\<close> and an assignment through it: the member keeps its position.\<close>

fun put_member :: "string \<Rightarrow> json \<Rightarrow> json \<Rightarrow> json" where
  "put_member k v (JObj kvs) = JObj (obj_insert k v kvs)"
| "put_member k v other = other"

lemma get_put_member [simp]:
  "k' \<noteq> k \<Longrightarrow> json_get (put_member k v m) k' = json_get m k'"
  by (cases m) simp_all

lemma get_put_member_same: "json_get m k \<noteq> None \<Longrightarrow> json_get (put_member k v m) k = Some v"
  by (cases m) simp_all

lemma obj_insert_same: "map_of kvs k = Some v \<Longrightarrow> obj_insert k v kvs = kvs"
  by (induction kvs) (auto split: if_splits)

lemma put_member_same: "json_get m k = Some v \<Longrightarrow> put_member k v m = m"
  by (cases m) (simp_all add: obj_insert_same)

lemma as_array_SomeD: "as_array v = Some xs \<Longrightarrow> v = JArr xs"
  by (cases v) simp_all

text \<open>\<open>chat'\<close> is \<open>chat\<close> but for the members named in \<open>ks\<close>.\<close>

definition adds_only :: "string set \<Rightarrow> jmap \<Rightarrow> jmap \<Rightarrow> bool" where
  "adds_only ks chat chat' \<longleftrightarrow> (\<forall>k. k \<notin> ks \<longrightarrow> map_of chat' k = map_of chat k)"

lemma adds_only_refl [simp]: "adds_only ks chat chat"
  by (simp add: adds_only_def)

lemma adds_only_insert [simp]: "k \<in> ks \<Longrightarrow> adds_only ks chat (obj_insert k v chat)"
  by (auto simp: adds_only_def)

lemma adds_only_D: "adds_only ks chat chat' \<Longrightarrow> k \<notin> ks \<Longrightarrow> map_of chat' k = map_of chat k"
  by (simp add: adds_only_def)

lemma adds_only_trans: "adds_only ks a b \<Longrightarrow> adds_only ls b c \<Longrightarrow> adds_only (ks \<union> ls) a c"
  by (simp add: adds_only_def)

lemma adds_only_mono: "adds_only ks a b \<Longrightarrow> ks \<subseteq> ls \<Longrightarrow> adds_only ls a b"
  by (auto simp: adds_only_def)

text \<open>The tools of a chat body.\<close>

definition offered_tools :: "json \<Rightarrow> json list" where
  "offered_tools body =
     (case Option.bind (json_get body ''tools'') as_array of Some ts \<Rightarrow> ts | None \<Rightarrow> [])"

end
