(* ===== verification/Rate_Limit.thy ===== *)
theory Rate_Limit
  imports Json_Value
begin

text \<open>
  \<open>src/rate_limit.rs\<close>: which upstream response is an effective HTTP 429, the retry hint it
  carries, and the kind of limit. \<open>parse_json\<close> stands for \<open>serde_json::from_slice\<close>,
  \<open>parse_http_date\<close> for \<open>httpdate::parse_http_date\<close>, and \<open>retry_after\<close> for the readable
  value of the \<open>retry-after\<close> header.
\<close>

definition MAX_PARSED_COOLDOWN :: duration where
  "MAX_PARSED_COOLDOWN = from_secs (366 * 24 * 60 * 60)"

datatype rate_limit_kind = DailyQuota | FreeQuota | Transient | Unknown

fun rate_limit_kind_as_str :: "rate_limit_kind \<Rightarrow> string" where
  "rate_limit_kind_as_str DailyQuota = ''daily_quota''"
| "rate_limit_kind_as_str FreeQuota = ''free_quota''"
| "rate_limit_kind_as_str Transient = ''transient''"
| "rate_limit_kind_as_str Unknown = ''unknown''"

definition classify_rate_limit_kind :: "string option \<Rightarrow> duration \<Rightarrow> rate_limit_kind" where
  "classify_rate_limit_kind message d =
     (let by_duration = (if d \<le> from_secs 60 then Transient else Unknown) in
      case message of
        None \<Rightarrow> by_duration
      | Some m \<Rightarrow>
          (let lower = to_ascii_lowercase m in
           if str_contains lower ''daily free limit''
              \<or> str_contains lower ''daily'' \<and> str_contains lower ''limit'' then DailyQuota
           else if str_contains lower ''free limit reached on model''
              \<or> str_contains lower ''free'' \<and> str_contains lower ''limit'' then FreeQuota
           else by_duration))"

datatype retry_hint_source = RetryAfter | StructuredJson | HumanText | Fallback

record retry_hint =
  rh_duration :: duration
  rh_source :: retry_hint_source
  rh_message :: "string option"
  rh_model :: "string option"

datatype upstream_disposition =
    Success
  | DirectRateLimited429
  | ProxyWrappedRateLimited429
  | NonFailoverHttpError

fun error_class :: "upstream_disposition \<Rightarrow> string" where
  "error_class Success = ''success''"
| "error_class DirectRateLimited429 = ''direct_rate_limit''"
| "error_class ProxyWrappedRateLimited429 = ''proxy_wrapped_rate_limit''"
| "error_class NonFailoverHttpError = ''non_failover_http_error''"

fun is_rate_limited :: "upstream_disposition \<Rightarrow> bool" where
  "is_rate_limited DirectRateLimited429 = True"
| "is_rate_limited ProxyWrappedRateLimited429 = True"
| "is_rate_limited _ = False"

record classified =
  outer_status :: nat
  effective_status :: nat
  disposition :: upstream_disposition
  retry_hint_of :: "retry_hint option"

subsection \<open>Proxy-wrapped 429\<close>

definition value_is_status :: "json \<Rightarrow> nat \<Rightarrow> bool" where
  "value_is_status v expected \<longleftrightarrow>
     as_u64 v = Some expected
     \<or> Option.bind (as_str v) (\<lambda>s. parse_uint u64_max (trim s)) = Some expected"

definition normalize_name :: "string \<Rightarrow> string" where
  "normalize_name name =
     filter (\<lambda>c. c \<noteq> CHR ''-'' \<and> c \<noteq> CHR ''_'') (to_ascii_lowercase name)"

fun structured_status :: "json \<Rightarrow> bool \<Rightarrow> bool"
and structured_status_members :: "jmap \<Rightarrow> bool \<Rightarrow> bool"
and structured_status_items :: "json list \<Rightarrow> bool \<Rightarrow> bool" where
  "structured_status (JObj kvs) inside_error = structured_status_members kvs inside_error"
| "structured_status (JArr vs) inside_error = structured_status_items vs inside_error"
| "structured_status _ inside_error = False"
| "structured_status_members [] inside_error = False"
| "structured_status_members ((name, v) # kvs) inside_error =
     (let normalized = normalize_name name;
          explicit_status = normalized \<in> {''upstreamstatus'', ''statuscode'', ''httpstatus''}
      in ((explicit_status \<or> inside_error \<and> normalized = ''status'') \<and> value_is_status v 429
          \<or> structured_status v (inside_error \<or> normalized = ''error''))
         \<or> structured_status_members kvs inside_error)"
| "structured_status_items [] inside_error = False"
| "structured_status_items (v # vs) inside_error =
     (structured_status v inside_error \<or> structured_status_items vs inside_error)"

definition structured_upstream_429 :: "json \<Rightarrow> bool" where
  "structured_upstream_429 v = structured_status v False"

definition is_status_sep :: "char \<Rightarrow> bool" where
  "is_status_sep c \<longleftrightarrow> is_ascii_ws c \<or> c \<in> {CHR '':'', CHR ''='', CHR ''-''}"

definition leading_status :: "string \<Rightarrow> nat option" where
  "leading_status input0 =
     (let input1 = trim_start_matches is_status_sep input0;
          http = 4 \<le> length input1 \<and> is_char_boundary input1 4
                 \<and> to_ascii_lowercase (take 4 input1) = ''http''
                 \<and> (length input1 = 4 \<or> is_ascii_ws (input1 ! 4));
          input = (if http then trim_start_matches is_status_sep (drop 4 input1) else input1);
          digits = takeWhile is_digit input
      in if digits = [] then None else parse_uint u16_max digits)"

text \<open>The search for one stem: after each occurrence the tail decides, or the search goes
  on behind it. The stems are non-empty constants.\<close>

function stem_reports :: "string \<Rightarrow> string \<Rightarrow> nat \<Rightarrow> bool" where
  "stem_reports stem remaining expected =
     (case find_suffix remaining stem of
        None \<Rightarrow> False
      | Some t \<Rightarrow>
          (let tail = drop (length stem) t in
           if stem = [] then leading_status tail = Some expected
           else leading_status tail = Some expected \<or> stem_reports stem tail expected))"
  by pat_completeness auto
termination
proof (relation "measure (\<lambda>(stem, remaining, _). length remaining)")
  fix stem remaining t tail :: string and expected :: nat
  assume "find_suffix remaining stem = Some t" "tail = drop (length stem) t" "stem \<noteq> []"
  then show "((stem, tail, expected), stem, remaining, expected)
      \<in> measure (\<lambda>(stem, remaining, _). length remaining)"
    using find_suffix_length [of remaining stem t] find_suffix_starts [of remaining stem t]
    by (cases stem; cases t) (auto simp: starts_with_iff)
qed simp

declare stem_reports.simps [simp del]

definition wrapper_stems :: "string list" where
  "wrapper_stems =
     [''upstream returned'', ''upstream response status'', ''upstream status'', ''upstream error'']"

definition wrapper_reports_status :: "string \<Rightarrow> nat \<Rightarrow> bool" where
  "wrapper_reports_status text expected =
     list_ex (\<lambda>stem. stem_reports stem text expected) wrapper_stems"

definition rate_limit_phrases :: "string list" where
  "rate_limit_phrases =
     [''daily free limit reached'', ''rate limit'', ''rate-limit'', ''rate limited'',
      ''rate-limited'', ''quota exceeded'', ''too many requests'', ''try again in'',
      ''retry after'', ''retry-after'']"

definition has_rate_limit_semantics :: "string \<Rightarrow> bool" where
  "has_rate_limit_semantics text = list_ex (\<lambda>phrase. str_contains text phrase) rate_limit_phrases"

definition is_proxy_wrapped_429 :: "(string \<Rightarrow> json option) \<Rightarrow> string \<Rightarrow> bool" where
  "is_proxy_wrapped_429 parse_json body \<longleftrightarrow>
     (case parse_json body of Some v \<Rightarrow> structured_upstream_429 v | None \<Rightarrow> False)
     \<or> (let text = to_ascii_lowercase (from_utf8_lossy body)
        in wrapper_reports_status text 429 \<and> has_rate_limit_semantics text)"

subsection \<open>Retry durations\<close>

definition duration_with_cap :: "duration \<Rightarrow> duration option" where
  "duration_with_cap d = (if d \<le> MAX_PARSED_COOLDOWN then Some d else None)"

definition parse_retry_after_header ::
  "(string \<Rightarrow> systime option) \<Rightarrow> systime \<Rightarrow> string \<Rightarrow> duration option" where
  "parse_retry_after_header parse_http_date wall_now input0 =
     (let input = trim input0 in
      case parse_uint u64_max input of
        Some seconds \<Rightarrow> duration_with_cap (from_secs seconds)
      | None \<Rightarrow>
          (case parse_http_date input of
             None \<Rightarrow> None
           | Some at \<Rightarrow>
               duration_with_cap (case duration_since at wall_now of Some d \<Rightarrow> d | None \<Rightarrow> 0)))"

definition is_retry_ws :: "char \<Rightarrow> bool" where
  "is_retry_ws c \<longleftrightarrow> is_ascii_ws c \<or> c = CHR '',''"

definition retry_unit :: "string \<Rightarrow> (nat \<times> nat) option" where
  "retry_unit s =
     (if starts_with s ''ms'' then Some (1, 2)
      else case s of
        [] \<Rightarrow> None
      | c # _ \<Rightarrow>
          (if c = CHR ''d'' then Some (86400000, 1)
           else if c = CHR ''h'' then Some (3600000, 1)
           else if c = CHR ''m'' then Some (60000, 1)
           else if c = CHR ''s'' then Some (1000, 1)
           else None))"

lemma retry_loop_decreases:
  assumes "takeWhile is_digit (dropWhile P s) \<noteq> []"
  shows "length (drop n (dropWhile Q (dropWhile is_digit (dropWhile P s)))) < length s"
proof -
  let ?s1 = "dropWhile P s"
  have "length (dropWhile is_digit ?s1) + length (takeWhile is_digit ?s1) = length ?s1"
    by (metis add.commute length_append takeWhile_dropWhile_id)
  moreover have "length (takeWhile is_digit ?s1) \<noteq> 0"
    using assms by (simp only: length_0_conv not_False_eq_True)
  moreover have "length ?s1 \<le> length s" by (rule length_dropWhile_le)
  moreover have "length (dropWhile Q (dropWhile is_digit ?s1)) \<le> length (dropWhile is_digit ?s1)"
    by (rule length_dropWhile_le)
  ultimately show ?thesis unfolding length_drop by arith
qed

text \<open>
  The component loop of \<open>parse_retry_duration\<close> over the bytes from \<open>index\<close> on.
  \<open>None\<close> is the early return on an overflow; \<open>Some (total_ms, components)\<close> the state when
  the loop ends.
\<close>

function retry_loop :: "string \<Rightarrow> nat \<Rightarrow> nat \<Rightarrow> (nat \<times> nat) option" where
  "retry_loop s total_ms components =
     (let s1 = dropWhile is_retry_ws s;
          digits = takeWhile is_digit s1;
          s2 = dropWhile is_ascii_ws (dropWhile is_digit s1)
      in if digits = [] then Some (total_ms, components)
         else case parse_uint u128_max digits of
           None \<Rightarrow> None
         | Some number \<Rightarrow>
             (case retry_unit s2 of
                None \<Rightarrow> Some (total_ms, components)
              | Some (unit_ms, unit_len) \<Rightarrow>
                  (case Option.bind (checked_mul128 number unit_ms) (checked_add128 total_ms) of
                     None \<Rightarrow> None
                   | Some total' \<Rightarrow> retry_loop (drop unit_len s2) total' (Suc components))))"
  by pat_completeness auto

termination retry_loop
  by (relation "measure (\<lambda>(s, _, _). length s)") (auto simp del: length_drop intro: retry_loop_decreases)

declare retry_loop.simps [simp del]

definition parse_retry_duration :: "string \<Rightarrow> duration option" where
  "parse_retry_duration input =
     (let lower = to_ascii_lowercase input;
          behind = (\<lambda>marker. map_option (drop (length marker)) (find_suffix lower marker));
          candidate0 = (case find_map behind [''try again in'', ''retry after'', ''retry in''] of
                          Some tail \<Rightarrow> tail | None \<Rightarrow> lower);
          candidate = trim_start candidate0
      in if starts_with candidate ''-'' then None
         else case retry_loop candidate 0 0 of
           None \<Rightarrow> None
         | Some (total_ms, components) \<Rightarrow>
             (if components = 0 then None
              else if u64_max < total_ms then None
              else duration_with_cap (from_millis total_ms)))"

definition retry_field :: "string \<Rightarrow> json \<Rightarrow> duration option" where
  "retry_field name v =
     (let lower = normalize_name name;
          milliseconds = lower \<in> {''retryafterms'', ''retryinms''}
      in if lower \<in> {''retryafter'', ''retryafterseconds'', ''retryin'', ''retryinseconds'',
                    ''retryafterms'', ''retryinms'', ''cooldown'', ''cooldownseconds''}
         then (case v of
                 JNum n \<Rightarrow> Option.bind (as_u64 v)
                   (\<lambda>amount. duration_with_cap
                      (if milliseconds then from_millis amount else from_secs amount))
               | JStr text \<Rightarrow> parse_retry_duration text
               | _ \<Rightarrow> None)
         else None)"

fun structured_retry_duration :: "json \<Rightarrow> duration option"
and structured_retry_members :: "jmap \<Rightarrow> duration option"
and structured_retry_items :: "json list \<Rightarrow> duration option" where
  "structured_retry_duration (JObj kvs) =
     (case find_map (\<lambda>(name, v). retry_field name v) kvs of
        Some d \<Rightarrow> Some d
      | None \<Rightarrow> structured_retry_members kvs)"
| "structured_retry_duration (JArr vs) = structured_retry_items vs"
| "structured_retry_duration _ = None"
| "structured_retry_members [] = None"
| "structured_retry_members ((_, v) # kvs) =
     (case structured_retry_duration v of Some d \<Rightarrow> Some d | None \<Rightarrow> structured_retry_members kvs)"
| "structured_retry_items [] = None"
| "structured_retry_items (v # vs) =
     (case structured_retry_duration v of Some d \<Rightarrow> Some d | None \<Rightarrow> structured_retry_items vs)"

subsection \<open>Message and model of the error\<close>

fun extract_error_message :: "json \<Rightarrow> string option"
and extract_error_member :: "jmap \<Rightarrow> string option" where
  "extract_error_message (JStr text) = Some text"
| "extract_error_message (JObj kvs) =
     (case find_map (\<lambda>key. obj_str kvs key) [''message'', ''detail'', ''error_description''] of
        Some text \<Rightarrow> Some text
      | None \<Rightarrow> extract_error_member kvs)"
| "extract_error_message _ = None"
| "extract_error_member [] = None"
| "extract_error_member ((k, v) # kvs) =
     (if k = ''error'' then extract_error_message v else extract_error_member kvs)"

fun extract_model :: "json \<Rightarrow> string option"
and extract_model_members :: "jmap \<Rightarrow> string option"
and extract_model_items :: "json list \<Rightarrow> string option" where
  "extract_model (JObj kvs) =
     (case obj_str kvs ''model'' of Some m \<Rightarrow> Some m | None \<Rightarrow> extract_model_members kvs)"
| "extract_model (JArr vs) = extract_model_items vs"
| "extract_model _ = None"
| "extract_model_members [] = None"
| "extract_model_members ((_, v) # kvs) =
     (case extract_model v of Some m \<Rightarrow> Some m | None \<Rightarrow> extract_model_members kvs)"
| "extract_model_items [] = None"
| "extract_model_items (v # vs) =
     (case extract_model v of Some m \<Rightarrow> Some m | None \<Rightarrow> extract_model_items vs)"

definition model_from_text :: "string \<Rightarrow> string option" where
  "model_from_text text =
     (case find_suffix (to_ascii_lowercase text) '' on model '' of
        None \<Rightarrow> None
      | Some t \<Rightarrow>
          (let position = length text - length t + length '' on model '';
               tail = trim_start (drop position text);
               model = trim (trim_end_matches
                 (\<lambda>c. c \<in> {CHR ''.'', CHR '','', CHR '';''}) (until_ws tail))
           in if model = [] then None else Some model))"

definition retry_hint ::
  "(string \<Rightarrow> json option) \<Rightarrow> (string \<Rightarrow> systime option) \<Rightarrow> systime \<Rightarrow> string option \<Rightarrow> string
   \<Rightarrow> duration \<Rightarrow> retry_hint" where
  "retry_hint parse_json parse_http_date wall_now retry_after body fallback =
     (let v = parse_json body;
          text = from_utf8_lossy body;
          message = (case Option.bind v extract_error_message of
                       Some m \<Rightarrow> Some m
                     | None \<Rightarrow> if trim text = [] then None else Some (trim text));
          model = (case Option.bind v extract_model of
                     Some m \<Rightarrow> Some m
                   | None \<Rightarrow> Option.bind message model_from_text);
          hint = (\<lambda>d s. \<lparr>rh_duration = d, rh_source = s, rh_message = message, rh_model = model\<rparr>)
      in case Option.bind retry_after (parse_retry_after_header parse_http_date wall_now) of
           Some d \<Rightarrow> hint d RetryAfter
         | None \<Rightarrow>
             (case Option.bind v structured_retry_duration of
                Some d \<Rightarrow> hint d StructuredJson
              | None \<Rightarrow>
                  (case Option.bind message parse_retry_duration of
                     Some d \<Rightarrow> hint d HumanText
                   | None \<Rightarrow> hint (min fallback MAX_PARSED_COOLDOWN) Fallback)))"

subsection \<open>Classification\<close>

definition is_success :: "nat \<Rightarrow> bool" where "is_success status \<longleftrightarrow> 200 \<le> status \<and> status < 300"
definition is_server_error :: "nat \<Rightarrow> bool" where
  "is_server_error status \<longleftrightarrow> 500 \<le> status \<and> status < 600"

definition classify_upstream_response ::
  "(string \<Rightarrow> json option) \<Rightarrow> (string \<Rightarrow> systime option) \<Rightarrow> systime \<Rightarrow> nat \<Rightarrow> string option
   \<Rightarrow> string \<Rightarrow> duration \<Rightarrow> classified" where
  "classify_upstream_response parse_json parse_http_date wall_now outer retry_after body fallback =
     (let disp = (if is_success outer then Success
                  else if outer = 429 then DirectRateLimited429
                  else if is_server_error outer \<and> is_proxy_wrapped_429 parse_json body
                  then ProxyWrappedRateLimited429
                  else NonFailoverHttpError)
      in \<lparr>outer_status = outer,
          effective_status = (if is_rate_limited disp then 429 else outer),
          disposition = disp,
          retry_hint_of =
            (if is_rate_limited disp
             then Some (retry_hint parse_json parse_http_date wall_now retry_after body fallback)
             else None)\<rparr>)"

subsection \<open>Every hint is bounded\<close>

lemma duration_with_cap_le: "duration_with_cap d = Some r \<Longrightarrow> r \<le> MAX_PARSED_COOLDOWN"
  by (auto simp: duration_with_cap_def split: if_splits)

lemma parse_retry_after_header_le:
  "parse_retry_after_header pd now s = Some d \<Longrightarrow> d \<le> MAX_PARSED_COOLDOWN"
  by (auto simp: parse_retry_after_header_def Let_def split: option.splits
      dest: duration_with_cap_le)

lemma parse_retry_duration_le: "parse_retry_duration s = Some d \<Longrightarrow> d \<le> MAX_PARSED_COOLDOWN"
  by (auto simp: parse_retry_duration_def Let_def split: option.splits if_splits
      dest: duration_with_cap_le)

lemma retry_field_le: "retry_field name v = Some d \<Longrightarrow> d \<le> MAX_PARSED_COOLDOWN"
  unfolding retry_field_def Let_def
  by (cases v) (auto split: if_splits simp: bind_eq_Some_conv
      dest: duration_with_cap_le parse_retry_duration_le)

lemma retry_fields_le:
  "find_map (\<lambda>(name, v). retry_field name v) kvs = Some d \<Longrightarrow> d \<le> MAX_PARSED_COOLDOWN"
  by (induction kvs) (auto split: option.splits dest: retry_field_le)

lemma structured_retry_le:
  "structured_retry_duration v = Some d \<Longrightarrow> d \<le> MAX_PARSED_COOLDOWN"
  "structured_retry_members kvs = Some d \<Longrightarrow> d \<le> MAX_PARSED_COOLDOWN"
  "structured_retry_items vs = Some d \<Longrightarrow> d \<le> MAX_PARSED_COOLDOWN"
proof (induction v and kvs and vs rule: structured_retry_duration_structured_retry_members_structured_retry_items.induct)
  case (1 kvs)
  then show ?case by (cases "find_map (\<lambda>(name, v). retry_field name v) kvs")
      (simp_all add: retry_fields_le)
next
  case (5 k v kvs)
  then show ?case by (cases "structured_retry_duration v") simp_all
next
  case (7 v vs)
  then show ?case by (cases "structured_retry_duration v") simp_all
qed simp_all

text \<open>Whatever an upstream sends (header, JSON body, text), the cooldown of a retry hint
  never exceeds 366 days.\<close>

theorem retry_hint_bounded:
  "rh_duration (retry_hint parse_json parse_http_date wall_now retry_after body fallback)
     \<le> MAX_PARSED_COOLDOWN"
proof -
  have header: "Option.bind retry_after (parse_retry_after_header parse_http_date wall_now) = Some d
      \<Longrightarrow> d \<le> MAX_PARSED_COOLDOWN" for d
    by (cases retry_after) (auto dest: parse_retry_after_header_le)
  have structured: "Option.bind v structured_retry_duration = Some d \<Longrightarrow> d \<le> MAX_PARSED_COOLDOWN"
    for v d by (cases v) (auto dest: structured_retry_le)
  have human: "Option.bind m parse_retry_duration = Some d \<Longrightarrow> d \<le> MAX_PARSED_COOLDOWN" for m d
    by (cases m) (auto dest: parse_retry_duration_le)
  show ?thesis
    unfolding retry_hint_def Let_def by (simp split: option.split add: header structured human parse_retry_duration_le)
qed

subsection \<open>Durations are read back as they were written\<close>

datatype retry_time_unit = Days | Hours | Minutes | Seconds | Millis

fun unit_text :: "retry_time_unit \<Rightarrow> string" where
  "unit_text Days = ''d''"
| "unit_text Hours = ''h''"
| "unit_text Minutes = ''m''"
| "unit_text Seconds = ''s''"
| "unit_text Millis = ''ms''"

fun unit_millis :: "retry_time_unit \<Rightarrow> nat" where
  "unit_millis Days = 86400000"
| "unit_millis Hours = 3600000"
| "unit_millis Minutes = 60000"
| "unit_millis Seconds = 1000"
| "unit_millis Millis = 1"

primrec render_components :: "(nat \<times> retry_time_unit) list \<Rightarrow> string" where
  "render_components [] = []"
| "render_components (p # ps) =
     CHR '' '' # show_nat (fst p) @ unit_text (snd p) @ render_components ps"

primrec components_millis :: "(nat \<times> retry_time_unit) list \<Rightarrow> nat" where
  "components_millis [] = 0"
| "components_millis (p # ps) = fst p * unit_millis (snd p) + components_millis ps"

lemma digit_not_retry_ws: "is_digit c \<Longrightarrow> \<not> is_retry_ws c"
  by (auto simp: is_digit_def is_retry_ws_def is_ascii_ws_def byte_def)

lemma digit_not_ascii_ws: "is_digit c \<Longrightarrow> \<not> is_ascii_ws c"
  by (auto simp: is_digit_def is_ascii_ws_def)

lemma unit_text_head:
  "\<exists>c r. unit_text u = c # r \<and> \<not> is_digit c \<and> \<not> is_ascii_ws c"
  by (cases u) (auto simp: is_digit_def is_ascii_ws_def byte_def)

lemma render_head: "render_components ps = [] \<or> (\<exists>r. render_components ps = CHR '' '' # r)"
  by (cases ps) auto

lemma retry_unit_render:
  "retry_unit (unit_text u @ render_components ps) = Some (unit_millis u, length (unit_text u))"
  using render_head [of ps] by (cases u) (auto simp: retry_unit_def)

lemma dropWhile_show_nat:
  "\<not> P (hd (show_nat n)) \<Longrightarrow> dropWhile P (show_nat n @ t) = show_nat n @ t"
  using show_nat_digits [of n] by (cases "show_nat n") auto

lemma hd_show_nat: "is_digit (hd (show_nat n))"
  using show_nat_digits [of n] by (cases "show_nat n") auto

lemma takeWhile_show_nat:
  assumes "t = c # r" and "\<not> is_digit c"
  shows "takeWhile is_digit (show_nat n @ t) = show_nat n"
    and "dropWhile is_digit (show_nat n @ t) = t"
  using assms show_nat_digits [of n]
  by (simp_all add: takeWhile_append2 dropWhile_append2 list_all_iff)

lemma retry_loop_space: "retry_loop (CHR '' '' # s) t k = retry_loop s t k"
  by (subst (1 2) retry_loop.simps) (simp add: is_retry_ws_def is_ascii_ws_def byte_def)

lemma unit_millis_pos: "1 \<le> unit_millis u"
  by (cases u) simp_all

lemma retry_loop_component:
  assumes "t + n * unit_millis u \<le> u128_max"
  shows "retry_loop (show_nat n @ unit_text u @ render_components ps) t k =
         retry_loop (render_components ps) (t + n * unit_millis u) (Suc k)"
proof -
  obtain c r where u: "unit_text u = c # r" "\<not> is_digit c" "\<not> is_ascii_ws c"
    using unit_text_head by blast
  have "n \<le> n * unit_millis u" using unit_millis_pos [of u] by simp
  with assms have n: "n \<le> u128_max" by linarith
  let ?rest = "unit_text u @ render_components ps"
  have rest: "?rest = c # r @ render_components ps" using u(1) by simp
  have tail: "dropWhile is_ascii_ws ?rest = ?rest" using rest u(3) by simp
  have s1: "dropWhile is_retry_ws (show_nat n @ ?rest) = show_nat n @ ?rest"
    by (rule dropWhile_show_nat) (simp add: digit_not_retry_ws hd_show_nat)
  note digits = takeWhile_show_nat [OF rest u(2), of n]
  have fit: "Option.bind (checked_mul128 n (unit_millis u)) (checked_add128 t)
      = Some (t + n * unit_millis u)"
    using assms by (simp add: checked_mul128_def checked_add128_def)
  show ?thesis
    using n show_nat_digits [of n]
    by (subst retry_loop.simps)
       (simp add: s1 digits tail fit Let_def parse_uint_show_nat retry_unit_render)
qed

lemma retry_loop_render:
  "t + components_millis ps \<le> u128_max \<Longrightarrow>
   retry_loop (render_components ps) t k = Some (t + components_millis ps, k + length ps)"
proof (induction ps arbitrary: t k)
  case Nil
  then show ?case by (subst retry_loop.simps) simp
next
  case (Cons p ps)
  then show ?case by (simp add: retry_loop_space retry_loop_component add.assoc)
qed

lemma lower_digits: "list_all is_digit s \<Longrightarrow> to_ascii_lowercase s = s"
  by (induction s) (auto simp: to_ascii_lowercase_def ascii_lower_def is_ascii_upper_def is_digit_def)

lemma lower_render: "to_ascii_lowercase (render_components ps) = render_components ps"
proof (induction ps)
  case (Cons p ps)
  have "to_ascii_lowercase (unit_text (snd p)) = unit_text (snd p)"
    by (cases "snd p") (simp_all add: rust_simps)
  moreover have "to_ascii_lowercase (show_nat (fst p)) = show_nat (fst p)"
    using show_nat_digits lower_digits by blast
  ultimately show ?case
    using Cons by (simp add: to_ascii_lowercase_def ascii_lower_def is_ascii_upper_def byte_def)
qed (simp add: to_ascii_lowercase_def)

lemma ws_len_digit: "is_digit c \<Longrightarrow> ws_len (c # s) = 0"
  by (cases "c # s" rule: ws_len.cases)
     (auto simp: is_digit_def is_ws1_def is_ws2_def is_ws3_def)

lemma ws_len_space: "ws_len (CHR '' '' # s) = 1"
  by (cases "CHR '' '' # s" rule: ws_len.cases) (auto simp: is_ws1_def byte_def)

lemma trim_start_digit: "is_digit c \<Longrightarrow> trim_start (c # s) = c # s"
  by (simp add: trim_start.simps [of "c # s"] ws_len_digit)

lemma trim_start_space: "trim_start (CHR '' '' # s) = trim_start s"
  by (simp add: trim_start.simps [of "CHR '' '' # s"] ws_len_space)

text \<open>A wait written as \<open>Try again in 1d 2h 3m 4s 5ms\<close> (any non-empty list of
  components whose sum is within the cap) is parsed to exactly the sum of its components.\<close>

theorem parse_retry_duration_roundtrip:
  assumes "ps \<noteq> []" and "from_millis (components_millis ps) \<le> MAX_PARSED_COOLDOWN"
  shows "parse_retry_duration (''Try again in'' @ render_components ps)
           = Some (from_millis (components_millis ps))"
proof -
  let ?text = "''try again in'' @ render_components ps"
  have lower: "to_ascii_lowercase (''Try again in'' @ render_components ps) = ?text"
    using lower_render [of ps] by (simp add: rust_simps)
  obtain p qs where ps: "ps = p # qs" using assms(1) by (cases ps) auto
  obtain c r where digits: "show_nat (fst p) = c # r" "is_digit c"
    using show_nat_digits [of "fst p"] by (cases "show_nat (fst p)") auto
  have find: "find_suffix ?text ''try again in'' = Some ?text" by simp
  have start: "trim_start (render_components ps) = tl (render_components ps)"
    using ps digits by (simp add: trim_start_space trim_start_digit)
  have small: "components_millis ps \<le> u64_max" "components_millis ps \<le> u128_max"
    using assms(2) by (simp_all add: MAX_PARSED_COOLDOWN_def time_defs u64_max_def u128_max_def)
  have "retry_loop (tl (render_components ps)) 0 0 = retry_loop (render_components ps) 0 0"
    using ps by (simp add: retry_loop_space)
  also have "\<dots> = Some (components_millis ps, length ps)"
    using retry_loop_render [of 0 ps 0] small by simp
  finally have loop: "retry_loop (tl (render_components ps)) 0 0
      = Some (components_millis ps, length ps)" .
  have "\<not> starts_with (tl (render_components ps)) ''-''"
    using ps digits by (auto simp: is_digit_def byte_def)
  then show ?thesis
    using assms loop small start lower find
    by (simp add: parse_retry_duration_def Let_def duration_with_cap_def)
qed

lemma parse_retry_duration_roundtrip_witness:
  "parse_retry_duration (''Try again in'' @ render_components [(1, Hours), (5, Seconds)])
     = Some (from_millis 3605000)"
  using parse_retry_duration_roundtrip [of "[(1, Hours), (5, Seconds)]"]
  by (simp add: MAX_PARSED_COOLDOWN_def time_defs)

subsection \<open>What counts as an effective 429\<close>

lemma stem_reports_occurrence:
  "stem_reports stem s e \<Longrightarrow> \<exists>u tail. s = u @ stem @ tail \<and> leading_status tail = Some e"
proof (induction stem s e rule: stem_reports.induct)
  case (1 stem s e)
  then obtain t where t: "find_suffix s stem = Some t"
    by (auto simp: stem_reports.simps [of stem s] split: option.splits)
  obtain u where u: "s = u @ t" using find_suffix_split [OF t] by blast
  have stem: "t = stem @ drop (length stem) t"
    using find_suffix_starts [OF t] by (metis append_take_drop_id starts_with_iff)
  show ?case
  proof (cases "leading_status (drop (length stem) t) = Some e")
    case True
    with u stem show ?thesis by metis
  next
    case False
    then have ne: "stem \<noteq> []" and rec: "stem_reports stem (drop (length stem) t) e"
      using "1.prems" t by (auto simp: stem_reports.simps [of stem s] split: if_splits)
    obtain v tail where "drop (length stem) t = v @ stem @ tail" "leading_status tail = Some e"
      using "1.IH" [OF t refl ne] rec by blast
    with u stem show ?thesis by (metis append.assoc)
  qed
qed

text \<open>The normalised text of a body that a proxy wrapped around an upstream 429: a known
  wrapper phrase directly followed by the number 429, and words about rate limiting.\<close>

definition wrapper_evidence :: "string \<Rightarrow> bool" where
  "wrapper_evidence text \<longleftrightarrow>
     (\<exists>stem u tail. stem \<in> set wrapper_stems \<and> text = u @ stem @ tail
        \<and> leading_status tail = Some 429)
     \<and> (\<exists>phrase u v. phrase \<in> set rate_limit_phrases \<and> text = u @ phrase @ v)"

lemma wrapped_429_evidence:
  assumes "is_proxy_wrapped_429 parse_json body"
  shows "(\<exists>v. parse_json body = Some v \<and> structured_upstream_429 v)
    \<or> wrapper_evidence (to_ascii_lowercase (from_utf8_lossy body))"
proof -
  have "wrapper_evidence w" if "wrapper_reports_status w 429" "has_rate_limit_semantics w"
    for w
  proof -
    from that(1) obtain stem where "stem \<in> set wrapper_stems" "stem_reports stem w 429"
      by (auto simp: wrapper_reports_status_def list_ex_iff)
    moreover from that(2) obtain phrase where "phrase \<in> set rate_limit_phrases"
      "str_contains w phrase"
      by (auto simp: has_rate_limit_semantics_def list_ex_iff)
    ultimately show ?thesis
      unfolding wrapper_evidence_def using stem_reports_occurrence str_contains_iff by blast
  qed
  with assms show ?thesis
    by (auto simp: is_proxy_wrapped_429_def Let_def split: option.splits)
qed

lemmas classify_simps = classify_upstream_response_def Let_def



end
