(* ===== verification/Runtime_State.thy ===== *)
theory Runtime_State
  imports Rate_Limit
begin

text \<open>
  \<open>src/state.rs\<close>: the persisted key runtime state, its validation when it is loaded and the
  atomic store. \<open>decode\<close> and \<open>encode\<close> stand for the serde derive; the file system is a map
  from paths to contents on which the system calls of \<open>store\<close> act one after another: the file is
  truncated, written piece by piece, and renamed. The process can end, or a call fail, between any two
  of them. What a power failure loses of calls that returned is not modelled; the code syncs nothing.
\<close>

definition STATE_SCHEMA_VERSION :: nat where "STATE_SCHEMA_VERSION = 1"

record persisted_key_state =
  cooldown_until_unix_ms :: "nat option"
  pk_rate_limit_kind :: "rate_limit_kind option"
  pk_model :: "string option"
  last_429_at_unix_ms :: "nat option"
  last_success_at_unix_ms :: "nat option"

text \<open>A map keyed by name: its entries in byte order of the names.\<close>

type_synonym 'v btree_map = "(string \<times> 'v) list"

record persisted_state =
  ps_version :: nat
  updated_at_unix_ms :: nat
  ps_active_key :: "string option"
  ps_keys :: "persisted_key_state btree_map"

datatype corrupt_reason =
    UnreadableFile
  | InvalidJson
  | UnsupportedVersion nat
  | ZeroTimestamp
  | EmptyKeyName
  | ModelTooLong string

datatype load_outcome = Missing | Loaded persisted_state | Corrupt corrupt_reason

datatype file_read = FileNotFound | FileError | FileBytes string

text \<open>The entry check of \<open>load\<close>: the first bad entry in key order decides.\<close>

fun check_entries :: "persisted_key_state btree_map \<Rightarrow> corrupt_reason option" where
  "check_entries [] = None"
| "check_entries ((name, key) # m) =
     (if trim name = [] then Some EmptyKeyName
      else case pk_model key of
        Some model \<Rightarrow> if 256 < length model then Some (ModelTooLong name) else check_entries m
      | None \<Rightarrow> check_entries m)"

definition load_state :: "(string \<Rightarrow> persisted_state option) \<Rightarrow> file_read \<Rightarrow> load_outcome" where
  "load_state decode file =
     (case file of
        FileNotFound \<Rightarrow> Missing
      | FileError \<Rightarrow> Corrupt UnreadableFile
      | FileBytes bytes \<Rightarrow>
          (case decode bytes of
             None \<Rightarrow> Corrupt InvalidJson
           | Some state \<Rightarrow>
               (if ps_version state \<noteq> STATE_SCHEMA_VERSION
                then Corrupt (UnsupportedVersion (ps_version state))
                else if updated_at_unix_ms state = 0 then Corrupt ZeroTimestamp
                else case check_entries (ps_keys state) of
                  Some reason \<Rightarrow> Corrupt reason
                | None \<Rightarrow> Loaded state)))"

subsection \<open>The atomic store\<close>

text \<open>A path: the directory and the name of the file in it.\<close>

type_synonym path = "string \<times> string"
type_synonym file_system = "path \<Rightarrow> string option"

text \<open>The system calls. \<open>std::fs::write\<close> opens the file with truncation and then calls \<open>write\<close> until
  every byte is taken; the operating system decides how many bytes each call takes.\<close>

datatype fs_step = CreateTruncate path | AppendBytes path string | RenameFile path path

fun fs_apply :: "fs_step \<Rightarrow> file_system \<Rightarrow> file_system" where
  "fs_apply (CreateTruncate p) fs = fs(p := Some [])"
| "fs_apply (AppendBytes p bytes) fs = fs(p := map_option (\<lambda>old. old @ bytes) (fs p))"
| "fs_apply (RenameFile p q) fs = (if fs p = None then fs else (fs(p := None))(q := fs p))"

text \<open>\<open>path.with_extension(''json.tmp'')\<close>: what follows the last dot is replaced, and \<open>..\<close> is no file name.\<close>

definition is_file_name :: "string \<Rightarrow> bool" where
  "is_file_name name \<longleftrightarrow> name \<noteq> [] \<and> name \<noteq> ''.'' \<and> name \<noteq> ''..''"

definition temp_path :: "path \<Rightarrow> path" where
  "temp_path path =
     (fst path, if is_file_name (snd path) then file_stem (snd path) @ ''.json.tmp'' else snd path)"

text \<open>\<open>pieces\<close> is how the operating system takes the bytes. Creating the parent directory changes no file.\<close>

definition write_steps :: "path \<Rightarrow> string list \<Rightarrow> fs_step list" where
  "write_steps p pieces = CreateTruncate p # map (AppendBytes p) pieces"

definition store_steps ::
  "(persisted_state \<Rightarrow> string) \<Rightarrow> (string \<Rightarrow> string list) \<Rightarrow> path \<Rightarrow> persisted_state \<Rightarrow> fs_step list" where
  "store_steps encode pieces path state =
     write_steps (temp_path path) (pieces (encode state)) @ [RenameFile (temp_path path) path]"

text \<open>\<open>fault\<close> is the number of the call that fails, if one does: \<open>store\<close> then returns its error.\<close>

definition store ::
  "(persisted_state \<Rightarrow> string) \<Rightarrow> (string \<Rightarrow> string list) \<Rightarrow> nat option \<Rightarrow> path \<Rightarrow> persisted_state
   \<Rightarrow> file_system \<Rightarrow> bool \<times> file_system" where
  "store encode pieces fault path state fs =
     (let steps = store_steps encode pieces path state in
      case fault of
        Some n \<Rightarrow> (if n < length steps then (False, fold fs_apply (take n steps) fs)
                   else (True, fold fs_apply steps fs))
      | None \<Rightarrow> (True, fold fs_apply steps fs))"

definition read_file :: "file_system \<Rightarrow> path \<Rightarrow> file_read" where
  "read_file fs p = (case fs p of None \<Rightarrow> FileNotFound | Some bytes \<Rightarrow> FileBytes bytes)"

subsection \<open>Laws\<close>

definition state_valid :: "persisted_state \<Rightarrow> bool" where
  "state_valid s \<longleftrightarrow>
     ps_version s = STATE_SCHEMA_VERSION \<and> updated_at_unix_ms s \<noteq> 0
     \<and> list_all (\<lambda>(name, key). trim name \<noteq> []
          \<and> (case pk_model key of Some m \<Rightarrow> length m \<le> 256 | None \<Rightarrow> True)) (ps_keys s)"

lemma check_entries_None:
  "check_entries m = None \<longleftrightarrow>
     list_all (\<lambda>(name, key). trim name \<noteq> []
       \<and> (case pk_model key of Some t \<Rightarrow> length t \<le> 256 | None \<Rightarrow> True)) m"
  by (induction m rule: check_entries.induct) (auto split: option.splits)

lemma load_state_Loaded:
  "load_state decode (FileBytes b) = Loaded s \<longleftrightarrow> decode b = Some s \<and> state_valid s"
  by (auto simp: load_state_def state_valid_def check_entries_None [symmetric]
      split: option.splits if_splits)

text \<open>The temporary file is never the target.\<close>

lemma temp_path_other:
  assumes "is_file_name (snd path)"
  shows "temp_path path \<noteq> path"
proof -
  have "file_stem name @ ''.json.tmp'' \<noteq> name" for name
  proof
    assume eq: "file_stem name @ ''.json.tmp'' = name"
    show False
    proof (cases "last_dot name")
      case None
      with eq show False by (simp add: file_stem_def)
    next
      case (Some i)
      then have dot: "rposition (\<lambda>c. c = CHR ''.'') name = Some i"
        by (auto simp: last_dot_def split: option.splits nat.splits)
      note dot = rposition_SomeD [OF this]
      from eq Some have eq: "take i name @ ''.json.tmp'' = name" by (simp add: file_stem_def)
      have "length name = i + 9" using arg_cong [OF eq, of length] dot by simp
      moreover have "name ! (i + 5) = CHR ''.''"
        using dot by (subst eq [symmetric]) (simp add: nth_append)
      ultimately show False using dot by simp
    qed
  qed
  then show ?thesis using assms by (cases path) (auto simp: temp_path_def)
qed

text \<open>While the temporary file is written nothing else changes.\<close>

lemma write_steps_other:
  "q \<noteq> p \<Longrightarrow> set steps \<subseteq> set (write_steps p pieces) \<Longrightarrow> fold fs_apply steps fs q = fs q"
  by (induction steps arbitrary: fs) (auto simp: write_steps_def)

lemma append_steps: "fs p = Some old \<Longrightarrow> fold fs_apply (map (AppendBytes p) pieces) fs p = Some (old @ concat pieces)"
  by (induction pieces arbitrary: fs old) simp_all

lemma write_steps_result: "fold fs_apply (write_steps p pieces) fs p = Some (concat pieces)"
  by (simp add: write_steps_def append_steps)

text \<open>The file system after the first \<open>n\<close> calls, at every path but that of the temporary file.\<close>

lemma store_prefix:
  assumes "is_file_name (snd path)" and "concat (pieces (encode state)) = encode state" and "q \<noteq> temp_path path"
  shows "fold fs_apply (take n (store_steps encode pieces path state)) fs q =
    (if q = path \<and> length (store_steps encode pieces path state) \<le> n then Some (encode state) else fs q)"
proof (cases "length (store_steps encode pieces path state) \<le> n")
  case False
  then have "take n (store_steps encode pieces path state) = take n (write_steps (temp_path path) (pieces (encode state)))"
    by (simp add: store_steps_def)
  moreover have "set (take n (write_steps (temp_path path) (pieces (encode state))))
      \<subseteq> set (write_steps (temp_path path) (pieces (encode state)))" by (rule set_take_subset)
  ultimately show ?thesis using False write_steps_other [OF assms(3)] by simp
next
  case True
  let ?written = "fold fs_apply (write_steps (temp_path path) (pieces (encode state))) fs"
  have "?written (temp_path path) = Some (encode state)" using write_steps_result assms(2) by simp
  moreover have "?written q = fs q" using write_steps_other [OF assms(3) subset_refl] .
  moreover have "fold fs_apply (take n (store_steps encode pieces path state)) fs
      = fs_apply (RenameFile (temp_path path) path) ?written"
    using True by (simp add: store_steps_def)
  ultimately show ?thesis using True assms(3) by simp
qed

text \<open>C36. Persisting is atomic for the target, although the bytes are written in pieces of any size.
  Wherever the process ends between two system calls, the target holds its old contents, untouched, or, once the last
  call returned, the complete new ones; no file but the target and its temporary sibling changes. A store that fails
  leaves the target as it was, and one that succeeds leaves no temporary file and a target from which
  loading gives back the valid state, if the decoder reads its encoding back.\<close>

theorem store_atomic_roundtrip:
  assumes "is_file_name (snd path)" and "concat (pieces (encode state)) = encode state"
    and "decode (encode state) = Some state" and "state_valid state"
    and "store encode pieces fault path state fs = (ok, fs')"
  shows "(let steps = store_steps encode pieces path state in
         \<forall>n q. q \<noteq> temp_path path \<longrightarrow> fold fs_apply (take n steps) fs q =
           (if q = path \<and> length steps \<le> n then Some (encode state) else fs q))
       \<and> (\<not> ok \<longrightarrow> fs' path = fs path)
       \<and> (ok \<longrightarrow> load_state decode (read_file fs' path) = Loaded state \<and> fs' (temp_path path) = None)"
proof -
  let ?steps = "store_steps encode pieces path state"
  note prefix = store_prefix [where pieces = pieces and encode = encode and state = state, OF assms(1,2)]
  have other: "path \<noteq> temp_path path" using temp_path_other [OF assms(1)] by simp
  have result: "\<not> ok \<and> (\<exists>n < length ?steps. fs' = fold fs_apply (take n ?steps) fs) \<or> ok \<and> fs' = fold fs_apply ?steps fs"
    using assms(5) by (auto simp: store_def Let_def split: option.splits if_splits)
  have "fs' path = fs path" if "\<not> ok"
    using that result prefix [OF other] by auto
  moreover have "fs' path = Some (encode state) \<and> fs' (temp_path path) = None" if ok
  proof -
    have all: "fs' = fold fs_apply ?steps fs" using that result by simp
    then have "fs' path = Some (encode state)" using prefix [OF other, of "length ?steps"] by simp
    moreover have "fs' (temp_path path) = None"
      using other write_steps_result [of "temp_path path" "pieces (encode state)" fs] by (simp add: all store_steps_def)
    ultimately show ?thesis by simp
  qed
  ultimately show ?thesis
    using prefix assms(3,4) by (simp add: Let_def read_file_def load_state_Loaded)
qed

definition example_state :: persisted_state where
  "example_state = \<lparr>ps_version = 1, updated_at_unix_ms = 1788842155000,
     ps_active_key = Some ''brewlogic'',
     ps_keys = [(''google'',
       \<lparr>cooldown_until_unix_ms = Some 1788873167000, pk_rate_limit_kind = Some DailyQuota,
        pk_model = Some ''z-ai/glm-5.3-flash'', last_429_at_unix_ms = Some 1788842147935,
        last_success_at_unix_ms = None\<rparr>)]\<rparr>"

theorem store_atomic_roundtrip_witness:
  "load_state (\<lambda>bytes. if bytes = ''{state}'' then Some example_state else None)
     (read_file (snd (store (\<lambda>_. ''{state}'') (map (\<lambda>c. [c])) None ([], ''s.json'') example_state Map.empty))
        ([], ''s.json''))
   = Loaded example_state
   \<and> fold fs_apply (take 4 (store_steps (\<lambda>_. ''{state}'') (map (\<lambda>c. [c])) ([], ''s.json'') example_state))
       Map.empty ([], ''s.json'') = None"
proof -
  have valid: "state_valid example_state"
    by (simp add: state_valid_def example_state_def STATE_SCHEMA_VERSION_def rust_simps)
  obtain ok fs' where run: "store (\<lambda>_. ''{state}'') (map (\<lambda>c. [c])) None ([], ''s.json'') example_state Map.empty = (ok, fs')"
    by force
  then have ok by (simp add: store_def Let_def)
  have name: "is_file_name (snd ([], ''s.json''))" by (simp add: is_file_name_def)
  have other: "([], ''s.json'') \<noteq> temp_path ([], ''s.json'')" using temp_path_other [OF name] by simp
  note spec = store_atomic_roundtrip [where decode = "\<lambda>bytes. if bytes = ''{state}'' then Some example_state else None",
      OF name _ _ valid run]
  have "length (store_steps (\<lambda>_. ''{state}'') (map (\<lambda>c. [c])) ([], ''s.json'') example_state) = 9"
    by (simp add: store_steps_def write_steps_def)
  then show ?thesis using spec \<open>ok\<close> other by (simp add: run Let_def)
qed

end
