(* ===== verification/Machine_Interfaces.thy ===== *)
theory Machine_Interfaces
  imports Main
begin

text \<open>
  Interfaces shared by the stateful components. \<open>machine\<close>: operations that keep an
  invariant, as long as the events are allowed ones. \<open>framed_machine\<close>: they also leave an observation alone. \<open>bounded_attempts\<close>: a
  loop that spends one fresh resource per round, so it ends within the number of resources.
  \<open>sequenced_emitter\<close>: operations that append events, each numbered one above the last.
\<close>

locale machine =
  fixes step :: "'e \<Rightarrow> 's \<Rightarrow> 's"
    and allowed :: "'e \<Rightarrow> bool"
    and inv :: "'s \<Rightarrow> bool"
  assumes step_inv: "allowed e \<Longrightarrow> inv s \<Longrightarrow> inv (step e s)"
begin

lemma run_inv: "list_all allowed es \<Longrightarrow> inv s \<Longrightarrow> inv (fold step es s)"
  by (induction es arbitrary: s) (simp_all add: step_inv)

end

locale framed_machine = machine step allowed inv
  for step :: "'e \<Rightarrow> 's \<Rightarrow> 's" and allowed :: "'e \<Rightarrow> bool" and inv :: "'s \<Rightarrow> bool" +
  fixes obs :: "'s \<Rightarrow> 'o"
  assumes step_frame: "allowed e \<Longrightarrow> inv s \<Longrightarrow> obs (step e s) = obs s"
begin

lemma run_frame: "list_all allowed es \<Longrightarrow> inv s \<Longrightarrow> obs (fold step es s) = obs s"
  by (induction es arbitrary: s) (simp_all add: step_frame step_inv)

end

text \<open>\<open>next s\<close> is the state of the next round, or nothing when the loop returns.\<close>

locale bounded_attempts =
  fixes next_round :: "'s \<Rightarrow> 's option"
    and used :: "'s \<Rightarrow> nat set"
    and limit :: "'s \<Rightarrow> nat"
    and ok :: "'s \<Rightarrow> bool"
  assumes round_ok: "ok s \<Longrightarrow> next_round s = Some t \<Longrightarrow> ok t"
    and round_limit: "ok s \<Longrightarrow> next_round s = Some t \<Longrightarrow> limit t = limit s"
    and round_spends: "ok s \<Longrightarrow> next_round s = Some t \<Longrightarrow>
          \<exists>i < limit s. i \<notin> used s \<and> used t = insert i (used s)"
    and used_bounded: "ok s \<Longrightarrow> used s \<subseteq> {..<limit s}"
begin

fun rounds :: "nat \<Rightarrow> 's \<Rightarrow> 's option" where
  "rounds 0 s = Some s"
| "rounds (Suc n) s = (case next_round s of None \<Rightarrow> None | Some t \<Rightarrow> rounds n t)"

lemma used_card: "ok s \<Longrightarrow> card (used s) \<le> limit s"
  using used_bounded [of s] by (metis card_lessThan card_mono finite_lessThan)

lemma round_card:
  assumes "ok s" and "next_round s = Some t"
  shows "card (used t) = Suc (card (used s))"
proof -
  obtain i where "i \<notin> used s" "used t = insert i (used s)"
    using round_spends [OF assms] by blast
  moreover have "finite (used s)"
    using used_bounded [OF assms(1)] by (rule finite_subset) simp
  ultimately show ?thesis by simp
qed

lemma rounds_card: "ok s \<Longrightarrow> rounds n s = Some t \<Longrightarrow>
    ok t \<and> limit t = limit s \<and> card (used t) = card (used s) + n"
proof (induction n arbitrary: s)
  case (Suc n)
  then obtain u where u: "next_round s = Some u" "rounds n u = Some t"
    by (auto split: option.splits)
  have "ok u" using Suc.prems(1) u(1) by (rule round_ok)
  from Suc.IH [OF this u(2)] show ?case
    using round_limit [OF Suc.prems(1) u(1)] round_card [OF Suc.prems(1) u(1)] by simp
qed simp

lemma rounds_bounded: "ok s \<Longrightarrow> rounds n s = Some t \<Longrightarrow> card (used s) + n \<le> limit s"
  using rounds_card used_card by fastforce

lemma rounds_end: "ok s \<Longrightarrow> rounds (Suc (limit s)) s = None"
  using rounds_bounded [of s "Suc (limit s)"] by (cases "rounds (Suc (limit s)) s") auto

end

text \<open>\<open>emit op s\<close> gives the new state and the sequence numbers of the events \<open>op\<close> sent.\<close>

locale sequenced_emitter =
  fixes emit :: "'e \<Rightarrow> 's \<Rightarrow> 's \<times> nat list"
    and counter :: "'s \<Rightarrow> nat"
  assumes emit_numbers: "emit e s = (t, ns) \<Longrightarrow>
     ns = [Suc (counter s)..<Suc (counter t)] \<and> counter s \<le> counter t"
begin

fun emit_all :: "'e list \<Rightarrow> 's \<Rightarrow> 's \<times> nat list" where
  "emit_all [] s = (s, [])"
| "emit_all (e # es) s =
     (case emit e s of (t, ns) \<Rightarrow> case emit_all es t of (u, ms) \<Rightarrow> (u, ns @ ms))"

lemma emit_all_numbers: "emit_all es s = (t, ns) \<Longrightarrow>
   ns = [Suc (counter s)..<Suc (counter t)] \<and> counter s \<le> counter t"
proof (induction es arbitrary: s t ns)
  case (Cons e es)
  obtain u ks where u: "emit e s = (u, ks)" by (cases "emit e s")
  obtain v ms where v: "emit_all es u = (v, ms)" by (cases "emit_all es u")
  from Cons.prems u v have "v = t" "ns = ks @ ms" by simp_all
  moreover have "ks = [Suc (counter s)..<Suc (counter u)]" "counter s \<le> counter u"
    using emit_numbers [OF u] by simp_all
  moreover have "ms = [Suc (counter u)..<Suc (counter v)]" "counter u \<le> counter v"
    using Cons.IH [OF v] by simp_all
  moreover have "[Suc (counter s)..<Suc (counter u)] @ [Suc (counter u)..<Suc (counter v)]
      = [Suc (counter s)..<Suc (counter v)]"
    using calculation(4,6) upt_add_eq_append [of "Suc (counter s)" "Suc (counter u)"
        "counter v - counter u"] by simp
  ultimately show ?case by simp
qed simp

lemma emit_all_sorted: "emit_all es s = (t, ns) \<Longrightarrow> sorted_wrt (<) ns"
  using emit_all_numbers [of es s t ns] by (metis sorted_wrt_upt)

end

end
