(* ===== verification/Key_Pool.thy ===== *)
theory Key_Pool
  imports Runtime_State Machine_Interfaces
begin

text \<open>
  \<open>src/pool.rs\<close>: sticky sequential selection of one upstream API key. Every operation is a
  function on the pool, with the clock readings it takes (\<open>now\<close> monotonic, \<open>wall\<close> wall
  clock) as arguments. The key-change log line of \<open>set_active\<close> is kept as \<open>switch_log\<close>,
  newest first, since the module's contract speaks about it.
\<close>

definition MAX_COOLDOWN :: duration where
  "MAX_COOLDOWN = from_secs (366 * 24 * 60 * 60)"

datatype key_switch_reason = EffectiveRateLimit | EligibilityFallback

datatype key_phase = Healthy | Cooling | HalfOpen | Probing

fun key_switch_reason_as_str :: "key_switch_reason \<Rightarrow> string" where
  "key_switch_reason_as_str EffectiveRateLimit = ''effective_rate_limit''"
| "key_switch_reason_as_str EligibilityFallback = ''eligibility_fallback''"

fun key_phase_as_str :: "key_phase \<Rightarrow> string" where
  "key_phase_as_str Healthy = ''healthy''"
| "key_phase_as_str Cooling = ''cooling''"
| "key_phase_as_str HalfOpen = ''half_open''"
| "key_phase_as_str Probing = ''probing''"

record key_runtime =
  cooldown_until :: "instant option"
  cooldown_until_wall :: "systime option"
  probe_in_flight :: bool
  limit_kind :: "rate_limit_kind option"
  last_429_at :: "systime option"
  last_429_message :: "string option"
  last_429_model :: "string option"
  last_success_at :: "systime option"

definition default_runtime :: key_runtime where
  "default_runtime = \<lparr>cooldown_until = None, cooldown_until_wall = None, probe_in_flight = False,
     limit_kind = None, last_429_at = None, last_429_message = None, last_429_model = None,
     last_success_at = None\<rparr>"

record key_entry =
  configured_index :: nat
  key_name :: string
  api_key :: string
  runtime :: key_runtime
  requests :: "64 word"
  successes :: "64 word"
  rate_limits :: "64 word"

record key_pool =
  keys :: "key_entry list"
  active :: nat
  active_since_unix :: nat
  dirty :: bool
  switch_log :: "(string \<times> string \<times> key_switch_reason) list"

record selected_key =
  sk_index :: nat
  sk_configured_index :: nat
  sk_name :: string
  sk_is_probe :: bool
  sk_api_key :: string

record cline_key_config =
  cfg_name :: string
  cfg_api_key :: string
  cfg_enabled :: bool

definition unix_secs :: "systime \<Rightarrow> nat" where
  "unix_secs t = (if t < 0 then 0 else nat t div ns_per_sec)"

definition unix_ms :: "systime \<Rightarrow> nat" where
  "unix_ms t = (if t < 0 then 0 else (nat t div ns_per_ms) mod 2 ^ 64)"

definition wall_from_unix_ms :: "nat \<Rightarrow> systime option" where
  "wall_from_unix_ms ms = systime_checked_add 0 (from_millis ms)"

definition new_pool :: "systime \<Rightarrow> cline_key_config list \<Rightarrow> key_pool" where
  "new_pool wall configured =
     \<lparr>keys = map (\<lambda>(i, key). \<lparr>configured_index = i, key_name = cfg_name key,
                 api_key = cfg_api_key key, runtime = default_runtime,
                 requests = 0, successes = 0, rate_limits = 0\<rparr>)
               (filter (\<lambda>(i, key). cfg_enabled key) (enumerate 0 configured)),
      active = 0, active_since_unix = unix_secs wall, dirty = False, switch_log = []\<rparr>"

definition pool_len :: "key_pool \<Rightarrow> nat" where "pool_len p = length (keys p)"

definition update_key :: "nat \<Rightarrow> (key_entry \<Rightarrow> key_entry) \<Rightarrow> key_pool \<Rightarrow> key_pool" where
  "update_key i f p = (if i < pool_len p then p\<lparr>keys := (keys p)[i := f (keys p ! i)]\<rparr> else p)"

subsection \<open>Selection\<close>

definition cooling_at :: "instant \<Rightarrow> key_runtime \<Rightarrow> bool" where
  "cooling_at now rt = (case cooldown_until rt of Some until \<Rightarrow> now < until | None \<Rightarrow> False)"

text \<open>\<open>is_cooling\<close>: an index without a key counts as cooling.\<close>

definition is_cooling :: "key_pool \<Rightarrow> nat \<Rightarrow> instant \<Rightarrow> bool" where
  "is_cooling p i now = (if i < pool_len p then cooling_at now (runtime (keys p ! i)) else True)"

definition name_at :: "key_pool \<Rightarrow> nat \<Rightarrow> string" where
  "name_at p i = (if i < pool_len p then key_name (keys p ! i) else '''')"

text \<open>\<open>set_active\<close>: the compare-exchange stores only if the active index is still the
  previous one; the time stamp and the log line are written in any case.\<close>

definition set_active ::
  "nat \<Rightarrow> nat \<Rightarrow> key_switch_reason \<Rightarrow> systime \<Rightarrow> key_pool \<Rightarrow> key_pool" where
  "set_active index previous reason wall p =
     p\<lparr>active := (if active p = previous then index else active p),
       active_since_unix := unix_secs wall,
       switch_log := (name_at p previous, name_at p index, reason) # switch_log p\<rparr>"

text \<open>What a scan does with the key it takes: the probe flag, the counter, the switch.\<close>

definition start_probe :: "key_runtime \<Rightarrow> bool" where
  "start_probe rt \<longleftrightarrow> cooldown_until rt \<noteq> None \<and> \<not> probe_in_flight rt"

definition take_key ::
  "nat \<Rightarrow> nat \<Rightarrow> instant \<Rightarrow> systime \<Rightarrow> key_pool \<Rightarrow> selected_key \<times> key_pool" where
  "take_key index act now wall p =
     (let key = keys p ! index;
          is_probe = start_probe (runtime key);
          p1 = update_key index (\<lambda>k. k\<lparr>runtime := (runtime k)\<lparr>probe_in_flight :=
                   (if is_probe then True else probe_in_flight (runtime k))\<rparr>,
                 requests := requests k + 1\<rparr>) p;
          p2 = (if index \<noteq> act
                then set_active index act
                  (if is_cooling p1 act now then EffectiveRateLimit else EligibilityFallback) wall p1
                else p1)
      in (\<lparr>sk_index = index, sk_configured_index = configured_index key, sk_name = key_name key,
           sk_is_probe = is_probe, sk_api_key = api_key key\<rparr>, p2))"

fun scan_offsets ::
  "nat set \<Rightarrow> nat \<Rightarrow> nat \<Rightarrow> instant \<Rightarrow> systime \<Rightarrow> bool \<Rightarrow> nat list \<Rightarrow> key_pool
   \<Rightarrow> selected_key option \<times> key_pool" where
  "scan_offsets attempted act count now wall allow_probed [] p = (None, p)"
| "scan_offsets attempted act count now wall allow_probed (offset # offsets) p =
     (let index = (act + offset) mod count;
          rt = runtime (keys p ! index);
          next = scan_offsets attempted act count now wall allow_probed offsets p
      in if index \<in> attempted then next
         else if cooling_at now rt then next
         else if cooldown_until rt \<noteq> None \<and> probe_in_flight rt \<and> \<not> allow_probed then next
         else (case take_key index act now wall p of (sk, p') \<Rightarrow> (Some sk, p')))"

definition scan ::
  "nat set \<Rightarrow> nat \<Rightarrow> nat \<Rightarrow> instant \<Rightarrow> systime \<Rightarrow> bool \<Rightarrow> key_pool
   \<Rightarrow> selected_key option \<times> key_pool" where
  "scan attempted act count now wall allow_probed p =
     scan_offsets attempted act count now wall allow_probed [0..<count] p"

definition select ::
  "nat set \<Rightarrow> instant \<Rightarrow> systime \<Rightarrow> key_pool \<Rightarrow> selected_key option \<times> key_pool" where
  "select attempted now wall p =
     (let count = pool_len p in
      if count = 0 then (None, p)
      else let act = active p mod count in
        case scan attempted act count now wall False p of
          (Some sk, p') \<Rightarrow> (Some sk, p')
        | (None, p') \<Rightarrow> scan attempted act count now wall True p')"

subsection \<open>Verdicts\<close>

definition is_eligible_for_advance :: "key_pool \<Rightarrow> nat \<Rightarrow> instant \<Rightarrow> bool" where
  "is_eligible_for_advance p i now \<longleftrightarrow>
     i < pool_len p \<and> \<not> cooling_at now (runtime (keys p ! i))
     \<and> \<not> probe_in_flight (runtime (keys p ! i))"

definition advance_if_active :: "nat \<Rightarrow> instant \<Rightarrow> systime \<Rightarrow> key_pool \<Rightarrow> key_pool" where
  "advance_if_active rejected now wall p =
     (let count = pool_len p in
      if count = 0 \<or> active p mod count \<noteq> rejected then p
      else case find (\<lambda>c. is_eligible_for_advance p c now)
                  (map (\<lambda>offset. (rejected + offset) mod count) [1..<count]) of
        Some candidate \<Rightarrow> set_active candidate rejected EffectiveRateLimit wall p
      | None \<Rightarrow> p)"

record rate_limit_update =
  upd_cooldown :: duration
  upd_cooldown_until :: systime

definition mark_http_429 ::
  "nat \<Rightarrow> duration \<Rightarrow> rate_limit_kind \<Rightarrow> string option \<Rightarrow> string option \<Rightarrow> instant \<Rightarrow> systime
   \<Rightarrow> key_pool \<Rightarrow> rate_limit_update \<times> key_pool" where
  "mark_http_429 index cooldown0 kind message model now wall p =
     (let cooldown = min cooldown0 MAX_COOLDOWN;
          until = (case systime_checked_add wall cooldown of Some t \<Rightarrow> t | None \<Rightarrow> wall);
          p1 = update_key index (\<lambda>k. k\<lparr>
                 runtime := (runtime k)\<lparr>
                   cooldown_until := instant_checked_add now cooldown,
                   cooldown_until_wall := Some until,
                   probe_in_flight := False,
                   limit_kind := Some kind,
                   last_429_at := Some wall,
                   last_429_message := message,
                   last_429_model := model\<rparr>,
                 rate_limits := rate_limits k + 1\<rparr>) p;
          p2 = advance_if_active index now wall p1
      in (\<lparr>upd_cooldown = cooldown, upd_cooldown_until = until\<rparr>, p2\<lparr>dirty := True\<rparr>))"

definition mark_success :: "nat \<Rightarrow> systime \<Rightarrow> key_pool \<Rightarrow> key_pool" where
  "mark_success index wall p =
     (update_key index (\<lambda>k. k\<lparr>
        runtime := (runtime k)\<lparr>cooldown_until := None, cooldown_until_wall := None,
          probe_in_flight := False, last_success_at := Some wall\<rparr>,
        successes := successes k + 1\<rparr>) p)\<lparr>dirty := True\<rparr>"

definition release_probe :: "nat \<Rightarrow> key_pool \<Rightarrow> key_pool" where
  "release_probe index p =
     update_key index (\<lambda>k. k\<lparr>runtime := (runtime k)\<lparr>probe_in_flight := False\<rparr>\<rparr>) p"

subsection \<open>Readers\<close>

definition remaining_at :: "instant \<Rightarrow> key_runtime \<Rightarrow> duration option" where
  "remaining_at now rt = Option.bind (cooldown_until rt) (\<lambda>u. checked_duration_since u now)"

definition earliest_retry_after :: "instant \<Rightarrow> key_pool \<Rightarrow> duration option" where
  "earliest_retry_after now p =
     (case List.map_filter (\<lambda>k. remaining_at now (runtime k)) (keys p) of
        [] \<Rightarrow> None
      | d # ds \<Rightarrow> Some (fold min ds d))"

definition phase_at :: "instant \<Rightarrow> key_runtime \<Rightarrow> key_phase" where
  "phase_at now rt =
     (case cooldown_until rt of
        None \<Rightarrow> Healthy
      | Some until \<Rightarrow>
          (if now < until then Cooling else if probe_in_flight rt then Probing else HalfOpen))"

definition active_key_name :: "key_pool \<Rightarrow> string option" where
  "active_key_name p =
     (let count = pool_len p in
      if count = 0 then None else Some (key_name (keys p ! (active p mod count))))"

text \<open>\<open>active_key\<close>: \<open>None\<close> is the panic on an empty pool.\<close>

definition active_key :: "key_pool \<Rightarrow> selected_key option" where
  "active_key p =
     (let count = max (pool_len p) 1; i = active p mod count in
      if i < pool_len p
      then Some (let key = keys p ! i in
        \<lparr>sk_index = i, sk_configured_index = configured_index key, sk_name = key_name key,
         sk_is_probe = False, sk_api_key = api_key key\<rparr>)
      else None)"

definition active_age :: "systime \<Rightarrow> key_pool \<Rightarrow> duration" where
  "active_age wall p = from_secs (unix_secs wall - active_since_unix p)"

text \<open>What a selected key prints in a log: never the credential.\<close>

definition selected_key_debug :: "selected_key \<Rightarrow> nat \<times> nat \<times> string \<times> bool \<times> string" where
  "selected_key_debug sk =
     (sk_index sk, sk_configured_index sk, sk_name sk, sk_is_probe sk, ''[REDACTED]'')"

record key_state_snapshot =
  kss_index :: nat
  kss_configured_index :: nat
  kss_name :: string
  kss_phase :: key_phase
  kss_cooldown_remaining :: "duration option"
  kss_cooldown_until :: "systime option"
  kss_limit_kind :: "rate_limit_kind option"
  kss_last_429_at :: "systime option"
  kss_last_429_message :: "string option"
  kss_last_429_model :: "string option"
  kss_last_success_at :: "systime option"
  kss_requests :: "64 word"
  kss_successes :: "64 word"
  kss_rate_limits :: "64 word"

definition snapshots :: "instant \<Rightarrow> key_pool \<Rightarrow> key_state_snapshot list" where
  "snapshots now p =
     map (\<lambda>(index, key). let rt = runtime key in
       \<lparr>kss_index = index, kss_configured_index = configured_index key, kss_name = key_name key,
        kss_phase = phase_at now rt, kss_cooldown_remaining = remaining_at now rt,
        kss_cooldown_until = cooldown_until_wall rt, kss_limit_kind = limit_kind rt,
        kss_last_429_at = last_429_at rt, kss_last_429_message = last_429_message rt,
        kss_last_429_model = last_429_model rt, kss_last_success_at = last_success_at rt,
        kss_requests = requests key, kss_successes = successes key,
        kss_rate_limits = rate_limits key\<rparr>)
     (enumerate 0 (keys p))"

subsection \<open>Persistence\<close>

definition persisted_entry :: "key_runtime \<Rightarrow> persisted_key_state" where
  "persisted_entry rt =
     \<lparr>cooldown_until_unix_ms = map_option unix_ms (cooldown_until_wall rt),
      pk_rate_limit_kind = limit_kind rt,
      pk_model = last_429_model rt,
      last_429_at_unix_ms = map_option unix_ms (last_429_at rt),
      last_success_at_unix_ms = map_option unix_ms (last_success_at rt)\<rparr>"

definition persisted_state :: "systime \<Rightarrow> key_pool \<Rightarrow> persisted_state" where
  "persisted_state wall p =
     \<lparr>ps_version = STATE_SCHEMA_VERSION,
      updated_at_unix_ms = unix_ms wall,
      ps_active_key = active_key_name p,
      ps_keys = fold (\<lambda>k m. btree_insert (key_name k) (persisted_entry (runtime k)) m) (keys p) []\<rparr>"

record restore_summary =
  restored_cooldowns :: nat
  expired_entries :: nat
  unknown_entries :: nat
  restored_active_key :: "string option"

definition restore_runtime ::
  "instant \<Rightarrow> systime \<Rightarrow> persisted_key_state \<Rightarrow> key_runtime \<Rightarrow> key_runtime" where
  "restore_runtime now wall e rt =
     (case cooldown_until_unix_ms e of
        Some deadline_ms \<Rightarrow>
          (let deadline = (case wall_from_unix_ms deadline_ms of Some t \<Rightarrow> t | None \<Rightarrow> wall) in
           rt\<lparr>cooldown_until :=
                (case duration_since deadline wall of
                   Some remaining \<Rightarrow>
                     Some (case instant_checked_add now (min remaining MAX_COOLDOWN) of
                             Some t \<Rightarrow> t | None \<Rightarrow> now)
                 | None \<Rightarrow> Some now),
              cooldown_until_wall := Some deadline\<rparr>)
      | None \<Rightarrow> rt)
     \<lparr>limit_kind := pk_rate_limit_kind e,
      last_429_model := pk_model e,
      last_429_at := Option.bind (last_429_at_unix_ms e) wall_from_unix_ms,
      last_success_at := Option.bind (last_success_at_unix_ms e) wall_from_unix_ms\<rparr>"

definition count_entry ::
  "systime \<Rightarrow> persisted_key_state \<Rightarrow> restore_summary \<Rightarrow> restore_summary" where
  "count_entry wall e summary =
     (case cooldown_until_unix_ms e of
        None \<Rightarrow> summary
      | Some deadline_ms \<Rightarrow>
          (let deadline = (case wall_from_unix_ms deadline_ms of Some t \<Rightarrow> t | None \<Rightarrow> wall) in
           case duration_since deadline wall of
             Some _ \<Rightarrow> summary\<lparr>restored_cooldowns := sat_add64 (restored_cooldowns summary) 1\<rparr>
           | None \<Rightarrow> summary\<lparr>expired_entries := sat_add64 (expired_entries summary) 1\<rparr>))"

text \<open>\<open>position\<close> of the first key of a name.\<close>

definition key_position :: "key_pool \<Rightarrow> string \<Rightarrow> nat option" where
  "key_position p name = find (\<lambda>i. key_name (keys p ! i) = name) [0..<pool_len p]"

definition restore_entry ::
  "instant \<Rightarrow> systime \<Rightarrow> string \<times> persisted_key_state \<Rightarrow> key_pool \<times> restore_summary
   \<Rightarrow> key_pool \<times> restore_summary" where
  "restore_entry now wall entry st =
     (case key_position (fst st) (fst entry) of
        None \<Rightarrow> (fst st, (snd st)\<lparr>unknown_entries := sat_add64 (unknown_entries (snd st)) 1\<rparr>)
      | Some i \<Rightarrow>
          (update_key i (\<lambda>k. k\<lparr>runtime := restore_runtime now wall (snd entry) (runtime k)\<rparr>) (fst st),
           count_entry wall (snd entry) (snd st)))"

definition restore ::
  "instant \<Rightarrow> systime \<Rightarrow> persisted_state \<Rightarrow> key_pool \<Rightarrow> key_pool \<times> restore_summary" where
  "restore now wall state p =
     (let empty = \<lparr>restored_cooldowns = 0, expired_entries = 0, unknown_entries = 0,
                   restored_active_key = None\<rparr>;
          (p1, summary) = fold (restore_entry now wall) (ps_keys state) (p, empty)
      in case Option.bind (ps_active_key state) (\<lambda>name. map_option (Pair name) (key_position p1 name)) of
           Some (name, i) \<Rightarrow>
             (p1\<lparr>active := i, active_since_unix := updated_at_unix_ms state div 1000\<rparr>,
              summary\<lparr>restored_active_key := Some name\<rparr>)
         | None \<Rightarrow> (p1, summary))"

subsection \<open>Frame laws\<close>

named_theorems pool_simps \<open>effect of the pool operations on the pool's fields\<close>

text \<open>What no operation ever changes of a key, and of a pool.\<close>

definition key_ident :: "key_entry \<Rightarrow> nat \<times> string \<times> string" where
  "key_ident k = (configured_index k, key_name k, api_key k)"

definition idents :: "key_pool \<Rightarrow> (nat \<times> string \<times> string) list" where
  "idents p = map key_ident (keys p)"

lemma pool_len_idents: "idents p = idents q \<Longrightarrow> pool_len p = pool_len q"
  by (metis idents_def length_map pool_len_def)

lemma update_key_simps [simp, pool_simps]:
  "pool_len (update_key i f p) = pool_len p"
  "active (update_key i f p) = active p"
  "active_since_unix (update_key i f p) = active_since_unix p"
  "dirty (update_key i f p) = dirty p"
  "switch_log (update_key i f p) = switch_log p"
  by (simp_all add: update_key_def pool_len_def)

lemma keys_update_key:
  "j < pool_len p \<Longrightarrow> keys (update_key i f p) ! j = (if i = j then f (keys p ! j) else keys p ! j)"
  by (simp add: update_key_def pool_len_def)

lemma idents_update_key:
  "(\<And>k. key_ident (f k) = key_ident k) \<Longrightarrow> idents (update_key i f p) = idents p"
  unfolding idents_def update_key_def
  by (auto simp: map_update pool_len_def intro!: nth_equalityI simp: nth_list_update)

lemma set_active_simps [simp, pool_simps]:
  "keys (set_active i prev r wall p) = keys p"
  "pool_len (set_active i prev r wall p) = pool_len p"
  "idents (set_active i prev r wall p) = idents p"
  "dirty (set_active i prev r wall p) = dirty p"
  "active (set_active i prev r wall p) = (if active p = prev then i else active p)"
  by (simp_all add: set_active_def pool_len_def idents_def)

lemma dirty_update_simps [simp, pool_simps]:
  "idents (p\<lparr>dirty := b\<rparr>) = idents p" "pool_len (p\<lparr>dirty := b\<rparr>) = pool_len p"
  "is_cooling (p\<lparr>dirty := b\<rparr>) i now = is_cooling p i now"
  by (simp_all add: idents_def pool_len_def is_cooling_def)

lemma idents_advance [simp, pool_simps]: "idents (advance_if_active r now wall p) = idents p"
  by (simp add: advance_if_active_def Let_def split: option.split)

lemma keys_advance [simp, pool_simps]: "keys (advance_if_active r now wall p) = keys p"
  by (simp add: advance_if_active_def Let_def split: option.split)

lemma pool_len_advance [simp, pool_simps]:
  "pool_len (advance_if_active r now wall p) = pool_len p"
  by (rule pool_len_idents) simp

lemma idents_take_key [simp, pool_simps]: "idents (snd (take_key i act now wall p)) = idents p"
  by (simp add: take_key_def Let_def idents_update_key key_ident_def)

lemma idents_mark [simp, pool_simps]:
  "idents (snd (mark_http_429 i d kind msg model now wall p)) = idents p"
  "idents (mark_success i wall p) = idents p"
  "idents (release_probe i p) = idents p"
  by (simp_all add: mark_http_429_def mark_success_def release_probe_def Let_def
      idents_update_key key_ident_def)

subsection \<open>A scan is a search\<close>

definition candidate :: "nat set \<Rightarrow> instant \<Rightarrow> bool \<Rightarrow> key_pool \<Rightarrow> nat \<Rightarrow> bool" where
  "candidate attempted now allow_probed p i \<longleftrightarrow>
     i \<notin> attempted \<and> \<not> cooling_at now (runtime (keys p ! i))
     \<and> (cooldown_until (runtime (keys p ! i)) \<noteq> None \<and> probe_in_flight (runtime (keys p ! i))
        \<longrightarrow> allow_probed)"

definition scan_order :: "nat \<Rightarrow> nat \<Rightarrow> nat list" where
  "scan_order act count = map (\<lambda>offset. (act + offset) mod count) [0..<count]"

definition taken :: "selected_key \<times> key_pool \<Rightarrow> selected_key option \<times> key_pool" where
  "taken r = (Some (fst r), snd r)"

lemma scan_offsets_find:
  "scan_offsets attempted act count now wall allow offsets p =
     (case find (candidate attempted now allow p) (map (\<lambda>off. (act + off) mod count) offsets) of
        None \<Rightarrow> (None, p)
      | Some i \<Rightarrow> taken (take_key i act now wall p))"
  by (induction offsets) (auto simp: candidate_def taken_def Let_def split: prod.split)

lemma scan_find:
  "scan attempted act count now wall allow p =
     (case find (candidate attempted now allow p) (scan_order act count) of
        None \<Rightarrow> (None, p)
      | Some i \<Rightarrow> taken (take_key i act now wall p))"
  by (simp add: scan_def scan_offsets_find scan_order_def)

text \<open>The index the two passes of \<open>select\<close> settle on.\<close>

definition choice :: "nat set \<Rightarrow> instant \<Rightarrow> key_pool \<Rightarrow> nat option" where
  "choice attempted now p =
     (let order = scan_order (active p mod pool_len p) (pool_len p) in
      case find (candidate attempted now False p) order of
        Some i \<Rightarrow> Some i
      | None \<Rightarrow> find (candidate attempted now True p) order)"

lemma select_choice:
  "select attempted now wall p =
     (case choice attempted now p of
        None \<Rightarrow> (None, p)
      | Some i \<Rightarrow> taken (take_key i (active p mod pool_len p) now wall p))"
proof (cases "pool_len p = 0")
  case True
  then show ?thesis by (simp add: select_def choice_def scan_order_def)
next
  case False
  then show ?thesis
    by (auto simp: select_def choice_def scan_find taken_def Let_def split: option.split)
qed

lemma mod_shift_onto:
  assumes "act < count" and "i < count"
  shows "\<exists>off < count. (act + off) mod count = (i::nat)"
proof (cases "act \<le> i")
  case True
  then have "(act + (i - act)) mod count = i" using assms by simp
  moreover have "i - act < count" using assms by simp
  ultimately show ?thesis by blast
next
  case False
  then have "(act + (count - act + i)) mod count = i" "count - act + i < count"
    using assms by simp_all
  then show ?thesis by blast
qed

lemma set_scan_order: "act < count \<Longrightarrow> set (scan_order act count) = {..<count}"
  unfolding scan_order_def using mod_shift_onto [of act count]
  by (fastforce simp: image_iff atLeast0LessThan)

lemma scan_order_Cons: "act < count \<Longrightarrow> \<exists>rest. scan_order act count = act # rest"
  by (simp add: scan_order_def upt_conv_Cons)

lemma find_Some_mem: "find P xs = Some x \<Longrightarrow> x \<in> set xs \<and> P x"
  by (induction xs) (auto split: if_splits)

lemma active_mod_less: "0 < pool_len p \<Longrightarrow> active p mod pool_len p < pool_len p"
  by simp

lemma choice_SomeD:
  assumes "choice attempted now p = Some i"
  shows "i < pool_len p" and "i \<notin> attempted" and "\<not> is_cooling p i now"
proof -
  have c: "i \<in> set (scan_order (active p mod pool_len p) (pool_len p))
      \<and> (\<exists>allow. candidate attempted now allow p i)"
    using assms by (auto simp: choice_def Let_def split: option.splits dest: find_Some_mem)
  then have "pool_len p \<noteq> 0" by (auto simp: scan_order_def)
  with c show i: "i < pool_len p" by (simp add: set_scan_order)
  from c show "i \<notin> attempted" by (auto simp: candidate_def)
  from c i show "\<not> is_cooling p i now" by (auto simp: candidate_def is_cooling_def)
qed

lemma choice_None_iff:
  "choice attempted now p = None \<longleftrightarrow> (\<forall>i < pool_len p. i \<in> attempted \<or> is_cooling p i now)"
proof (cases "pool_len p = 0")
  case True
  then show ?thesis by (simp add: choice_def scan_order_def)
next
  case False
  let ?order = "scan_order (active p mod pool_len p) (pool_len p)"
  have "choice attempted now p = None \<longleftrightarrow>
      find (candidate attempted now False p) ?order = None
      \<and> find (candidate attempted now True p) ?order = None"
    by (auto simp: choice_def Let_def split: option.split)
  also have "\<dots> \<longleftrightarrow> (\<forall>i < pool_len p. \<not> candidate attempted now True p i)"
    using False by (auto simp: find_None_iff set_scan_order candidate_def)
  also have "\<dots> \<longleftrightarrow> (\<forall>i < pool_len p. i \<in> attempted \<or> is_cooling p i now)"
    by (auto simp: candidate_def is_cooling_def)
  finally show ?thesis .
qed

lemma take_key_fst:
  "fst (take_key i act now wall p) =
     \<lparr>sk_index = i, sk_configured_index = configured_index (keys p ! i),
      sk_name = key_name (keys p ! i), sk_is_probe = start_probe (runtime (keys p ! i)),
      sk_api_key = api_key (keys p ! i)\<rparr>"
  by (simp add: take_key_def Let_def)

lemma take_key_active:
  "i < pool_len p \<Longrightarrow> active (snd (take_key i act now wall p))
     = (if i \<noteq> act \<and> active p = act then i else active p)"
  by (simp add: take_key_def Let_def)

lemma take_key_runtime:
  assumes "j < pool_len p"
  shows "runtime (keys (snd (take_key i act now wall p)) ! j) =
    (if i = j then (runtime (keys p ! j))\<lparr>probe_in_flight :=
         cooldown_until (runtime (keys p ! j)) \<noteq> None \<or> probe_in_flight (runtime (keys p ! j))\<rparr>
     else runtime (keys p ! j))"
  using assms by (auto simp: take_key_def Let_def keys_update_key start_probe_def)

subsection \<open>The pool as a machine\<close>

datatype pool_op =
    OpSelect "nat set" instant systime
  | OpMark429 nat duration rate_limit_kind "string option" "string option" instant systime
  | OpSuccess nat systime
  | OpRelease nat

fun pool_step :: "pool_op \<Rightarrow> key_pool \<Rightarrow> key_pool" where
  "pool_step (OpSelect attempted now wall) p = snd (select attempted now wall p)"
| "pool_step (OpMark429 i d kind msg model now wall) p = snd (mark_http_429 i d kind msg model now wall p)"
| "pool_step (OpSuccess i wall) p = mark_success i wall p"
| "pool_step (OpRelease i) p = release_probe i p"

text \<open>The pool's invariant: the active index names a key, and a probe is in flight only on a
  key whose cooldown has not been cleared.\<close>

definition probe_ok :: "key_runtime \<Rightarrow> bool" where
  "probe_ok rt \<longleftrightarrow> (probe_in_flight rt \<longrightarrow> cooldown_until rt \<noteq> None)"

definition pool_ok :: "key_pool \<Rightarrow> bool" where
  "pool_ok p \<longleftrightarrow> (keys p \<noteq> [] \<longrightarrow> active p < pool_len p)
     \<and> (\<forall>i < pool_len p. probe_ok (runtime (keys p ! i)))"

lemma pool_ok_active: "pool_ok p \<Longrightarrow> 0 < pool_len p \<Longrightarrow> active p mod pool_len p = active p"
  by (auto simp: pool_ok_def pool_len_def)

lemma pool_ok_intro:
  assumes "pool_len q = pool_len p" and "pool_ok p"
    and "active q = active p \<or> active q < pool_len p"
    and "\<And>i. i < pool_len p \<Longrightarrow> probe_ok (runtime (keys p ! i)) \<Longrightarrow> probe_ok (runtime (keys q ! i))"
  shows "pool_ok q"
  using assms by (auto simp: pool_ok_def pool_len_def)

lemma pool_ok_take_key:
  assumes "pool_ok p" and "i < pool_len p"
  shows "pool_ok (snd (take_key i act now wall p))"
proof (rule pool_ok_intro [OF _ assms(1)])
  show "pool_len (snd (take_key i act now wall p)) = pool_len p"
    by (rule pool_len_idents) simp
  show "active (snd (take_key i act now wall p)) = active p
      \<or> active (snd (take_key i act now wall p)) < pool_len p"
    using assms(2) by (simp add: take_key_active)
qed (use assms(2) in \<open>auto simp: take_key_runtime probe_ok_def\<close>)

lemma pool_ok_select: "pool_ok p \<Longrightarrow> pool_ok (snd (select attempted now wall p))"
  by (auto simp: select_choice taken_def dest: choice_SomeD(1) intro: pool_ok_take_key
      split: option.split)

lemma pool_ok_update_key:
  assumes "pool_ok p" and "\<And>k. probe_ok (runtime k) \<Longrightarrow> probe_ok (runtime (f k))"
  shows "pool_ok (update_key i f p)"
  using assms by (intro pool_ok_intro [OF _ assms(1)]) (auto simp: keys_update_key)

lemma pool_ok_dirty: "pool_ok (p\<lparr>dirty := b\<rparr>) = pool_ok p"
  by (simp add: pool_ok_def pool_len_def)

lemma active_advance:
  "active (advance_if_active r now wall p) = active p
   \<or> active (advance_if_active r now wall p) < pool_len p"
  by (auto simp: advance_if_active_def Let_def is_eligible_for_advance_def dest!: find_Some_mem
      split: option.split)

lemma pool_ok_advance:
  assumes "pool_ok p"
  shows "pool_ok (advance_if_active r now wall p)"
  by (rule pool_ok_intro [OF _ assms active_advance]) simp_all

lemma pool_step_ok: "pool_ok p \<Longrightarrow> pool_ok (pool_step e p)"
  by (cases e)
     (auto simp: pool_ok_select mark_http_429_def mark_success_def release_probe_def Let_def
        pool_ok_dirty probe_ok_def intro!: pool_ok_advance pool_ok_update_key)

lemma select_idents: "idents (snd (select attempted now wall p)) = idents p"
  by (simp add: select_choice taken_def split: option.split)

lemma pool_step_idents: "idents (pool_step e p) = idents p"
  by (cases e) (simp_all add: select_idents)

interpretation pool: framed_machine pool_step "\<lambda>_. True" pool_ok idents
  by unfold_locales (simp_all add: pool_step_ok pool_step_idents)

lemma pool_ok_new: "pool_ok (new_pool wall configured)"
proof -
  have "probe_ok (runtime k)" if "k \<in> set (keys (new_pool wall configured))" for k
    using that by (auto simp: new_pool_def probe_ok_def default_runtime_def)
  then have "probe_ok (runtime (keys (new_pool wall configured) ! i))"
    if "i < pool_len (new_pool wall configured)" for i
    using that by (simp add: pool_len_def)
  moreover have "active (new_pool wall configured) = 0" by (simp add: new_pool_def)
  ultimately show ?thesis by (auto simp: pool_ok_def pool_len_def)
qed

subsection \<open>A concrete pool\<close>

text \<open>Three configured keys, the second disabled, as the instance the witnesses use.\<close>

definition demo_config :: "cline_key_config list" where
  "demo_config = [\<lparr>cfg_name = ''a'', cfg_api_key = ''k1'', cfg_enabled = True\<rparr>,
     \<lparr>cfg_name = ''off'', cfg_api_key = ''k2'', cfg_enabled = False\<rparr>,
     \<lparr>cfg_name = ''b'', cfg_api_key = ''k3'', cfg_enabled = True\<rparr>]"

definition demo_pool :: key_pool where "demo_pool = new_pool 0 demo_config"

lemmas pool_eval = new_pool_def select_def scan_def take_key_def mark_http_429_def mark_success_def
  release_probe_def update_key_def pool_len_def set_active_def advance_if_active_def cooling_at_def
  is_cooling_def is_eligible_for_advance_def start_probe_def unix_secs_def name_at_def Let_def
  default_runtime_def instant_checked_add_def systime_checked_add_def
  upt_rec time_defs MAX_COOLDOWN_def

lemma demo_pool_ok: "pool_ok demo_pool"
  unfolding demo_pool_def by (rule pool_ok_new)

lemma demo_pool_len [simp]: "pool_len demo_pool = 2"
  by (simp add: demo_pool_def demo_config_def pool_eval)

lemma demo_pool_active [simp]: "active demo_pool = 0"
  by (simp add: demo_pool_def demo_config_def pool_eval)

lemma demo_candidate: "candidate {} now False demo_pool 0"
  by (simp add: demo_pool_def demo_config_def pool_eval candidate_def)

lemma demo_not_cooling: "\<not> is_cooling demo_pool 0 now"
  by (simp add: demo_pool_def demo_config_def pool_eval)

lemma demo_mark_moves: "active (pool_step (OpMark429 0 10 Unknown None None 1 1) demo_pool) = 1"
  by (simp add: demo_pool_def demo_config_def pool_eval)

subsection \<open>Properties of the pool\<close>

lemma choice_sticky:
  assumes "pool_ok p" and "candidate attempted now False p (active p)"
    and "choice attempted now p = Some i"
  shows "i = active p"
proof -
  have len: "0 < pool_len p" using choice_SomeD(1) [OF assms(3)] by simp
  have act: "active p mod pool_len p = active p" using assms(1) len by (rule pool_ok_active)
  obtain rest where "scan_order (active p) (pool_len p) = active p # rest"
    using scan_order_Cons [of "active p" "pool_len p"] act len by (metis mod_less_divisor)
  with assms(2,3) act show ?thesis by (simp add: choice_def)
qed

lemma choice_second_pass:
  assumes "choice attempted now p = Some i" and "\<not> candidate attempted now False p i"
    and "j < pool_len p"
  shows "\<not> candidate attempted now False p j"
proof -
  have "find (candidate attempted now False p)
      (scan_order (active p mod pool_len p) (pool_len p)) = None"
    using assms(1,2) by (auto simp: choice_def Let_def dest: find_Some_mem split: option.splits)
  then have "\<forall>j \<in> set (scan_order (active p mod pool_len p) (pool_len p)).
      \<not> candidate attempted now False p j"
    by (auto simp: find_None_iff)
  moreover have "active p mod pool_len p < pool_len p" using assms(3) by simp
  ultimately show ?thesis using assms(3) by (simp add: set_scan_order)
qed

text \<open>How far a key lies ahead of the active one, in configured order with wrap-around, and the pool after
  a selection: the counter and the probe flag of the key taken, and the switch if it is another key.\<close>

definition ahead :: "key_pool \<Rightarrow> nat \<Rightarrow> nat" where
  "ahead p j = (j + pool_len p - active p) mod pool_len p"

definition after_selection :: "nat \<Rightarrow> instant \<Rightarrow> systime \<Rightarrow> key_pool \<Rightarrow> key_pool" where
  "after_selection i now wall p =
     (let key = keys p ! i; rt = runtime key;
          p' = p\<lparr>keys := (keys p)[i := key\<lparr>
                 runtime := rt\<lparr>probe_in_flight := probe_in_flight rt \<or> cooldown_until rt \<noteq> None\<rparr>,
                 requests := requests key + 1\<rparr>]\<rparr>
      in if i = active p then p'
         else p'\<lparr>active := i, active_since_unix := unix_secs wall,
                 switch_log := (key_name (keys p ! active p), key_name key,
                    if is_cooling p (active p) now then EffectiveRateLimit else EligibilityFallback)
                   # switch_log p\<rparr>)"

lemma scan_order_nth: "k < n \<Longrightarrow> scan_order act n ! k = (act + k) mod n"
  by (simp add: scan_order_def)

lemma mod_rotate_back: "act < n \<Longrightarrow> k < n \<Longrightarrow> ((act + k) mod n + n - act) mod n = k" for n :: nat
  by (cases "act + k < n") (auto simp: mod_if)

lemma mod_rotate_onto: "act < n \<Longrightarrow> j < n \<Longrightarrow> (act + (j + n - act) mod n) mod n = j" for n :: nat
  by (cases "j < act") (auto simp: mod_if)

lemma find_scan_order:
  assumes "find P (scan_order act n) = Some i" and "act < n"
  shows "P i" and "\<And>j. j < n \<Longrightarrow> (j + n - act) mod n < (i + n - act) mod n \<Longrightarrow> \<not> P j"
proof -
  obtain k where k: "k < n" "P i" "i = (act + k) mod n" and before: "\<forall>m < k. \<not> P (scan_order act n ! m)"
    using assms(1) by (auto simp: find_Some_iff scan_order_nth) (auto simp: scan_order_def)
  show "P i" by (rule k(2))
  fix j assume j: "j < n" "(j + n - act) mod n < (i + n - act) mod n"
  then have "(j + n - act) mod n < k" using mod_rotate_back [OF assms(2) k(1)] k(3) by simp
  then have "\<not> P (scan_order act n ! ((j + n - act) mod n))" using before by blast
  then show "\<not> P j" using j(1) mod_rotate_onto [OF assms(2) j(1)] assms(2) by (simp add: scan_order_nth)
qed

lemma choice_first:
  assumes "choice attempted now p = Some i" and "active p < pool_len p"
  shows "\<exists>b. candidate attempted now b p i
    \<and> (b \<longrightarrow> (\<forall>j < pool_len p. \<not> candidate attempted now False p j))
    \<and> (\<forall>j < pool_len p. ahead p j < ahead p i \<longrightarrow> \<not> candidate attempted now b p j)"
proof (cases "find (candidate attempted now False p) (scan_order (active p) (pool_len p))")
  case None
  then have "find (candidate attempted now True p) (scan_order (active p) (pool_len p)) = Some i"
    using assms by (simp add: choice_def)
  from find_scan_order [OF this assms(2)] None assms(2) show ?thesis
    by (intro exI [of _ True]) (auto simp: find_None_iff set_scan_order ahead_def)
next
  case (Some k)
  then have "find (candidate attempted now False p) (scan_order (active p) (pool_len p)) = Some i"
    using assms by (simp add: choice_def)
  from find_scan_order [OF this assms(2)] show ?thesis
    by (intro exI [of _ False]) (simp add: ahead_def)
qed

lemma is_cooling_update_key:
  "cooldown_until (runtime (f (keys p ! i))) = cooldown_until (runtime (keys p ! i)) \<Longrightarrow>
     is_cooling (update_key i f p) j now = is_cooling p j now"
  by (auto simp: is_cooling_def update_key_def pool_len_def cooling_at_def nth_list_update)

lemma name_at_update_key:
  "key_name (f (keys p ! i)) = key_name (keys p ! i) \<Longrightarrow> name_at (update_key i f p) j = name_at p j"
  by (auto simp: name_at_def update_key_def pool_len_def nth_list_update)

lemma take_key_after:
  assumes "i < pool_len p" and "active p < pool_len p"
  shows "snd (take_key i (active p) now wall p) = after_selection i now wall p"
proof -
  let ?f = "\<lambda>k. k\<lparr>runtime := (runtime k)\<lparr>probe_in_flight :=
      (if start_probe (runtime (keys p ! i)) then True else probe_in_flight (runtime k))\<rparr>, requests := requests k + 1\<rparr>"
  have flag: "(if start_probe rt then True else probe_in_flight rt) = (probe_in_flight rt \<or> cooldown_until rt \<noteq> None)" for rt
    by (auto simp: start_probe_def)
  define q where "q = update_key i ?f p"
  have q: "q = p\<lparr>keys := (keys p)[i := (keys p ! i)\<lparr>
      runtime := (runtime (keys p ! i))\<lparr>probe_in_flight :=
        probe_in_flight (runtime (keys p ! i)) \<or> cooldown_until (runtime (keys p ! i)) \<noteq> None\<rparr>,
      requests := requests (keys p ! i) + 1\<rparr>]\<rparr>"
    using assms(1) by (simp only: q_def update_key_def if_True flag)
  have same: "is_cooling q (active p) now = is_cooling p (active p) now" "name_at q j = name_at p j"
    "active q = active p" "switch_log q = switch_log p" for j
    by (simp_all add: q_def is_cooling_update_key name_at_update_key)
  have moved: "set_active i (active p) reason wall q = q\<lparr>active := i, active_since_unix := unix_secs wall,
      switch_log := (key_name (keys p ! active p), key_name (keys p ! i), reason) # switch_log p\<rparr>" for reason
    using assms same by (simp add: set_active_def) (simp add: name_at_def)
  have "snd (take_key i (active p) now wall p) =
      (if i \<noteq> active p
       then set_active i (active p) (if is_cooling q (active p) now then EffectiveRateLimit else EligibilityFallback) wall q
       else q)"
    by (simp add: take_key_def Let_def q_def)
  then have "snd (take_key i (active p) now wall p) =
      (if i = active p then q
       else q\<lparr>active := i, active_since_unix := unix_secs wall, switch_log := (key_name (keys p ! active p), key_name (keys p ! i),
         if is_cooling p (active p) now then EffectiveRateLimit else EligibilityFallback) # switch_log p\<rparr>)"
    by (simp only: moved same if_not_P refl) (simp split: if_split)
  then show ?thesis by (simp only: after_selection_def Let_def q)
qed

text \<open>C3. Complete specification of a selection on a well-formed pool. It fails, leaving the pool
  as it is, exactly when every key was already tried or is cooling. Otherwise it takes, in configured
  order from the active key on and round, the first key that was not tried, is not cooling and is not
  owned by another probe, or, where every key is ruled out so, the first one not tried and not cooling.
  The result carries that key's own identity and credential and is a probe exactly when the key is
  half-open; the pool afterwards is the old one with the request counted, the probe flag of a half-open
  key set, and the key active: another active key means a new time stamp and one log line that gives
  the rate limit as its reason exactly when the key left is cooling.\<close>

theorem select_spec:
  assumes "pool_ok p"
  shows "(case select attempted now wall p of
            (None, q) \<Rightarrow> q = p \<and> (\<forall>i < pool_len p. i \<in> attempted \<or> is_cooling p i now)
          | (Some sk, q) \<Rightarrow>
              sk_index sk < pool_len p \<and> sk_index sk \<notin> attempted
              \<and> \<not> is_cooling p (sk_index sk) now
              \<and> (sk_configured_index sk, sk_name sk, sk_api_key sk) = idents p ! sk_index sk
              \<and> sk_is_probe sk = start_probe (runtime (keys p ! sk_index sk))
              \<and> (\<exists>b. candidate attempted now b p (sk_index sk)
                   \<and> (b \<longrightarrow> (\<forall>j < pool_len p. \<not> candidate attempted now False p j))
                   \<and> (\<forall>j < pool_len p. ahead p j < ahead p (sk_index sk) \<longrightarrow> \<not> candidate attempted now b p j))
              \<and> q = after_selection (sk_index sk) now wall p)"
proof (cases "choice attempted now p")
  case None
  then have "select attempted now wall p = (None, p)" by (simp add: select_choice)
  moreover have "\<forall>i < pool_len p. i \<in> attempted \<or> is_cooling p i now"
    using None by (simp only: choice_None_iff)
  ultimately show ?thesis by simp
next
  case (Some i)
  note i = choice_SomeD [OF Some]
  have act: "active p mod pool_len p = active p"
    using assms i(1) by (intro pool_ok_active) simp_all
  then have len: "active p < pool_len p" using i(1) by (metis active_mod_less le_less_trans zero_le)
  have sel: "select attempted now wall p = taken (take_key i (active p) now wall p)"
    using Some act by (simp add: select_choice)
  note first = choice_first [OF Some len]
  show ?thesis using i first
    by (simp add: sel taken_def take_key_fst idents_def key_ident_def pool_len_def take_key_after [OF i(1) len])
qed

lemma demo_pool_selects: "select {} 5 7 demo_pool = (Some (fst (take_key 0 0 5 7 demo_pool)), snd (take_key 0 0 5 7 demo_pool))"
  by (simp add: demo_pool_def demo_config_def pool_eval)

lemma select_spec_witness:
  "case select {} 5 7 demo_pool of
     (None, q) \<Rightarrow> False
   | (Some sk, q) \<Rightarrow> sk_index sk < 2 \<and> \<not> is_cooling demo_pool (sk_index sk) 5
       \<and> q = after_selection (sk_index sk) 5 7 demo_pool"
  using select_spec [OF demo_pool_ok, of "{}" 5 7] by (simp add: demo_pool_selects)

definition may_move :: "key_pool \<Rightarrow> pool_op \<Rightarrow> bool" where
  "may_move p e \<longleftrightarrow>
     (case e of
        OpSelect attempted now wall \<Rightarrow>
          active p \<in> attempted \<or> is_cooling p (active p) now
          \<or> probe_in_flight (runtime (keys p ! active p))
      | OpMark429 i d kind msg model now wall \<Rightarrow> i = active p
      | OpSuccess i wall \<Rightarrow> False
      | OpRelease i \<Rightarrow> False)"

lemma select_moves:
  assumes "pool_ok p" and "active (snd (select attempted now wall p)) \<noteq> active p"
  shows "\<not> candidate attempted now False p (active p)"
proof
  assume c: "candidate attempted now False p (active p)"
  from assms(2) obtain i where i: "choice attempted now p = Some i"
    by (cases "choice attempted now p") (simp_all add: select_choice)
  then have "0 < pool_len p" using choice_SomeD(1) by fastforce
  with assms(2) i show False
    using choice_sticky [OF assms(1) c i] choice_SomeD(1) [OF i] pool_ok_active [OF assms(1)]
    by (simp add: select_choice taken_def take_key_active)
qed

lemma active_moves:
  assumes "pool_ok p" and "active (pool_step e p) \<noteq> active p"
  shows "may_move p e"
proof (cases e)
  case (OpSelect attempted now wall)
  with assms have "choice attempted now p \<noteq> None"
    by (auto simp: select_choice split: option.splits)
  then have "0 < pool_len p" using choice_SomeD(1) by fastforce
  then have "active p < pool_len p" using assms(1) by (auto simp: pool_ok_def pool_len_def)
  with OpSelect assms select_moves [OF assms(1), of attempted now wall] show ?thesis
    by (auto simp: may_move_def candidate_def is_cooling_def)
next
  case (OpMark429 i d kind msg model now wall)
  with assms show ?thesis
    using pool_ok_active [OF assms(1)]
    by (auto simp: may_move_def mark_http_429_def advance_if_active_def Let_def split: if_splits)
qed (use assms in \<open>auto simp: mark_success_def release_probe_def\<close>)

definition op_instant :: "pool_op \<Rightarrow> instant" where
  "op_instant e =
     (case e of
        OpSelect _ now _ \<Rightarrow> now
      | OpMark429 _ _ _ _ _ now _ \<Rightarrow> now
      | OpSuccess _ _ \<Rightarrow> 0
      | OpRelease _ \<Rightarrow> 0)"

lemma select_moves_to:
  assumes "active (snd (select attempted now wall p)) \<noteq> active p"
  shows "\<not> is_cooling (snd (select attempted now wall p)) (active (snd (select attempted now wall p))) now"
proof -
  from assms obtain i where i: "choice attempted now p = Some i"
    by (cases "choice attempted now p") (simp_all add: select_choice)
  let ?act = "active p mod pool_len p"
  have sel: "snd (select attempted now wall p) = snd (take_key i ?act now wall p)"
    using i by (simp add: select_choice taken_def)
  note i = choice_SomeD [OF i]
  have "active (snd (take_key i ?act now wall p)) = i"
    using assms sel i(1) by (auto simp: take_key_active split: if_splits)
  moreover have "pool_len (snd (take_key i ?act now wall p)) = pool_len p"
    by (rule pool_len_idents) simp
  ultimately show ?thesis
    using i by (simp add: sel is_cooling_def take_key_runtime cooling_at_def)
qed

lemma advance_moves_to:
  assumes "active (advance_if_active r now wall p) \<noteq> active p"
  shows "\<not> is_cooling p (active (advance_if_active r now wall p)) now"
  using assms
  by (auto simp: advance_if_active_def Let_def is_eligible_for_advance_def is_cooling_def
      dest!: find_Some_mem split: if_splits option.splits)

text \<open>C4. The routing invariant on the pool: the active key moves away only in a verdict of an
  effective 429 on that very key, or in a selection that must not use it (tried before in this
  request, cooling, or owned by another probe), and it moves to a key that is not cooling at that
  instant. Successes and released probes never move it.\<close>

theorem active_moves_only_on_429:
  assumes "pool_ok p" and "active (pool_step e p) \<noteq> active p"
  shows "may_move p e \<and> \<not> is_cooling (pool_step e p) (active (pool_step e p)) (op_instant e)"
proof
  show "may_move p e" using assms by (rule active_moves)
  show "\<not> is_cooling (pool_step e p) (active (pool_step e p)) (op_instant e)"
  proof (cases e)
    case (OpSelect attempted now wall)
    with assms(2) show ?thesis using select_moves_to by (simp add: op_instant_def)
  next
    case (OpMark429 i d kind msg model now wall)
    define p1 where "p1 = update_key i (\<lambda>k. k\<lparr>
                 runtime := (runtime k)\<lparr>
                   cooldown_until := instant_checked_add now (min d MAX_COOLDOWN),
                   cooldown_until_wall := Some (case systime_checked_add wall (min d MAX_COOLDOWN)
                      of Some t \<Rightarrow> t | None \<Rightarrow> wall),
                   probe_in_flight := False,
                   limit_kind := Some kind,
                   last_429_at := Some wall,
                   last_429_message := msg,
                   last_429_model := model\<rparr>,
                 rate_limits := rate_limits k + 1\<rparr>) p"
    have step: "pool_step e p = (advance_if_active i now wall p1)\<lparr>dirty := True\<rparr>"
      by (simp add: OpMark429 mark_http_429_def p1_def Let_def)
    moreover have "active p1 = active p" by (simp add: p1_def)
    ultimately show ?thesis
      using assms(2) advance_moves_to [of i now wall p1]
      by (simp add: is_cooling_def op_instant_def OpMark429 split: if_splits)
  qed (use assms in \<open>auto simp: mark_success_def release_probe_def\<close>)
qed

lemma active_moves_only_on_429_witness:
  "may_move demo_pool (OpMark429 0 10 Unknown None None 1 1)"
  using active_moves_only_on_429 [OF demo_pool_ok, of "OpMark429 0 10 Unknown None None 1 1"]
    demo_mark_moves by simp

subsection \<open>Single-flight probing\<close>

text \<open>The verdicts on key \<open>i\<close>, and the operations that can end a probe of it.\<close>

definition verdict :: "nat \<Rightarrow> pool_op \<Rightarrow> bool" where
  "verdict i e \<longleftrightarrow>
     (case e of OpMark429 j _ _ _ _ _ _ \<Rightarrow> j = i | OpSuccess j _ \<Rightarrow> j = i | _ \<Rightarrow> False)"

definition settles :: "nat \<Rightarrow> pool_op \<Rightarrow> bool" where
  "settles i e \<longleftrightarrow> verdict i e \<or> (case e of OpRelease j \<Rightarrow> j = i | _ \<Rightarrow> False)"

definition probe_started :: "nat \<Rightarrow> pool_op \<Rightarrow> key_pool \<Rightarrow> bool" where
  "probe_started i e p \<longleftrightarrow>
     (case e of
        OpSelect attempted now wall \<Rightarrow>
          (case fst (select attempted now wall p) of
             Some sk \<Rightarrow> sk_index sk = i \<and> sk_is_probe sk
           | None \<Rightarrow> False)
      | _ \<Rightarrow> False)"

fun probe_count :: "nat \<Rightarrow> pool_op list \<Rightarrow> key_pool \<Rightarrow> nat" where
  "probe_count i [] p = 0"
| "probe_count i (e # es) p =
     (if probe_started i e p then 1 else 0) + probe_count i es (pool_step e p)"

lemma runtime_update_key:
  "j < pool_len p \<Longrightarrow> runtime (keys (update_key i f p) ! j)
     = (if i = j then runtime (f (keys p ! j)) else runtime (keys p ! j))"
  by (simp add: keys_update_key)

lemma runtime_select:
  assumes "j < pool_len p"
  shows "runtime (keys (snd (select attempted now wall p)) ! j) =
    (if choice attempted now p = Some j
     then (runtime (keys p ! j))\<lparr>probe_in_flight :=
            cooldown_until (runtime (keys p ! j)) \<noteq> None \<or> probe_in_flight (runtime (keys p ! j))\<rparr>
     else runtime (keys p ! j))"
  using assms by (auto simp: select_choice taken_def take_key_runtime split: option.split)

text \<open>What one operation can do to the runtime state of key \<open>j\<close> without a verdict on it.\<close>

lemma runtime_pool_step:
  assumes "j < pool_len p" and "\<not> verdict j e"
  shows "cooldown_until (runtime (keys (pool_step e p) ! j)) = cooldown_until (runtime (keys p ! j))"
    and "\<not> settles j e \<Longrightarrow> probe_in_flight (runtime (keys p ! j)) \<Longrightarrow>
           probe_in_flight (runtime (keys (pool_step e p) ! j))"
  using assms
  by (cases e; simp add: runtime_select runtime_update_key verdict_def settles_def
        mark_http_429_def mark_success_def release_probe_def Let_def)+

lemma probe_started_flag:
  assumes "j < pool_len p" and "probe_started j e p"
  shows "\<not> probe_in_flight (runtime (keys p ! j))"
    and "probe_in_flight (runtime (keys (pool_step e p) ! j))"
proof -
  obtain attempted now wall where e: "e = OpSelect attempted now wall"
    using assms(2) by (cases e) (auto simp: probe_started_def)
  have c: "choice attempted now p = Some j" "start_probe (runtime (keys p ! j))"
    using assms(2) e
    by (auto simp: probe_started_def select_choice taken_def take_key_fst split: option.splits)
  then show "\<not> probe_in_flight (runtime (keys p ! j))" by (simp add: start_probe_def)
  show "probe_in_flight (runtime (keys (pool_step e p) ! j))"
    using c e assms(1) by (simp add: runtime_select start_probe_def)
qed

lemma pool_len_step [simp]: "pool_len (pool_step e p) = pool_len p"
  by (rule pool_len_idents) (rule pool_step_idents)

lemma probe_count_busy:
  "i < pool_len p \<Longrightarrow> probe_in_flight (runtime (keys p ! i)) \<Longrightarrow>
   \<forall>e \<in> set es. \<not> settles i e \<Longrightarrow> probe_count i es p = 0"
proof (induction es arbitrary: p)
  case (Cons e es)
  then have "\<not> probe_started i e p" and "\<not> verdict i e"
    using probe_started_flag(1) by (auto simp: settles_def)
  with Cons show ?case using runtime_pool_step(2) [of i p e] by simp
qed simp

lemma choice_lone:
  assumes "pool_len p = 1"
  shows "choice {} t p = (if is_cooling p 0 t then None else Some 0)"
  using assms by (simp add: choice_def candidate_def scan_order_def is_cooling_def)

lemma probe_started_lone:
  assumes "pool_len p = 1"
  shows "probe_started 0 (OpSelect {} t wall) p \<longleftrightarrow>
    \<not> is_cooling p 0 t \<and> start_probe (runtime (keys p ! 0))"
  using assms
  by (simp add: probe_started_def select_choice choice_lone taken_def take_key_fst)

lemma runtime_mark_429:
  assumes "i < pool_len p" and "now + min d MAX_COOLDOWN \<le> time_max"
  shows "cooldown_until (runtime (keys (snd (mark_http_429 i d kind msg model now wall p)) ! i))
           = Some (now + min d MAX_COOLDOWN)"
    and "\<not> probe_in_flight (runtime (keys (snd (mark_http_429 i d kind msg model now wall p)) ! i))"
  using assms
  by (simp_all add: mark_http_429_def Let_def runtime_update_key instant_checked_add_def)

text \<open>C24. Half-open probing is single-flight between settlements: however selections and
  verdicts on other keys interleave, at most one selection probes a key until a verdict on it
  or a released lease.\<close>

theorem probe_single_flight:
  assumes "i < pool_len p" and "\<forall>e \<in> set es. \<not> settles i e"
  shows "probe_count i es p \<le> 1"
  using assms
proof (induction es arbitrary: p)
  case (Cons e es)
  show ?case
  proof (cases "probe_started i e p")
    case True
    then have "probe_in_flight (runtime (keys (pool_step e p) ! i))"
      using Cons.prems(1) by (rule_tac probe_started_flag(2))
    with Cons.prems True show ?thesis
      using probe_count_busy [of i "pool_step e p" es] by simp
  next
    case False
    with Cons show ?thesis by simp
  qed
qed simp

lemma probe_single_flight_witness:
  "probe_count 1 [OpSelect {} 3 3, OpSelect {0} 4 4, OpSuccess 0 5] demo_pool \<le> 1"
  by (rule probe_single_flight) (simp_all add: settles_def verdict_def)

text \<open>The flag, not the lease, is what single flight rests on: while a probe of the only
  key is still in flight, the fallback pass hands the same key to a second request without making
  it a probe, and that request's 429 clears the flag; once its cooldown has passed the next
  selection is a second probe although the first one was never settled nor released.\<close>

theorem overlapping_probes:
  assumes p: "pool_len p = 1" "cooldown_until (runtime (keys p ! 0)) = Some u"
      "\<not> probe_in_flight (runtime (keys p ! 0))"
    and t: "u \<le> t0" "u \<le> t1" "t2 + min d MAX_COOLDOWN \<le> t3" "t3 \<le> time_max"
  shows "probe_count 0 [OpSelect {} t0 w, OpSelect {} t1 w, OpMark429 0 d kind msg model t2 w,
           OpSelect {} t3 w] p = 2"
proof -
  let ?p1 = "pool_step (OpSelect {} t0 w) p"
  let ?p2 = "pool_step (OpSelect {} t1 w) ?p1"
  let ?p3 = "pool_step (OpMark429 0 d kind msg model t2 w) ?p2"
  have len: "pool_len ?p1 = 1" "pool_len ?p2 = 1" "pool_len ?p3 = 1"
    using p(1) by (simp_all only: pool_len_step)
  note started = probe_started_lone [OF p(1)] probe_started_lone [OF len(1)] probe_started_lone [OF len(3)]
  have r1: "cooldown_until (runtime (keys ?p1 ! 0)) = Some u" "probe_in_flight (runtime (keys ?p1 ! 0))"
    using p t(1) by (simp_all add: runtime_select choice_lone is_cooling_def cooling_at_def)
  have r3: "cooldown_until (runtime (keys ?p3 ! 0)) = Some (t2 + min d MAX_COOLDOWN)"
      "\<not> probe_in_flight (runtime (keys ?p3 ! 0))"
    using runtime_mark_429 [of 0 ?p2 t2 d kind msg model w] len(2) t(3,4) by simp_all
  have "probe_started 0 (OpSelect {} t0 w) p" 
    using p t(1) by (simp add: started is_cooling_def cooling_at_def start_probe_def)
  moreover have "\<not> probe_started 0 (OpSelect {} t1 w) ?p1" 
    unfolding started using r1 by (simp add: start_probe_def)
  moreover have "\<not> probe_started 0 (OpMark429 0 d kind msg model t2 w) ?p2"
    by (simp add: probe_started_def)
  moreover have "probe_started 0 (OpSelect {} t3 w) ?p3"
    unfolding started using r3 t(3) len(3) by (simp add: is_cooling_def cooling_at_def start_probe_def)
  ultimately show ?thesis by (simp del: pool_step.simps)
qed


lemma overlapping_probes_witness:
  "probe_count 0 [OpSelect {} 20 0, OpSelect {} 21 0, OpMark429 0 1 Unknown None None 22 0,
     OpSelect {} 30 0]
     \<lparr>keys = [\<lparr>configured_index = 0, key_name = ''a'', api_key = ''k'',
         runtime = default_runtime\<lparr>cooldown_until := Some 10\<rparr>,
         requests = 0, successes = 0, rate_limits = 1\<rparr>],
      active = 0, active_since_unix = 0, dirty = False, switch_log = []\<rparr> = 2"
  by (rule overlapping_probes [where u = 10])
     (simp_all add: pool_len_def default_runtime_def MAX_COOLDOWN_def time_defs)

subsection \<open>Cooldowns are respected\<close>

lemma cooldown_kept:
  "i < pool_len p \<Longrightarrow> \<forall>e \<in> set es. \<not> verdict i e \<Longrightarrow>
   cooldown_until (runtime (keys (fold pool_step es p) ! i)) = cooldown_until (runtime (keys p ! i))"
  by (induction es arbitrary: p) (simp_all add: runtime_pool_step(1))

lemma pool_len_run [simp]: "pool_len (fold pool_step es p) = pool_len p"
  by (induction es arbitrary: p) simp_all

text \<open>C5. After an effective 429 with cooldown \<open>d\<close> the key is never handed out again before the
  cooldown (capped at 366 days) has passed, whatever selections, released probes and verdicts on
  other keys happen in between.\<close>

theorem cooldown_respected:
  assumes "i < pool_len p"
    and "now + min d MAX_COOLDOWN \<le> time_max"
    and "\<forall>e \<in> set es. \<not> verdict i e"
    and "t < now + min d MAX_COOLDOWN"
    and "select attempted t wall'
           (fold pool_step es (snd (mark_http_429 i d kind msg model now wall p))) = (Some sk, q)"
  shows "sk_index sk \<noteq> i"
proof -
  let ?p1 = "snd (mark_http_429 i d kind msg model now wall p)"
  let ?p2 = "fold pool_step es ?p1"
  have len1: "pool_len ?p1 = pool_len p" by (rule pool_len_idents) simp
  have "cooldown_until (runtime (keys ?p1 ! i)) = Some (now + min d MAX_COOLDOWN)"
    using assms(1,2) by (simp add: mark_http_429_def Let_def runtime_update_key
        instant_checked_add_def)
  then have "cooldown_until (runtime (keys ?p2 ! i)) = Some (now + min d MAX_COOLDOWN)"
    using cooldown_kept [of i ?p1 es] assms(1,3) len1 by simp
  then have "is_cooling ?p2 i t"
    using assms(1,4) len1 by (simp add: is_cooling_def cooling_at_def)
  moreover have "choice attempted t ?p2 = Some (sk_index sk)"
    using assms(5) by (auto simp: select_choice taken_def take_key_fst split: option.splits)
  ultimately show ?thesis using choice_SomeD(3) by blast
qed

lemma cooldown_respected_witness:
  "case select {} 5 0 (fold pool_step [OpSelect {} 2 0, OpRelease 0]
      (snd (mark_http_429 0 10 Unknown None None 1 0 demo_pool))) of
     (Some sk, q) \<Rightarrow> sk_index sk \<noteq> 0 | (None, q) \<Rightarrow> True"
  using cooldown_respected [of 0 demo_pool 1 10 "[OpSelect {} 2 0, OpRelease 0]" 5 "{}" 0
      Unknown None None 0]
  by (auto simp: verdict_def MAX_COOLDOWN_def time_defs split: prod.split option.split)

subsection \<open>Persist and restore\<close>

definition names :: "key_pool \<Rightarrow> string list" where "names p = map key_name (keys p)"

lemma key_position_Some:
  assumes "key_position p name = Some i"
  shows "i < pool_len p" and "key_name (keys p ! i) = name"
  using find_Some_mem [OF assms [unfolded key_position_def]] by auto

lemma key_position_unique:
  assumes "distinct (names p)" and "i < pool_len p"
  shows "key_position p (key_name (keys p ! i)) = Some i"
proof (cases "key_position p (key_name (keys p ! i))")
  case None
  then show ?thesis using assms(2) by (auto simp: key_position_def find_None_iff)
next
  case (Some j)
  have "names p ! j = names p ! i" and "j < length (names p)" "i < length (names p)"
    using key_position_Some [OF Some] assms(2) by (simp_all add: names_def pool_len_def)
  with assms(1) Some show ?thesis by (simp add: nth_eq_iff_index_eq)
qed

lemma names_update_runtime [simp]:
  "names (update_key i (\<lambda>k. k\<lparr>runtime := f k\<rparr>) p) = names p"
  by (auto simp: names_def update_key_def pool_len_def map_update intro!: nth_equalityI
      simp: nth_list_update)

lemma restore_entry_names [simp]: "names (fst (restore_entry now wall e st)) = names (fst st)"
  by (simp add: restore_entry_def split: option.split)

lemma restore_entries_names [simp]:
  "names (fst (fold (restore_entry now wall) m st)) = names (fst st)"
  by (induction m arbitrary: st) simp_all

lemma pool_len_names: "pool_len p = length (names p)"
  by (simp add: pool_len_def names_def)

lemma restore_entries_active [simp]:
  "active (fst (fold (restore_entry now wall) m st)) = active (fst st)"
proof (induction m arbitrary: st)
  case (Cons e m)
  have "active (fst (restore_entry now wall e st)) = active (fst st)"
    by (simp add: restore_entry_def split: option.split)
  with Cons show ?case by simp
qed simp

lemma restore_entry_runtime:
  assumes "distinct (names (fst st))" and "i < pool_len (fst st)"
  shows "runtime (keys (fst (restore_entry now wall (n, e) st)) ! i) =
    (if key_name (keys (fst st) ! i) = n
     then restore_runtime now wall e (runtime (keys (fst st) ! i))
     else runtime (keys (fst st) ! i))"
proof (cases "key_position (fst st) n")
  case None
  moreover have "key_name (keys (fst st) ! i) \<noteq> n"
    using None assms(2) by (auto simp: key_position_def find_None_iff)
  ultimately show ?thesis by (simp add: restore_entry_def)
next
  case (Some j)
  have "j = i \<longleftrightarrow> key_name (keys (fst st) ! i) = n"
  proof
    assume "j = i" then show "key_name (keys (fst st) ! i) = n"
      using key_position_Some [OF Some] by simp
  next
    assume "key_name (keys (fst st) ! i) = n" then show "j = i"
      using key_position_unique [OF assms] Some by simp
  qed
  with Some assms(2) show ?thesis by (simp add: restore_entry_def runtime_update_key)
qed

lemma names_nth: "names p = names q \<Longrightarrow> i < pool_len p \<Longrightarrow>
    key_name (keys p ! i) = key_name (keys q ! i)"
  by (metis names_def nth_map pool_len_def pool_len_names)

lemma restore_entries_runtime:
  assumes "distinct (map fst m)" and "distinct (names (fst st))" and "i < pool_len (fst st)"
  shows "runtime (keys (fst (fold (restore_entry now wall) m st)) ! i) =
    (case map_of m (key_name (keys (fst st) ! i)) of
       Some e \<Rightarrow> restore_runtime now wall e (runtime (keys (fst st) ! i))
     | None \<Rightarrow> runtime (keys (fst st) ! i))"
  using assms
proof (induction m arbitrary: st)
  case (Cons a m)
  obtain n e where a: "a = (n, e)" by (cases a)
  let ?st = "restore_entry now wall (n, e) st"
  have len: "pool_len (fst ?st) = pool_len (fst st)" by (simp add: pool_len_names)
  have name: "key_name (keys (fst ?st) ! i) = key_name (keys (fst st) ! i)"
    using Cons.prems(3) len by (intro names_nth) simp_all
  have "map_of m n = None" using Cons.prems(1) a by (simp add: map_of_eq_None_iff)
  then show ?case
    using Cons.IH [of ?st] Cons.prems a len name
    by (auto simp: restore_entry_runtime split: option.split)
qed simp

lemma persisted_entries:
  assumes "distinct (map key_name ks)" and "btree_ok m"
  defines "ins \<equiv> fold (\<lambda>k m. btree_insert (key_name k) (persisted_entry (runtime k)) m)"
  shows "btree_ok (ins ks m) \<and>
    (\<forall>k \<in> set ks. map_of (ins ks m) (key_name k) = Some (persisted_entry (runtime k))) \<and>
    (\<forall>n. n \<notin> key_name ` set ks \<longrightarrow> map_of (ins ks m) n = map_of m n)"
  using assms(1,2) unfolding ins_def
proof (induction ks arbitrary: m)
  case (Cons k ks)
  let ?m = "btree_insert (key_name k) (persisted_entry (runtime k)) m"
  let ?f = "fold (\<lambda>k m. btree_insert (key_name k) (persisted_entry (runtime k)) m)"
  have "btree_ok ?m" using Cons.prems(2) by (rule btree_ok_insert)
  moreover have "key_name k \<notin> key_name ` set ks" "distinct (map key_name ks)"
    using Cons.prems(1) by simp_all
  ultimately have IH: "btree_ok (?f ks ?m)"
      "\<forall>k' \<in> set ks. map_of (?f ks ?m) (key_name k') = Some (persisted_entry (runtime k'))"
      "\<And>n. n \<notin> key_name ` set ks \<Longrightarrow> map_of (?f ks ?m) n = map_of ?m n"
      and k: "key_name k \<notin> key_name ` set ks"
    using Cons.IH [of ?m] by simp_all
  have "map_of (?f ks ?m) (key_name k) = Some (persisted_entry (runtime k))"
    using IH(3) [OF k] Cons.prems(2) by simp
  moreover have "\<forall>n. n \<notin> key_name ` set (k # ks) \<longrightarrow> map_of (?f ks ?m) n = map_of m n"
    using IH(3) Cons.prems(2) by simp
  ultimately show ?case using IH(1,2) by simp
qed simp

text \<open>C23. Persisting a pool and restoring the state into a pool with the same key names (a
  restart) gives every key exactly the runtime state its own entry describes, keyed by name and
  never by position of the file, and makes the same key active; no entry is lost.\<close>

theorem restore_after_persist:
  assumes "pool_ok p" and "distinct (names p)" and "names q = names p" and "i < pool_len p"
  shows "runtime (keys (fst (restore now wall' (persisted_state wall p) q)) ! i)
           = restore_runtime now wall' (persisted_entry (runtime (keys p ! i))) (runtime (keys q ! i))
       \<and> active (fst (restore now wall' (persisted_state wall p) q)) = active p
       \<and> restored_active_key (snd (restore now wall' (persisted_state wall p) q)) = active_key_name p"
proof -
  define m where "m = ps_keys (persisted_state wall p)"
  have m: "btree_ok m" "\<forall>k \<in> set (keys p). map_of m (key_name k) = Some (persisted_entry (runtime k))"
    using persisted_entries [of "keys p" "[]"] assms(2)
    by (simp_all add: m_def persisted_state_def names_def btree_ok_def)
  let ?empty = "\<lparr>restored_cooldowns = 0, expired_entries = 0, unknown_entries = 0,
     restored_active_key = None\<rparr>"
  let ?st = "fold (restore_entry now wall') m (q, ?empty)"
  have lens: "pool_len q = pool_len p" "pool_len (fst ?st) = pool_len p"
    using assms(3) by (simp_all add: pool_len_names)
  have rt: "runtime (keys (fst ?st) ! i)
      = restore_runtime now wall' (persisted_entry (runtime (keys p ! i))) (runtime (keys q ! i))"
  proof -
    have "map_of m (key_name (keys q ! i)) = Some (persisted_entry (runtime (keys p ! i)))"
      using m(2) assms(3,4) lens names_nth [of q p i] by (simp add: pool_len_def)
    then show ?thesis
      using restore_entries_runtime [of m "(q, ?empty)" i now wall'] m(1) assms lens
      by (simp add: btree_ok_def)
  qed
  have act: "active p < pool_len p" using assms(1,4) by (auto simp: pool_ok_def pool_len_def)
  then have name: "active_key_name p = Some (key_name (keys p ! active p))"
    by (simp add: active_key_name_def Let_def)
  have "key_name (keys (fst ?st) ! active p) = key_name (keys p ! active p)"
    using act lens assms(3) by (intro names_nth) simp_all
  then have "key_position (fst ?st) (key_name (keys p ! active p)) = Some (active p)"
    using key_position_unique [of "fst ?st" "active p"] assms(2,3) act lens by simp
  moreover have "ps_active_key (persisted_state wall p) = Some (key_name (keys p ! active p))"
    using name by (simp add: persisted_state_def)
  ultimately show ?thesis
    using rt name by (simp add: restore_def m_def [symmetric] Let_def split_beta)
qed

lemma restore_after_persist_witness:
  "active (fst (restore 7 9 (persisted_state 5 demo_pool) demo_pool)) = 0"
  using restore_after_persist [of demo_pool demo_pool 0 7 9 5] demo_pool_ok
  by (simp add: names_def demo_pool_def demo_config_def pool_eval)

text \<open>A restart never shortens a cooldown by more than the millisecond the file drops: a key
  persisted with the wall-clock deadline \<open>u\<close> is still refused after the restart until the
  rounded deadline (or 366 days) has passed, and half-open afterwards.\<close>

theorem restart_keeps_cooldown:
  assumes "0 \<le> u" and "u div 1000000 < 2 ^ 64" and "u \<le> int time_max"
    and "cooldown_until_wall rt = Some u"
    and "wall' \<le> (u div 1000000) * 1000000"
    and "now + MAX_COOLDOWN \<le> time_max"
  defines "rt' \<equiv> restore_runtime now wall' (persisted_entry rt) default_runtime"
  shows "cooldown_until rt' =
           Some (now + min (nat ((u div 1000000) * 1000000 - wall')) MAX_COOLDOWN)
       \<and> u - 1000000 < (u div 1000000) * 1000000 \<and> \<not> probe_in_flight rt'"
proof -
  have ms: "unix_ms u = nat (u div 1000000)"
    using assms(1,2) by (simp add: unix_ms_def ns_per_ms_def nat_div_distrib)
  have "(u div 1000000) * 1000000 \<le> u" by simp
  then have wall: "wall_from_unix_ms (unix_ms u) = Some ((u div 1000000) * 1000000)"
    using assms(1,3) ms
    by (simp add: wall_from_unix_ms_def systime_checked_add_def from_millis_def ns_per_ms_def)
  have "now + min (nat ((u div 1000000) * 1000000 - wall')) MAX_COOLDOWN \<le> time_max"
    using assms(6) by simp
  then have rt': "cooldown_until rt' =
      Some (now + min (nat ((u div 1000000) * 1000000 - wall')) MAX_COOLDOWN)"
    using assms(4,5) wall
    by (simp add: rt'_def restore_runtime_def persisted_entry_def duration_since_def
        instant_checked_add_def Let_def)
  have "\<not> probe_in_flight rt'"
    using assms(4) by (simp add: rt'_def restore_runtime_def persisted_entry_def default_runtime_def
        Let_def)
  with rt' show ?thesis by simp
qed

lemma restart_keeps_cooldown_witness:
  "cooldown_until (restore_runtime 50 1000000
      (persisted_entry (default_runtime\<lparr>cooldown_until_wall := Some 5500000\<rparr>)) default_runtime)
     = Some 4000050"
  using restart_keeps_cooldown [of 5500000
      "default_runtime\<lparr>cooldown_until_wall := Some 5500000\<rparr>" 1000000 50]
  by (simp add: MAX_COOLDOWN_def time_defs)

subsection \<open>Can the next process read what this one persists?\<close>

definition entry_readable :: "key_runtime \<Rightarrow> bool" where
  "entry_readable rt \<longleftrightarrow> (case last_429_model rt of Some m \<Rightarrow> length m \<le> 256 | None \<Rightarrow> True)"

lemma persisted_keys_members:
  assumes "distinct (names p)"
  shows "set (ps_keys (persisted_state wall p))
    = (\<lambda>k. (key_name k, persisted_entry (runtime k))) ` set (keys p)"
proof -
  let ?m = "ps_keys (persisted_state wall p)"
  have m: "btree_ok ?m" "\<forall>k \<in> set (keys p). map_of ?m (key_name k) = Some (persisted_entry (runtime k))"
      "\<forall>n. n \<notin> key_name ` set (keys p) \<longrightarrow> map_of ?m n = None"
    using persisted_entries [of "keys p" "[]"] assms
    by (simp_all add: persisted_state_def names_def btree_ok_def)
  have dist: "distinct (map fst ?m)" using m(1) by (simp add: btree_ok_def)
  show ?thesis
  proof (rule set_eqI)
    fix x :: "string \<times> persisted_key_state"
    obtain n e where x: "x = (n, e)" by (cases x)
    have "x \<in> set ?m \<longleftrightarrow> map_of ?m n = Some e" using x dist by simp
    also have "\<dots> \<longleftrightarrow> x \<in> (\<lambda>k. (key_name k, persisted_entry (runtime k))) ` set (keys p)"
      using m(2,3) x by (cases "n \<in> key_name ` set (keys p)") auto
    finally show "x \<in> set ?m \<longleftrightarrow> x \<in> (\<lambda>k. (key_name k, persisted_entry (runtime k))) ` set (keys p)" .
  qed
qed

text \<open>What a restart accepts of what the pool persists: the file is loadable exactly when the clock
  is past the epoch, no key has a blank name and every remembered model name has at most 256
  bytes. Nothing on the way into the pool enforces the last condition, so one 429 whose body names
  a longer model makes the whole file, every cooldown in it included, unreadable.\<close>

theorem persisted_pool_loadable_iff:
  assumes "distinct (names p)"
  shows "(state_valid (persisted_state wall p) \<longleftrightarrow>
      unix_ms wall \<noteq> 0
      \<and> (\<forall>k \<in> set (keys p). trim (key_name k) \<noteq> [] \<and> entry_readable (runtime k)))
    \<and> (i < pool_len p \<longrightarrow> 256 < length m \<longrightarrow>
       \<not> entry_readable (runtime (keys (snd (mark_http_429 i d kind msg (Some m) now wall' p)) ! i)))"
proof
  show "state_valid (persisted_state wall p) \<longleftrightarrow>
      unix_ms wall \<noteq> 0
      \<and> (\<forall>k \<in> set (keys p). trim (key_name k) \<noteq> [] \<and> entry_readable (runtime k))"
    unfolding state_valid_def list_all_iff persisted_keys_members [OF assms]
    by (auto simp: persisted_state_def entry_readable_def persisted_entry_def STATE_SCHEMA_VERSION_def)
  show "i < pool_len p \<longrightarrow> 256 < length m \<longrightarrow>
      \<not> entry_readable (runtime (keys (snd (mark_http_429 i d kind msg (Some m) now wall' p)) ! i))"
    by (simp add: mark_http_429_def Let_def runtime_update_key entry_readable_def)
qed

lemma persisted_pool_loadable_iff_witness:
  "state_valid (persisted_state 5000000 demo_pool)
   \<and> (\<forall>d kind msg now wall'.
        \<not> entry_readable (runtime (keys (snd (mark_http_429 0 d kind msg
          (Some (replicate 300 (CHR ''m''))) now wall' demo_pool)) ! 0)))"
proof -
  have "distinct (names demo_pool)"
    by (simp add: names_def demo_pool_def demo_config_def pool_eval)
  from persisted_pool_loadable_iff [OF this, of 5000000 0 "replicate 300 (CHR ''m'')"]
  show ?thesis
    by (simp add: demo_pool_def demo_config_def pool_eval entry_readable_def unix_ms_def rust_simps)
qed

end
