(* ===== verification/Redaction.thy ===== *)
theory Redaction
  imports Json_Value
begin

text \<open>
  \<open>src/redaction.rs\<close>: the filter every upstream message passes before it is logged or shown.
  Texts are UTF-8 byte strings; the delimiters and markers are ASCII.
\<close>

definition MAX_PUBLIC_TEXT_CHARS :: nat where "MAX_PUBLIC_TEXT_CHARS = 1024"

definition redacted_mark :: string where "redacted_mark = ''[REDACTED]''"

subsection \<open>Library routines\<close>

text \<open>\<open>str::replace\<close> with a non-empty pattern: leftmost matches, no overlaps.\<close>

function replace_all :: "string \<Rightarrow> string \<Rightarrow> string \<Rightarrow> string" where
  "replace_all [] p r = []"
| "replace_all (c # s) p r =
     (if p \<noteq> [] \<and> starts_with (c # s) p then r @ replace_all (drop (length p) (c # s)) p r
      else c # replace_all s p r)"
  by pat_completeness auto
termination
  by (relation "measure (\<lambda>(s, p, r). length s)") (auto simp: Suc_le_eq)

lemma replace_all_hit:
  "p \<noteq> [] \<and> starts_with (c # s) p \<Longrightarrow>
   replace_all (c # s) p r = r @ replace_all (drop (length p) (c # s)) p r"
  by (simp only: replace_all.simps simp_thms if_True)

lemma replace_all_miss:
  "\<not> (p \<noteq> [] \<and> starts_with (c # s) p) \<Longrightarrow> replace_all (c # s) p r = c # replace_all s p r"
  by (simp only: replace_all.simps simp_thms if_False)

declare replace_all.simps(2) [simp del]

text \<open>\<open>split_whitespace\<close>: the maximal non-empty runs without white space.\<close>

lemma until_ws_pos: "s \<noteq> [] \<Longrightarrow> ws_len s = 0 \<Longrightarrow> 0 < length (until_ws s)"
  by (cases s) simp_all

lemma trim_start_no_ws: "ws_len (trim_start s) = 0"
proof (induction s rule: trim_start.induct)
  case (1 s)
  then show ?case by (cases "ws_len s = 0") (simp_all add: trim_start.simps [of s])
qed

function split_whitespace :: "string \<Rightarrow> string list" where
  "split_whitespace s =
     (let t = trim_start s in
      if t = [] then [] else until_ws t # split_whitespace (drop (length (until_ws t)) t))"
  by pat_completeness auto
termination
proof (relation "measure length")
  fix s t :: string
  assume "t = trim_start s" and "t \<noteq> []"
  then have "0 < length (until_ws t)" and "0 < length t" and "length t \<le> length s"
    using until_ws_pos [of t] trim_start_no_ws [of s] length_trim_start [of s] by auto
  then show "(drop (length (until_ws t)) t, s) \<in> measure length"
    unfolding in_measure length_drop by linarith
qed simp

declare split_whitespace.simps [simp del]

fun join_with :: "string \<Rightarrow> string list \<Rightarrow> string" where
  "join_with sep [] = []"
| "join_with sep [w] = w"
| "join_with sep (w # v # ws) = w @ sep @ join_with sep (v # ws)"

text \<open>\<open>str::split\<close> on a character: the pieces between its occurrences, never an empty list.\<close>

fun split_char :: "char \<Rightarrow> string \<Rightarrow> string list" where
  "split_char d [] = [[]]"
| "split_char d (c # s) =
     (if c = d then [] # split_char d s
      else (c # hd (split_char d s)) # tl (split_char d s))"

text \<open>The bytes of the first \<open>n\<close> characters.\<close>

fun take_chars :: "nat \<Rightarrow> string \<Rightarrow> string" where
  "take_chars n [] = []"
| "take_chars n (c # s) =
     (if is_cont (byte c) then c # take_chars n s
      else if n = 0 then [] else c # take_chars (n - 1) s)"

subsection \<open>The filter\<close>

definition ellipsis :: string where "ellipsis = [CHR 0xE2, CHR 0x80, CHR 0xA6]"

definition truncate_chars :: "string \<Rightarrow> nat \<Rightarrow> string" where
  "truncate_chars input limit =
     (let prefix = take_chars limit input in
      if length prefix < length input then prefix @ ellipsis else prefix)"

definition jwt_segment :: "string \<Rightarrow> bool" where
  "jwt_segment s \<longleftrightarrow>
     8 \<le> length s
     \<and> list_all (\<lambda>c. is_ascii_alphanumeric c \<or> c = CHR ''-'' \<or> c = CHR ''_'') s"

definition looks_like_jwt :: "string \<Rightarrow> bool" where
  "looks_like_jwt s =
     (case split_char (CHR ''.'') s of
        [a, b, c] \<Rightarrow> jwt_segment a \<and> jwt_segment b \<and> jwt_segment c
      | _ \<Rightarrow> False)"

definition sensitive_assignments :: "string list" where
  "sensitive_assignments =
     [''authorization='', ''authorization:'', ''x-api-key='', ''x-api-key:'', ''api_key='',
      ''api-key='', ''access_token='', ''refresh_token='', ''cookie='']"

text \<open>Code 39 is the apostrophe.\<close>

definition is_word_punct :: "char \<Rightarrow> bool" where
  "is_word_punct c \<longleftrightarrow> c \<in> set '',;:()[]'' \<or> byte c = 34 \<or> byte c = 39"

definition trim_word :: "string \<Rightarrow> string" where
  "trim_word word = trim_end_matches is_word_punct (trim_start_matches is_word_punct word)"

definition sensitive_word :: "string \<Rightarrow> bool" where
  "sensitive_word word =
     (let trimmed = trim_word word; lower = to_ascii_lowercase trimmed in
      list_ex (starts_with lower) sensitive_assignments
      \<or> starts_with lower ''sk-''
      \<or> starts_with lower ''key-'' \<and> 24 < length trimmed
      \<or> looks_like_jwt trimmed)"

definition announces_secret :: "string \<Rightarrow> bool" where
  "announces_secret word =
     (let lower = to_ascii_lowercase (trim_word word) in
      lower = ''bearer'' \<or> lower = ''authorization:'' \<or> lower = ''x-api-key:'')"

fun sanitize_words :: "bool \<Rightarrow> string list \<Rightarrow> string list" where
  "sanitize_words redact_next [] = []"
| "sanitize_words redact_next (word # words) =
     (if redact_next \<or> sensitive_word word then redacted_mark else word)
     # sanitize_words (announces_secret word) words"

definition redact_exact :: "string list \<Rightarrow> string \<Rightarrow> string" where
  "redact_exact secrets input =
     fold (\<lambda>secret out. if secret = [] then out else replace_all out secret redacted_mark)
       secrets input"

definition sanitize_text :: "string \<Rightarrow> string list \<Rightarrow> string" where
  "sanitize_text input secrets =
     truncate_chars
       (join_with '' '' (sanitize_words False (split_whitespace (redact_exact secrets input))))
       MAX_PUBLIC_TEXT_CHARS"

definition sensitive_name :: "string \<Rightarrow> bool" where
  "sensitive_name name =
     (let normalized = map (\<lambda>c. if c = CHR ''-'' then CHR ''_'' else c) (to_ascii_lowercase name) in
      normalized \<in> {''authorization'', ''x_api_key'', ''api_key'', ''access_token'',
                     ''refresh_token'', ''cookie'', ''set_cookie''}
      \<or> starts_with (rev normalized) (rev ''_secret''))"

fun redact_value :: "string list \<Rightarrow> json \<Rightarrow> json"
and redact_members :: "string list \<Rightarrow> jmap \<Rightarrow> jmap"
and redact_items :: "string list \<Rightarrow> json list \<Rightarrow> json list" where
  "redact_value secrets (JObj kvs) = JObj (redact_members secrets kvs)"
| "redact_value secrets (JArr vs) = JArr (redact_items secrets vs)"
| "redact_value secrets (JStr s) = JStr (sanitize_text s secrets)"
| "redact_value secrets JNull = JNull"
| "redact_value secrets (JBool b) = JBool b"
| "redact_value secrets (JNum n) = JNum n"
| "redact_members secrets [] = []"
| "redact_members secrets ((name, v) # kvs) =
     (name, if sensitive_name name then JStr redacted_mark else redact_value secrets v)
     # redact_members secrets kvs"
| "redact_items secrets [] = []"
| "redact_items secrets (v # vs) = redact_value secrets v # redact_items secrets vs"

definition sanitize_json :: "json \<Rightarrow> string list \<Rightarrow> json" where
  "sanitize_json v secrets = redact_value secrets v"

subsection \<open>Length\<close>

lemma char_count_Nil [simp]: "char_count [] = 0"
  by (simp add: char_count_def)

lemma char_count_Cons [simp]:
  "char_count (c # s) = (if is_cont (byte c) then 0 else 1) + char_count s"
  by (simp add: char_count_def)

lemma char_count_append [simp]: "char_count (s @ t) = char_count s + char_count t"
  by (simp add: char_count_def)

lemma char_count_take_chars: "char_count (take_chars n s) \<le> n"
  by (induction n s rule: take_chars.induct) auto

lemma take_chars_prefix: "\<exists>r. s = take_chars n s @ r"
  by (induction n s rule: take_chars.induct) auto

lemma truncate_chars_bound: "char_count (truncate_chars s n) \<le> Suc n"
proof -
  have "char_count ellipsis = 1" by (simp add: ellipsis_def is_cont_def byte_def)
  with char_count_take_chars [of n s] show ?thesis by (simp add: truncate_chars_def Let_def)
qed

text \<open>Sanitised text is never longer than 1024 characters and the ellipsis, whatever an upstream
  sends and however the markers lengthen it.\<close>

theorem sanitize_text_bounded: "char_count (sanitize_text input secrets) \<le> 1025"
  using truncate_chars_bound [of _ 1024] by (simp add: sanitize_text_def MAX_PUBLIC_TEXT_CHARS_def)

subsection \<open>Exact secrets never survive\<close>

lemma contains_Cons: "str_contains (c # s) p \<longleftrightarrow> starts_with (c # s) p \<or> str_contains s p"
  by (simp add: str_contains_def)

lemma contains_Nil: "str_contains [] p \<longleftrightarrow> p = []"
  by (simp add: str_contains_def)

lemma contains_append_left: "str_contains s p \<Longrightarrow> str_contains (t @ s) p"
  by (induction t) (simp_all add: contains_Cons)

lemma contains_append_right: "str_contains s p \<Longrightarrow> str_contains (s @ t) p"
  unfolding str_contains_iff by (metis append.assoc)

lemma contains_drop: "str_contains (drop n s) p \<Longrightarrow> str_contains s p"
  by (metis append_take_drop_id contains_append_left)

lemma starts_with_append_split:
  "starts_with (x @ c # y) p \<Longrightarrow> c \<notin> set p \<Longrightarrow> starts_with x p"
  by (induction x p rule: starts_with.induct) (auto elim: starts_with.elims)

lemma contains_split:
  "str_contains (x @ c # y) p \<Longrightarrow> c \<notin> set p \<Longrightarrow> p \<noteq> [] \<Longrightarrow> str_contains x p \<or> str_contains y p"
proof (induction x)
  case Nil
  then show ?case by (cases p) (auto simp: contains_Cons)
next
  case (Cons d x)
  then show ?case using starts_with_append_split [of "d # x" c y p] by (auto simp: contains_Cons)
qed

text \<open>A secret the theorem covers: printable ASCII without brackets, longer than the word in the
  marker, as every key the configuration accepts in an HTTP header is.\<close>

definition token_secret :: "string \<Rightarrow> bool" where
  "token_secret p \<longleftrightarrow>
     8 < length p \<and> list_all (\<lambda>c. 32 < byte c \<and> byte c < 127 \<and> c \<noteq> CHR ''['' \<and> c \<noteq> CHR '']'') p"

lemma token_secretD:
  assumes "token_secret t"
  shows "CHR ''['' \<notin> set t" and "CHR '']'' \<notin> set t" and "CHR '' '' \<notin> set t"
    and "CHR 0xE2 \<notin> set t" and "t \<noteq> []" and "8 < length t"
proof -
  have t: "\<forall>c \<in> set t. 32 < byte c \<and> byte c < 127 \<and> c \<noteq> CHR ''['' \<and> c \<noteq> CHR '']''"
    and len: "8 < length t"
    using assms by (simp_all add: token_secret_def list_all_iff)
  have b: "byte (CHR '' '') = 32" "byte (CHR 0xE2) = 226" by (simp_all add: byte_def)
  show "CHR ''['' \<notin> set t" and "CHR '']'' \<notin> set t" using t by blast+
  show "CHR '' '' \<notin> set t" using t b(1) less_irrefl by metis
  show "CHR 0xE2 \<notin> set t"
  proof
    assume "CHR 0xE2 \<in> set t"
    with t have "byte (CHR 0xE2) < 127" by blast
    with b(2) show False by simp
  qed
  show "8 < length t" by (rule len)
  then show "t \<noteq> []" by (cases t) simp_all
qed

lemma contains_length: "str_contains s p \<Longrightarrow> length p \<le> length s"
  by (auto simp: str_contains_iff)

lemma contains_mark:
  assumes "token_secret t" and "str_contains (redacted_mark @ x) t"
  shows "str_contains x t"
proof -
  have "str_contains ([] @ CHR ''['' # (''REDACTED'' @ CHR '']'' # x)) t"
    using assms(2) by (simp add: redacted_mark_def)
  then have "str_contains (''REDACTED'' @ CHR '']'' # x) t"
    using contains_split [of "[]" "CHR ''[''"] token_secretD [OF assms(1)]
    by (auto simp: contains_Nil)
  then have "str_contains ''REDACTED'' t \<or> str_contains x t"
    using token_secretD [OF assms(1)] by (intro contains_split)
  then show ?thesis
    using contains_length [of "''REDACTED''" t] token_secretD(6) [OF assms(1)] by auto
qed

lemma starts_with_replace_all:
  "r = redacted_mark \<Longrightarrow> starts_with (replace_all s p r) t \<Longrightarrow> CHR ''['' \<notin> set t \<Longrightarrow>
   starts_with s t"
proof (induction s p r arbitrary: t rule: replace_all.induct)
  case (2 c s p r)
  show ?case
  proof (cases t)
    case (Cons d t')
    show ?thesis
    proof (cases "p \<noteq> [] \<and> starts_with (c # s) p")
      case True
      with "2.prems" Cons show ?thesis by (simp add: replace_all_hit redacted_mark_def)
    next
      case False
      with "2.prems" Cons have "c = d" "starts_with (replace_all s p r) t'" "CHR ''['' \<notin> set t'"
        by (simp_all add: replace_all_miss)
      then show ?thesis using "2.IH"(2) [OF False "2.prems"(1)] Cons by simp
    qed
  qed simp
qed simp

lemma contains_replace_all:
  assumes t: "token_secret t"
  shows "r = redacted_mark \<Longrightarrow> str_contains (replace_all s p r) t \<Longrightarrow> str_contains s t"
proof (induction s p r rule: replace_all.induct)
  case (2 c s p r)
  show ?case
  proof (cases "p \<noteq> [] \<and> starts_with (c # s) p")
    case True
    have "str_contains (replace_all (drop (length p) (c # s)) p r) t"
      using "2.prems" contains_mark [OF t] unfolding replace_all_hit [OF True] by blast
    then show ?thesis using "2.IH"(1) [OF True "2.prems"(1)] contains_drop by blast
  next
    case False
    show ?thesis
    proof (cases "starts_with (replace_all (c # s) p r) t")
      case True
      then have "starts_with (c # s) t"
        using starts_with_replace_all [OF "2.prems"(1)] token_secretD(1) [OF t] by blast
      then show ?thesis by (simp only: contains_Cons simp_thms)
    next
      case no: False
      then have "str_contains (replace_all s p r) t"
        using "2.prems"(2) unfolding replace_all_miss [OF False] by (simp only: contains_Cons simp_thms)
      then show ?thesis
        using "2.IH"(2) [OF False "2.prems"(1)] by (simp only: contains_Cons simp_thms)
    qed
  qed
qed simp

lemma replace_all_removes:
  "token_secret t \<Longrightarrow> r = redacted_mark \<Longrightarrow> \<not> str_contains (replace_all s t r) t"
proof (induction s t r rule: replace_all.induct)
  case (1 t r)
  then show ?case using token_secretD(5) [of t] by (simp add: contains_Nil)
next
  case (2 c s t r)
  note ne = token_secretD(5) [OF "2.prems"(1)]
  show ?case
  proof (cases "t \<noteq> [] \<and> starts_with (c # s) t")
    case True
    show ?thesis
      using "2.IH"(1) [OF True "2.prems"] contains_mark [OF "2.prems"(1)] "2.prems"(2)
      unfolding replace_all_hit [OF True] by blast
  next
    case False
    have "\<not> starts_with (replace_all (c # s) t r) t"
      using False ne starts_with_replace_all [OF "2.prems"(2)] token_secretD(1) [OF "2.prems"(1)]
      by blast
    then show ?thesis
      using "2.IH"(2) [OF False "2.prems"] unfolding replace_all_miss [OF False]
      by (simp only: contains_Cons simp_thms)
  qed
qed

lemma redact_exact_keeps_out:
  "token_secret t \<Longrightarrow> \<not> str_contains s t \<Longrightarrow> \<not> str_contains (redact_exact secrets s) t"
  unfolding redact_exact_def
proof (induction secrets arbitrary: s)
  case (Cons p secrets)
  have "\<not> str_contains (replace_all s p redacted_mark) t"
    using contains_replace_all [OF Cons.prems(1) refl] Cons.prems(2) by blast
  with Cons show ?case by simp
qed simp

lemma redact_exact_removes:
  "token_secret t \<Longrightarrow> t \<in> set secrets \<Longrightarrow> \<not> str_contains (redact_exact secrets s) t"
proof (induction secrets arbitrary: s)
  case (Cons p secrets)
  show ?case
  proof (cases "p = t")
    case True
    have "\<not> str_contains (redact_exact secrets (replace_all s t redacted_mark)) t"
      using Cons.prems(1) replace_all_removes [OF _ refl] by (intro redact_exact_keeps_out)
    then show ?thesis using True token_secretD(5) [OF Cons.prems(1)]
      by (simp add: redact_exact_def)
  next
    case False
    with Cons show ?thesis by (simp add: redact_exact_def)
  qed
qed simp

lemma until_ws_prefix: "\<exists>r. s = until_ws s @ r"
  by (induction s) auto

lemma trim_start_suffix: "\<exists>n. trim_start s = drop n s"
proof (induction s rule: trim_start.induct)
  case (1 s)
  show ?case
  proof (cases "ws_len s = 0")
    case True
    then have "trim_start s = drop 0 s" by (simp add: trim_start.simps [of s])
    then show ?thesis by blast
  next
    case False
    with 1 obtain n where "trim_start (drop (ws_len s) s) = drop n (drop (ws_len s) s)" by blast
    with False have "trim_start s = drop (n + ws_len s) s" by (simp add: trim_start.simps [of s])
    then show ?thesis by blast
  qed
qed

lemma split_whitespace_contains:
  "w \<in> set (split_whitespace s) \<Longrightarrow> str_contains w t \<Longrightarrow> str_contains s t"
proof (induction s rule: split_whitespace.induct)
  case (1 s)
  let ?t = "trim_start s"
  obtain n where n: "?t = drop n s" using trim_start_suffix by blast
  from "1.prems"(1) have ne: "?t \<noteq> []" by (auto simp: split_whitespace.simps [of s])
  with "1.prems"(1) consider "w = until_ws ?t"
    | "w \<in> set (split_whitespace (drop (length (until_ws ?t)) ?t))"
    by (auto simp: split_whitespace.simps [of s] Let_def)
  then have "str_contains ?t t"
  proof cases
    case 1
    obtain r where "?t = until_ws ?t @ r" using until_ws_prefix by blast
    then show ?thesis using "1.prems"(2) 1 contains_append_right by metis
  next
    case 2
    then show ?thesis using "1.IH" [OF refl ne] "1.prems"(2) contains_drop by blast
  qed
  then show ?case unfolding n by (rule contains_drop)
qed

lemma sanitize_words_set:
  "w \<in> set (sanitize_words b ws) \<Longrightarrow> w = redacted_mark \<or> w \<in> set ws"
  by (induction b ws rule: sanitize_words.induct) (auto split: if_splits)

lemma join_contains:
  "str_contains (join_with [d] ws) t \<Longrightarrow> d \<notin> set t \<Longrightarrow> t \<noteq> [] \<Longrightarrow> \<exists>w \<in> set ws. str_contains w t"
proof (induction "[d]" ws rule: join_with.induct)
  case (3 w v ws)
  then have "str_contains w t \<or> str_contains (join_with [d] (v # ws)) t"
    using contains_split [of w d "join_with [d] (v # ws)" t] by simp
  with 3 show ?case by auto
qed (auto simp: contains_Nil)

lemma truncate_contains:
  assumes "token_secret t" and "str_contains (truncate_chars s n) t"
  shows "str_contains s t"
proof -
  obtain r where s: "s = take_chars n s @ r" using take_chars_prefix by blast
  have tail: "\<not> str_contains [CHR 0x80, CHR 0xA6] t"
    using contains_length [of "[CHR 0x80, CHR 0xA6]" t] token_secretD(6) [OF assms(1)] by auto
  have "str_contains (take_chars n s) t"
  proof (cases "length (take_chars n s) < length s")
    case True
    with assms(2) have "str_contains (take_chars n s @ CHR 0xE2 # [CHR 0x80, CHR 0xA6]) t"
      by (simp add: truncate_chars_def ellipsis_def Let_def)
    with tail show ?thesis
      using contains_split token_secretD(4,5) [OF assms(1)] by blast
  next
    case False
    with assms(2) show ?thesis by (simp add: truncate_chars_def Let_def)
  qed
  then show ?thesis using s contains_append_right by metis
qed

lemma sanitize_text_removes:
  assumes "secret \<in> set secrets" and "token_secret secret"
  shows "\<not> str_contains (sanitize_text input secrets) secret"
proof
  let ?red = "redact_exact secrets input"
  assume "str_contains (sanitize_text input secrets) secret"
  then have "str_contains (join_with [CHR '' ''] (sanitize_words False (split_whitespace ?red))) secret"
    unfolding sanitize_text_def by (rule truncate_contains [OF assms(2)])
  then obtain w where w: "w \<in> set (sanitize_words False (split_whitespace ?red))"
      "str_contains w secret"
    using join_contains token_secretD(3,5) [OF assms(2)] by blast
  moreover have "\<not> str_contains redacted_mark secret"
    using contains_mark [OF assms(2), of "[]"] token_secretD(5) [OF assms(2)]
    by (auto simp: contains_Nil)
  ultimately have "w \<in> set (split_whitespace ?red)" using sanitize_words_set by blast
  then have "str_contains ?red secret" using w(2) by (rule split_whitespace_contains)
  then show False using redact_exact_removes [OF assms(2,1)] by blast
qed

subsection \<open>JSON bodies\<close>

text \<open>A position in a document, and the value found there.\<close>

datatype json_step = Member string | Item nat

fun json_at :: "json \<Rightarrow> json_step list \<Rightarrow> json option" where
  "json_at v [] = Some v"
| "json_at (JObj kvs) (Member k # p) = Option.bind (map_of kvs k) (\<lambda>v. json_at v p)"
| "json_at (JArr vs) (Item i # p) = (if i < length vs then json_at (vs ! i) p else None)"
| "json_at _ _ = None"

definition open_path :: "json_step list \<Rightarrow> bool" where
  "open_path p \<longleftrightarrow> (\<forall>k. Member k \<in> set p \<longrightarrow> \<not> sensitive_name k)"

lemma map_of_redact_members:
  "map_of (redact_members secrets kvs) k =
     map_option (\<lambda>v. if sensitive_name k then JStr redacted_mark else redact_value secrets v)
       (map_of kvs k)"
  by (induction kvs) auto

lemma redact_items_map: "redact_items secrets vs = map (redact_value secrets) vs"
  by (induction vs) simp_all

lemma json_at_JStr: "json_at (JStr s) p = (if p = [] then Some (JStr s) else None)"
  by (cases p) simp_all

lemma json_at_redact_open:
  "open_path p \<Longrightarrow> json_at (redact_value secrets v) p = map_option (redact_value secrets) (json_at v p)"
proof (induction v p rule: json_at.induct)
  case (2 kvs k p)
  then show ?case
    by (cases "map_of kvs k") (simp_all add: open_path_def map_of_redact_members)
next
  case (3 vs i p)
  then show ?case by (simp add: open_path_def redact_items_map)
qed (simp_all add: json_at_JStr)

lemma json_at_append: "json_at v (p @ q) = Option.bind (json_at v p) (\<lambda>w. json_at w q)"
proof (induction v p rule: json_at.induct)
  case (2 kvs k p)
  then show ?case by (cases "map_of kvs k") simp_all
qed simp_all

text \<open>Sanitised JSON, position by position: outside sensitive members every text is the
  sanitised text and nothing is added or lost; a sensitive member, at any depth and of any type, is
  the marker, and nothing below it is published.\<close>

theorem sanitize_json_positions:
  assumes "open_path p"
  shows "json_at (sanitize_json v secrets) p = map_option (redact_value secrets) (json_at v p)
       \<and> (sensitive_name k \<longrightarrow>
            json_at (sanitize_json v secrets) (p @ Member k # q) =
              (if json_at v (p @ [Member k]) = None \<or> q \<noteq> [] then None
               else Some (JStr redacted_mark)))"
proof -
  have below: "json_at (redact_value secrets w) (Member k # q) =
      (if json_at w [Member k] = None \<or> q \<noteq> [] then None else Some (JStr redacted_mark))"
    if "sensitive_name k" for w
  proof (cases w)
    case (JObj kvs)
    then show ?thesis
      using that by (cases "map_of kvs k") (simp_all add: map_of_redact_members json_at_JStr)
  qed simp_all
  show ?thesis
    unfolding sanitize_json_def json_at_append json_at_redact_open [OF assms]
    using below by (cases "json_at v p") simp_all
qed

lemma sanitize_json_positions_witness:
  "json_at (sanitize_json (JObj [(''nested'', JObj [(''X-Api-Key'', JStr ''abc'')])]) [])
     [Member ''nested'', Member ''X-Api-Key''] = Some (JStr redacted_mark)"
proof -
  have "\<not> sensitive_name ''nested''" "sensitive_name ''X-Api-Key''"
    by (simp_all add: sensitive_name_def rust_simps)
  then show ?thesis
    using sanitize_json_positions [of "[Member ''nested'']"
        "JObj [(''nested'', JObj [(''X-Api-Key'', JStr ''abc'')])]" "[]" "''X-Api-Key''" "[]"]
    by (simp add: open_path_def)
qed

lemma sanitize_json_clean:
  assumes "secret \<in> set secrets" and "token_secret secret"
  shows "json_at (sanitize_json v secrets) p = Some (JStr t) \<Longrightarrow> \<not> str_contains t secret"
  unfolding sanitize_json_def
proof (induction v p rule: json_at.induct)
  case (1 v)
  then show ?case using sanitize_text_removes [OF assms] by (cases v) auto
next
  case (2 kvs k p)
  have "\<not> str_contains redacted_mark secret"
    using contains_mark [OF assms(2), of "[]"] token_secretD(5) [OF assms(2)]
    by (auto simp: contains_Nil)
  with 2 show ?case
    by (cases "map_of kvs k") (auto simp: map_of_redact_members json_at_JStr split: if_splits)
next
  case (3 vs i p)
  then show ?case by (simp add: redact_items_map split: if_splits)
qed (auto simp: json_at_JStr split: if_splits)

lemma redact_members_names: "map fst (redact_members secrets kvs) = map fst kvs"
  by (induction kvs) auto

text \<open>The objects of a sanitised document are those of the document, with the same member names.\<close>

lemma sanitize_json_names:
  "json_at (sanitize_json v secrets) p = Some (JObj kvs) \<Longrightarrow>
     \<exists>original. json_at v p = Some (JObj original) \<and> map fst kvs = map fst original"
  unfolding sanitize_json_def
proof (induction v p rule: json_at.induct)
  case (1 v)
  then show ?case by (cases v) (auto simp: redact_members_names)
next
  case (2 kvs' k p)
  then show ?case
    by (cases "map_of kvs' k") (auto simp: map_of_redact_members json_at_JStr split: if_splits)
next
  case (3 vs i p)
  then show ?case by (simp add: redact_items_map split: if_splits)
qed (auto simp: json_at_JStr split: if_splits)


text \<open>A secret that is a member name passes: only values are redacted.\<close>

lemma member_name_not_redacted:
  "sanitize_json (JObj [(''gateway-token'', JBool True)]) [''gateway-token'']
     = JObj [(''gateway-token'', JBool True)]"
proof -
  have "\<not> sensitive_name ''gateway-token''" by (simp add: sensitive_name_def rust_simps)
  then show ?thesis by (simp add: sanitize_json_def)
qed


subsection \<open>Announced secrets\<close>

lemma trim_word_ends:
  assumes "trim_word w = s @ [c]"
  shows "\<not> is_word_punct c"
proof -
  let ?r = "dropWhile is_word_punct (rev (trim_start_matches is_word_punct w))"
  have "?r = c # rev s" using assms
    by (simp add: trim_word_def trim_end_matches_def rev_swap)
  then show ?thesis using hd_dropWhile [of is_word_punct "rev (trim_start_matches is_word_punct w)"]
    by (metis list.distinct(1) list.sel(1) dropWhile_eq_Nil_conv)
qed

lemma announces_bearer_only:
  "announces_secret word \<longleftrightarrow> to_ascii_lowercase (trim_word word) = ''bearer''"
proof -
  have "to_ascii_lowercase (trim_word word) \<noteq> s @ '':''" for s
  proof
    assume lower: "to_ascii_lowercase (trim_word word) = s @ '':''"
    then obtain u c where u: "trim_word word = u @ [c]" "ascii_lower c = CHR '':''"
      by (cases "trim_word word" rule: rev_cases) (auto simp: to_ascii_lowercase_def)
    have "c = CHR '':''"
      using u(2) byte_set_bit5 [of c]
      by (auto simp: ascii_lower_def is_ascii_upper_def byte_def split: if_splits)
    moreover have "is_word_punct (CHR '':'')" by (simp add: is_word_punct_def)
    ultimately show False using trim_word_ends [OF u(1)] by simp
  qed
  from this [of "''authorization''"] this [of "''x-api-key''"] show ?thesis
    by (simp add: announces_secret_def Let_def)
qed

text \<open>Which words announce a credential: after the surrounding punctuation is cut only
  \<open>bearer\<close> can match, so the word after \<open>Authorization:\<close> or \<open>x-api-key:\<close> is never redacted
  as an announced value, although the filter lists both.\<close>

theorem header_names_announce_nothing:
  "(announces_secret word \<longleftrightarrow> to_ascii_lowercase (trim_word word) = ''bearer'')
   \<and> sanitize_words False [''X-Api-Key:'', ''abc123''] = [''X-Api-Key:'', ''abc123'']"
proof
  show "announces_secret word \<longleftrightarrow> to_ascii_lowercase (trim_word word) = ''bearer''"
    by (rule announces_bearer_only)
  have "\<not> sensitive_word ''X-Api-Key:''" "\<not> sensitive_word ''abc123''"
    by (simp_all add: sensitive_word_def trim_word_def is_word_punct_def sensitive_assignments_def
        looks_like_jwt_def Let_def rust_simps)
  moreover have "\<not> announces_secret ''X-Api-Key:''"
    by (simp add: announces_bearer_only trim_word_def is_word_punct_def rust_simps)
  ultimately show "sanitize_words False [''X-Api-Key:'', ''abc123''] = [''X-Api-Key:'', ''abc123'']"
    by simp
qed

end
