(* ===== verification/Upstream.thy ===== *)
theory Upstream
  imports Key_Pool Redaction
begin

text \<open>
  \<open>src/upstream.rs\<close>: the failover loop of one logical chat request, and any number of such
  requests on the shared pool. The HTTP exchange itself is an input: what an attempt gets back is
  a value of \<open>upstream_reply\<close>. The loop is cut at the points where other requests can run: the
  selection, the verdict after the reply, and the drop of the probe lease.
\<close>

definition MAX_ERROR_BODY_BYTES :: nat where "MAX_ERROR_BODY_BYTES = 64 * 1024"

definition MAX_FREE_MODEL_IDS :: nat where "MAX_FREE_MODEL_IDS = 64"

fun collect_model_ids :: "string list \<Rightarrow> json list \<Rightarrow> string list" where
  "collect_model_ids ids [] = ids"
| "collect_model_ids ids (entry # entries) =
     (case get_str entry ''id'' of
        None \<Rightarrow> collect_model_ids ids entries
      | Some i \<Rightarrow>
          (if i \<noteq> [] \<and> length i \<le> 256 \<and> i \<notin> set ids
           then (if MAX_FREE_MODEL_IDS \<le> length (ids @ [i]) then ids @ [i]
                 else collect_model_ids (ids @ [i]) entries)
           else collect_model_ids ids entries))"

definition parse_free_model_ids :: "json \<Rightarrow> string list" where
  "parse_free_model_ids doc =
     (case Option.bind (json_get doc ''free'') as_array of
        None \<Rightarrow> []
      | Some entries \<Rightarrow> collect_model_ids [] entries)"

text \<open>\<open>read_limited\<close>: the chunks that arrive before the end or an error of the body.\<close>

fun read_limited_from :: "string \<Rightarrow> string list \<Rightarrow> nat \<Rightarrow> string" where
  "read_limited_from out [] limit = out"
| "read_limited_from out (chunk # chunks) limit =
     (let remaining = limit - length out in
      if remaining = 0 then out
      else let out' = out @ take remaining chunk in
        if limit \<le> length out' then out' else read_limited_from out' chunks limit)"

definition read_limited :: "string list \<Rightarrow> nat \<Rightarrow> string" where
  "read_limited chunks limit = read_limited_from [] chunks limit"

fun retry_source_name :: "retry_hint_source \<Rightarrow> string" where
  "retry_source_name RetryAfter = ''retry_after_header''"
| "retry_source_name StructuredJson = ''structured_json''"
| "retry_source_name HumanText = ''human_text''"
| "retry_source_name Fallback = ''fallback''"

definition duration_ceil_secs :: "duration \<Rightarrow> nat" where
  "duration_ceil_secs d = sat_add64 (as_secs d) (if d mod ns_per_sec > 0 then 1 else 0)"

subsection \<open>One logical request\<close>

text \<open>A transport failure, or the response head with the chunks of its body.\<close>

datatype upstream_reply =
    TransportFailure
  | HttpReply nat "string option" "string list"

record upstream_config =
  cf_parse_json :: "string \<Rightarrow> json option"
  cf_parse_http_date :: "string \<Rightarrow> systime option"
  cf_fallback_cooldown :: duration
  cf_exact_secrets :: "string list"

text \<open>The reply of an attempt and the clock readings of the verdict on it.\<close>

record exchange =
  ex_reply :: upstream_reply
  ex_classified_at :: systime
  ex_now :: instant
  ex_wall :: systime
  ex_after :: instant

datatype upstream_response =
    SuccessResponse nat
  | HttpErrorResponse string classified

record upstream_result =
  ur_response :: upstream_response
  ur_selected :: selected_key
  ur_attempt :: nat
  ur_failover_count :: nat

datatype chat_outcome =
    Answered upstream_result
  | TransportError
  | AllRateLimited "duration option"
  | Cancelled

datatype chat_next = TryNext "nat set" | Return chat_outcome

datatype chat_phase =
    Idle
  | Selecting "nat set"
  | Waiting "nat set" selected_key
  | Leaving selected_key chat_next
  | Done chat_outcome

definition select_round ::
  "nat set \<Rightarrow> instant \<Rightarrow> systime \<Rightarrow> instant \<Rightarrow> key_pool \<Rightarrow> chat_phase \<times> key_pool" where
  "select_round attempted now wall after p =
     (case select attempted now wall p of
        (None, q) \<Rightarrow> (Done (AllRateLimited (earliest_retry_after after q)), q)
      | (Some sk, q) \<Rightarrow> (Waiting (insert (sk_index sk) attempted) sk, q))"

definition classify_reply ::
  "upstream_config \<Rightarrow> systime \<Rightarrow> nat \<Rightarrow> string option \<Rightarrow> string \<Rightarrow> classified" where
  "classify_reply cfg wall status retry_after body =
     classify_upstream_response (cf_parse_json cfg) (cf_parse_http_date cfg) wall status retry_after
       body (cf_fallback_cooldown cfg)"

definition chat_result :: "upstream_response \<Rightarrow> selected_key \<Rightarrow> nat set \<Rightarrow> upstream_result" where
  "chat_result response sk attempted =
     \<lparr>ur_response = response, ur_selected = sk, ur_attempt = card attempted,
      ur_failover_count = card attempted - 1\<rparr>"

text \<open>The verdict on an effective 429: the sanitised evidence, its kind, the cooldown, and whether
  every key of the pool was tried by now.\<close>

definition rate_limited_round ::
  "upstream_config \<Rightarrow> exchange \<Rightarrow> retry_hint \<Rightarrow> nat set \<Rightarrow> selected_key \<Rightarrow> key_pool
   \<Rightarrow> chat_next \<times> key_pool" where
  "rate_limited_round cfg x hint attempted sk p =
     (let safe = (\<lambda>text. sanitize_text text (cf_exact_secrets cfg));
          message = map_option safe (rh_message hint);
          model = map_option safe (rh_model hint);
          kind = classify_rate_limit_kind message (rh_duration hint);
          q = snd (mark_http_429 (sk_index sk) (rh_duration hint) kind message model
                (ex_now x) (ex_wall x) p)
      in (if pool_len q \<le> card attempted
          then Return (AllRateLimited (earliest_retry_after (ex_after x) q))
          else TryNext attempted, q))"

definition answer_round ::
  "upstream_config \<Rightarrow> exchange \<Rightarrow> nat set \<Rightarrow> selected_key \<Rightarrow> key_pool \<Rightarrow> chat_next \<times> key_pool" where
  "answer_round cfg x attempted sk p =
     (case ex_reply x of
        TransportFailure \<Rightarrow> (Return TransportError, p)
      | HttpReply status retry_after chunks \<Rightarrow>
          (if is_success status
           then (Return (Answered (chat_result (SuccessResponse status) sk attempted)),
                 mark_success (sk_index sk) (ex_wall x) p)
           else let body = read_limited chunks MAX_ERROR_BODY_BYTES;
                    c = classify_reply cfg (ex_classified_at x) status retry_after body;
                    error = Return (Answered (chat_result (HttpErrorResponse body c) sk attempted))
             in if \<not> is_rate_limited (disposition c) then (error, p)
                else case retry_hint_of c of
                    None \<Rightarrow> (error, p)
                  | Some hint \<Rightarrow> rate_limited_round cfg x hint attempted sk p))"

text \<open>Dropping the lease of a probe at the end of a round, whatever its end was.\<close>

definition leave_round :: "selected_key \<Rightarrow> chat_next \<Rightarrow> key_pool \<Rightarrow> chat_phase \<times> key_pool" where
  "leave_round sk next p =
     (case next of TryNext attempted \<Rightarrow> Selecting attempted | Return outcome \<Rightarrow> Done outcome,
      if sk_is_probe sk then release_probe (sk_index sk) p else p)"

text \<open>The evidence a reply carries.\<close>

definition effective_429 :: "upstream_config \<Rightarrow> exchange \<Rightarrow> bool" where
  "effective_429 cfg x \<longleftrightarrow>
     (case ex_reply x of
        TransportFailure \<Rightarrow> False
      | HttpReply status retry_after chunks \<Rightarrow>
          is_rate_limited (disposition (classify_reply cfg (ex_classified_at x) status retry_after
            (read_limited chunks MAX_ERROR_BODY_BYTES))))"

subsection \<open>Requests on the shared pool\<close>

text \<open>\<open>own r\<close> and \<open>limited\<close> are history: the keys that answered request \<open>r\<close>, or any request,
  with an effective 429.\<close>

record chat_system =
  pool_of :: key_pool
  calls :: "nat \<Rightarrow> chat_phase"
  own :: "nat \<Rightarrow> nat set"
  limited :: "nat set"

definition set_call :: "nat \<Rightarrow> chat_phase \<Rightarrow> key_pool \<Rightarrow> chat_system \<Rightarrow> chat_system" where
  "set_call r ph q s = s\<lparr>pool_of := q, calls := (calls s)(r := ph)\<rparr>"

definition note_limit :: "bool \<Rightarrow> nat \<Rightarrow> nat \<Rightarrow> chat_system \<Rightarrow> chat_system" where
  "note_limit evidence r i s =
     (if evidence then s\<lparr>own := (own s)(r := insert i (own s r)), limited := insert i (limited s)\<rparr>
      else s)"

inductive chat_step :: "upstream_config \<Rightarrow> chat_system \<Rightarrow> chat_system \<Rightarrow> bool"
  for cfg :: upstream_config where
  start: "calls s r = Idle \<Longrightarrow>
    chat_step cfg s (set_call r (Selecting {}) (pool_of s) s)"
| select: "calls s r = Selecting attempted \<Longrightarrow>
    select_round attempted now wall after (pool_of s) = (ph, q) \<Longrightarrow>
    chat_step cfg s (set_call r ph q s)"
| answer: "calls s r = Waiting attempted sk \<Longrightarrow>
    answer_round cfg x attempted sk (pool_of s) = (next, q) \<Longrightarrow>
    chat_step cfg s (note_limit (effective_429 cfg x) r (sk_index sk)
      (set_call r (Leaving sk next) q s))"
| cancel: "calls s r = Waiting attempted sk \<Longrightarrow>
    chat_step cfg s (set_call r (Leaving sk (Return Cancelled)) (pool_of s) s)"
| leave: "calls s r = Leaving sk next \<Longrightarrow>
    leave_round sk next (pool_of s) = (ph, q) \<Longrightarrow>
    chat_step cfg s (set_call r ph q s)"

inductive_cases chat_stepE: "chat_step cfg s t"

definition chat_init :: "key_pool \<Rightarrow> chat_system" where
  "chat_init p =
     \<lparr>pool_of = p, calls = (\<lambda>_. Idle), own = (\<lambda>_. {}),
      limited = {i. i < pool_len p \<and> cooldown_until (runtime (keys p ! i)) \<noteq> None}\<rparr>"

inductive chat_reachable :: "upstream_config \<Rightarrow> key_pool \<Rightarrow> chat_system \<Rightarrow> bool"
  for cfg :: upstream_config and p :: key_pool where
  init: "chat_reachable cfg p (chat_init p)"
| step: "chat_reachable cfg p s \<Longrightarrow> chat_step cfg s t \<Longrightarrow> chat_reachable cfg p t"

subsection \<open>The request on its own\<close>

text \<open>Without other requests the loop is a function: \<open>env n\<close> gives what happens in the round
  after \<open>n\<close> keys were tried. It ends because every round spends a fresh key.\<close>

record round_env =
  re_now :: instant
  re_wall :: systime
  re_after :: instant
  re_exchange :: exchange

lemma select_fresh:
  "select attempted now wall p = (Some sk, q) \<Longrightarrow>
     sk_index sk < pool_len p \<and> sk_index sk \<notin> attempted \<and> pool_len q = pool_len p"
  using select_idents [of attempted now wall p, THEN pool_len_idents]
  by (auto simp: select_choice taken_def take_key_fst dest: choice_SomeD split: option.splits)

lemma pool_len_verdicts [simp]:
  "pool_len (snd (mark_http_429 i d kind msg model now wall p)) = pool_len p"
  "pool_len (mark_success i wall p) = pool_len p"
  "pool_len (release_probe i p) = pool_len p"
  by (rule pool_len_idents; simp)+

lemma rate_limited_round_len [simp]:
  "pool_len (snd (rate_limited_round cfg x hint attempted sk p)) = pool_len p"
  by (simp add: rate_limited_round_def Let_def)

lemma answer_round_len [simp]:
  "pool_len (snd (answer_round cfg x attempted sk p)) = pool_len p"
  by (simp add: answer_round_def Let_def split: upstream_reply.split option.split)

lemma leave_round_len [simp]: "pool_len (snd (leave_round sk next p)) = pool_len p"
  by (simp add: leave_round_def)

lemma answer_round_next:
  "answer_round cfg x attempted sk p = (TryNext again, q) \<Longrightarrow>
     again = attempted \<and> card attempted < pool_len p \<and> effective_429 cfg x"
  by (auto simp: answer_round_def rate_limited_round_def effective_429_def Let_def
      split: upstream_reply.splits option.splits if_splits)

definition chat_round ::
  "upstream_config \<Rightarrow> round_env \<Rightarrow> nat set \<Rightarrow> key_pool \<Rightarrow> (chat_outcome + nat set) \<times> key_pool" where
  "chat_round cfg e attempted p =
     (case select attempted (re_now e) (re_wall e) p of
        (None, q) \<Rightarrow> (Inl (AllRateLimited (earliest_retry_after (re_after e) q)), q)
      | (Some sk, q) \<Rightarrow>
          (case answer_round cfg (re_exchange e) (insert (sk_index sk) attempted) sk q of
             (nxt, q1) \<Rightarrow>
               (case nxt of TryNext again \<Rightarrow> Inr again | Return outcome \<Rightarrow> Inl outcome,
                snd (leave_round sk nxt q1))))"

lemma chat_round_again:
  assumes "chat_round cfg e attempted p = (Inr again, q)"
  shows "\<exists>i < pool_len p. i \<notin> attempted \<and> again = insert i attempted" and "pool_len q = pool_len p"
proof -
  from assms obtain sk q0 where sel: "select attempted (re_now e) (re_wall e) p = (Some sk, q0)"
    by (auto simp: chat_round_def split: prod.splits option.splits)
  obtain nxt q1 where ans:
    "answer_round cfg (re_exchange e) (insert (sk_index sk) attempted) sk q0 = (nxt, q1)"
    by (cases "answer_round cfg (re_exchange e) (insert (sk_index sk) attempted) sk q0")
  have eq: "nxt = TryNext again" "q = snd (leave_round sk nxt q1)"
    using assms sel ans by (auto simp: chat_round_def split: chat_next.splits)
  show "\<exists>i < pool_len p. i \<notin> attempted \<and> again = insert i attempted"
    using select_fresh [OF sel] answer_round_next [of cfg _ _ sk q0 again q1] ans eq by blast
  have "pool_len q1 = pool_len q0" using answer_round_len ans by (metis snd_conv)
  then show "pool_len q = pool_len p" using select_fresh [OF sel] eq by simp
qed

lemma chat_round_measure:
  assumes "chat_round cfg e attempted p = (Inr again, q)"
  shows "card ({..<pool_len q} - again) < card ({..<pool_len p} - attempted)"
proof -
  obtain i where "i < pool_len p" "i \<notin> attempted" "again = insert i attempted"
    using chat_round_again(1) [OF assms] by blast
  then have "{..<pool_len q} - again \<subset> {..<pool_len p} - attempted"
    using chat_round_again(2) [OF assms] by auto
  then show ?thesis by (simp add: psubset_card_mono)
qed

function send_chat ::
  "upstream_config \<Rightarrow> (nat \<Rightarrow> round_env) \<Rightarrow> nat set \<Rightarrow> key_pool \<Rightarrow> chat_outcome \<times> key_pool" where
  "send_chat cfg env attempted p =
     (case chat_round cfg (env (card attempted)) attempted p of
        (Inl outcome, q) \<Rightarrow> (outcome, q)
      | (Inr again, q) \<Rightarrow> send_chat cfg env again q)"
  by pat_completeness auto
termination
  by (relation "measure (\<lambda>(cfg, env, attempted, p). card ({..<pool_len p} - attempted))")
     (simp_all add: chat_round_measure [OF sym])

declare send_chat.simps [simp del]

definition next_chat_round ::
  "upstream_config \<Rightarrow> (nat \<Rightarrow> round_env) \<Rightarrow> nat set \<times> key_pool \<Rightarrow> (nat set \<times> key_pool) option" where
  "next_chat_round cfg env s =
     (case chat_round cfg (env (card (fst s))) (fst s) (snd s) of
        (Inl outcome, q) \<Rightarrow> None
      | (Inr again, q) \<Rightarrow> Some (again, q))"

lemma next_chat_roundD:
  assumes "next_chat_round cfg env s = Some t"
  shows "\<exists>i < pool_len (snd s). i \<notin> fst s \<and> fst t = insert i (fst s)"
    and "pool_len (snd t) = pool_len (snd s)"
  using assms chat_round_again [of cfg _ "fst s" "snd s" "fst t" "snd t"]
  by (auto simp: next_chat_round_def split: prod.splits sum.splits)

interpretation chat: bounded_attempts "next_chat_round cfg env" fst "\<lambda>s. pool_len (snd s)"
    "\<lambda>s. fst s \<subseteq> {..<pool_len (snd s)}" for cfg env
proof unfold_locales
  fix cfg :: upstream_config and env :: "nat \<Rightarrow> round_env" and s t :: "nat set \<times> key_pool"
  assume ok: "fst s \<subseteq> {..<pool_len (snd s)}" and t: "next_chat_round cfg env s = Some t"
  show "fst t \<subseteq> {..<pool_len (snd t)}" using ok next_chat_roundD [OF t] by auto
  show "pool_len (snd t) = pool_len (snd s)" by (rule next_chat_roundD(2) [OF t])
  show "\<exists>i < pool_len (snd s). i \<notin> fst s \<and> fst t = insert i (fst s)"
    by (rule next_chat_roundD(1) [OF t])
qed

lemma send_chat_rounds:
  "chat.rounds cfg env n (attempted, p) = Some (again, q) \<Longrightarrow>
   send_chat cfg env attempted p = send_chat cfg env again q"
proof (induction n arbitrary: attempted p)
  case (Suc n)
  then obtain s where s: "next_chat_round cfg env (attempted, p) = Some s" "chat.rounds cfg env n s = Some (again, q)"
    by (auto split: option.splits)
  then have "send_chat cfg env attempted p = send_chat cfg env (fst s) (snd s)"
    by (subst send_chat.simps) (auto simp: next_chat_round_def split: prod.splits sum.splits)
  with s Suc.IH [of "fst s" "snd s"] show ?case by simp
qed simp

text \<open>C7. The failover loop is bounded: whatever the upstream answers, it goes round at most as often
  as there are keys, each round tries a key of the pool that this request had not tried before,
  and the rounds compute the result of the request.\<close>

theorem send_chat_bounded:
  assumes "chat.rounds cfg env n ({}, p) = Some (attempted, q)"
  shows "n \<le> pool_len p \<and> card attempted = n \<and> attempted \<subseteq> {..<pool_len p}
    \<and> pool_len q = pool_len p
    \<and> send_chat cfg env {} p = send_chat cfg env attempted q"
  using chat.rounds_card [OF _ assms] chat.rounds_bounded [OF _ assms] send_chat_rounds [OF assms] by auto

lemma send_chat_run:
  "chat_reachable cfg p0 s \<Longrightarrow> calls s r = Selecting attempted \<Longrightarrow> pool_of s = p \<Longrightarrow>
   send_chat cfg env attempted p = (outcome, q) \<Longrightarrow>
   \<exists>t. chat_reachable cfg p0 t \<and> calls t r = Done outcome \<and> pool_of t = q"
proof (induction cfg env attempted p arbitrary: s rule: send_chat.induct)
  case (1 cfg env attempted p)
  let ?e = "env (card attempted)"
  show ?case
  proof (cases "select attempted (re_now ?e) (re_wall ?e) p")
    case (Pair osk q0)
    show ?thesis
    proof (cases osk)
      case None
      let ?ph = "Done (AllRateLimited (earliest_retry_after (re_after ?e) q0))"
      have "chat_step cfg s (set_call r ?ph q0 s)"
        using "1.prems"(2,3) Pair None 
        by (intro chat_step.select [where now = "re_now ?e" and wall = "re_wall ?e" and after = "re_after ?e"]) (auto simp: select_round_def)
      moreover have "outcome = AllRateLimited (earliest_retry_after (re_after ?e) q0)" "q = q0"
        using "1.prems"(4) Pair None
        by (auto simp: send_chat.simps [of cfg env attempted] chat_round_def)
      ultimately show ?thesis
        using chat_reachable.step [OF "1.prems"(1)] by (auto simp: set_call_def intro!: exI)
    next
      case (Some sk)
      let ?att = "insert (sk_index sk) attempted"
      let ?s1 = "set_call r (Waiting ?att sk) q0 s"
      have "chat_step cfg s ?s1"
        using "1.prems"(2,3) Pair Some 
        by (intro chat_step.select [where now = "re_now ?e" and wall = "re_wall ?e" and after = "re_after ?e"]) (auto simp: select_round_def)
      then have r1: "chat_reachable cfg p0 ?s1" by (rule chat_reachable.step [OF "1.prems"(1)])
      obtain nxt q1 where ans: "answer_round cfg (re_exchange ?e) ?att sk q0 = (nxt, q1)"
        by (cases "answer_round cfg (re_exchange ?e) ?att sk q0")
      let ?s2 = "note_limit (effective_429 cfg (re_exchange ?e)) r (sk_index sk)
          (set_call r (Leaving sk nxt) q1 ?s1)"
      have "chat_step cfg ?s1 ?s2"
        using ans by (intro chat_step.answer) (auto simp: set_call_def)
      then have r2: "chat_reachable cfg p0 ?s2" by (rule chat_reachable.step [OF r1])
      obtain ph q2 where lv: "leave_round sk nxt q1 = (ph, q2)" by (cases "leave_round sk nxt q1")
      let ?s3 = "set_call r ph q2 ?s2"
      have "chat_step cfg ?s2 ?s3"
        using lv by (intro chat_step.leave) (auto simp: set_call_def note_limit_def)
      then have r3: "chat_reachable cfg p0 ?s3" by (rule chat_reachable.step [OF r2])
      have s3: "calls ?s3 r = ph" "pool_of ?s3 = q2" by (simp_all add: set_call_def)
      have round: "chat_round cfg ?e attempted p =
          (case nxt of TryNext again \<Rightarrow> Inr again | Return outcome \<Rightarrow> Inl outcome, q2)"
        using Pair Some ans lv by (simp add: chat_round_def)
      show ?thesis
      proof (cases "nxt")
        case (TryNext again)
        have "send_chat cfg env again q2 = (outcome, q)"
          using "1.prems"(4) round TryNext by (simp add: send_chat.simps [of cfg env attempted])
        moreover have "ph = Selecting again" using lv TryNext by (simp add: leave_round_def)
        moreover have "(Inr again, q2) = chat_round cfg ?e attempted p" using round TryNext by simp
        ultimately show ?thesis
          using "1.IH" [of "Inr again" q2 again ?s3] r3 s3 by simp
      next
        case (Return outcome')
        have "outcome = outcome'" "q = q2"
          using "1.prems"(4) round Return by (simp_all add: send_chat.simps [of cfg env attempted])
        moreover have "ph = Done outcome'" using lv Return by (simp add: leave_round_def)
        ultimately show ?thesis using r3 s3 by blast
      qed
    qed
  qed
qed

subsection \<open>Invariant of the interleaved requests\<close>

definition outcome_ok :: "nat \<Rightarrow> nat set \<Rightarrow> nat set \<Rightarrow> chat_outcome \<Rightarrow> bool" where
  "outcome_ok n lim mine outcome \<longleftrightarrow>
     (case outcome of
        Answered res \<Rightarrow>
          sk_index (ur_selected res) < n \<and> sk_index (ur_selected res) \<notin> mine
          \<and> ur_attempt res = Suc (card mine) \<and> ur_failover_count res = card mine
      | AllRateLimited _ \<Rightarrow> {..<n} \<subseteq> lim
      | TransportError \<Rightarrow> True
      | Cancelled \<Rightarrow> True)"

fun phase_ok :: "nat \<Rightarrow> nat set \<Rightarrow> nat set \<Rightarrow> chat_phase \<Rightarrow> bool" where
  "phase_ok n lim mine Idle = (mine = {})"
| "phase_ok n lim mine (Selecting A) = (A = mine)"
| "phase_ok n lim mine (Waiting A sk) =
     (sk_index sk < n \<and> sk_index sk \<notin> mine \<and> A = insert (sk_index sk) mine)"
| "phase_ok n lim mine (Leaving sk (TryNext A)) = (A = mine \<and> card A < n)"
| "phase_ok n lim mine (Leaving sk (Return outcome)) = outcome_ok n lim mine outcome"
| "phase_ok n lim mine (Done outcome) = outcome_ok n lim mine outcome"

definition cooled :: "key_pool \<Rightarrow> nat set" where
  "cooled p = {i. i < pool_len p \<and> cooldown_until (runtime (keys p ! i)) \<noteq> None}"

definition chat_inv :: "nat \<Rightarrow> chat_system \<Rightarrow> bool" where
  "chat_inv n s \<longleftrightarrow>
     pool_ok (pool_of s) \<and> pool_len (pool_of s) = n \<and> cooled (pool_of s) \<subseteq> limited s
     \<and> (\<forall>r. own s r \<subseteq> limited s \<and> own s r \<subseteq> {..<n} \<and> phase_ok n (limited s) (own s r) (calls s r))"

lemma outcome_ok_mono: "outcome_ok n lim mine o' \<Longrightarrow> lim \<subseteq> lim' \<Longrightarrow> outcome_ok n lim' mine o'"
  by (auto simp: outcome_ok_def split: chat_outcome.splits)

lemma phase_ok_mono: "phase_ok n lim mine ph \<Longrightarrow> lim \<subseteq> lim' \<Longrightarrow> phase_ok n lim' mine ph"
  by (induction n lim mine ph rule: phase_ok.induct) (auto intro: outcome_ok_mono)

lemma chat_inv_init: "pool_ok p \<Longrightarrow> chat_inv (pool_len p) (chat_init p)"
  by (auto simp: chat_inv_def chat_init_def cooled_def)

text \<open>A step that leaves the history alone, and one that records evidence against key \<open>i\<close>.\<close>

lemma chat_inv_set_call:
  assumes "chat_inv n s" and "pool_ok q" and "pool_len q = n" and "cooled q \<subseteq> cooled (pool_of s)"
    and "phase_ok n (limited s) (own s r) ph"
  shows "chat_inv n (set_call r ph q s)"
  using assms by (auto simp: chat_inv_def set_call_def)

lemma chat_inv_note:
  assumes "chat_inv n s" and "pool_ok q" and "pool_len q = n"
    and "cooled q \<subseteq> insert i (cooled (pool_of s))" and "i < n"
    and "phase_ok n (insert i (limited s)) (insert i (own s r)) ph"
  shows "chat_inv n (note_limit True r i (set_call r ph q s))"
proof -
  have old: "own s r' \<subseteq> limited s" "own s r' \<subseteq> {..<n}" "phase_ok n (limited s) (own s r') (calls s r')" for r'
    using assms(1) by (simp_all add: chat_inv_def)
  have others: "phase_ok n (insert i (limited s)) (own s r') (calls s r')" for r'
    using old(3) by (rule phase_ok_mono) blast
  have "cooled q \<subseteq> insert i (limited s)"
    using assms(1,4) by (auto simp: chat_inv_def)
  moreover have "own s r' \<subseteq> insert i (limited s)" for r' using old(1) by blast
  ultimately show ?thesis
    using assms(2,3,5,6) others old
    by (simp add: chat_inv_def set_call_def note_limit_def)
qed

lemma is_cooling_cooled: "is_cooling p i now \<Longrightarrow> i < pool_len p \<Longrightarrow> i \<in> cooled p"
  by (auto simp: is_cooling_def cooling_at_def cooled_def split: option.splits)

lemma cooled_select: "cooled (snd (select attempted now wall p)) = cooled p"
  using runtime_pool_step(1) [of _ p "OpSelect attempted now wall"]
    pool_len_step [of "OpSelect attempted now wall" p]
  by (auto simp: cooled_def verdict_def)

lemma cooled_release: "cooled (release_probe i p) = cooled p"
  by (auto simp: cooled_def release_probe_def runtime_update_key split: if_splits)

lemma cooled_success: "cooled (mark_success i wall p) \<subseteq> cooled p"
  by (auto simp: cooled_def mark_success_def runtime_update_key split: if_splits)

lemma cooled_429: "cooled (snd (mark_http_429 i d kind msg model now wall p)) \<subseteq> insert i (cooled p)"
  using runtime_pool_step(1) [of _ p "OpMark429 i d kind msg model now wall"]
  by (auto simp: cooled_def verdict_def)

lemmas pool_ok_ops = pool_step_ok [of _ "OpSelect attempted now wall" for attempted now wall, simplified]
  pool_step_ok [of _ "OpSuccess i wall" for i wall, simplified]
  pool_step_ok [of _ "OpRelease i" for i, simplified]
  pool_step_ok [of _ "OpMark429 i d kind msg model now wall" for i d kind msg model now wall, simplified]

lemma chat_inv_select:
  assumes inv: "chat_inv n s" and call: "calls s r = Selecting attempted"
    and round: "select_round attempted now wall after (pool_of s) = (ph, q)"
  shows "chat_inv n (set_call r ph q s)"
proof -
  obtain osk q' where sel: "select attempted now wall (pool_of s) = (osk, q')"
    by (cases "select attempted now wall (pool_of s)")
  have q: "q = q'" using round sel by (auto simp: select_round_def split: option.splits)
  have n: "pool_len (pool_of s) = n" and mine: "attempted = own s r" "own s r \<subseteq> limited s"
      and cool: "cooled (pool_of s) \<subseteq> limited s" and ok: "pool_ok (pool_of s)"
    using inv call by (auto simp: chat_inv_def dest: spec [of _ r])
  have "phase_ok n (limited s) (own s r) ph"
  proof (cases osk)
    case None
    then have "choice attempted now (pool_of s) = None"
      using sel by (auto simp: select_choice taken_def split: option.splits)
    then have "\<forall>i < n. i \<in> attempted \<or> is_cooling (pool_of s) i now"
      using n by (simp only: choice_None_iff)
    then have "i \<in> limited s" if "i < n" for i
      using that mine cool n is_cooling_cooled [of "pool_of s" i now] by blast
    then have "{..<n} \<subseteq> limited s" by blast
    then show ?thesis using round sel None by (auto simp: select_round_def outcome_ok_def)
  next
    case (Some sk)
    then show ?thesis
      using round sel mine n select_fresh [of attempted now wall "pool_of s" sk q']
      by (auto simp: select_round_def)
  qed
  moreover have "pool_ok q" "pool_len q = n" "cooled q = cooled (pool_of s)"
    using pool_ok_ops(1) [OF ok, of attempted now wall] n q sel
      cooled_select [of attempted now wall "pool_of s"]
      select_idents [of attempted now wall "pool_of s", THEN pool_len_idents] by simp_all
  ultimately show ?thesis using inv by (intro chat_inv_set_call) simp_all
qed

lemma outcome_answered:
  assumes "A = insert (sk_index sk) mine" and "sk_index sk \<notin> mine" and "sk_index sk < n"
    and "mine \<subseteq> {..<n}"
  shows "outcome_ok n lim mine (Answered (chat_result response sk A))"
proof -
  have "finite mine" using assms(4) by (rule finite_subset) simp
  then show ?thesis using assms by (simp add: outcome_ok_def chat_result_def)
qed

text \<open>What a verdict without evidence does to the pool.\<close>

lemma answer_round_plain:
  assumes "answer_round cfg x A sk p = (nxt, q)" and "\<not> effective_429 cfg x"
  shows "(q = p \<or> q = mark_success (sk_index sk) (ex_wall x) p)
    \<and> (nxt = Return TransportError \<or> (\<exists>response. nxt = Return (Answered (chat_result response sk A))))"
  using assms
  by (auto simp: answer_round_def effective_429_def Let_def
      split: upstream_reply.splits if_splits)

lemma answer_round_429:
  assumes "answer_round cfg x A sk p = (nxt, q)" and "effective_429 cfg x"
  shows "\<exists>hint. rate_limited_round cfg x hint A sk p = (nxt, q)"
  using assms
  by (auto simp: answer_round_def effective_429_def Let_def classify_reply_def classify_simps is_success_def
      split: upstream_reply.splits if_splits)

lemma chat_inv_answer:
  assumes inv: "chat_inv n s" and call: "calls s r = Waiting A sk"
    and round: "answer_round cfg x A sk (pool_of s) = (nxt, q)"
  shows "chat_inv n (note_limit (effective_429 cfg x) r (sk_index sk) (set_call r (Leaving sk nxt) q s))"
proof -
  have n: "pool_len (pool_of s) = n" and ok: "pool_ok (pool_of s)"
      and mine: "A = insert (sk_index sk) (own s r)" "sk_index sk \<notin> own s r" "sk_index sk < n"
        "own s r \<subseteq> {..<n}" "own s r \<subseteq> limited s"
    using inv call by (auto simp: chat_inv_def dest: spec [of _ r])
  show ?thesis
  proof (cases "effective_429 cfg x")
    case False
    note plain = answer_round_plain [OF round False]
    have "chat_inv n (set_call r (Leaving sk nxt) q s)"
    proof (rule chat_inv_set_call [OF inv])
      show "pool_ok q" "pool_len q = n" "cooled q \<subseteq> cooled (pool_of s)"
        using plain ok n pool_ok_ops(2) by (auto dest: subsetD [OF cooled_success])
      show "phase_ok n (limited s) (own s r) (Leaving sk nxt)"
        using plain outcome_answered [OF mine(1-4)] by (auto simp: outcome_ok_def [of _ _ _ TransportError])
    qed
    with False show ?thesis by (simp add: note_limit_def)
  next
    case True
    obtain hint where rl: "rate_limited_round cfg x hint A sk (pool_of s) = (nxt, q)"
      using answer_round_429 [OF round True] by blast
    have A: "A \<subseteq> {..<n}" "finite A" using mine(1,3,4) finite_subset by auto
    have "chat_inv n (note_limit True r (sk_index sk) (set_call r (Leaving sk nxt) q s))"
    proof (rule chat_inv_note [OF inv])
      show "pool_ok q" "pool_len q = n" "cooled q \<subseteq> insert (sk_index sk) (cooled (pool_of s))"
        using rl ok n pool_ok_ops(4)
        by (auto simp: rate_limited_round_def Let_def dest: subsetD [OF cooled_429])
      show "sk_index sk < n" by (rule mine(3))
      have "A = {..<n}" if "n \<le> card A"
        using A(1) that by (intro card_seteq) simp_all
      then show "phase_ok n (insert (sk_index sk) (limited s)) (insert (sk_index sk) (own s r))
          (Leaving sk nxt)"
        using rl n mine by (auto simp: rate_limited_round_def Let_def outcome_ok_def)
    qed
    with True show ?thesis by simp
  qed
qed

lemma chat_inv_step:
  assumes inv: "chat_inv n s" and "chat_step cfg s t"
  shows "chat_inv n t"
  using assms(2)
proof (cases rule: chat_step.cases)
  case (start r)
  with inv show ?thesis by (auto simp: chat_inv_def set_call_def dest: spec [of _ r])
next
  case (select r attempted now wall "after" ph q)
  with inv chat_inv_select show ?thesis by blast
next
  case (answer r attempted sk x nxt q)
  with inv chat_inv_answer show ?thesis by blast
next
  case (cancel r attempted sk)
  with inv show ?thesis by (auto simp: chat_inv_def set_call_def outcome_ok_def)
next
  case (leave r sk nxt ph q)
  have ok: "pool_ok (pool_of s)" and n: "pool_len (pool_of s) = n"
      and lv: "phase_ok n (limited s) (own s r) (Leaving sk nxt)"
    using inv leave(2) by (auto simp: chat_inv_def dest: spec [of _ r])
  have "chat_inv n (set_call r ph q s)"
  proof (rule chat_inv_set_call [OF inv])
    show "pool_ok q" "pool_len q = n" "cooled q \<subseteq> cooled (pool_of s)"
      using leave(3) ok n pool_ok_ops(3) by (auto simp: leave_round_def cooled_release split: if_splits)
    show "phase_ok n (limited s) (own s r) ph"
      using leave(3) lv by (auto simp: leave_round_def split: chat_next.splits)
  qed
  with leave(1) show ?thesis by simp
qed

lemma chat_reachable_inv:
  "chat_reachable cfg p s \<Longrightarrow> pool_ok p \<Longrightarrow> chat_inv (pool_len p) s"
  by (induction rule: chat_reachable.induct) (auto intro: chat_inv_init chat_inv_step)


subsection \<open>Routing under concurrency\<close>

text \<open>What a step does to the active key.\<close>

lemma active_leave: "active (snd (leave_round sk nxt p)) = active p"
  by (simp add: leave_round_def release_probe_def)

lemma active_answer:
  assumes "pool_ok p" and "answer_round cfg x A sk p = (nxt, q)" and "active q \<noteq> active p"
  shows "effective_429 cfg x \<and> active p = sk_index sk"
proof -
  have ev: "effective_429 cfg x"
  proof (rule ccontr)
    assume "\<not> effective_429 cfg x"
    from answer_round_plain [OF assms(2) this] assms(3) show False
      by (auto simp: mark_success_def)
  qed
  then obtain hint where "rate_limited_round cfg x hint A sk p = (nxt, q)"
    using answer_round_429 [OF assms(2)] by blast
  then obtain d kind msg model now wall where
    q: "q = pool_step (OpMark429 (sk_index sk) d kind msg model now wall) p"
    by (auto simp: rate_limited_round_def Let_def)
  have "may_move p (OpMark429 (sk_index sk) d kind msg model now wall)"
    using active_moves [OF assms(1)] assms(3) q by blast
  with ev show ?thesis by (simp add: may_move_def)
qed

lemma active_select_round:
  assumes "pool_ok p" and "select_round A now wall after p = (ph, q)" and "active q \<noteq> active p"
  shows "active p \<in> A \<union> cooled p"
proof -
  have q: "q = pool_step (OpSelect A now wall) p"
    using assms(2) by (auto simp: select_round_def split: prod.splits option.splits)
  have move: "may_move p (OpSelect A now wall)"
    using active_moves [OF assms(1)] assms(3) q by blast
  have "0 < pool_len p"
  proof (rule ccontr)
    assume "\<not> 0 < pool_len p"
    then show False using assms(3) q by (simp add: select_def)
  qed
  then have act: "active p < pool_len p" and pr: "probe_ok (runtime (keys p ! active p))"
    using assms(1) by (auto simp: pool_ok_def pool_len_def)
  show ?thesis
  proof (cases "active p \<in> A")
    case False
    with move consider "is_cooling p (active p) now" | "probe_in_flight (runtime (keys p ! active p))"
      by (auto simp: may_move_def)
    then have "active p \<in> cooled p"
      using act pr is_cooling_cooled by cases (auto simp: probe_ok_def cooled_def)
    then show ?thesis by blast
  qed simp
qed

lemma chat_inv_own:
  assumes "chat_inv n s" and "calls s r = Selecting A"
  shows "A \<subseteq> limited s"
proof -
  have "own s r \<subseteq> limited s" "phase_ok n (limited s) (own s r) (calls s r)"
    using assms(1) by (simp_all add: chat_inv_def)
  with assms(2) show ?thesis by simp
qed

text \<open>A selection that takes another key than the active one may not use the active one: this request has
  tried it, or it is cooling, or another request's probe of it is still out.\<close>

lemma select_round_moves:
  assumes "pool_ok p" and "select_round A now wall after p = (ph, q)" and "active q \<noteq> active p"
  shows "(\<exists>sk. ph = Waiting (insert (sk_index sk) A) sk \<and> active q = sk_index sk)
    \<and> (active p \<in> A \<or> is_cooling p (active p) now \<or> probe_in_flight (runtime (keys p ! active p)))"
proof -
  have q: "q = pool_step (OpSelect A now wall) p"
    using assms(2) by (auto simp: select_round_def split: prod.splits option.splits)
  have "may_move p (OpSelect A now wall)" using active_moves [OF assms(1)] assms(3) q by blast
  then have why: "active p \<in> A \<or> is_cooling p (active p) now \<or> probe_in_flight (runtime (keys p ! active p))"
    by (simp add: may_move_def)
  obtain i where i: "choice A now p = Some i"
    using assms(3) q by (cases "choice A now p") (simp_all add: select_choice)
  have "active p mod pool_len p = active p"
    using choice_SomeD(1) [OF i] by (intro pool_ok_active [OF assms(1)]) simp
  then have sel: "select A now wall p = (Some (fst (take_key i (active p) now wall p)), snd (take_key i (active p) now wall p))"
    using i by (simp add: select_choice taken_def)
  moreover have after: "active (snd (take_key i (active p) now wall p)) = (if i = active p then active p else i)"
    by (simp add: take_key_def Let_def set_active_def)
  ultimately have "\<exists>sk. ph = Waiting (insert (sk_index sk) A) sk \<and> active q = sk_index sk"
    using assms(2) by (auto simp: select_round_def take_key_fst)
  with why show ?thesis by blast
qed


text \<open>C2. Why a request uses more than one key, and what it returns. While a request waits for a
  reply, every other key it has tried answered this very request with an effective 429, and it has
  tried no more keys than there are. When it returns a response, its attempt number is one more
  than the number of those 429s and the responding key is none of them; it reports that all keys
  are rate-limited only if every key of the pool has been limited.\<close>

theorem failover_evidence:
  assumes "pool_ok p" and "chat_reachable cfg p s"
  shows "(calls s r = Waiting A sk \<longrightarrow>
            A - {sk_index sk} = own s r \<and> sk_index sk < pool_len p \<and> card A \<le> pool_len p)
    \<and> (calls s r = Done (Answered res) \<longrightarrow>
            sk_index (ur_selected res) < pool_len p \<and> sk_index (ur_selected res) \<notin> own s r
            \<and> ur_attempt res = Suc (card (own s r)) \<and> ur_failover_count res = card (own s r))
    \<and> (calls s r = Done (AllRateLimited d) \<longrightarrow> {..<pool_len p} \<subseteq> limited s)"
proof -
  let ?n = "pool_len p"
  have "chat_inv ?n s" using assms by (intro chat_reachable_inv)
  then have ph: "phase_ok ?n (limited s) (own s r) (calls s r)" and mine: "own s r \<subseteq> {..<?n}"
    by (simp_all add: chat_inv_def)
  have "A - {sk_index sk} = own s r \<and> sk_index sk < ?n \<and> card A \<le> ?n" if "calls s r = Waiting A sk"
  proof -
    have A: "sk_index sk < ?n" "sk_index sk \<notin> own s r" "A = insert (sk_index sk) (own s r)"
      using ph that by simp_all
    then have "A \<subseteq> {..<?n}" using mine by blast
    then have "card A \<le> ?n" using card_mono [of "{..<?n}" A] by simp
    with A show ?thesis by blast
  qed
  moreover have ret: "outcome_ok ?n (limited s) (own s r) outcome" if "calls s r = Done outcome"
    for outcome
    using ph that by simp
  ultimately show ?thesis
    using ret [of "Answered res"] ret [of "AllRateLimited d"] by (simp add: outcome_ok_def)
qed

text \<open>The interleaved system contains the loop: from the start of the system, one request that runs alone
  is a run of the system that ends with the outcome and the pool of \<open>send_chat\<close>, so that every invariant
  above holds for it.\<close>

theorem send_chat_refines:
  assumes "send_chat cfg env {} p = (outcome, q)"
  shows "\<exists>t. chat_reachable cfg p t \<and> calls t r = Done outcome \<and> pool_of t = q"
proof -
  have "chat_step cfg (chat_init p) (set_call r (Selecting {}) p (chat_init p))"
    using chat_step.start [of "chat_init p" r cfg] by (simp add: chat_init_def)
  then have "chat_reachable cfg p (set_call r (Selecting {}) p (chat_init p))"
    by (rule chat_reachable.step [OF chat_reachable.init])
  from send_chat_run [OF this _ _ assms] show ?thesis by (simp add: set_call_def)
qed

text \<open>The verdict on a reply without an effective 429: the request ends with this round, no key
  gets a cooldown, loses its probe eligibility by a 429 or stops being active; a transport failure
  leaves the pool untouched and a 2xx reply is the only one that clears a cooldown.\<close>

theorem other_replies_never_rotate:
  assumes "\<not> effective_429 cfg x" and "answer_round cfg x A sk p = (nxt, q)"
  shows "(\<exists>outcome. nxt = Return outcome) \<and> active q = active p \<and> switch_log q = switch_log p
    \<and> cooled q \<subseteq> cooled p
    \<and> (q \<noteq> p \<longrightarrow> (\<exists>status ra chunks. ex_reply x = HttpReply status ra chunks \<and> is_success status))"
proof -
  have "\<exists>status ra chunks. ex_reply x = HttpReply status ra chunks \<and> is_success status" if "q \<noteq> p"
    using assms that
    by (auto simp: answer_round_def effective_429_def Let_def split: upstream_reply.splits if_splits)
  moreover have "cooled q \<subseteq> cooled p" "active q = active p" "switch_log q = switch_log p"
    "\<exists>outcome. nxt = Return outcome"
    using answer_round_plain [OF assms(2,1)] cooled_success by (auto simp: mark_success_def)
  ultimately show ?thesis by blast
qed

subsection \<open>A concrete run\<close>

text \<open>The first request selects the first of two keys and gets a bare 429.\<close>

definition demo_cfg :: upstream_config where
  "demo_cfg = \<lparr>cf_parse_json = (\<lambda>_. None), cf_parse_http_date = (\<lambda>_. None),
     cf_fallback_cooldown = 60, cf_exact_secrets = []\<rparr>"

definition demo_429 :: exchange where
  "demo_429 = \<lparr>ex_reply = HttpReply 429 None [], ex_classified_at = 2, ex_now = 2, ex_wall = 2,
     ex_after = 2\<rparr>"

definition demo_key :: selected_key where "demo_key = fst (take_key 0 0 5 5 demo_pool)"
definition demo_taken :: key_pool where "demo_taken = snd (take_key 0 0 5 5 demo_pool)"

definition demo_waiting :: chat_system where
  "demo_waiting = set_call 0 (Waiting {0} demo_key) demo_taken
     (set_call 0 (Selecting {}) demo_pool (chat_init demo_pool))"

lemma demo_select: "select {} 5 5 demo_pool = (Some demo_key, demo_taken)"
proof -
  have "choice {} 5 demo_pool = Some 0"
    using demo_candidate [of 5]
    by (simp add: choice_def scan_order_def upt_conv_Cons)
  then show ?thesis by (simp add: select_choice taken_def demo_key_def demo_taken_def)
qed

lemma demo_key_index [simp]: "sk_index demo_key = 0"
  by (simp add: demo_key_def take_key_fst)

lemma demo_waiting_reachable: "chat_reachable demo_cfg demo_pool demo_waiting"
proof -
  let ?s1 = "set_call 0 (Selecting {}) demo_pool (chat_init demo_pool)"
  have "chat_step demo_cfg (chat_init demo_pool) ?s1"
    using chat_step.start [of "chat_init demo_pool" 0 demo_cfg] by (simp add: chat_init_def)
  then have 1: "chat_reachable demo_cfg demo_pool ?s1"
    by (rule chat_reachable.step [OF chat_reachable.init])
  have "chat_step demo_cfg ?s1 demo_waiting"
    unfolding demo_waiting_def
    by (rule chat_step.select [where attempted = "{}" and now = 5 and wall = 5 and after = 5])
       (simp_all add: set_call_def select_round_def demo_select)
  then show ?thesis by (rule chat_reachable.step [OF 1])
qed

lemma demo_effective: "effective_429 demo_cfg demo_429"
  by (simp add: effective_429_def demo_429_def classify_reply_def classify_simps is_success_def)

lemma demo_taken_ok: "pool_ok demo_taken"
  using pool_ok_select [OF demo_pool_ok, of "{}" 5 5] by (simp add: demo_select)
lemma demo_taken_len: "pool_len demo_taken = 2"
  using select_fresh [OF demo_select] by simp
lemma demo_taken_active: "active demo_taken = 0"
  by (simp add: demo_taken_def take_key_active)

lemma mark_active_moves:
  assumes "active p = i" and "pool_len p = 2" and "i = 0"
    and "\<not> cooling_at now (runtime (keys p ! 1))" and "\<not> probe_in_flight (runtime (keys p ! 1))"
  shows "active (snd (mark_http_429 i d kind msg model now wall p)) = 1"
  using assms by (simp add: mark_http_429_def advance_if_active_def Let_def is_eligible_for_advance_def
     keys_update_key upt_conv_Cons)
lemma demo_second: "\<not> cooling_at t (runtime (keys demo_taken ! 1)) \<and> \<not> probe_in_flight (runtime (keys demo_taken ! 1))"
  using take_key_runtime [of 1 demo_pool 0 0 5 5] 
  by (simp add: demo_taken_def demo_pool_def demo_config_def pool_eval)

definition demo_limited :: chat_system where
  "demo_limited = note_limit True 0 0 (set_call 0
     (Leaving demo_key (fst (answer_round demo_cfg demo_429 {0} demo_key demo_taken)))
     (snd (answer_round demo_cfg demo_429 {0} demo_key demo_taken)) demo_waiting)"

lemma demo_step: "chat_step demo_cfg demo_waiting demo_limited"
  using chat_step.answer [of demo_waiting 0 "{0}" demo_key demo_cfg demo_429] demo_effective
  by (simp add: demo_limited_def demo_waiting_def set_call_def)

lemma demo_active: "active (pool_of demo_limited) = 1"
proof -
  obtain hint where "rate_limited_round demo_cfg demo_429 hint {0} demo_key demo_taken =
      (fst (answer_round demo_cfg demo_429 {0} demo_key demo_taken), snd (answer_round demo_cfg demo_429 {0} demo_key demo_taken))"
    using answer_round_429 [OF _ demo_effective] by (metis prod.collapse)
  then have "snd (answer_round demo_cfg demo_429 {0} demo_key demo_taken) = snd (rate_limited_round demo_cfg demo_429 hint {0} demo_key demo_taken)"
    by (metis snd_conv)
  then show ?thesis
    using mark_active_moves [OF demo_taken_active demo_taken_len] demo_second
    by (simp add: demo_limited_def note_limit_def set_call_def rate_limited_round_def Let_def)
qed


lemma failover_evidence_witness:
  "{0} - {sk_index demo_key} = own demo_waiting 0 \<and> card {0 :: nat} \<le> pool_len demo_pool"
  using failover_evidence [OF demo_pool_ok demo_waiting_reachable, of 0 "{0}" demo_key]
  by (simp add: demo_waiting_def set_call_def)

definition demo_env :: "nat \<Rightarrow> round_env" where
  "demo_env n = \<lparr>re_now = 5, re_wall = 5, re_after = 6, re_exchange = demo_429\<rparr>"

lemma demo_answer: "\<exists>q. answer_round demo_cfg demo_429 {0} demo_key demo_taken = (TryNext {0}, q)"
proof -
  obtain nxt q where ans: "answer_round demo_cfg demo_429 {0} demo_key demo_taken = (nxt, q)"
    by (cases "answer_round demo_cfg demo_429 {0} demo_key demo_taken")
  then obtain hint where "rate_limited_round demo_cfg demo_429 hint {0} demo_key demo_taken = (nxt, q)"
    using answer_round_429 [OF _ demo_effective] by blast
  then have "nxt = TryNext {0}"
    by (auto simp: rate_limited_round_def Let_def demo_taken_len split: if_splits)
  with ans show ?thesis by blast
qed

lemma demo_round: "\<exists>q. chat.rounds demo_cfg demo_env (Suc 0) ({}, demo_pool) = Some ({0}, q)"
  using demo_answer
  by (auto simp: next_chat_round_def chat_round_def demo_env_def demo_select chat.rounds.simps)

lemma send_chat_bounded_witness:
  "Suc 0 \<le> pool_len demo_pool \<and> card {0 :: nat} = Suc 0 \<and> {0} \<subseteq> {..<pool_len demo_pool}"
  using demo_round send_chat_bounded by blast

lemma send_chat_refines_witness:
  "\<exists>t. chat_reachable demo_cfg demo_pool t
     \<and> calls t 0 = Done (fst (send_chat demo_cfg demo_env {} demo_pool))"
  using send_chat_refines [of demo_cfg demo_env demo_pool _ _ 0] by (metis prod.collapse)

lemma other_replies_never_rotate_witness:
  "active (snd (answer_round demo_cfg (demo_429\<lparr>ex_reply := TransportFailure\<rparr>) {0} demo_key demo_taken)) = 0"
  using other_replies_never_rotate [of demo_cfg "demo_429\<lparr>ex_reply := TransportFailure\<rparr>" "{0}"
      demo_key demo_taken "Return TransportError" demo_taken]
  by (simp add: effective_429_def answer_round_def demo_taken_active)

subsection \<open>Small routines\<close>

lemma read_limited_from_take:
  "length out \<le> limit \<Longrightarrow> read_limited_from out chunks limit = take limit (out @ concat chunks)"
proof (induction out chunks limit rule: read_limited_from.induct)
  case (2 out chunk chunks limit)
  then show ?case by (auto simp: Let_def)
qed simp

lemma collect_ids_distinct: "distinct ids \<Longrightarrow> distinct (collect_model_ids ids entries)"
  by (induction ids entries rule: collect_model_ids.induct) (simp_all split: option.split)

lemma collect_ids_length:
  "length ids < MAX_FREE_MODEL_IDS \<Longrightarrow> length (collect_model_ids ids entries) \<le> MAX_FREE_MODEL_IDS"
proof (induction ids entries rule: collect_model_ids.induct)
  case (2 ids entry entries)
  then show ?case by (cases "get_str entry ''id''") simp_all
qed simp

lemma collect_ids_set:
  "set (collect_model_ids ids entries) \<subseteq>
     set ids \<union> {i. i \<noteq> [] \<and> length i \<le> 256 \<and> (\<exists>e \<in> set entries. get_str e ''id'' = Some i)}"
proof (induction ids entries rule: collect_model_ids.induct)
  case (2 ids entry entries)
  show ?case
  proof (cases "get_str entry ''id''")
    case None
    then show ?thesis using "2.IH"(1) by fastforce
  next
    case (Some i)
    show ?thesis
    proof (cases "i \<noteq> [] \<and> length i \<le> 256 \<and> i \<notin> set ids")
      case True
      show ?thesis
      proof (cases "MAX_FREE_MODEL_IDS \<le> length (ids @ [i])")
        case full: True
        then show ?thesis using Some True by simp
      next
        case False
        have "set (collect_model_ids (ids @ [i]) entries) \<subseteq> set (ids @ [i]) \<union>
            {i. i \<noteq> [] \<and> length i \<le> 256 \<and> (\<exists>e \<in> set entries. get_str e ''id'' = Some i)}"
          using "2.IH"(2) Some True False by blast
        then show ?thesis using Some True False by fastforce
      qed
    next
      case False
      then have "set (collect_model_ids ids entries) \<subseteq> set ids \<union>
          {i. i \<noteq> [] \<and> length i \<le> 256 \<and> (\<exists>e \<in> set entries. get_str e ''id'' = Some i)}"
        using "2.IH"(3) Some by blast
      moreover have "collect_model_ids ids (entry # entries) = collect_model_ids ids entries"
        using Some False by auto
      ultimately show ?thesis by auto
    qed
  qed
qed simp

text \<open>The free-model list that a refresh accepts: distinct names of 1 to 256 bytes, at most 64 of
  them, every one of them an \<open>id\<close> text of an entry of \<open>free\<close>; the error body that a verdict reads is
  exactly the first 64 KiB of the stream.\<close>

theorem upstream_documents_bounded:
  "distinct (parse_free_model_ids doc) \<and> length (parse_free_model_ids doc) \<le> 64
   \<and> (\<forall>i \<in> set (parse_free_model_ids doc). i \<noteq> [] \<and> length i \<le> 256
        \<and> (\<exists>es. \<exists>e \<in> set es. json_get doc ''free'' = Some (JArr es) \<and> get_str e ''id'' = Some i))
   \<and> read_limited chunks limit = take limit (concat chunks)"
proof -
  have "\<exists>es. json_get doc ''free'' = Some (JArr es) \<and> parse_free_model_ids doc = collect_model_ids [] es"
    if "parse_free_model_ids doc \<noteq> []"
  proof (cases "Option.bind (json_get doc ''free'') as_array")
    case None
    with that show ?thesis by (simp add: parse_free_model_ids_def)
  next
    case (Some es)
    then obtain v where "json_get doc ''free'' = Some v" "as_array v = Some es"
      by (auto simp: bind_eq_Some_conv)
    with Some show ?thesis by (cases v) (auto simp: parse_free_model_ids_def)
  qed
  moreover have "read_limited chunks limit = take limit (concat chunks)"
    using read_limited_from_take [of "[]" limit chunks] by (simp add: read_limited_def)
  moreover have "length (collect_model_ids [] es) \<le> 64" for es
    using collect_ids_length [of "[]" es] by (simp add: MAX_FREE_MODEL_IDS_def)
  ultimately show ?thesis
    using collect_ids_distinct [of "[]"] collect_ids_set [of "[]"]
    by (cases "parse_free_model_ids doc = []") (simp, fastforce)
qed

lemma upstream_documents_bounded_witness:
  "parse_free_model_ids (JObj [(''free'', JArr [JObj [(''id'', JStr ''m'')]])]) = [''m'']
   \<and> (\<exists>es. \<exists>e \<in> set es. json_get (JObj [(''free'', JArr [JObj [(''id'', JStr ''m'')]])]) ''free''
        = Some (JArr es) \<and> get_str e ''id'' = Some ''m'')"
proof -
  have ids: "parse_free_model_ids (JObj [(''free'', JArr [JObj [(''id'', JStr ''m'')]])]) = [''m'']"
    by (simp add: parse_free_model_ids_def get_str_def MAX_FREE_MODEL_IDS_def)
  with upstream_documents_bounded [of "JObj [(''free'', JArr [JObj [(''id'', JStr ''m'')]])]"]
  show ?thesis by (metis list.set_intros(1))
qed

end
