(* ===== verification/Web_Search.thy ===== *)
theory Web_Search
  imports Upstream "HOL-Library.Sublist"
begin

text \<open>
  The web-search server tool: the protocol half of \<open>src/websearch.rs\<close> and the search request
  of \<open>src/upstream.rs\<close>. The JSON parser and printer and the upstream's replies are parameters.
  A panic of the code is \<open>None\<close>.
\<close>

definition FUNCTION_NAME :: string where "FUNCTION_NAME = ''web_search''"
definition MAX_WEB_SEARCH_USES_PER_REQUEST :: nat where "MAX_WEB_SEARCH_USES_PER_REQUEST = 5"
definition MAX_INTERNAL_GENERATION_ROUNDS :: nat where "MAX_INTERNAL_GENERATION_ROUNDS = 8"
definition MAX_SEARCH_RESPONSE_BYTES :: nat where "MAX_SEARCH_RESPONSE_BYTES = 256 * 1024"
definition MAX_GROUNDING_BYTES :: nat where "MAX_GROUNDING_BYTES = 32 * 1024"
definition MAX_SEARCH_RESULTS :: nat where "MAX_SEARCH_RESULTS = 10"
definition MAX_QUERY_CHARS :: nat where "MAX_QUERY_CHARS = 512"

datatype web_search_version = V20250305 | V20260209 | V20260318

fun type_str :: "web_search_version \<Rightarrow> string" where
  "type_str V20250305 = ''web_search_20250305''"
| "type_str V20260209 = ''web_search_20260209''"
| "type_str V20260318 = ''web_search_20260318''"

datatype domain_filter = Allowed "string list" | Blocked "string list"

record web_search_config =
  wc_version :: web_search_version
  wc_max_uses :: nat
  wc_domains :: "domain_filter option"

record responses_search_context =
  rc_max_uses :: nat
  rc_domains :: "domain_filter option"

definition clamped_uses :: "nat \<Rightarrow> nat" where
  "clamped_uses uses = max 1 (min uses MAX_WEB_SEARCH_USES_PER_REQUEST)"

definition server_function_names :: "web_search_config option \<Rightarrow> string list" where
  "server_function_names web_search = (if web_search \<noteq> None then [FUNCTION_NAME] else [])"

datatype search_error =
    TooManyRequests | InvalidToolInput | MaxUsesExceeded | QueryTooLong | RequestTooLarge | Unavailable

fun search_error_str :: "search_error \<Rightarrow> string" where
  "search_error_str TooManyRequests = ''too_many_requests''"
| "search_error_str InvalidToolInput = ''invalid_tool_input''"
| "search_error_str MaxUsesExceeded = ''max_uses_exceeded''"
| "search_error_str QueryTooLong = ''query_too_long''"
| "search_error_str RequestTooLarge = ''request_too_large''"
| "search_error_str Unavailable = ''unavailable''"

record search_outcome =
  so_query :: string
  so_results :: "json list"
  so_error :: "search_error option"

definition search_failed :: "string \<Rightarrow> search_error \<Rightarrow> search_outcome" where
  "search_failed query e = \<lparr>so_query = query, so_results = [], so_error = Some e\<rparr>"

datatype tool_round_kind = NoCalls | ClientOnly | ServerOnly | Mixed

record tool_call =
  tc_id :: string
  tc_name :: string
  tc_arguments :: string

definition classify_round :: "tool_call list \<Rightarrow> string list \<Rightarrow> tool_round_kind" where
  "classify_round tcs server_names =
     (let has_server = list_ex (\<lambda>c. tc_name c \<in> set server_names) tcs;
          has_client = list_ex (\<lambda>c. tc_name c \<notin> set server_names) tcs
      in if has_server then (if has_client then Mixed else ServerOnly)
         else (if has_client then ClientOnly else NoCalls))"

subsection \<open>Declarations\<close>

datatype declaration_error =
    NotAToolObject | TypeRequired | UnsupportedType string | WrongName
  | NeedsDirectCallers web_search_version | CallersNotArray | CallersEmpty | CallerNotString
  | CallerNeedsCode web_search_version string | InclusionUnsupported web_search_version
  | UserLocationUnsupported | MaxUsesNotPositive | DomainsNotArray string | DomainNotString string
  | DomainsExclusive

definition is_web_search_type :: "json \<Rightarrow> bool" where
  "is_web_search_type tool =
     (case get_str tool ''type'' of None \<Rightarrow> False | Some kind \<Rightarrow> starts_with kind ''web_search_'')"

fun direct_only :: "web_search_version \<Rightarrow> json list \<Rightarrow> declaration_error option" where
  "direct_only version [] = None"
| "direct_only version (caller # callers) =
     (case as_str caller of
        None \<Rightarrow> Some CallerNotString
      | Some name \<Rightarrow>
          (if name \<noteq> ''direct'' then Some (CallerNeedsCode version name)
           else direct_only version callers))"

definition require_direct_only_callers :: "json \<Rightarrow> web_search_version \<Rightarrow> declaration_error option" where
  "require_direct_only_callers callers version =
     (case as_array callers of
        None \<Rightarrow> Some CallersNotArray
      | Some array \<Rightarrow> (if array = [] then Some CallersEmpty else direct_only version array))"

definition validate_supported_semantics :: "web_search_version \<Rightarrow> jmap \<Rightarrow> declaration_error option" where
  "validate_supported_semantics version obj =
     (let callers =
        (case map_of obj ''allowed_callers'' of
           Some callers \<Rightarrow> require_direct_only_callers callers version
         | None \<Rightarrow> (if version = V20250305 then None else Some (NeedsDirectCallers version)))
      in if callers \<noteq> None then callers
         else if (if version = V20260318
                  then (case obj_str obj ''response_inclusion'' of
                          Some inclusion \<Rightarrow> inclusion \<noteq> ''full'' | None \<Rightarrow> False)
                  else map_of obj ''response_inclusion'' \<noteq> None)
         then Some (InclusionUnsupported version)
         else if map_of obj ''user_location'' \<noteq> None then Some UserLocationUnsupported
         else None)"

definition parse_max_uses :: "jmap \<Rightarrow> declaration_error + nat" where
  "parse_max_uses obj =
     (case map_of obj ''max_uses'' of
        None \<Rightarrow> Inr MAX_WEB_SEARCH_USES_PER_REQUEST
      | Some v \<Rightarrow>
          (case as_u64 v of
             None \<Rightarrow> Inl MaxUsesNotPositive
           | Some uses \<Rightarrow>
               (if uses = 0 then Inl MaxUsesNotPositive
                else Inr (min uses MAX_WEB_SEARCH_USES_PER_REQUEST))))"

fun collect_domains :: "string \<Rightarrow> json list \<Rightarrow> declaration_error + string list" where
  "collect_domains field [] = Inr []"
| "collect_domains field (entry # entries) =
     (case as_str entry of
        None \<Rightarrow> Inl (DomainNotString field)
      | Some domain \<Rightarrow>
          (case collect_domains field entries of
             Inl e \<Rightarrow> Inl e
           | Inr domains \<Rightarrow> Inr (if trim domain = [] then domains else trim domain # domains)))"

definition parse_domain_list :: "jmap \<Rightarrow> string \<Rightarrow> declaration_error + string list option" where
  "parse_domain_list obj field =
     (case map_of obj field of
        None \<Rightarrow> Inr None
      | Some v \<Rightarrow>
          (case as_array v of
             None \<Rightarrow> Inl (DomainsNotArray field)
           | Some entries \<Rightarrow>
               (case collect_domains field entries of
                  Inl e \<Rightarrow> Inl e
                | Inr domains \<Rightarrow> Inr (if domains = [] then None else Some domains))))"

definition parse_domain_filter :: "jmap \<Rightarrow> declaration_error + domain_filter option" where
  "parse_domain_filter obj =
     (case parse_domain_list obj ''allowed_domains'' of
        Inl e \<Rightarrow> Inl e
      | Inr allowed \<Rightarrow>
          (case parse_domain_list obj ''blocked_domains'' of
             Inl e \<Rightarrow> Inl e
           | Inr blocked \<Rightarrow>
               (case (allowed, blocked) of
                  (Some _, Some _) \<Rightarrow> Inl DomainsExclusive
                | (Some domains, None) \<Rightarrow> Inr (Some (Allowed domains))
                | (None, Some domains) \<Rightarrow> Inr (Some (Blocked domains))
                | (None, None) \<Rightarrow> Inr None)))"

definition version_of_type :: "string \<Rightarrow> web_search_version option" where
  "version_of_type s =
     (if s = ''web_search_20250305'' then Some V20250305
      else if s = ''web_search_20260209'' then Some V20260209
      else if s = ''web_search_20260318'' then Some V20260318 else None)"

definition parse_declaration :: "json \<Rightarrow> declaration_error + web_search_config" where
  "parse_declaration tool =
     (case as_object tool of
        None \<Rightarrow> Inl NotAToolObject
      | Some obj \<Rightarrow>
          (case obj_str obj ''type'' of
             None \<Rightarrow> Inl TypeRequired
           | Some kind \<Rightarrow>
               (case version_of_type kind of
                  None \<Rightarrow> Inl (UnsupportedType kind)
                | Some version \<Rightarrow>
                    (if obj_str obj ''name'' \<noteq> Some FUNCTION_NAME then Inl WrongName
                     else case validate_supported_semantics version obj of
                         Some e \<Rightarrow> Inl e
                       | None \<Rightarrow>
                           (case parse_max_uses obj of
                              Inl e \<Rightarrow> Inl e
                            | Inr max_uses \<Rightarrow>
                                (case parse_domain_filter obj of
                                   Inl e \<Rightarrow> Inl e
                                 | Inr domains \<Rightarrow>
                                     Inr \<lparr>wc_version = version, wc_max_uses = max_uses,
                                          wc_domains = domains\<rparr>))))))"

definition upstream_function :: json where
  "upstream_function =
     JObj [(''type'', JStr ''function''),
       (''function'', JObj
          [(''name'', JStr FUNCTION_NAME),
           (''description'',
            JStr ''Search the public web for current information and return relevant pages.''),
           (''parameters'', JObj
              [(''type'', JStr ''object''),
               (''properties'', JObj [(''query'', JObj [(''type'', JStr ''string'')])]),
               (''required'', JArr [JStr ''query'']),
               (''additionalProperties'', JBool False)])])]"

lemma upstream_function_type: "get_str upstream_function ''type'' = Some ''function''"
  by (simp add: upstream_function_def get_str_def)

definition convert_declaration :: "json \<Rightarrow> declaration_error + json option" where
  "convert_declaration tool =
     (if \<not> is_web_search_type tool then Inr None
      else case parse_declaration tool of
          Inl e \<Rightarrow> Inl e | Inr _ \<Rightarrow> Inr (Some upstream_function))"

subsection \<open>One search\<close>

definition cline_search_body :: "string \<Rightarrow> domain_filter option \<Rightarrow> json" where
  "cline_search_body query domains =
     JObj ((''query'', JStr query) #
       (case domains of
          Some (Allowed ds) \<Rightarrow> [(''allowed_domains'', JArr (map JStr ds))]
        | Some (Blocked ds) \<Rightarrow> [(''blocked_domains'', JArr (map JStr ds))]
        | None \<Rightarrow> []))"

definition query_from_arguments :: "(string \<Rightarrow> json option) \<Rightarrow> string \<Rightarrow> search_error + string" where
  "query_from_arguments parse arguments =
     (case parse arguments of
        None \<Rightarrow> Inl InvalidToolInput
      | Some parsed \<Rightarrow>
          (case map_option trim (get_str parsed ''query'') of
             None \<Rightarrow> Inl InvalidToolInput
           | Some query \<Rightarrow>
               (if query = [] then Inl InvalidToolInput
                else if MAX_QUERY_CHARS < char_count query then Inl QueryTooLong
                else Inr query)))"

text \<open>The break once ten results are held.\<close>

fun collect_results :: "json list \<Rightarrow> json list \<Rightarrow> json list" where
  "collect_results results [] = results"
| "collect_results results (item # items) =
     (if get_str item ''title'' = None \<or> get_str item ''url'' = None
      then collect_results results items
      else let results' = results @ [item]
           in if MAX_SEARCH_RESULTS \<le> length results' then results'
              else collect_results results' items)"

definition parse_cline_results :: "json \<Rightarrow> string \<Rightarrow> search_outcome" where
  "parse_cline_results doc query =
     (let results_value =
        (case Option.bind (json_get doc ''data'') (\<lambda>d. json_get d ''results'') of
           Some v \<Rightarrow> Some v | None \<Rightarrow> json_get doc ''results'')
      in \<lparr>so_query = query,
          so_results = (case Option.bind results_value as_array of
             Some items \<Rightarrow> collect_results [] items | None \<Rightarrow> []),
          so_error = None\<rparr>)"

definition error_code_for_status :: "nat \<Rightarrow> search_error" where
  "error_code_for_status status =
     (if status = 429 then TooManyRequests
      else if status = 413 then RequestTooLarge
      else if status = 400 \<or> status = 422 then InvalidToolInput
      else Unavailable)"

datatype search_reply = HeadersInvalid | SearchTransportFailure | SearchHttp nat "string list"

definition search_web ::
  "(json \<Rightarrow> string) \<Rightarrow> (string \<Rightarrow> json option) \<Rightarrow> domain_filter option \<Rightarrow> search_reply \<Rightarrow> string
   \<Rightarrow> search_outcome" where
  "search_web json_text parse domains reply query =
     (if MAX_SEARCH_RESPONSE_BYTES < length (json_text (cline_search_body query domains))
      then search_failed query RequestTooLarge
      else case reply of
          HeadersInvalid \<Rightarrow> search_failed query Unavailable
        | SearchTransportFailure \<Rightarrow> search_failed query Unavailable
        | SearchHttp status chunks \<Rightarrow>
            (let raw = read_limited chunks MAX_SEARCH_RESPONSE_BYTES
             in if status \<noteq> 200 then search_failed query (error_code_for_status status)
                else case parse raw of
                    Some doc \<Rightarrow> parse_cline_results doc query
                  | None \<Rightarrow> search_failed query Unavailable))"

subsection \<open>Grounding text and client blocks\<close>

definition newline :: char where "newline = char_of (10 :: nat)"

definition quote :: char where "quote = char_of (34 :: nat)"

definition str_or :: "string \<Rightarrow> string option \<Rightarrow> string" where
  "str_or fallback o' = (case o' of Some s \<Rightarrow> s | None \<Rightarrow> fallback)"

definition result_lines :: "nat \<Rightarrow> json \<Rightarrow> string" where
  "result_lines index item =
     show_nat (Suc index) @ ''. '' @ str_or [] (get_str item ''title'') @ [newline] @ ''   ''
     @ str_or [] (get_str item ''url'') @ [newline]
     @ (case get_str item ''snippet'' of
          Some snippet \<Rightarrow> ''   '' @ snippet @ [newline] | None \<Rightarrow> [])"

text \<open>\<open>String::truncate\<close> panics off a character boundary.\<close>

fun grounding_from :: "nat \<Rightarrow> json list \<Rightarrow> string \<Rightarrow> string option" where
  "grounding_from index [] out = Some out"
| "grounding_from index (item # items) out =
     (let out' = out @ result_lines index item
      in if MAX_GROUNDING_BYTES \<le> length out'
         then (if is_char_boundary out' MAX_GROUNDING_BYTES
               then Some (take MAX_GROUNDING_BYTES out') else None)
         else grounding_from (Suc index) items out')"

definition grounding_header :: "string \<Rightarrow> string" where
  "grounding_header query = ''Web search results for '' @ [quote] @ query @ [quote] @ '':'' @ [newline]"

definition tool_result_text :: "search_outcome \<Rightarrow> string option" where
  "tool_result_text outcome =
     (case so_error outcome of
        Some e \<Rightarrow> Some (''Web search failed: '' @ search_error_str e)
      | None \<Rightarrow>
          (if so_results outcome = [] then Some ''Web search returned no results.''
           else grounding_from 0 (so_results outcome) (grounding_header (so_query outcome))))"

definition replayed_result_text :: "json \<Rightarrow> string option" where
  "replayed_result_text result_block =
     (case json_get result_block ''content'' of
        Some (JStr e) \<Rightarrow> Some (''Web search failed: '' @ e)
      | Some (JObj obj) \<Rightarrow>
          (if obj_str obj ''type'' = Some ''web_search_tool_result_error''
           then Some (''Web search failed: '' @ str_or ''unavailable'' (obj_str obj ''error_code''))
           else Some ''Web search returned no results.'')
      | Some (JArr items) \<Rightarrow> grounding_from 0 items (''Web search results:'' @ [newline])
      | _ \<Rightarrow> Some ''Web search returned no results.'')"

definition value_or_null :: "json option \<Rightarrow> json" where
  "value_or_null o' = (case o' of Some v \<Rightarrow> v | None \<Rightarrow> JNull)"

definition result_entry :: "json \<Rightarrow> json" where
  "result_entry item =
     JObj ([(''type'', JStr ''web_search_result''),
            (''title'', value_or_null (json_get item ''title'')),
            (''url'', value_or_null (json_get item ''url''))]
       @ List.map_filter (\<lambda>key. map_option (Pair key) (json_get item key))
           [''snippet'', ''page_age'', ''site'', ''favicon''])"

definition client_blocks :: "string \<Rightarrow> search_outcome \<Rightarrow> json \<times> json" where
  "client_blocks tool_use_id outcome =
     (JObj [(''type'', JStr ''server_tool_use''), (''id'', JStr tool_use_id),
            (''name'', JStr FUNCTION_NAME), (''input'', JObj [(''query'', JStr (so_query outcome))])],
      JObj [(''type'', JStr ''web_search_tool_result''), (''tool_use_id'', JStr tool_use_id),
            (''content'',
             (case so_error outcome of
                Some e \<Rightarrow> JObj [(''type'', JStr ''web_search_tool_result_error''),
                                (''error_code'', JStr (search_error_str e))]
              | None \<Rightarrow> JArr (map result_entry (so_results outcome))))])"

subsection \<open>What a declaration can ask for\<close>

lemma direct_only_None: "direct_only version callers = None \<longleftrightarrow> (\<forall>c \<in> set callers. as_str c = Some ''direct'')"
  by (induction callers) (auto split: option.splits)

lemma version_of_type_Some: "version_of_type s = Some v \<longleftrightarrow> s = type_str v"
  by (cases v) (auto simp: version_of_type_def)

text \<open>The domains a client lists under a member of its declaration: the texts, trimmed, without the empty
  ones.\<close>

definition listed_domains :: "json \<Rightarrow> string \<Rightarrow> string list" where
  "listed_domains tool field =
     (case json_get tool field of
        Some (JArr entries) \<Rightarrow> filter (\<lambda>d. d \<noteq> []) (map trim (List.map_filter as_str entries))
      | _ \<Rightarrow> [])"

lemma collect_domains_Inr:
  "collect_domains field es = Inr ds \<Longrightarrow> ds = filter (\<lambda>d. d \<noteq> []) (map trim (List.map_filter as_str es))"
  by (induction es arbitrary: ds) (auto simp: List.map_filter_def split: option.splits sum.splits if_splits)

lemma parse_domain_list_Inr:
  assumes "parse_domain_list obj field = Inr domains"
  shows "domains = (if listed_domains (JObj obj) field = [] then None else Some (listed_domains (JObj obj) field))"
proof (cases "map_of obj field")
  case None
  then show ?thesis using assms by (simp add: parse_domain_list_def listed_domains_def)
next
  case (Some v)
  then obtain es where v: "v = JArr es"
    using assms by (auto simp: parse_domain_list_def split: option.splits dest: as_array_SomeD)
  then show ?thesis using assms Some collect_domains_Inr [of field es]
    by (auto simp: parse_domain_list_def listed_domains_def split: sum.splits if_splits)
qed

lemma filter_body:
  assumes "parse_domain_filter obj = Inr domains" and "field \<in> {''allowed_domains'', ''blocked_domains''}"
  shows "json_get (cline_search_body query domains) field =
    (let ds = listed_domains (JObj obj) field in if ds = [] then None else Some (JArr (map JStr ds)))"
proof -
  obtain allowed blocked where
    lists: "parse_domain_list obj ''allowed_domains'' = Inr allowed" "parse_domain_list obj ''blocked_domains'' = Inr blocked"
    and domains: "domains = map_option Allowed allowed \<and> blocked = None \<or> domains = map_option Blocked blocked \<and> allowed = None"
    using assms(1) by (auto simp: parse_domain_filter_def split: sum.splits option.splits)
  note given = parse_domain_list_Inr [OF lists(1)] parse_domain_list_Inr [OF lists(2)]
  from domains given show ?thesis
    using assms(2) by (auto simp: cline_search_body_def Let_def split: if_split_asm)
qed

text \<open>C39. What an accepted declaration means. Its type is one of the three known ones; the searches
  it allows are those it asks for, at least one and at most 5, and 5 when it does not say; a version that runs code by default is accepted only with the
  explicit caller list \<open>direct\<close>; not both domain members list a domain; and the
  body of every search request under it is the query and the domains the client listed, trimmed and without empty ones, under
  the member the client listed them, whatever the model wrote into the call.\<close>

theorem accepted_declaration:
  assumes "parse_declaration tool = Inr cfg"
  shows "get_str tool ''type'' = Some (type_str (wc_version cfg)) \<and> get_str tool ''name'' = Some FUNCTION_NAME
    \<and> (case json_get tool ''max_uses'' of
         None \<Rightarrow> wc_max_uses cfg = 5
       | Some v \<Rightarrow> (\<exists>n. as_u64 v = Some n \<and> 1 \<le> n \<and> wc_max_uses cfg = min n 5))
    \<and> (case json_get tool ''allowed_callers'' of
         None \<Rightarrow> wc_version cfg = V20250305
       | Some callers \<Rightarrow> (\<exists>cs. callers = JArr cs \<and> cs \<noteq> [] \<and> (\<forall>c \<in> set cs. as_str c = Some ''direct'')))
    \<and> (listed_domains tool ''allowed_domains'' = [] \<or> listed_domains tool ''blocked_domains'' = [])
    \<and> (let body = cline_search_body query (wc_domains cfg) in
         json_get body ''query'' = Some (JStr query)
         \<and> (\<forall>field \<in> {''allowed_domains'', ''blocked_domains''}.
              let ds = listed_domains tool field in
              json_get body field = (if ds = [] then None else Some (JArr (map JStr ds))))
         \<and> (\<forall>k. k \<notin> {''query'', ''allowed_domains'', ''blocked_domains''} \<longrightarrow> json_get body k = None))"
proof -
  obtain obj where obj: "tool = JObj obj" using assms by (cases tool) (auto simp: parse_declaration_def)
  obtain version max_uses domains where type: "obj_str obj ''type'' = Some (type_str version)"
    and name: "obj_str obj ''name'' = Some FUNCTION_NAME"
    and valid: "validate_supported_semantics version obj = None"
    and uses: "parse_max_uses obj = Inr max_uses" and filt: "parse_domain_filter obj = Inr domains"
    and cfg: "cfg = \<lparr>wc_version = version, wc_max_uses = max_uses, wc_domains = domains\<rparr>"
    using assms unfolding obj
    by (auto simp: parse_declaration_def version_of_type_Some split: option.splits sum.splits if_splits)
  have max_uses: "case map_of obj ''max_uses'' of
         None \<Rightarrow> max_uses = 5
       | Some v \<Rightarrow> (\<exists>n. as_u64 v = Some n \<and> 1 \<le> n \<and> max_uses = min n 5)"
    using uses by (auto simp: parse_max_uses_def MAX_WEB_SEARCH_USES_PER_REQUEST_def
        split: option.splits if_splits)
  have callers: "case map_of obj ''allowed_callers'' of
         None \<Rightarrow> version = V20250305
       | Some callers \<Rightarrow> (\<exists>cs. callers = JArr cs \<and> cs \<noteq> [] \<and> (\<forall>c \<in> set cs. as_str c = Some ''direct''))"
    using valid by (auto simp: validate_supported_semantics_def Let_def require_direct_only_callers_def
        direct_only_None split: option.splits if_splits dest!: as_array_SomeD)
  have exclusive: "listed_domains tool ''allowed_domains'' = [] \<or> listed_domains tool ''blocked_domains'' = []"
    using filt by (auto simp: parse_domain_filter_def obj dest!: parse_domain_list_Inr
        split: sum.splits option.splits if_split_asm)
  have query: "json_get (cline_search_body query domains) ''query'' = Some (JStr query)"
    by (simp add: cline_search_body_def)
  have rest: "json_get (cline_search_body query domains) k = None"
    if "k \<notin> {''query'', ''allowed_domains'', ''blocked_domains''}" for k
    using that by (auto simp: cline_search_body_def split: option.split domain_filter.split)
  have "get_str tool ''type'' = Some (type_str version)" "get_str tool ''name'' = Some FUNCTION_NAME"
    using type name by (simp_all add: obj get_str_def obj_str_def)
  then show ?thesis
    using max_uses callers exclusive query rest filter_body [OF filt]
    by (simp add: cfg obj Let_def split: option.split_asm option.split)
qed

subsection \<open>Search results\<close>

definition result_ok :: "json \<Rightarrow> bool" where
  "result_ok item \<longleftrightarrow> get_str item ''title'' \<noteq> None \<and> get_str item ''url'' \<noteq> None"

lemma collect_results_take:
  "length results < MAX_SEARCH_RESULTS \<Longrightarrow>
   collect_results results items = take MAX_SEARCH_RESULTS (results @ filter result_ok items)"
proof (induction items arbitrary: results)
  case (Cons item items)
  show ?case
  proof (cases "result_ok item")
    case False
    then show ?thesis using Cons by (auto simp: result_ok_def)
  next
    case True
    show ?thesis
    proof (cases "MAX_SEARCH_RESULTS \<le> length (results @ [item])")
      case full: True
      then have "length results = MAX_SEARCH_RESULTS - 1" using Cons.prems by simp
      with full True Cons.prems show ?thesis by (auto simp: result_ok_def)
    next
      case False
      then have "collect_results (results @ [item]) items
          = take MAX_SEARCH_RESULTS ((results @ [item]) @ filter result_ok items)"
        by (intro Cons.IH) simp
      moreover have "collect_results results (item # items) = collect_results (results @ [item]) items"
        using False True by (auto simp: result_ok_def)
      ultimately show ?thesis using True by simp
    qed
  qed
qed simp

fun array_or_empty :: "json \<Rightarrow> json list" where
  "array_or_empty (JArr xs) = xs"
| "array_or_empty _ = []"

text \<open>The list of entries: under \<open>data\<close>, or else at the top; an entry there that is no
  array hides the other place.\<close>

definition listed_results :: "json \<Rightarrow> json list" where
  "listed_results doc =
     (case Option.bind (json_get doc ''data'') (\<lambda>d. json_get d ''results'') of
        Some v \<Rightarrow> array_or_empty v
      | None \<Rightarrow> (case json_get doc ''results'' of Some v \<Rightarrow> array_or_empty v | None \<Rightarrow> []))"

text \<open>C40. The outcome of a search in closed form. Results come only from a 200 reply with a readable
  body: they are the first ten of its entries that have a title and a URL, in order and unchanged;
  every other reply, an oversized request and a failed transport are an error without results.\<close>

theorem search_outcome_spec:
  "search_web json_text parse domains reply query =
     (if MAX_SEARCH_RESPONSE_BYTES < length (json_text (cline_search_body query domains))
      then search_failed query RequestTooLarge
      else case reply of
          SearchHttp status chunks \<Rightarrow>
            (if status = 200
             then case parse (take MAX_SEARCH_RESPONSE_BYTES (concat chunks)) of
                 None \<Rightarrow> search_failed query Unavailable
               | Some doc \<Rightarrow>
                   \<lparr>so_query = query, so_results = take 10 (filter result_ok (listed_results doc)),
                    so_error = None\<rparr>
             else search_failed query (error_code_for_status status))
        | _ \<Rightarrow> search_failed query Unavailable)"
proof -
  have entries: "(case Option.bind o' as_array of Some items \<Rightarrow> collect_results [] items | None \<Rightarrow> [])
      = take 10 (filter result_ok (case o' of Some v \<Rightarrow> array_or_empty v | None \<Rightarrow> []))" for o'
  proof (cases "Option.bind o' as_array")
    case None
    then have "(case o' of Some v \<Rightarrow> array_or_empty v | None \<Rightarrow> []) = []"
      by (auto split: option.split) (metis array_or_empty.elims as_array.simps(1) option.discI)
    with None show ?thesis by simp
  next
    case (Some items)
    then have "o' = Some (JArr items)" by (auto simp: bind_eq_Some_conv dest: as_array_SomeD)
    then show ?thesis by (simp add: collect_results_take MAX_SEARCH_RESULTS_def)
  qed
  have found: "parse_cline_results doc query =
      \<lparr>so_query = query, so_results = take 10 (filter result_ok (listed_results doc)), so_error = None\<rparr>" for doc
    by (simp only: parse_cline_results_def Let_def entries)
       (simp add: listed_results_def split: option.split)
  show ?thesis
    by (simp add: search_web_def found read_limited_def read_limited_from_take Let_def
        split: search_reply.split option.split)
qed

subsection \<open>Grounding text\<close>

text \<open>The text without the bound.\<close>

fun all_lines :: "nat \<Rightarrow> json list \<Rightarrow> string" where
  "all_lines index [] = []"
| "all_lines index (item # items) = result_lines index item @ all_lines (Suc index) items"

lemma grounding_from_prefix: "grounding_from index items out = Some t \<Longrightarrow> items \<noteq> [] \<Longrightarrow>
    t = take MAX_GROUNDING_BYTES (out @ all_lines index items)"
proof (induction items arbitrary: index out)
  case (Cons item items)
  let ?out = "out @ result_lines index item"
  show ?case
  proof (cases "MAX_GROUNDING_BYTES \<le> length ?out")
    case True
    then have "t = take MAX_GROUNDING_BYTES ?out"
      using Cons.prems(1) by (simp add: Let_def split: if_splits)
    also have "\<dots> = take MAX_GROUNDING_BYTES (?out @ all_lines (Suc index) items)"
      using True by (simp only: take_append) simp
    finally show ?thesis by (simp only: all_lines.simps append_assoc)
  next
    case False
    then have rest: "grounding_from (Suc index) items ?out = Some t" using Cons.prems(1) by (simp add: Let_def)
    show ?thesis
    proof (cases "items = []")
      case True
      with rest have "t = ?out" by simp
      with False True show ?thesis by simp
    next
      case items: False
      from Cons.IH [OF rest items] show ?thesis by (simp only: all_lines.simps append_assoc)
    qed
  qed
qed simp

text \<open>The grounding text given to the model is bounded and truthful: at most 32 KiB, and a
  prefix of the listing of the titles, URLs and snippets that the search returned.\<close>

theorem grounding_bounded:
  assumes "tool_result_text outcome = Some t" and "so_error outcome = None" and "so_results outcome \<noteq> []"
  shows "length t \<le> MAX_GROUNDING_BYTES
    \<and> t = take MAX_GROUNDING_BYTES
            (grounding_header (so_query outcome) @ all_lines 0 (so_results outcome))"
proof -
  have "t = take MAX_GROUNDING_BYTES (grounding_header (so_query outcome) @ all_lines 0 (so_results outcome))"
    using assms by (intro grounding_from_prefix) (simp_all add: tool_result_text_def)
  then show ?thesis by (metis length_take min.cobounded2)
qed

text \<open>A title of two-byte characters that the limit cuts in half.\<close>

fun accents :: "nat \<Rightarrow> string" where
  "accents 0 = []"
| "accents (Suc n) = char_of (0xC3 :: nat) # char_of (0xA9 :: nat) # accents n"

lemma length_accents [simp]: "length (accents n) = 2 * n"
  by (induction n) simp_all

lemma accents_nth: "i < n \<Longrightarrow> accents n ! Suc (2 * i) = char_of (0xA9 :: nat)"
proof (induction n arbitrary: i)
  case (Suc n)
  then show ?case by (cases i) simp_all
qed simp

definition accented_result :: json where
  "accented_result = JObj [(''title'', JStr (accents 20000)), (''url'', JStr ''u'')]"

text \<open>The bound is a byte count that ignores characters: when it falls inside a multi-byte
  character of a title, the truncation of the grounding text panics and the request dies with it.
  One entry with a long accented title is enough.\<close>

theorem grounding_can_panic:
  "result_ok accented_result
   \<and> tool_result_text \<lparr>so_query = ''a'', so_results = [accented_result], so_error = None\<rparr> = None"
proof
  show "result_ok accented_result" by (simp add: result_ok_def accented_result_def get_str_def)
  let ?head = "grounding_header ''a'' @ ''1. ''"
  have title: "get_str accented_result ''title'' = Some (accents 20000)"
    "get_str accented_result ''url'' = Some ''u''" "get_str accented_result ''snippet'' = None"
    by (simp_all add: accented_result_def get_str_def)
  have one: "show_nat (Suc 0) = ''1''" by code_simp
  obtain rest where out: "grounding_header ''a'' @ result_lines 0 accented_result = ?head @ accents 20000 @ rest"
    using one by (simp add: result_lines_def title str_or_def)
  have head: "length ?head = 31" by (simp add: grounding_header_def)
  have "(?head @ accents 20000 @ rest) ! (length ?head + Suc (2 * 16368)) = accents 20000 ! Suc (2 * 16368)"
    unfolding nth_append_length_plus by (simp add: nth_append)
  then have "(?head @ accents 20000 @ rest) ! 32768 = accents 20000 ! Suc (2 * 16368)"
    unfolding head by (simp only: numeral_plus_one add_Suc_right) simp
  then have "(?head @ accents 20000 @ rest) ! 32768 = char_of (0xA9 :: nat)"
    using accents_nth [of 16368 20000] by simp
  then show "tool_result_text \<lparr>so_query = ''a'', so_results = [accented_result], so_error = None\<rparr> = None"
    by (simp add: tool_result_text_def out Let_def MAX_GROUNDING_BYTES_def is_char_boundary_def
        is_cont_def byte_def head)
qed

subsection \<open>Concrete runs\<close>

definition demo_declaration :: json where
  "demo_declaration =
     JObj [(''type'', JStr ''web_search_20260209''), (''name'', JStr ''web_search''),
           (''allowed_callers'', JArr [JStr ''direct'']), (''max_uses'', JNum (PosInt 9))]"

theorem accepted_declaration_witness:
  "\<exists>cfg. parse_declaration demo_declaration = Inr cfg \<and> wc_max_uses cfg = 5
     \<and> json_get (cline_search_body ''q'' (wc_domains cfg)) ''allowed_domains'' = None"
proof -
  have parsed: "parse_declaration demo_declaration =
      Inr \<lparr>wc_version = V20260209, wc_max_uses = 5, wc_domains = None\<rparr>" by code_simp
  have none: "listed_domains demo_declaration ''allowed_domains'' = []" by code_simp
  show ?thesis using accepted_declaration [OF parsed, of "''q''"] parsed by (simp add: none Let_def)
qed

theorem grounding_bounded_witness:
  "\<exists>t. tool_result_text \<lparr>so_query = ''a'', so_results = [JNull], so_error = None\<rparr> = Some t
     \<and> length t \<le> MAX_GROUNDING_BYTES"
proof -
  let ?o = "\<lparr>so_query = ''a'', so_results = [JNull], so_error = None\<rparr>"
  have one: "show_nat (Suc 0) = ''1''" by code_simp
  have "length (grounding_header ''a'') < 40" by (simp add: grounding_header_def)
  then obtain t where t: "tool_result_text ?o = Some t"
    by (auto simp: tool_result_text_def Let_def result_lines_def str_or_def get_str_def one
        MAX_GROUNDING_BYTES_def)
  from grounding_bounded [OF this] t show ?thesis by simp
qed

end
