(* ===== verification/Search_Loop.thy ===== *)
theory Search_Loop
  imports Web_Search
begin

text \<open>
  The loops that run searches for one client request: the rounds of \<open>websearch.rs\<close>,
  \<open>execute_web_search_round\<close> of \<open>anthropic.rs\<close>, the loop of a non-streamed Anthropic request in
  \<open>server.rs\<close>, and the rounds of a Responses request in \<open>responses_pump.rs\<close>. The upstream's
  generations, the outcomes of searches and fresh ids are parameters.
\<close>

subsection \<open>Rounds\<close>

definition call_json :: "tool_call \<Rightarrow> json" where
  "call_json call =
     JObj [(''id'', JStr (tc_id call)), (''type'', JStr ''function''),
       (''function'', JObj [(''name'', JStr (tc_name call)), (''arguments'', JStr (tc_arguments call))])]"

definition tool_message :: "tool_call \<Rightarrow> string \<Rightarrow> json" where
  "tool_message call content =
     JObj [(''role'', JStr ''tool''), (''tool_call_id'', JStr (tc_id call)), (''content'', JStr content)]"

fun tool_messages :: "tool_call list \<Rightarrow> search_outcome list \<Rightarrow> json list option" where
  "tool_messages (call # cs) (outcome # os) =
     (case tool_result_text outcome of
        None \<Rightarrow> None
      | Some content \<Rightarrow> map_option ((#) (tool_message call content)) (tool_messages cs os))"
| "tool_messages _ _ = Some []"

definition assistant_round :: "tool_call list \<Rightarrow> json" where
  "assistant_round tcs =
     JObj [(''role'', JStr ''assistant''), (''content'', JNull),
           (''tool_calls'', JArr (map call_json tcs))]"

definition append_server_round :: "json \<Rightarrow> tool_call list \<Rightarrow> search_outcome list \<Rightarrow> json option" where
  "append_server_round chat_body tcs outcomes =
     (case Option.bind (json_get chat_body ''messages'') as_array of
        None \<Rightarrow> Some chat_body
      | Some messages \<Rightarrow>
          map_option (\<lambda>results. put_member ''messages''
              (JArr (messages @ [assistant_round tcs] @ results)) chat_body)
            (tool_messages tcs outcomes))"

definition openai_tool_call :: "json \<Rightarrow> tool_call" where
  "openai_tool_call call =
     (let function = Option.bind (json_get call ''function'') as_object
      in \<lparr>tc_id = str_or ''call_unknown'' (get_str call ''id''),
          tc_name = str_or ''unknown'' (Option.bind function (\<lambda>f. obj_str f ''name'')),
          tc_arguments = str_or [] (Option.bind function (\<lambda>f. obj_str f ''arguments''))\<rparr>)"

definition extract_openai_tool_calls :: "json \<Rightarrow> tool_call list" where
  "extract_openai_tool_calls body =
     (case Option.bind (json_get body ''choices'') as_array of
        None \<Rightarrow> []
      | Some [] \<Rightarrow> []
      | Some (first_choice # _) \<Rightarrow>
          (let message = (case json_get first_choice ''message'' of
                 Some m \<Rightarrow> Some m | None \<Rightarrow> json_get first_choice ''delta'')
           in case Option.bind (Option.bind message (\<lambda>m. json_get m ''tool_calls'')) as_array of
                None \<Rightarrow> [] | Some found \<Rightarrow> map openai_tool_call found))"

definition exhausted_outcome :: "(string \<Rightarrow> json option) \<Rightarrow> tool_call \<Rightarrow> search_outcome" where
  "exhausted_outcome parse call =
     search_failed (case query_from_arguments parse (tc_arguments call) of
        Inr query \<Rightarrow> query | Inl _ \<Rightarrow> []) MaxUsesExceeded"

text \<open>
  One round of searches. \<open>search k\<close> is the outcome of the \<open>k\<close>-th search this request sends
  upstream; the result is the outcomes, the budget that is left and the number of searches sent.
\<close>

fun execute_web_search_round ::
  "(string \<Rightarrow> json option) \<Rightarrow> (nat \<Rightarrow> string \<Rightarrow> search_outcome) \<Rightarrow> tool_call list \<Rightarrow> nat \<Rightarrow> nat
   \<Rightarrow> search_outcome list \<times> nat \<times> nat" where
  "execute_web_search_round parse search [] uses_left sent = ([], uses_left, sent)"
| "execute_web_search_round parse search (call # tcs) uses_left sent =
     (if uses_left = 0
      then (case execute_web_search_round parse search tcs uses_left sent of
              (outcomes, rest) \<Rightarrow> (exhausted_outcome parse call # outcomes, rest))
      else case query_from_arguments parse (tc_arguments call) of
          Inl code \<Rightarrow>
            (case execute_web_search_round parse search tcs uses_left sent of
               (outcomes, rest) \<Rightarrow> (search_failed [] code # outcomes, rest))
        | Inr query \<Rightarrow>
            (case execute_web_search_round parse search tcs (uses_left - 1) (Suc sent) of
               (outcomes, rest) \<Rightarrow> (search sent query # outcomes, rest)))"

text \<open>The Responses frontend starts every round with the whole budget.\<close>

definition execute_server_round ::
  "(string \<Rightarrow> json option) \<Rightarrow> (nat \<Rightarrow> string \<Rightarrow> search_outcome) \<Rightarrow> responses_search_context
   \<Rightarrow> tool_call list \<Rightarrow> nat \<Rightarrow> search_outcome list \<times> nat \<times> nat" where
  "execute_server_round parse search context tcs sent =
     execute_web_search_round parse search tcs (rc_max_uses context) sent"

subsection \<open>The loop of a non-streamed Anthropic request\<close>

record search_loop =
  sl_uses_left :: nat
  sl_sent :: nat
  sl_rounds :: nat
  sl_blocks :: "json list"
  sl_requests :: nat
  sl_stop :: "string option"
  sl_body :: json
  sl_ids :: nat

text \<open>The pair of blocks of each outcome, each with a fresh id.\<close>

definition blocks_of :: "(nat \<Rightarrow> string) \<Rightarrow> nat \<Rightarrow> search_outcome list \<Rightarrow> json list" where
  "blocks_of new_id first outcomes =
     concat (map (\<lambda>(i, outcome). case client_blocks (new_id i) outcome of (u, r) \<Rightarrow> [u, r])
       (enumerate first outcomes))"

definition note_outcomes ::
  "(nat \<Rightarrow> string) \<Rightarrow> search_outcome list \<Rightarrow> search_loop \<Rightarrow> search_loop" where
  "note_outcomes new_id outcomes st =
     st\<lparr>sl_blocks := sl_blocks st @ blocks_of new_id (sl_ids st) outcomes,
        sl_ids := sl_ids st + length outcomes,
        sl_requests := sat_add64 (sl_requests st) (length outcomes)\<rparr>"

datatype round_end = Finished | NextGeneration | RoundPanics

text \<open>What one aggregated generation leads to.\<close>

definition search_round ::
  "(string \<Rightarrow> json option) \<Rightarrow> (nat \<Rightarrow> string \<Rightarrow> search_outcome) \<Rightarrow> (nat \<Rightarrow> string) \<Rightarrow> string list
   \<Rightarrow> json \<Rightarrow> search_loop \<Rightarrow> round_end \<times> search_loop" where
  "search_round parse search new_id server_names body st =
     (let tcs = extract_openai_tool_calls body;
          server_calls = filter (\<lambda>c. tc_name c \<in> set server_names) tcs;
          executed = execute_web_search_round parse search server_calls (sl_uses_left st) (sl_sent st)
      in case classify_round tcs server_names of
           NoCalls \<Rightarrow> (Finished, st)
         | ClientOnly \<Rightarrow> (Finished, st)
         | Mixed \<Rightarrow>
             (case executed of (outcomes, uses, sent) \<Rightarrow>
                (Finished, note_outcomes new_id outcomes (st\<lparr>sl_uses_left := uses, sl_sent := sent\<rparr>)))
         | ServerOnly \<Rightarrow>
             (if sl_uses_left st = 0 \<or> MAX_INTERNAL_GENERATION_ROUNDS \<le> sl_rounds st
              then (Finished, (note_outcomes new_id (map (exhausted_outcome parse) server_calls) st)
                      \<lparr>sl_stop := Some ''pause_turn''\<rparr>)
              else (case executed of (outcomes, uses, sent) \<Rightarrow>
                 let st1 = note_outcomes new_id outcomes (st\<lparr>sl_uses_left := uses, sl_sent := sent\<rparr>)
                 in case append_server_round (sl_body st) server_calls outcomes of
                      None \<Rightarrow> (RoundPanics, st1)
                    | Some body' \<Rightarrow> (NextGeneration, st1\<lparr>sl_body := body'\<rparr>))))"

text \<open>\<open>generate n\<close> is what the \<open>n\<close>-th generation aggregates to; nothing when its stream or
  the request for it fails, which ends the request with an error.\<close>

datatype loop_end = Completed json | UpstreamFailed | Panicked

definition start_generation :: "search_loop \<Rightarrow> search_loop" where
  "start_generation st = st\<lparr>sl_rounds := min (Suc (sl_rounds st)) u32_max\<rparr>"

lemma next_generation_rounds:
  "search_round parse search new_id server_names body st = (NextGeneration, st') \<Longrightarrow>
     sl_rounds st' = sl_rounds st \<and> sl_rounds st < MAX_INTERNAL_GENERATION_ROUNDS"
  by (auto simp: search_round_def Let_def note_outcomes_def
      split: tool_round_kind.splits prod.splits if_splits option.splits)

function complete_with_web_search ::
  "(string \<Rightarrow> json option) \<Rightarrow> (nat \<Rightarrow> string \<Rightarrow> search_outcome) \<Rightarrow> (nat \<Rightarrow> string) \<Rightarrow> string list
   \<Rightarrow> (nat \<Rightarrow> json option) \<Rightarrow> search_loop \<Rightarrow> loop_end \<times> search_loop" where
  "complete_with_web_search parse search new_id server_names generate st =
     (let st1 = start_generation st
      in case generate (sl_rounds st) of
           None \<Rightarrow> (UpstreamFailed, st1)
         | Some body \<Rightarrow>
             (case search_round parse search new_id server_names body st1 of
                (Finished, st2) \<Rightarrow> (Completed body, st2)
              | (RoundPanics, st2) \<Rightarrow> (Panicked, st2)
              | (NextGeneration, st2) \<Rightarrow>
                  complete_with_web_search parse search new_id server_names generate st2))"
  by pat_completeness auto

termination complete_with_web_search
proof (relation "measure (\<lambda>(_, _, _, _, _, st). MAX_INTERNAL_GENERATION_ROUNDS - sl_rounds st)")
qed (auto dest!: next_generation_rounds [OF sym] simp: start_generation_def u32_max_def MAX_INTERNAL_GENERATION_ROUNDS_def)

declare complete_with_web_search.simps [simp del]

definition new_search_loop :: "web_search_config \<Rightarrow> json \<Rightarrow> search_loop" where
  "new_search_loop config body =
     \<lparr>sl_uses_left = wc_max_uses config, sl_sent = 0, sl_rounds = 0, sl_blocks = [], sl_requests = 0,
      sl_stop = None, sl_body = body, sl_ids = 0\<rparr>"

subsection \<open>The rounds of a Responses request\<close>

record pump_search =
  ps_rounds_left :: nat
  ps_sent :: nat
  ps_body :: json

text \<open>The server round at the end of a generation with the calls \<open>tcs\<close>: nothing when no budget of
  rounds is left, else the new state. A panic is the inner \<open>None\<close>.\<close>

definition pump_server_round ::
  "(string \<Rightarrow> json option) \<Rightarrow> (nat \<Rightarrow> string \<Rightarrow> search_outcome) \<Rightarrow> responses_search_context
   \<Rightarrow> tool_call list \<Rightarrow> pump_search \<Rightarrow> pump_search option option" where
  "pump_server_round parse search context tcs st =
     (if ps_rounds_left st = 0 then None
      else case execute_server_round parse search context tcs (ps_sent st) of
          (outcomes, _, sent) \<Rightarrow>
            Some (map_option (\<lambda>body. \<lparr>ps_rounds_left = ps_rounds_left st - 1, ps_sent = sent, ps_body = body\<rparr>)
              (append_server_round (ps_body st) tcs outcomes)))"

fun pump_rounds ::
  "(string \<Rightarrow> json option) \<Rightarrow> (nat \<Rightarrow> string \<Rightarrow> search_outcome) \<Rightarrow> responses_search_context
   \<Rightarrow> tool_call list list \<Rightarrow> pump_search \<Rightarrow> pump_search" where
  "pump_rounds parse search context [] st = st"
| "pump_rounds parse search context (tcs # rounds) st =
     (case pump_server_round parse search context tcs st of
        Some (Some st') \<Rightarrow> pump_rounds parse search context rounds st'
      | _ \<Rightarrow> st)"

subsection \<open>Budget and pairing\<close>

lemma execute_round_spec:
  "execute_web_search_round parse search tcs uses sent = (outcomes, uses', sent') \<Longrightarrow>
     length outcomes = length tcs \<and> uses' + sent' = uses + sent \<and> uses' \<le> uses
     \<and> sent' \<le> sent + length tcs"
proof (induction parse search tcs uses sent arbitrary: outcomes uses' sent'
    rule: execute_web_search_round.induct)
  case (2 parse search call tcs uses sent)
  then show ?case by (fastforce split: prod.splits if_splits sum.splits)
qed simp

text \<open>\<open>paired_blocks new_id n blocks\<close>: the use block and the result block of \<open>n\<close> searches, alternating,
  each pair with its own id.\<close>

definition paired_blocks :: "(nat \<Rightarrow> string) \<Rightarrow> nat \<Rightarrow> json list \<Rightarrow> bool" where
  "paired_blocks new_id n blocks \<longleftrightarrow>
     length blocks = 2 * n
     \<and> (\<forall>i < n. get_str (blocks ! (2 * i)) ''type'' = Some ''server_tool_use''
          \<and> get_str (blocks ! (2 * i)) ''id'' = Some (new_id i)
          \<and> get_str (blocks ! Suc (2 * i)) ''type'' = Some ''web_search_tool_result''
          \<and> get_str (blocks ! Suc (2 * i)) ''tool_use_id'' = Some (new_id i))"

lemma paired_blocks_add:
  assumes "paired_blocks new_id n blocks"
  shows "paired_blocks new_id (Suc n) (blocks @ [fst (client_blocks (new_id n) outcome), snd (client_blocks (new_id n) outcome)])"
  using assms by (auto simp: paired_blocks_def nth_append less_Suc_eq client_blocks_def get_str_def)

lemma paired_blocks_of:
  "paired_blocks new_id n blocks \<Longrightarrow> paired_blocks new_id (n + length outcomes) (blocks @ blocks_of new_id n outcomes)"
proof (induction outcomes arbitrary: n blocks)
  case (Cons outcome outcomes)
  show ?case
    using Cons.IH [OF paired_blocks_add [OF Cons.prems, of outcome]]
    by (simp add: blocks_of_def split_beta)
qed (simp add: blocks_of_def)

definition loop_inv :: "(nat \<Rightarrow> string) \<Rightarrow> nat \<Rightarrow> search_loop \<Rightarrow> bool" where
  "loop_inv new_id budget st \<longleftrightarrow>
     sl_uses_left st + sl_sent st = budget \<and> sl_sent st \<le> sl_ids st
     \<and> paired_blocks new_id (sl_ids st) (sl_blocks st)
     \<and> sl_requests st = min (sl_ids st) u64_max \<and> sl_stop st = None"

lemma loop_inv_note:
  "loop_inv new_id budget st \<Longrightarrow> uses + sent = budget \<Longrightarrow> sent \<le> sl_sent st + length outcomes \<Longrightarrow>
   loop_inv new_id budget (note_outcomes new_id outcomes (st\<lparr>sl_uses_left := uses, sl_sent := sent\<rparr>))"
  by (auto simp: loop_inv_def note_outcomes_def paired_blocks_of sat_add64_def)

lemma loop_inv_note_same: "loop_inv new_id budget st \<Longrightarrow> loop_inv new_id budget (note_outcomes new_id outcomes st)"
  using loop_inv_note [of new_id budget st "sl_uses_left st" "sl_sent st"] by (simp add: loop_inv_def)

text \<open>How a round can end.\<close>

definition loop_end_ok :: "(nat \<Rightarrow> string) \<Rightarrow> nat \<Rightarrow> search_loop \<Rightarrow> bool" where
  "loop_end_ok new_id budget st \<longleftrightarrow>
     loop_inv new_id budget (st\<lparr>sl_stop := None\<rparr>) \<and> sl_rounds st \<le> MAX_INTERNAL_GENERATION_ROUNDS
     \<and> (sl_stop st \<noteq> None \<longrightarrow> sl_stop st = Some ''pause_turn''
          \<and> (sl_uses_left st = 0 \<or> sl_rounds st = MAX_INTERNAL_GENERATION_ROUNDS))"

lemma search_round_inv:
  assumes "search_round parse search new_id server_names body st = (e, st')"
    and "loop_inv new_id budget st" and "sl_rounds st \<le> MAX_INTERNAL_GENERATION_ROUNDS"
  shows "loop_end_ok new_id budget st' \<and> sl_rounds st' = sl_rounds st
    \<and> (e = NextGeneration \<longrightarrow> loop_inv new_id budget st' \<and> sl_rounds st < MAX_INTERNAL_GENERATION_ROUNDS)
    \<and> sl_stop st' = (if e = Finished \<and> classify_round (extract_openai_tool_calls body) server_names = ServerOnly
        then Some ''pause_turn'' else None)"
proof -
  let ?tcs = "extract_openai_tool_calls body"
  let ?server = "filter (\<lambda>c. tc_name c \<in> set server_names) ?tcs"
  obtain outcomes uses sent where run:
    "execute_web_search_round parse search ?server (sl_uses_left st) (sl_sent st) = (outcomes, uses, sent)"
    by (metis prod_cases3)
  have budget: "uses + sent = budget" "sent \<le> sl_sent st + length outcomes"
    using execute_round_spec [OF run] assms(2) by (simp_all add: loop_inv_def)
  note kept = loop_inv_note [OF assms(2) budget]
  let ?only = "classify_round ?tcs server_names = ServerOnly"
  have stop: "sl_stop st = None" using assms(2) by (simp add: loop_inv_def)
  consider (none) "st' = st" "e = Finished" "\<not> ?only"
    | (mixed) "e = Finished" "\<not> ?only"
      "st' = note_outcomes new_id outcomes (st\<lparr>sl_uses_left := uses, sl_sent := sent\<rparr>)"
    | (pause) "e = Finished" ?only "sl_uses_left st = 0 \<or> MAX_INTERNAL_GENERATION_ROUNDS \<le> sl_rounds st"
      "st' = (note_outcomes new_id (map (exhausted_outcome parse) ?server) st)\<lparr>sl_stop := Some ''pause_turn''\<rparr>"
    | (panic) "e = RoundPanics"
      "st' = note_outcomes new_id outcomes (st\<lparr>sl_uses_left := uses, sl_sent := sent\<rparr>)"
    | (again) body' where "e = NextGeneration" "sl_rounds st < MAX_INTERNAL_GENERATION_ROUNDS"
      "st' = (note_outcomes new_id outcomes (st\<lparr>sl_uses_left := uses, sl_sent := sent\<rparr>))\<lparr>sl_body := body'\<rparr>"
  proof (cases "classify_round ?tcs server_names")
    case ServerOnly
    show ?thesis
    proof (cases "sl_uses_left st = 0 \<or> MAX_INTERNAL_GENERATION_ROUNDS \<le> sl_rounds st")
      case True
      then show ?thesis using assms(1) ServerOnly by (intro that(3)) (simp_all add: search_round_def Let_def)
    next
      case False
      then show ?thesis
      proof (cases "append_server_round (sl_body st) ?server outcomes")
        case None
        with False show ?thesis
          using assms(1) ServerOnly by (intro that(4)) (simp_all add: search_round_def Let_def run)
      next
        case (Some body')
        with False show ?thesis
          using assms(1) ServerOnly by (intro that(5) [of body']) (simp_all add: search_round_def Let_def run)
      qed
    qed
  next
    case NoCalls
    then show ?thesis using assms(1) by (intro that(1)) (simp_all add: search_round_def Let_def)
  next
    case ClientOnly
    then show ?thesis using assms(1) by (intro that(1)) (simp_all add: search_round_def Let_def)
  next
    case Mixed
    then show ?thesis using assms(1) by (intro that(2)) (simp_all add: search_round_def Let_def run)
  qed
  then show ?thesis
  proof cases
    case none
    with assms(2,3) stop show ?thesis by (simp add: loop_end_ok_def loop_inv_def)
  next
    case mixed
    with kept assms(3) show ?thesis by (simp add: loop_end_ok_def loop_inv_def note_outcomes_def)
  next
    case pause
    with loop_inv_note_same [OF assms(2), of "map (exhausted_outcome parse) ?server"] assms(3) stop
    show ?thesis by (auto simp: loop_end_ok_def loop_inv_def note_outcomes_def)
  next
    case panic
    with kept assms(3) show ?thesis by (simp add: loop_end_ok_def loop_inv_def note_outcomes_def)
  next
    case again
    with kept assms(3) show ?thesis by (simp add: loop_end_ok_def loop_inv_def note_outcomes_def)
  qed
qed

lemma complete_loop_ok:
  "loop_inv new_id budget st \<Longrightarrow> sl_rounds st < MAX_INTERNAL_GENERATION_ROUNDS \<Longrightarrow>
   loop_end_ok new_id budget (snd (complete_with_web_search parse search new_id server_names generate st))"
proof (induction parse search new_id server_names generate st rule: complete_with_web_search.induct)
  case (1 parse search new_id server_names generate st)
  let ?st1 = "start_generation st"
  have st1: "loop_inv new_id budget ?st1" "sl_rounds ?st1 \<le> MAX_INTERNAL_GENERATION_ROUNDS"
    using "1.prems" by (simp_all add: start_generation_def loop_inv_def)
  then have ok1: "loop_end_ok new_id budget ?st1" by (simp add: loop_end_ok_def loop_inv_def)
  show ?case
  proof (cases "generate (sl_rounds st)")
    case None
    then show ?thesis using ok1 by (simp add: complete_with_web_search.simps Let_def)
  next
    case (Some body)
    obtain e st2 where round: "search_round parse search new_id server_names body ?st1 = (e, st2)" by force
    note inv = search_round_inv [OF round st1]
    show ?thesis
    proof (cases e)
      case NextGeneration
      with inv "1.IH" [OF refl Some round [symmetric] NextGeneration] Some round
      show ?thesis by (simp add: complete_with_web_search.simps [of _ _ _ _ _ st] Let_def)
    qed (use inv Some round in \<open>simp_all add: complete_with_web_search.simps [of _ _ _ _ _ st] Let_def\<close>)
  qed
qed

definition paused_rightly :: "string list \<Rightarrow> loop_end \<Rightarrow> string option \<Rightarrow> bool" where
  "paused_rightly server_names outcome stop \<longleftrightarrow>
     stop = (case outcome of
         Completed answer \<Rightarrow>
           (if classify_round (extract_openai_tool_calls answer) server_names = ServerOnly
            then Some ''pause_turn'' else None)
       | _ \<Rightarrow> None)"

lemma complete_loop_paused:
  "loop_inv new_id budget st \<Longrightarrow> sl_rounds st < MAX_INTERNAL_GENERATION_ROUNDS \<Longrightarrow>
   complete_with_web_search parse search new_id server_names generate st = (outcome, st') \<Longrightarrow>
   paused_rightly server_names outcome (sl_stop st')"
proof (induction parse search new_id server_names generate st arbitrary: outcome st' rule: complete_with_web_search.induct)
  case (1 parse search new_id server_names generate st)
  let ?st1 = "start_generation st"
  have st1: "loop_inv new_id budget ?st1" "sl_rounds ?st1 \<le> MAX_INTERNAL_GENERATION_ROUNDS"
    using "1.prems" by (simp_all add: start_generation_def loop_inv_def)
  show ?case
  proof (cases "generate (sl_rounds st)")
    case None
    then show ?thesis using "1.prems"(3) st1
      by (auto simp: complete_with_web_search.simps Let_def paused_rightly_def loop_inv_def)
  next
    case (Some body)
    obtain e st2 where round: "search_round parse search new_id server_names body ?st1 = (e, st2)" by force
    note inv = search_round_inv [OF round st1]
    show ?thesis
    proof (cases e)
      case NextGeneration
      with inv "1.IH" [OF refl Some round [symmetric] NextGeneration] "1.prems"(3) Some round
      show ?thesis by (simp add: complete_with_web_search.simps [of _ _ _ _ _ st] Let_def)
    qed (use inv Some round "1.prems"(3) in
        \<open>auto simp add: complete_with_web_search.simps [of _ _ _ _ _ st] Let_def paused_rightly_def\<close>)
  qed
qed

text \<open>C21. A non-streamed Anthropic request with web search ends, whatever the model asks for and whatever
  the upstream answers: after at most 8 generations. Over the whole request at most \<open>max_uses\<close>
  searches are sent, however the calls are spread over generations. The blocks of the answer are
  pairs, one per answered call, at least one for each search that was sent: a use block and then the
  result block with the same id, a different one for each pair if the ids are fresh. The turn is paused exactly when it is
  completed by a generation that asks for searches and nothing else, and then the budget of searches or of
  generations is used up.\<close>

theorem search_budget_respected:
  assumes "complete_with_web_search parse search new_id server_names generate
      (new_search_loop config body) = (outcome, st)"
  shows "sl_rounds st \<le> 8 \<and> sl_sent st + sl_uses_left st = wc_max_uses config
    \<and> sl_sent st \<le> sl_ids st \<and> paired_blocks new_id (sl_ids st) (sl_blocks st)
    \<and> paused_rightly server_names outcome (sl_stop st)
    \<and> (sl_stop st \<noteq> None \<longrightarrow> sl_sent st = wc_max_uses config \<or> sl_rounds st = 8)"
proof -
  have start: "loop_inv new_id (wc_max_uses config) (new_search_loop config body)"
    "sl_rounds (new_search_loop config body) < MAX_INTERNAL_GENERATION_ROUNDS"
    by (simp_all add: loop_inv_def new_search_loop_def paired_blocks_def MAX_INTERNAL_GENERATION_ROUNDS_def)
  then have "loop_end_ok new_id (wc_max_uses config) st"
    using complete_loop_ok assms by (metis snd_conv)
  moreover have "paused_rightly server_names outcome (sl_stop st)"
    using complete_loop_paused [OF start assms] .
  ultimately show ?thesis
    by (auto simp: loop_end_ok_def loop_inv_def MAX_INTERNAL_GENERATION_ROUNDS_def)
qed

lemma tool_messages_spec:
  "length os = length tcs \<Longrightarrow> tool_messages tcs os = Some ms \<Longrightarrow>
     list_all2 (\<lambda>call m. \<exists>content. m = tool_message call content) tcs ms
     \<and> map (\<lambda>m. get_str m ''content'') ms = map tool_result_text os"
proof (induction os tcs arbitrary: ms rule: list_induct2)
  case (Cons outcome os call tcs)
  from Cons.prems obtain content rest where "tool_result_text outcome = Some content"
    "tool_messages tcs os = Some rest" "ms = tool_message call content # rest"
    by (auto split: option.splits)
  with Cons.IH show ?case by (auto simp: tool_message_def get_str_def)
qed simp


lemma pump_rounds_bound:
  "ps_sent (pump_rounds parse search context rounds st)
     \<le> ps_sent st + ps_rounds_left st * rc_max_uses context"
proof (induction rounds arbitrary: st)
  case (Cons tcs rounds)
  show ?case
  proof (cases "pump_server_round parse search context tcs st")
    case (Some r)
    note outer = Some
    show ?thesis
    proof (cases r)
      case (Some st')
      obtain outcomes uses sent where run:
        "execute_server_round parse search context tcs (ps_sent st) = (outcomes, uses, sent)"
        by (metis prod_cases3)
      have "sent \<le> ps_sent st + rc_max_uses context"
        using execute_round_spec [OF run [unfolded execute_server_round_def]] by simp
      moreover have "ps_rounds_left st \<noteq> 0" "ps_rounds_left st' = ps_rounds_left st - 1" "ps_sent st' = sent"
        using outer Some run by (auto simp: pump_server_round_def split: if_splits)
      ultimately have "ps_sent st' + ps_rounds_left st' * rc_max_uses context
          \<le> ps_sent st + ps_rounds_left st * rc_max_uses context"
        by (cases "ps_rounds_left st") (auto simp: algebra_simps)
      with Cons.IH [of st'] outer Some show ?thesis by simp
    qed (use Some in simp)
  qed simp
qed simp

definition new_pump_search :: "responses_search_context \<Rightarrow> json \<Rightarrow> pump_search" where
  "new_pump_search context body =
     \<lparr>ps_rounds_left = rc_max_uses context, ps_sent = 0, ps_body = body\<rparr>"

definition five_calls :: "tool_call list" where
  "five_calls = replicate 5 \<lparr>tc_id = ''c'', tc_name = ''web_search'', tc_arguments = ''q''\<rparr>"

definition query_arguments :: "string \<Rightarrow> json option" where
  "query_arguments s = Some (JObj [(''query'', JStr s)])"

text \<open>The Responses budget is per round. Every server round starts with the full \<open>max_uses\<close>,
  and there are up to \<open>max_uses\<close> rounds, so one request sends at most the square of the declared
  cap; and it does send that many: with the cap of 5, a model that asks five times for five searches
  gets 25, where the Anthropic loop stops at 5.\<close>

theorem responses_search_budget:
  "ps_sent (pump_rounds parse search context rounds (new_pump_search context body))
     \<le> rc_max_uses context * rc_max_uses context
   \<and> ps_sent (pump_rounds query_arguments (\<lambda>k q. search_failed q Unavailable)
        \<lparr>rc_max_uses = MAX_WEB_SEARCH_USES_PER_REQUEST, rc_domains = None\<rparr> (replicate 5 five_calls)
        (new_pump_search \<lparr>rc_max_uses = MAX_WEB_SEARCH_USES_PER_REQUEST, rc_domains = None\<rparr>
           (JObj [(''messages'', JArr [])]))) = 25"
proof
  show "ps_sent (pump_rounds parse search context rounds (new_pump_search context body))
      \<le> rc_max_uses context * rc_max_uses context"
    using pump_rounds_bound [of parse search "context" rounds "new_pump_search context body"]
    by (simp add: new_pump_search_def)
qed code_simp

subsection \<open>Concrete runs\<close>

definition demo_generation :: "nat \<Rightarrow> json option" where
  "demo_generation n = Some (JObj [(''choices'', JArr [JObj [(''message'', JObj [(''tool_calls'', JArr
     [JObj [(''id'', JStr ''c''), (''function'', JObj [(''name'', JStr ''web_search''),
       (''arguments'', JStr ''q'')])]])])]])])"

definition demo_search_config :: web_search_config where
  "demo_search_config = \<lparr>wc_version = V20250305, wc_max_uses = 2, wc_domains = None\<rparr>"

theorem search_budget_respected_witness:
  "sl_sent (snd (complete_with_web_search query_arguments (\<lambda>k q. search_failed q Unavailable) (\<lambda>n. ''id'')
      [''web_search''] demo_generation (new_search_loop demo_search_config (JObj [(''messages'', JArr [])])))) \<le> 2"
proof -
  obtain outcome st where run: "complete_with_web_search query_arguments (\<lambda>k q. search_failed q Unavailable)
      (\<lambda>n. ''id'') [''web_search''] demo_generation
      (new_search_loop demo_search_config (JObj [(''messages'', JArr [])])) = (outcome, st)" by force
  from search_budget_respected [OF this] show ?thesis unfolding run by (simp add: demo_search_config_def)
qed


end
