(* ===== verification/Stream_Watch.thy ===== *)
theory Stream_Watch
  imports Rust_Prelude
begin

text \<open>
  \<open>src/stream_watch.rs\<close>: stall detection on an upstream stream. Time stamps are arguments;
  \<open>Instant + Duration\<close> panics on overflow, which is the result \<open>None\<close> of \<open>next_deadline\<close>.
\<close>

record stream_timeouts =
  first_event :: duration
  first_semantic :: duration
  stream_idle :: duration
  semantic_idle :: duration

definition timeouts_from_secs :: "nat \<Rightarrow> nat \<Rightarrow> nat \<Rightarrow> nat \<Rightarrow> stream_timeouts" where
  "timeouts_from_secs fe fs si se =
     \<lparr>first_event = from_secs fe, first_semantic = from_secs fs, stream_idle = from_secs si,
      semantic_idle = from_secs se\<rparr>"

definition timeouts_disabled :: stream_timeouts where
  "timeouts_disabled =
     \<lparr>first_event = 0, first_semantic = 0, stream_idle = 0, semantic_idle = 0\<rparr>"

datatype stall_kind = FirstEvent | FirstSemantic | StreamIdle | SemanticIdle

fun stall_kind_as_str :: "stall_kind \<Rightarrow> string" where
  "stall_kind_as_str FirstEvent = ''upstream_first_event_timeout''"
| "stall_kind_as_str FirstSemantic = ''upstream_first_semantic_timeout''"
| "stall_kind_as_str StreamIdle = ''upstream_stream_idle_timeout''"
| "stall_kind_as_str SemanticIdle = ''upstream_semantic_idle_timeout''"

fun stall_message :: "stall_kind \<Rightarrow> string" where
  "stall_message FirstEvent = ''upstream produced no stream event before the first-event timeout''"
| "stall_message FirstSemantic =
     ''upstream produced no reasoning/text/tool progress before the first-semantic timeout''"
| "stall_message StreamIdle = ''upstream stream was idle (no bytes) beyond the configured limit''"
| "stall_message SemanticIdle =
     ''upstream produced no reasoning/text/tool progress beyond the semantic idle limit''"

record stream_watch =
  timeouts :: stream_timeouts
  started :: instant
  last_byte :: instant
  last_semantic :: instant
  got_first_event :: bool
  got_first_semantic :: bool

definition new_watch :: "stream_timeouts \<Rightarrow> instant \<Rightarrow> stream_watch" where
  "new_watch t start =
     \<lparr>timeouts = t, started = start, last_byte = start, last_semantic = start,
      got_first_event = False, got_first_semantic = False\<rparr>"

definition on_upstream_bytes :: "instant \<Rightarrow> stream_watch \<Rightarrow> stream_watch" where
  "on_upstream_bytes now w = w\<lparr>last_byte := now\<rparr>"

definition on_sse_event :: "stream_watch \<Rightarrow> stream_watch" where
  "on_sse_event w = w\<lparr>got_first_event := True\<rparr>"

definition on_semantic :: "instant \<Rightarrow> stream_watch \<Rightarrow> stream_watch" where
  "on_semantic now w = w\<lparr>got_first_semantic := True, last_semantic := now\<rparr>"

text \<open>An armed timer of length \<open>d\<close> that runs since \<open>since\<close> has expired;
  \<open>saturating_duration_since\<close> is the truncated difference.\<close>

definition expired :: "duration \<Rightarrow> instant \<Rightarrow> instant \<Rightarrow> bool" where
  "expired d since now \<longleftrightarrow> d \<noteq> 0 \<and> d \<le> now - since"

definition check :: "stream_watch \<Rightarrow> instant \<Rightarrow> stall_kind option" where
  "check w now =
     (let t = timeouts w in
      if \<not> got_first_event w \<and> expired (first_event t) (started w) now then Some FirstEvent
      else if \<not> got_first_semantic w \<and> expired (first_semantic t) (started w) now
        then Some FirstSemantic
      else if expired (stream_idle t) (last_byte w) now then Some StreamIdle
      else if got_first_semantic w \<and> expired (semantic_idle t) (last_semantic w) now
        then Some SemanticIdle
      else None)"

definition one_year :: duration where "one_year = from_secs (60 * 60 * 24 * 365)"

definition arm :: "bool \<Rightarrow> duration \<Rightarrow> instant \<Rightarrow> instant option \<Rightarrow> instant option" where
  "arm active d since deadline =
     (if active \<and> d \<noteq> 0
      then Option.bind deadline (\<lambda>best. map_option (min best) (instant_checked_add since d))
      else deadline)"

definition next_deadline :: "stream_watch \<Rightarrow> instant option" where
  "next_deadline w =
     (let t = timeouts w in
      arm (got_first_semantic w) (semantic_idle t) (last_semantic w)
        (arm True (stream_idle t) (last_byte w)
          (arm (\<not> got_first_semantic w) (first_semantic t) (started w)
            (arm (\<not> got_first_event w) (first_event t) (started w)
              (instant_checked_add (started w) one_year)))))"

subsection \<open>Properties\<close>

lemma expired_iff: "expired d since now \<longleftrightarrow> d \<noteq> 0 \<and> since + d \<le> now"
  by (auto simp: expired_def)

lemma arm_Some:
  "arm active d since deadline = Some t \<Longrightarrow>
     \<exists>best. deadline = Some best
       \<and> (t \<le> now \<longleftrightarrow> best \<le> now \<or> active \<and> expired d since now)"
  by (auto simp: arm_def expired_iff bind_eq_Some_conv instant_checked_add_def min_le_iff_disj
      split: if_splits)

text \<open>The poll deadline is exact: when it exists, a check at any time within the first year
  reports a stall precisely from the deadline on, so a task that sleeps until the deadline neither
  misses a stall nor wakes up early.\<close>

theorem next_deadline_exact:
  assumes "next_deadline w = Some t" and "now < started w + one_year"
  shows "check w now \<noteq> None \<longleftrightarrow> t \<le> now"
proof -
  let ?t = "timeouts w"
  obtain b1 where b1: "arm True (stream_idle ?t) (last_byte w)
          (arm (\<not> got_first_semantic w) (first_semantic ?t) (started w)
            (arm (\<not> got_first_event w) (first_event ?t) (started w)
              (instant_checked_add (started w) one_year))) = Some b1"
      "t \<le> now \<longleftrightarrow> b1 \<le> now \<or> got_first_semantic w \<and> expired (semantic_idle ?t) (last_semantic w) now"
    using arm_Some [where now = now] assms(1) unfolding next_deadline_def Let_def by blast
  obtain b2 where b2: "arm (\<not> got_first_semantic w) (first_semantic ?t) (started w)
            (arm (\<not> got_first_event w) (first_event ?t) (started w)
              (instant_checked_add (started w) one_year)) = Some b2"
      "b1 \<le> now \<longleftrightarrow> b2 \<le> now \<or> expired (stream_idle ?t) (last_byte w) now"
    using arm_Some [OF b1(1), where now = now] by blast
  obtain b3 where b3: "arm (\<not> got_first_event w) (first_event ?t) (started w)
              (instant_checked_add (started w) one_year) = Some b3"
      "b2 \<le> now \<longleftrightarrow> b3 \<le> now \<or> \<not> got_first_semantic w \<and> expired (first_semantic ?t) (started w) now"
    using arm_Some [OF b2(1), where now = now] by blast
  obtain b4 where b4: "instant_checked_add (started w) one_year = Some b4"
      "b3 \<le> now \<longleftrightarrow> b4 \<le> now \<or> \<not> got_first_event w \<and> expired (first_event ?t) (started w) now"
    using arm_Some [OF b3(1), where now = now] by blast
  have "\<not> b4 \<le> now" using b4(1) assms(2) by (simp add: instant_checked_add_def split: if_splits)
  with b1(2) b2(2) b3(2) b4(2) show ?thesis by (auto simp: check_def Let_def)
qed

lemma next_deadline_exact_witness:
  "check (new_watch (timeouts_from_secs 30 0 5 0) 100) 5000000101 \<noteq> None"
  using next_deadline_exact [of "new_watch (timeouts_from_secs 30 0 5 0) 100" "5000000100" 5000000101]
  by (simp add: new_watch_def timeouts_from_secs_def next_deadline_def arm_def one_year_def time_defs Let_def)

datatype watch_event = Bytes instant | SseEvent | Semantic instant

fun watch_step :: "watch_event \<Rightarrow> stream_watch \<Rightarrow> stream_watch" where
  "watch_step (Bytes now) w = on_upstream_bytes now w"
| "watch_step SseEvent w = on_sse_event w"
| "watch_step (Semantic now) w = on_semantic now w"

lemmas watch_op_defs = on_upstream_bytes_def on_sse_event_def on_semantic_def

lemma quiet_run:
  "\<forall>e \<in> set es. \<nexists>now. e = Semantic now \<Longrightarrow>
   timeouts (fold watch_step es w) = timeouts w \<and> started (fold watch_step es w) = started w
   \<and> got_first_semantic (fold watch_step es w) = got_first_semantic w
   \<and> last_semantic (fold watch_step es w) = last_semantic w"
proof (induction es arbitrary: w)
  case (Cons e es)
  then have "timeouts (watch_step e w) = timeouts w \<and> started (watch_step e w) = started w
   \<and> got_first_semantic (watch_step e w) = got_first_semantic w
   \<and> last_semantic (watch_step e w) = last_semantic w"
    by (cases e) (auto simp: watch_op_defs)
  with Cons show ?case by simp
qed simp

text \<open>C37. Traffic without progress cannot hide a stall: whatever bytes and events keep arriving, if
  no reasoning, text or tool delta does, the stream is reported once the armed semantic timer (the
  first-semantic one before any progress, the idle one after it) has run out.\<close>

theorem semantic_stall_detected:
  assumes "\<forall>e \<in> set es. \<nexists>at. e = Semantic at"
    and "d = (if got_first_semantic w then semantic_idle (timeouts w) else first_semantic (timeouts w))"
    and "d \<noteq> 0"
    and "(if got_first_semantic w then last_semantic w else started w) + d \<le> now"
  shows "check (fold watch_step es w) now \<noteq> None"
  using quiet_run [OF assms(1), of w] assms(2-4)
  by (simp add: check_def Let_def expired_iff split: if_splits)

lemma semantic_stall_detected_witness:
  "check (fold watch_step [SseEvent, Bytes 9, Bytes 59]
     (new_watch \<lparr>first_event = 0, first_semantic = 60, stream_idle = 0, semantic_idle = 0\<rparr> 0)) 60 \<noteq> None"
  by (rule semantic_stall_detected [where d = "60::nat"]) (simp_all add: new_watch_def)

end
