(* ===== verification/Context_Guard.thy ===== *)
theory Context_Guard
  imports Rust_Prelude
begin

text \<open>
  \<open>src/context_guard.rs\<close>: the budget of the provider's context window. Counts are \<open>u64\<close>,
  carried as naturals: every addition and product of the code saturates (\<open>sat_add64\<close>,
  \<open>sat_mul64\<close>), every subtraction is a \<open>saturating_sub\<close>, which is subtraction on naturals.
\<close>

record context_limits =
  window_tokens :: nat
  safety_margin_tokens :: nat
  min_output_tokens :: nat

datatype context_decision =
    Allow (reserved_output: nat) (total_budget: nat) (headroom: nat)
  | ReduceOutput (reserved_output: nat) (total_budget: nat) (headroom: nat) (requested_output: nat)
  | RejectInput (total_needed: nat) (window_of: nat)

fun context_decision_as_str :: "context_decision \<Rightarrow> string" where
  "context_decision_as_str (Allow _ _ _) = ''allow''"
| "context_decision_as_str (ReduceOutput _ _ _ _) = ''reduce_output''"
| "context_decision_as_str (RejectInput _ _) = ''reject_input''"

definition conservative_tokens_from_bytes :: "nat \<Rightarrow> nat" where
  "conservative_tokens_from_bytes bytes = (if bytes \<le> u64_max then bytes else u64_max)"

definition well_below_window :: "nat \<Rightarrow> context_limits \<Rightarrow> nat \<Rightarrow> bool" where
  "well_below_window estimate limits output =
     (let needed = sat_add64 (sat_add64 estimate output) (safety_margin_tokens limits)
      in sat_mul64 needed 4 < window_tokens limits)"

definition evaluate :: "nat \<Rightarrow> nat \<Rightarrow> context_limits \<Rightarrow> context_decision" where
  "evaluate input requested limits =
     (let window = window_tokens limits;
          margin = safety_margin_tokens limits;
          min_out = max (min_output_tokens limits) 1;
          usable = window - margin;
          remaining = usable - input;
          total_with_requested = sat_add64 input requested
      in if remaining < min_out
         then RejectInput (sat_add64 (sat_add64 input min_out) margin) window
         else if requested \<le> remaining
         then Allow requested total_with_requested (remaining - requested)
         else ReduceOutput remaining (sat_add64 input remaining) 0 requested)"

subsection \<open>Properties\<close>

text \<open>C26. The decision in closed form, for a window that is a \<open>u64\<close>: input, reserved output and
  margin never exceed the window; the reported budget is exact although the code saturates; a
  request is rejected exactly when less than the minimum output is left; otherwise it is allowed unchanged
  exactly when what it asks for fits too, and reduced to exactly the remaining room when it does not.\<close>

theorem evaluate_spec:
  fixes input requested :: nat and limits :: context_limits
  assumes "window_tokens limits \<le> u64_max"
  defines "room \<equiv> int (window_tokens limits) - int (safety_margin_tokens limits) - int input"
    and "least \<equiv> int (max (min_output_tokens limits) 1)"
  shows "case evaluate input requested limits of
      Allow r tot h \<Rightarrow>
        r = requested \<and> least \<le> room \<and> int requested \<le> room
        \<and> tot = input + r \<and> int h = room - int r
    | ReduceOutput r tot h q \<Rightarrow>
        q = requested \<and> least \<le> room \<and> room < int requested
        \<and> int r = room \<and> tot = input + r \<and> h = 0
        \<and> tot + safety_margin_tokens limits = window_tokens limits
    | RejectInput needed w \<Rightarrow>
        room < least \<and> w = window_tokens limits \<and> (w < needed \<or> needed = u64_max)"
  using assms by (auto simp: evaluate_def Let_def sat_add64_def)

lemma evaluate_spec_witness:
  "evaluate 100 900 \<lparr>window_tokens = 1000, safety_margin_tokens = 50, min_output_tokens = 16\<rparr>
     = ReduceOutput 850 950 0 900"
  using evaluate_spec [of "\<lparr>window_tokens = 1000, safety_margin_tokens = 50, min_output_tokens = 16\<rparr>"
      100 900]
  by (simp add: evaluate_def sat_add64_def u64_max_def)

text \<open>The cheap pre-check never admits what the exact guard would refuse: when the byte
  estimate is well below the window, the exact evaluation of any input up to the estimate allows
  the requested output unchanged.\<close>

theorem well_below_window_sound:
  assumes "well_below_window estimate limits output" and "input \<le> estimate"
    and "min_output_tokens limits \<le> output" and "window_tokens limits \<le> u64_max"
  shows "\<exists>tot h. evaluate input output limits = Allow output tot h"
  using assms
  by (auto simp: well_below_window_def evaluate_def Let_def arith_width_defs min_def split: if_splits)

lemma well_below_window_sound_witness:
  "\<exists>tot h. evaluate 80 10 \<lparr>window_tokens = 1000, safety_margin_tokens = 50, min_output_tokens = 1\<rparr>
     = Allow 10 tot h"
  by (rule well_below_window_sound [of 90])
     (simp_all add: well_below_window_def arith_width_defs u64_max_def)

end
