(* ===== verification/Reasoning_Shadow.thy ===== *)
theory Reasoning_Shadow
  imports Json_Value Machine_Interfaces "HOL-Library.AList" "HOL-Library.Word"
begin

text \<open>
  \<open>src/reasoning_shadow.rs\<close>: the bounded in-memory store of reasoning between the rounds of a tool
  loop. A hash map is an association list with distinct keys; the code never depends on its
  order. \<open>hash_id\<close> stands for the standard library's \<open>DefaultHasher\<close> on a call id, whose
  algorithm is unspecified. Clock readings are arguments. \<open>usize\<close> is 64 bits.
\<close>

record shadow_entry =
  se_reasoning :: string
  se_created :: instant

type_synonym shadow_key = "nat list \<times> nat"

record session_state =
  ss_entries :: "(shadow_key \<times> shadow_entry) list"
  ss_bytes :: nat

record shadow_metrics =
  m_stores :: "64 word"
  m_restores :: "64 word"
  m_misses :: "64 word"
  m_evicted :: "64 word"
  m_oversized :: "64 word"
  m_active :: "64 word"

record shadow_limits =
  max_sessions :: nat
  max_total_bytes :: nat
  max_entry_bytes :: nat
  ttl :: duration

definition default_limits :: shadow_limits where
  "default_limits =
     \<lparr>max_sessions = 256, max_total_bytes = 64 * 1024 * 1024, max_entry_bytes = 1024 * 1024,
      ttl = from_secs 600\<rparr>"

record shadow_store =
  sh_sessions :: "(string \<times> session_state) list"
  sh_order :: "string list"
  sh_total :: nat
  sh_metrics :: shadow_metrics

definition new_store :: shadow_store where
  "new_store =
     \<lparr>sh_sessions = [], sh_order = [], sh_total = 0,
      sh_metrics = \<lparr>m_stores = 0, m_restores = 0, m_misses = 0, m_evicted = 0, m_oversized = 0,
        m_active = 0\<rparr>\<rparr>"

definition bump ::
  "((64 word \<Rightarrow> 64 word) \<Rightarrow> shadow_metrics \<Rightarrow> shadow_metrics) \<Rightarrow> nat \<Rightarrow> shadow_store \<Rightarrow> shadow_store" where
  "bump field n st = st\<lparr>sh_metrics := field (\<lambda>w. w + of_nat n) (sh_metrics st)\<rparr>"

subsection \<open>Keys\<close>

definition hex_digit :: "char \<Rightarrow> nat option" where
  "hex_digit c =
     (if is_digit c then Some (digit_val c)
      else if 97 \<le> byte c \<and> byte c \<le> 102 then Some (byte c - 87)
      else if 65 \<le> byte c \<and> byte c \<le> 70 then Some (byte c - 55)
      else None)"

fun hex_value :: "nat \<Rightarrow> string \<Rightarrow> nat option" where
  "hex_value acc [] = Some acc"
| "hex_value acc (c # s) = Option.bind (hex_digit c) (\<lambda>d. hex_value (acc * 16 + d) s)"

text \<open>\<open>u8::from_str_radix(_, 16)\<close> of at most two bytes, an optional plus sign included.\<close>

definition parse_hex_u8 :: "string \<Rightarrow> nat option" where
  "parse_hex_u8 s =
     (let ds = (case s of c # r \<Rightarrow> if c = CHR ''+'' then r else s | [] \<Rightarrow> s)
      in if ds = [] then None else hex_value 0 ds)"

fun key_bytes :: "nat \<Rightarrow> string \<Rightarrow> nat list" where
  "key_bytes i (a # b # s) =
     (if i < 8
      then (let chunk = (if from_utf8_lossy [a, b] = [a, b] then [a, b] else ''00'') in
            (case parse_hex_u8 chunk of Some v \<Rightarrow> v | None \<Rightarrow> i) # key_bytes (Suc i) s)
      else [])"
| "key_bytes i [a] =
     (if i < 8
      then [let chunk = (if from_utf8_lossy [a] = [a] then [a] else ''00'') in
            (case parse_hex_u8 chunk of Some v \<Rightarrow> v | None \<Rightarrow> i)]
      else [])"
| "key_bytes i [] = []"

definition session_key :: "string \<Rightarrow> nat list" where
  "session_key fp = (let ks = key_bytes 0 fp in ks @ replicate (8 - length ks) 0)"

subsection \<open>Eviction\<close>

definition drop_session :: "string \<Rightarrow> shadow_store \<Rightarrow> shadow_store" where
  "drop_session name st =
     (case map_of (sh_sessions st) name of
        None \<Rightarrow> st
      | Some s \<Rightarrow>
          bump m_evicted_update (length (ss_entries s))
            (st\<lparr>sh_sessions := AList.delete name (sh_sessions st),
                sh_total := sh_total st - ss_bytes s\<rparr>))"

definition drop_with_order :: "string \<Rightarrow> shadow_store \<Rightarrow> shadow_store" where
  "drop_with_order name st =
     (if map_of (sh_sessions st) name = None then st
      else (drop_session name st)\<lparr>sh_order := filter (\<lambda>n. n \<noteq> name) (sh_order st)\<rparr>)"

definition entry_expired :: "duration \<Rightarrow> instant \<Rightarrow> shadow_entry \<Rightarrow> bool" where
  "entry_expired limit now e \<longleftrightarrow> limit < now - se_created e"

definition expired_sessions :: "shadow_limits \<Rightarrow> instant \<Rightarrow> shadow_store \<Rightarrow> string list" where
  "expired_sessions limits now st =
     map fst (filter (\<lambda>(name, s). list_all (\<lambda>(k, e). entry_expired (ttl limits) now e) (ss_entries s))
       (sh_sessions st))"

text \<open>The two pressure loops: while the condition holds, drop the session at the front.\<close>

fun evict_while :: "(shadow_store \<Rightarrow> bool) \<Rightarrow> string list \<Rightarrow> shadow_store \<Rightarrow> shadow_store" where
  "evict_while pressure [] st = st\<lparr>sh_order := []\<rparr>"
| "evict_while pressure (victim # rest) st =
     (if pressure st then evict_while pressure rest (drop_session victim st)
      else st\<lparr>sh_order := victim # rest\<rparr>)"

definition byte_pressure :: "shadow_limits \<Rightarrow> shadow_store \<Rightarrow> bool" where
  "byte_pressure limits st \<longleftrightarrow> max_total_bytes limits < sh_total st"

definition session_pressure :: "shadow_limits \<Rightarrow> shadow_store \<Rightarrow> bool" where
  "session_pressure limits st \<longleftrightarrow> max_sessions limits < length (sh_sessions st)"

definition enforce_limits :: "shadow_limits \<Rightarrow> instant \<Rightarrow> shadow_store \<Rightarrow> shadow_store" where
  "enforce_limits limits now st =
     (let st1 = fold drop_with_order (expired_sessions limits now st) st;
          st2 = evict_while (byte_pressure limits) (sh_order st1) st1
      in evict_while (session_pressure limits) (sh_order st2) st2)"

subsection \<open>Operations\<close>

definition total_entry_count :: "shadow_store \<Rightarrow> nat" where
  "total_entry_count st = sum_list (map (\<lambda>(n, s). length (ss_entries s)) (sh_sessions st))"

definition session_of :: "string \<Rightarrow> shadow_store \<Rightarrow> session_state" where
  "session_of fp st =
     (case map_of (sh_sessions st) fp of Some s \<Rightarrow> s | None \<Rightarrow> \<lparr>ss_entries = [], ss_bytes = 0\<rparr>)"

text \<open>The insertion under the lock, before the limits are enforced.\<close>

definition insert_reasoning ::
  "(string \<Rightarrow> nat) \<Rightarrow> string \<Rightarrow> string list \<Rightarrow> string \<Rightarrow> instant \<Rightarrow> shadow_store \<Rightarrow> shadow_store" where
  "insert_reasoning hash_id fp ids reasoning now st =
     (let entry = \<lparr>se_reasoning = reasoning, se_created = now\<rparr>;
          order = (if map_of (sh_sessions st) fp = None then sh_order st @ [fp] else sh_order st);
          s = session_of fp st;
          added = fold (\<lambda>i n. sat_add64 n (length reasoning)) ids 0;
          s' = \<lparr>ss_entries =
                  fold (\<lambda>i. AList.update (session_key fp, hash_id i) entry) ids (ss_entries s),
                ss_bytes = sat_add64 (ss_bytes s) added\<rparr>
      in st\<lparr>sh_sessions := AList.update fp s' (sh_sessions st), sh_order := order,
            sh_total := sat_add64 (sh_total st) added\<rparr>)"

definition store_reasoning ::
  "shadow_limits \<Rightarrow> (string \<Rightarrow> nat) \<Rightarrow> string \<Rightarrow> string list \<Rightarrow> string \<Rightarrow> instant \<Rightarrow> instant
   \<Rightarrow> shadow_store \<Rightarrow> shadow_store" where
  "store_reasoning limits hash_id fp ids reasoning now later st =
     (if reasoning = [] \<or> ids = [] then st
      else if max_entry_bytes limits < length reasoning then bump m_oversized_update 1 st
      else let st1 = bump m_stores_update 1 (insert_reasoning hash_id fp ids reasoning now st);
               st2 = enforce_limits limits later st1
           in st2\<lparr>sh_metrics := (sh_metrics st2)\<lparr>m_active := of_nat (total_entry_count st2)\<rparr>\<rparr>)"

fun find_entry ::
  "(string \<Rightarrow> nat) \<Rightarrow> nat list \<Rightarrow> string list \<Rightarrow> session_state \<Rightarrow> (shadow_key \<times> shadow_entry) option" where
  "find_entry hash_id key [] s = None"
| "find_entry hash_id key (i # ids) s =
     (case map_of (ss_entries s) (key, hash_id i) of
        Some e \<Rightarrow> Some ((key, hash_id i), e)
      | None \<Rightarrow> find_entry hash_id key ids s)"

definition restore_reasoning ::
  "shadow_limits \<Rightarrow> (string \<Rightarrow> nat) \<Rightarrow> string \<Rightarrow> string list \<Rightarrow> instant \<Rightarrow> shadow_store
   \<Rightarrow> string option \<times> shadow_store" where
  "restore_reasoning limits hash_id fp ids now st =
     (if ids = [] then (None, st)
      else case map_of (sh_sessions st) fp of
          None \<Rightarrow> (None, st)
        | Some s \<Rightarrow>
            (case find_entry hash_id (session_key fp) ids s of
               None \<Rightarrow> (None, bump m_misses_update 1 st)
             | Some (k, e) \<Rightarrow>
                 (if entry_expired (ttl limits) now e
                  then (None, bump m_misses_update 1
                    (st\<lparr>sh_sessions := AList.update fp
                         (s\<lparr>ss_entries := AList.delete k (ss_entries s)\<rparr>) (sh_sessions st)\<rparr>))
                  else (Some (se_reasoning e), bump m_restores_update 1 st))))"

definition clear_session :: "string \<Rightarrow> shadow_store \<Rightarrow> shadow_store" where
  "clear_session fp st = drop_with_order fp st"

text \<open>The call ids of an assistant message that may get reasoning back: it has tool calls and no
  \<open>reasoning_content\<close> member yet.\<close>

definition restorable_ids :: "json \<Rightarrow> string list option" where
  "restorable_ids message =
     (if get_str message ''role'' \<noteq> Some ''assistant'' then None
      else if json_get message ''reasoning_content'' \<noteq> None then None
      else map_option (List.map_filter (\<lambda>call. get_str call ''id''))
             (Option.bind (json_get message ''tool_calls'') as_array))"

fun set_member :: "string \<Rightarrow> json \<Rightarrow> json \<Rightarrow> json" where
  "set_member k v (JObj kvs) = JObj (obj_insert k v kvs)"
| "set_member k v other = other"

definition restore_message ::
  "shadow_limits \<Rightarrow> (string \<Rightarrow> nat) \<Rightarrow> string \<Rightarrow> instant \<Rightarrow> json \<Rightarrow> shadow_store
   \<Rightarrow> json \<times> shadow_store" where
  "restore_message limits hash_id fp now message st =
     (case restorable_ids message of
        None \<Rightarrow> (message, st)
      | Some ids \<Rightarrow>
          (case restore_reasoning limits hash_id fp ids now st of
             (Some reasoning, st') \<Rightarrow> (set_member ''reasoning_content'' (JStr reasoning) message, st')
           | (None, st') \<Rightarrow> (message, st')))"

fun restore_messages ::
  "shadow_limits \<Rightarrow> (string \<Rightarrow> nat) \<Rightarrow> string \<Rightarrow> (nat \<Rightarrow> instant) \<Rightarrow> json list \<Rightarrow> shadow_store
   \<Rightarrow> json list \<times> shadow_store" where
  "restore_messages limits hash_id fp clock [] st = ([], st)"
| "restore_messages limits hash_id fp clock (m # ms) st =
     (case restore_message limits hash_id fp (clock 0) m st of
        (m', st1) \<Rightarrow>
          (case restore_messages limits hash_id fp (\<lambda>n. clock (Suc n)) ms st1 of
             (ms', st2) \<Rightarrow> (m' # ms', st2)))"

definition restore_into ::
  "shadow_limits \<Rightarrow> (string \<Rightarrow> nat) \<Rightarrow> string \<Rightarrow> (nat \<Rightarrow> instant) \<Rightarrow> jmap \<Rightarrow> shadow_store
   \<Rightarrow> jmap \<times> shadow_store" where
  "restore_into limits hash_id fp clock body st =
     (case Option.bind (map_of body ''messages'') as_array of
        None \<Rightarrow> (body, st)
      | Some messages \<Rightarrow>
          (let boundary = (case rposition (\<lambda>m. get_str m ''role'' = Some ''user'') messages of
                             Some i \<Rightarrow> i | None \<Rightarrow> length messages)
           in case restore_messages limits hash_id fp clock (drop boundary messages) st of
                (restored, st') \<Rightarrow>
                  (obj_insert ''messages'' (JArr (take boundary messages @ restored)) body, st')))"

definition reset_interval :: "shadow_store \<Rightarrow> shadow_store" where
  "reset_interval st =
     (let m = sh_metrics st in
      if m_stores m + m_restores m + m_misses m + m_evicted m + m_oversized m = 0 then st
      else st\<lparr>sh_metrics := m\<lparr>m_stores := 0, m_restores := 0, m_misses := 0, m_evicted := 0,
             m_oversized := 0\<rparr>\<rparr>)"

subsection \<open>Bookkeeping\<close>

definition held :: "session_state \<Rightarrow> nat" where
  "held s = sum_list (map (\<lambda>(k, e). length (se_reasoning e)) (ss_entries s))"

definition books :: "(string \<times> session_state) list \<Rightarrow> string list \<Rightarrow> nat \<Rightarrow> bool" where
  "books ss order tot \<longleftrightarrow>
     distinct (map fst ss) \<and> distinct order \<and> set order = fst ` set ss
     \<and> tot = sum_list (map (\<lambda>(n, s). ss_bytes s) ss)
     \<and> (\<forall>(n, s) \<in> set ss. held s \<le> ss_bytes s \<and> distinct (map fst (ss_entries s)))"

lemma sum_delete:
  assumes "distinct (map fst xs)" and "map_of xs k = Some v"
  shows "sum_list (map (\<lambda>(k, v). f v) (AList.delete k xs)) + (f v :: nat) = sum_list (map (\<lambda>(k, v). f v) xs)"
  using assms
proof (induction xs)
  case (Cons p xs)
  show ?case
  proof (cases "fst p = k")
    case True
    then have "AList.delete k xs = xs"
      using Cons.prems(1) by (intro delete_id) simp
    with True Cons.prems show ?thesis by (cases p) auto
  next
    case False
    with Cons show ?thesis by (cases p) auto
  qed
qed simp

lemma sum_update:
  "sum_list (map (\<lambda>(k, v). f v) (AList.update k v xs))
     + (case map_of xs k of None \<Rightarrow> 0 | Some old \<Rightarrow> f old)
   = sum_list (map (\<lambda>(k, v). f v) xs) + (f v :: nat)"
  by (induction xs) (auto split: option.split)

lemma sum_delete_le: "sum_list (map (\<lambda>(k, v). f v) (AList.delete k xs)) \<le> (sum_list (map (\<lambda>(k, v). f v) xs) :: nat)"
  by (induction xs) auto

lemma names_delete: "fst ` set (AList.delete k xs) = fst ` set xs - {k}"
  by (auto simp: AList.delete_eq image_iff split: prod.splits)

lemma books_drop:
  assumes "books ss order tot" and "map_of ss n = Some s"
  shows "books (AList.delete n ss) (filter (\<lambda>m. m \<noteq> n) order) (tot - ss_bytes s)"
proof -
  have tot: "sum_list (map (\<lambda>(n, s). ss_bytes s) (AList.delete n ss)) = tot - ss_bytes s"
    using sum_delete [of ss n s ss_bytes] assms by (simp add: books_def)
  have "distinct (map fst (AList.delete n ss))"
    using assms(1) by (simp add: books_def distinct_delete)
  moreover have "set (AList.delete n ss) \<subseteq> set ss" by (auto simp: AList.delete_eq)
  ultimately show ?thesis
    using assms(1) tot by (auto simp: books_def names_delete)
qed

lemma drop_session_fields:
  assumes "map_of (sh_sessions st) n = Some s"
  shows "sh_sessions (drop_session n st) = AList.delete n (sh_sessions st)"
    and "sh_total (drop_session n st) = sh_total st - ss_bytes s"
    and "sh_order (drop_session n st) = sh_order st"
  using assms by (simp_all add: drop_session_def bump_def)

definition books_of :: "shadow_store \<Rightarrow> bool" where
  "books_of st \<longleftrightarrow> books (sh_sessions st) (sh_order st) (sh_total st)"

lemma books_drop_with_order: "books_of st \<Longrightarrow> books_of (drop_with_order n st)"
  using books_drop [of "sh_sessions st" "sh_order st" "sh_total st" n]
  by (cases "map_of (sh_sessions st) n")
     (auto simp: books_of_def drop_with_order_def drop_session_fields)

lemma books_fold_drop: "books_of st \<Longrightarrow> books_of (fold drop_with_order ns st)"
  by (induction ns arbitrary: st) (simp_all add: books_drop_with_order)

text \<open>The pressure loop keeps the books, never raises the total, and ends without pressure if an
  empty store has none.\<close>

lemma evict_while_spec:
  assumes "books (sh_sessions st) order (sh_total st)"
    and "\<And>st o'. P (st\<lparr>sh_order := o'\<rparr>) = P st"
    and "\<And>st. sh_sessions st = [] \<Longrightarrow> sh_total st = 0 \<Longrightarrow> \<not> P st"
  shows "books_of (evict_while P order st) \<and> \<not> P (evict_while P order st)
    \<and> sh_total (evict_while P order st) \<le> sh_total st"
  using assms(1)
proof (induction order arbitrary: st)
  case Nil
  then have "sh_sessions st = []" "sh_total st = 0" by (auto simp: books_def)
  with Nil show ?case using assms(3) [of st] assms(2) by (simp add: books_of_def)
next
  case (Cons victim rest)
  show ?case
  proof (cases "P st")
    case True
    from Cons.prems obtain s where s: "map_of (sh_sessions st) victim = Some s"
      by (cases "map_of (sh_sessions st) victim") (auto simp: books_def map_of_eq_None_iff)
    have "filter (\<lambda>m. m \<noteq> victim) (victim # rest) = rest"
      using Cons.prems by (auto simp: books_def filter_id_conv)
    then have "books (sh_sessions (drop_session victim st)) rest (sh_total (drop_session victim st))"
      using books_drop [OF Cons.prems s] by (simp add: drop_session_fields [OF s])
    note Cons.IH [OF this]
    moreover have "sh_total (drop_session victim st) \<le> sh_total st"
      by (simp add: drop_session_fields [OF s])
    ultimately show ?thesis using True by auto
  next
    case False
    then show ?thesis using Cons.prems assms(2) by (simp add: books_of_def)
  qed
qed

definition shadow_ok :: "shadow_limits \<Rightarrow> shadow_store \<Rightarrow> bool" where
  "shadow_ok limits st \<longleftrightarrow>
     books_of st \<and> sh_total st \<le> max_total_bytes limits
     \<and> length (sh_sessions st) \<le> max_sessions limits"

lemma enforce_limits_ok: "books_of st \<Longrightarrow> shadow_ok limits (enforce_limits limits now st)"
proof -
  assume "books_of st"
  define st1 where "st1 = fold drop_with_order (expired_sessions limits now st) st"
  define st2 where "st2 = evict_while (byte_pressure limits) (sh_order st1) st1"
  have "books_of st1" unfolding st1_def by (rule books_fold_drop) fact
  then have 2: "books_of st2" "\<not> byte_pressure limits st2"
    using evict_while_spec [of st1 "sh_order st1" "byte_pressure limits"]
    by (simp_all add: st2_def books_of_def byte_pressure_def)
  then have "books_of (evict_while (session_pressure limits) (sh_order st2) st2)
      \<and> \<not> session_pressure limits (evict_while (session_pressure limits) (sh_order st2) st2)
      \<and> sh_total (evict_while (session_pressure limits) (sh_order st2) st2) \<le> sh_total st2"
    by (intro evict_while_spec) (simp_all add: books_of_def session_pressure_def)
  with 2(2) show ?thesis
    by (simp add: shadow_ok_def enforce_limits_def st1_def st2_def Let_def byte_pressure_def
        session_pressure_def)
qed

lemma held_update:
  "held \<lparr>ss_entries = AList.update k e es, ss_bytes = b\<rparr>
     \<le> held \<lparr>ss_entries = es, ss_bytes = b\<rparr> + length (se_reasoning e)"
  using sum_update [of "\<lambda>e. length (se_reasoning e)" k e es]
  by (simp add: held_def split: option.splits)

lemma held_updates:
  "held \<lparr>ss_entries = fold (\<lambda>i. AList.update (key, h i) e) ids es, ss_bytes = b\<rparr>
     \<le> held \<lparr>ss_entries = es, ss_bytes = b\<rparr> + length ids * length (se_reasoning e)"
proof (induction ids arbitrary: es)
  case (Cons i ids)
  from Cons [of "AList.update (key, h i) e es"] held_update [of "(key, h i)" e es b]
  show ?case by simp
qed simp

lemma distinct_updates:
  "distinct (map fst es) \<Longrightarrow> distinct (map fst (fold (\<lambda>i. AList.update (key, h i) e) ids es))"
  by (induction ids arbitrary: es) (simp_all add: distinct_update)

lemma added_bytes:
  "n + length ids * m \<le> u64_max \<Longrightarrow> fold (\<lambda>i n. sat_add64 n m) ids n = n + length ids * m"
proof (induction ids arbitrary: n)
  case (Cons i ids)
  then show ?case by (simp add: sat_add64_def)
qed simp

definition bounded_store :: "shadow_limits \<Rightarrow> string list \<Rightarrow> bool" where
  "bounded_store limits ids \<longleftrightarrow>
     max_total_bytes limits + length ids * max_entry_bytes limits \<le> u64_max"

lemma books_update:
  assumes "books ss order tot"
    and "held s' \<le> ss_bytes s'" and "distinct (map fst (ss_entries s'))"
    and "ss_bytes s' = ss_bytes (case map_of ss n of Some s \<Rightarrow> s | None \<Rightarrow> \<lparr>ss_entries = [], ss_bytes = 0\<rparr>) + d"
  shows "books (AList.update n s' ss) (if map_of ss n = None then order @ [n] else order) (tot + d)"
proof -
  have "sum_list (map (\<lambda>(n, s). ss_bytes s) (AList.update n s' ss)) = tot + d"
    using sum_update [of ss_bytes n s' ss] assms(1,4) by (simp add: books_def split: option.splits)
  moreover have "set (AList.update n s' ss) \<subseteq> insert (n, s') (set ss)"
    by (induction ss) auto
  moreover have "fst ` set (AList.update n s' ss) = insert n (fst ` set ss)"
    by (metis dom_map_of_conv_image_fst dom_fun_upd option.distinct(1) update_conv')
  moreover have "n \<notin> set order" if "map_of ss n = None"
    using that assms(1) by (simp add: books_def map_of_eq_None_iff)
  moreover have "n \<in> set order" if "map_of ss n \<noteq> None"
    using that assms(1) by (simp add: books_def map_of_eq_None_iff)
  ultimately show ?thesis
    using assms(1-3) by (auto simp: books_def distinct_update)
qed

lemma books_bytes_le:
  assumes "books ss order tot" and "map_of ss n = Some s"
  shows "ss_bytes s \<le> tot"
  using sum_delete [of ss n s ss_bytes] assms by (simp add: books_def)

lemma books_bump [simp]: "books_of (bump f n st) = books_of st"
  by (simp add: books_of_def bump_def)

lemma shadow_ok_metrics [simp]:
  "shadow_ok limits (bump f n st) = shadow_ok limits st"
  "shadow_ok limits (st\<lparr>sh_metrics := m\<rparr>) = shadow_ok limits st"
  by (simp_all add: shadow_ok_def books_of_def bump_def)

lemma insert_books:
  assumes ok: "shadow_ok limits st" and small: "bounded_store limits ids"
    and len: "length reasoning \<le> max_entry_bytes limits"
  shows "books_of (insert_reasoning hash_id fp ids reasoning now st)"
proof -
  let ?d = "length ids * length reasoning"
  define added where "added = fold (\<lambda>i n. sat_add64 n (length reasoning)) ids 0"
  define s where "s = session_of fp st"
  define s' where "s' = \<lparr>ss_entries = fold (\<lambda>i. AList.update (session_key fp, hash_id i)
      \<lparr>se_reasoning = reasoning, se_created = now\<rparr>) ids (ss_entries s),
      ss_bytes = sat_add64 (ss_bytes s) added\<rparr>"
  have books: "books (sh_sessions st) (sh_order st) (sh_total st)" and le: "sh_total st \<le> max_total_bytes limits"
    using ok by (simp_all add: shadow_ok_def books_of_def)
  have "?d \<le> length ids * max_entry_bytes limits" using len by simp
  then have fit: "sh_total st + ?d \<le> u64_max"
    using small le unfolding bounded_store_def by linarith
  then have added: "added = ?d" using added_bytes [of 0 ids "length reasoning"] by (simp add: added_def)
  have s: "ss_bytes s \<le> sh_total st \<and> held s \<le> ss_bytes s \<and> distinct (map fst (ss_entries s))"
  proof (cases "map_of (sh_sessions st) fp")
    case None
    then show ?thesis by (simp add: s_def session_of_def held_def)
  next
    case (Some s1)
    then have "held s1 \<le> ss_bytes s1 \<and> distinct (map fst (ss_entries s1))"
      using books by (auto simp: books_def dest: map_of_SomeD)
    then show ?thesis using books_bytes_le [OF books Some] Some by (simp add: s_def session_of_def)
  qed
  have sums: "ss_bytes s' = ss_bytes s + ?d" "sat_add64 (sh_total st) added = sh_total st + ?d"
    using fit s added by (simp_all add: sat_add64_def s'_def)
  have "held s' \<le> held s + ?d"
    using held_updates [of "session_key fp" hash_id "\<lparr>se_reasoning = reasoning, se_created = now\<rparr>"
        ids "ss_entries s" "sat_add64 (ss_bytes s) added"]
    by (simp add: held_def s'_def)
  then have "held s' \<le> ss_bytes s'" using s sums by simp
  moreover have "distinct (map fst (ss_entries s'))"
    using s by (simp add: s'_def distinct_updates)
  moreover have "ss_bytes s' = ss_bytes (case map_of (sh_sessions st) fp of Some s \<Rightarrow> s
      | None \<Rightarrow> \<lparr>ss_entries = [], ss_bytes = 0\<rparr>) + ?d"
    unfolding sums s_def session_of_def by simp
  ultimately have "books (AList.update fp s' (sh_sessions st))
      (if map_of (sh_sessions st) fp = None then sh_order st @ [fp] else sh_order st) (sh_total st + ?d)"
    by (rule books_update [OF books])
  moreover have "sh_sessions (insert_reasoning hash_id fp ids reasoning now st) = AList.update fp s' (sh_sessions st)"
    "sh_order (insert_reasoning hash_id fp ids reasoning now st)
      = (if map_of (sh_sessions st) fp = None then sh_order st @ [fp] else sh_order st)"
    "sh_total (insert_reasoning hash_id fp ids reasoning now st) = sh_total st + ?d"
    unfolding sums(2) [symmetric]
    by (simp_all add: insert_reasoning_def Let_def s_def s'_def added_def)
  ultimately show ?thesis by (simp add: books_of_def)
qed

lemma store_ok:
  assumes "shadow_ok limits st" and "bounded_store limits ids"
  shows "shadow_ok limits (store_reasoning limits hash_id fp ids reasoning now later st)"
proof (cases "reasoning = [] \<or> ids = [] \<or> max_entry_bytes limits < length reasoning")
  case True
  then show ?thesis using assms(1) by (auto simp: store_reasoning_def)
next
  case False
  then have "books_of (insert_reasoning hash_id fp ids reasoning now st)"
    using insert_books [OF assms] by simp
  with False show ?thesis by (simp add: store_reasoning_def Let_def enforce_limits_ok)
qed

lemma drop_ok: "shadow_ok limits st \<Longrightarrow> shadow_ok limits (drop_with_order n st)"
proof -
  assume ok: "shadow_ok limits st"
  then have "books_of (drop_with_order n st)" by (simp add: shadow_ok_def books_drop_with_order)
  moreover have "sh_total (drop_with_order n st) \<le> sh_total st
      \<and> length (sh_sessions (drop_with_order n st)) \<le> length (sh_sessions st)"
    using length_delete_le [of n "sh_sessions st"]
    by (cases "map_of (sh_sessions st) n")
       (simp_all add: drop_with_order_def drop_session_fields)
  ultimately show ?thesis using ok by (simp add: shadow_ok_def)
qed

lemma restore_ok:
  assumes "shadow_ok limits st"
  shows "shadow_ok limits (snd (restore_reasoning limits hash_id fp ids now st))"
proof -
  have "shadow_ok limits (st\<lparr>sh_sessions := AList.update fp
      (s\<lparr>ss_entries := AList.delete k (ss_entries s)\<rparr>) (sh_sessions st)\<rparr>)"
    if s: "map_of (sh_sessions st) fp = Some s" for s k
  proof -
    let ?s' = "s\<lparr>ss_entries := AList.delete k (ss_entries s)\<rparr>"
    have books: "books (sh_sessions st) (sh_order st) (sh_total st)"
      using assms by (simp add: shadow_ok_def books_of_def)
    then have "held s \<le> ss_bytes s" "distinct (map fst (ss_entries s))"
      using s by (auto simp: books_def dest: map_of_SomeD)
    moreover have "held ?s' \<le> held s"
      using sum_delete_le [of "\<lambda>e. length (se_reasoning e)" k "ss_entries s"] by (simp add: held_def)
    ultimately have "books (AList.update fp ?s' (sh_sessions st)) (sh_order st) (sh_total st + 0)"
      using books_update [OF books, of ?s' fp 0] s by (simp add: distinct_delete)
    moreover have "length (AList.update fp ?s' (sh_sessions st)) = length (sh_sessions st)"
      using s by (metis update_keys map_of_eq_None_iff list.set_map length_map option.distinct(1))
    ultimately show ?thesis using assms by (simp add: shadow_ok_def books_of_def)
  qed
  with assms show ?thesis
    by (auto simp: restore_reasoning_def split: option.split)
qed

datatype shadow_event =
    Store string "string list" string instant instant
  | Restore string "string list" instant
  | Clear string

fun shadow_step :: "shadow_limits \<Rightarrow> (string \<Rightarrow> nat) \<Rightarrow> shadow_event \<Rightarrow> shadow_store \<Rightarrow> shadow_store" where
  "shadow_step limits h (Store fp ids r now later) st = store_reasoning limits h fp ids r now later st"
| "shadow_step limits h (Restore fp ids now) st = snd (restore_reasoning limits h fp ids now st)"
| "shadow_step limits h (Clear fp) st = clear_session fp st"

fun shadow_allowed :: "shadow_limits \<Rightarrow> shadow_event \<Rightarrow> bool" where
  "shadow_allowed limits (Store fp ids r now later) = bounded_store limits ids"
| "shadow_allowed limits _ = True"

interpretation shadow: machine "shadow_step limits h" "shadow_allowed limits" "shadow_ok limits"
  for limits :: shadow_limits and h :: "string \<Rightarrow> nat"
proof unfold_locales
  fix limits :: shadow_limits and h :: "string \<Rightarrow> nat" and e st
  assume "shadow_allowed limits e" "shadow_ok limits st"
  then show "shadow_ok limits (shadow_step limits h e st)"
    by (cases e) (simp_all add: store_ok restore_ok drop_ok clear_session_def)
qed

lemma new_store_ok: "shadow_ok limits new_store"
  by (simp add: shadow_ok_def books_of_def books_def new_store_def)

definition reasoning_held :: "shadow_store \<Rightarrow> nat" where
  "reasoning_held st = sum_list (map (\<lambda>(n, s). held s) (sh_sessions st))"

text \<open>C38. The store is bounded on every history of stores, restores and clears (whose call lists are
  not absurdly long): the reasoning bytes held never exceed the accounted total, the total never
  exceeds its limit, nor the number of sessions theirs, and the eviction order lists exactly the
  live sessions.\<close>

theorem shadow_store_bounded:
  assumes "list_all (shadow_allowed limits) es" and "st = fold (shadow_step limits h) es new_store"
  shows "reasoning_held st \<le> sh_total st \<and> sh_total st \<le> max_total_bytes limits
    \<and> length (sh_sessions st) \<le> max_sessions limits
    \<and> distinct (map fst (sh_sessions st)) \<and> distinct (sh_order st)
    \<and> set (sh_order st) = fst ` set (sh_sessions st)"
proof -
  have ok: "shadow_ok limits st"
    using shadow.run_inv [OF assms(1) new_store_ok] assms(2) by simp
  have "held s \<le> ss_bytes s" if "(n, s) \<in> set (sh_sessions st)" for n s
    using ok that by (auto simp: shadow_ok_def books_of_def books_def)
  then have "reasoning_held st \<le> sum_list (map (\<lambda>(n, s). ss_bytes s) (sh_sessions st))"
    unfolding reasoning_held_def by (intro sum_list_mono) auto
  with ok show ?thesis by (auto simp: shadow_ok_def books_of_def books_def)
qed

subsection \<open>Sessions are isolated\<close>

definition session_in :: "shadow_store \<Rightarrow> string \<Rightarrow> session_state option" where
  "session_in st = map_of (sh_sessions st)"

text \<open>Eviction only removes whole sessions.\<close>

definition only_drops :: "shadow_store \<Rightarrow> shadow_store \<Rightarrow> bool" where
  "only_drops st st' \<longleftrightarrow> (\<forall>n. session_in st' n = session_in st n \<or> session_in st' n = None)"

lemma only_drops_refl [simp]: "only_drops st st"
  by (simp add: only_drops_def)

lemma only_drops_trans: "only_drops a b \<Longrightarrow> only_drops b c \<Longrightarrow> only_drops a c"
  unfolding only_drops_def by metis

lemma session_in_simps [simp]:
  "session_in (bump f n st) = session_in st"
  "session_in (st\<lparr>sh_metrics := m\<rparr>) = session_in st"
  "session_in (st\<lparr>sh_order := order\<rparr>) = session_in st"
  by (simp_all add: session_in_def bump_def)

lemma session_in_drop: "session_in (drop_session n st) = (session_in st)(n := None)"
proof (cases "map_of (sh_sessions st) n")
  case None
  then show ?thesis by (auto simp: drop_session_def session_in_def)
next
  case (Some s)
  then show ?thesis by (simp add: session_in_def drop_session_fields delete_conv')
qed

lemma session_in_drop_with_order: "session_in (drop_with_order n st) = (session_in st)(n := None)"
  by (auto simp: drop_with_order_def session_in_drop) (auto simp: session_in_def)

lemma session_in_fold_drop:
  "session_in (fold drop_with_order ns st) n = (if n \<in> set ns then None else session_in st n)"
  by (induction ns arbitrary: st) (auto simp: session_in_drop_with_order)

lemma only_drops_evict: "only_drops st (evict_while P order st)"
proof (induction P order st rule: evict_while.induct)
  case (2 P victim rest st)
  have "only_drops st (drop_session victim st)"
    by (simp add: only_drops_def session_in_drop)
  with 2 only_drops_trans show ?case by (auto simp: only_drops_def)
qed (simp add: only_drops_def)

lemma only_drops_enforce: "only_drops st (enforce_limits limits now st)"
proof -
  have "only_drops st (fold drop_with_order ns st)" for ns
    by (simp add: only_drops_def session_in_fold_drop)
  then show ?thesis
    unfolding enforce_limits_def Let_def using only_drops_evict only_drops_trans by blast
qed

definition inserted_session ::
  "(string \<Rightarrow> nat) \<Rightarrow> string \<Rightarrow> string list \<Rightarrow> string \<Rightarrow> instant \<Rightarrow> shadow_store \<Rightarrow> session_state" where
  "inserted_session hash_id fp ids reasoning now st =
     \<lparr>ss_entries = fold (\<lambda>i. AList.update (session_key fp, hash_id i)
         \<lparr>se_reasoning = reasoning, se_created = now\<rparr>) ids (ss_entries (session_of fp st)),
      ss_bytes = sat_add64 (ss_bytes (session_of fp st))
         (fold (\<lambda>i n. sat_add64 n (length reasoning)) ids 0)\<rparr>"

lemma session_in_insert:
  "session_in (insert_reasoning hash_id fp ids reasoning now st) =
     (session_in st)(fp \<mapsto> inserted_session hash_id fp ids reasoning now st)"
  by (simp add: session_in_def insert_reasoning_def inserted_session_def Let_def update_conv')

lemma map_of_updates:
  "map_of (fold (\<lambda>i. AList.update (key, h i) e) ids es) k =
     (if \<exists>i \<in> set ids. k = (key, h i) then Some e else map_of es k)"
  by (induction ids arbitrary: es) (auto simp: update_conv')

text \<open>Every entry comes from a store operation of its own session.\<close>

definition has_origin :: "(string \<Rightarrow> nat) \<Rightarrow> shadow_event set \<Rightarrow> shadow_store \<Rightarrow> bool" where
  "has_origin h E st \<longleftrightarrow>
     (\<forall>fp s k e. session_in st fp = Some s \<longrightarrow> map_of (ss_entries s) k = Some e \<longrightarrow>
        (\<exists>ids later. Store fp ids (se_reasoning e) (se_created e) later \<in> E
           \<and> (\<exists>i \<in> set ids. k = (session_key fp, h i))))"

lemma has_origin_mono: "has_origin h E st \<Longrightarrow> only_drops st st' \<Longrightarrow> has_origin h E st'"
  unfolding has_origin_def only_drops_def by (metis option.distinct(1))

lemma has_origin_more: "has_origin h E st \<Longrightarrow> E \<subseteq> E' \<Longrightarrow> has_origin h E' st"
  unfolding has_origin_def by (meson subsetD)

lemma has_origin_insert:
  assumes "has_origin h E st"
  shows "has_origin h (insert (Store fp ids r now later) E) (insert_reasoning h fp ids r now st)"
  unfolding has_origin_def
proof (intro allI impI)
  fix fp' s k e
  assume s: "session_in (insert_reasoning h fp ids r now st) fp' = Some s"
    and e: "map_of (ss_entries s) k = Some e"
  let ?goal = "\<exists>ids' later'. Store fp' ids' (se_reasoning e) (se_created e) later' \<in> insert (Store fp ids r now later) E
      \<and> (\<exists>i \<in> set ids'. k = (session_key fp', h i))"
  have old: ?goal if "session_in st fp' = Some s'" "map_of (ss_entries s') k = Some e" for s'
    using assms [unfolded has_origin_def, rule_format, OF that] by (auto intro: exI)
  show ?goal
  proof (cases "fp' = fp")
    case False
    then have "session_in st fp' = Some s" using s by (simp add: session_in_insert)
    with e old show ?thesis by blast
  next
    case True
    then have s': "s = inserted_session h fp ids r now st" using s by (simp add: session_in_insert)
    show ?thesis
    proof (cases "\<exists>i \<in> set ids. k = (session_key fp, h i)")
      case new: True
      then have "e = \<lparr>se_reasoning = r, se_created = now\<rparr>"
        using e by (simp add: s' inserted_session_def map_of_updates)
      with new True show ?thesis by auto
    next
      case False
      then have "map_of (ss_entries (session_of fp st)) k = Some e"
        using e by (simp add: s' inserted_session_def map_of_updates)
      then show ?thesis
        using old True by (cases "session_in st fp") (auto simp: session_of_def session_in_def)
    qed
  qed
qed

lemma has_origin_restore:
  assumes "has_origin h E st"
  shows "has_origin h E (snd (restore_reasoning limits h fp ids now st))"
proof -
  have "has_origin h E (st\<lparr>sh_sessions := AList.update fp
      (s\<lparr>ss_entries := AList.delete k (ss_entries s)\<rparr>) (sh_sessions st)\<rparr>)"
    if s: "map_of (sh_sessions st) fp = Some s" for s k
    unfolding has_origin_def
  proof (intro allI impI)
    fix fp' s' k' e
    assume "session_in (st\<lparr>sh_sessions := AList.update fp
      (s\<lparr>ss_entries := AList.delete k (ss_entries s)\<rparr>) (sh_sessions st)\<rparr>) fp' = Some s'"
      and "map_of (ss_entries s') k' = Some e"
    then obtain s0 where "session_in st fp' = Some s0" "map_of (ss_entries s0) k' = Some e"
      using s by (auto simp: session_in_def update_conv' delete_conv' split: if_splits)
    then show "\<exists>ids later. Store fp' ids (se_reasoning e) (se_created e) later \<in> E
           \<and> (\<exists>i \<in> set ids. k' = (session_key fp', h i))"
      using assms unfolding has_origin_def by blast
  qed
  moreover have "has_origin h E (bump f n st') = has_origin h E st'" for f n st'
    by (simp add: has_origin_def)
  ultimately show ?thesis
    using assms by (auto simp: restore_reasoning_def split: option.split)
qed

lemma has_origin_step: "has_origin h E st \<Longrightarrow> has_origin h (insert e E) (shadow_step limits h e st)"
proof (cases e)
  case (Store fp ids r now later)
  assume org: "has_origin h E st"
  have "has_origin h (insert e E) (enforce_limits limits later (bump m_stores_update 1 (insert_reasoning h fp ids r now st)))"
    by (rule has_origin_mono [OF _ only_drops_enforce])
       (use has_origin_insert [OF org, of fp ids r now later] Store in \<open>simp add: has_origin_def\<close>)
  moreover have "has_origin h (insert e E) st" using org by (rule has_origin_more) blast
  ultimately show ?thesis
    using Store by (simp add: store_reasoning_def Let_def has_origin_def)
next
  case (Restore fp ids now)
  assume "has_origin h E st"
  then have "has_origin h (insert e E) st" by (rule has_origin_more) blast
  then show ?thesis using Restore has_origin_restore by simp
next
  case (Clear fp)
  assume "has_origin h E st"
  then have "has_origin h (insert e E) st" by (rule has_origin_more) blast
  moreover have "only_drops st (clear_session fp st)"
    by (simp add: only_drops_def clear_session_def session_in_drop_with_order)
  ultimately show ?thesis using Clear has_origin_mono by simp
qed

lemma has_origin_run: "has_origin h E st \<Longrightarrow> has_origin h (set es \<union> E) (fold (shadow_step limits h) es st)"
proof (induction es arbitrary: E st)
  case (Cons e es)
  from Cons.IH [OF has_origin_step [OF Cons.prems]] show ?case by simp
qed simp

lemma find_entry_SomeD:
  "find_entry h key ids s = Some (k, e) \<Longrightarrow> map_of (ss_entries s) k = Some e \<and> (\<exists>i \<in> set ids. k = (key, h i))"
  by (induction ids) (auto split: option.splits)

text \<open>C33. No reasoning leaks between sessions or outlives its limit: whatever the history, a
  restored text was stored by the same session, for a call id with the same hash as one of the
  ids asked for, and not longer ago than the time to live.\<close>

theorem restored_reasoning_provenance:
  assumes "fst (restore_reasoning limits h fp ids t (fold (shadow_step limits h) es new_store)) = Some r"
  shows "\<exists>ids' now later. Store fp ids' r now later \<in> set es \<and> t - now \<le> ttl limits
    \<and> (\<exists>i \<in> set ids. \<exists>j \<in> set ids'. h i = h j)"
proof -
  let ?st = "fold (shadow_step limits h) es new_store"
  from assms obtain s k e where s: "map_of (sh_sessions ?st) fp = Some s"
      and f: "find_entry h (session_key fp) ids s = Some (k, e)"
      and r: "\<not> entry_expired (ttl limits) t e" "r = se_reasoning e"
    by (auto simp: restore_reasoning_def split: option.splits if_splits)
  have "has_origin h {} new_store" by (simp add: has_origin_def session_in_def new_store_def)
  then have "has_origin h (set es \<union> {}) ?st" by (rule has_origin_run)
  then obtain ids' later where "Store fp ids' r (se_created e) later \<in> set es" "\<exists>j \<in> set ids'. k = (session_key fp, h j)"
    using find_entry_SomeD [OF f] s r(2) unfolding has_origin_def session_in_def by fastforce
  moreover have "t - se_created e \<le> ttl limits" using r(1) by (simp add: entry_expired_def)
  moreover obtain i where "i \<in> set ids" "k = (session_key fp, h i)" using find_entry_SomeD [OF f] by blast
  ultimately show ?thesis by (metis Pair_inject)
qed

lemma restored_reasoning_provenance_witness:
  "\<exists>ids' now later. Store ''s'' ids' ''why'' now later
       \<in> set [Store ''s'' [''c1''] ''why'' 5 6, Store ''t'' [''c1''] ''other'' 7 8]
     \<and> 9 - now \<le> ttl default_limits
     \<and> (\<exists>i \<in> set [''c1'']. \<exists>j \<in> set ids'. length i = length j)"
proof (rule restored_reasoning_provenance)
  show "fst (restore_reasoning default_limits length ''s'' [''c1''] 9 (fold (shadow_step default_limits length)
      [Store ''s'' [''c1''] ''why'' 5 6, Store ''t'' [''c1''] ''other'' 7 8] new_store)) = Some ''why''"
    by (simp add: restore_reasoning_def store_reasoning_def insert_reasoning_def new_store_def Let_def
        session_of_def enforce_limits_def expired_sessions_def entry_expired_def default_limits_def
        time_defs bump_def byte_pressure_def session_pressure_def sat_add64_def u64_max_def)
qed

subsection \<open>A stored text is found again\<close>

lemma evict_while_idle: "\<not> P st \<Longrightarrow> evict_while P order st = st\<lparr>sh_order := order\<rparr>"
  by (cases order) simp_all

lemma drop_with_order_le:
  "sh_total (drop_with_order n st) \<le> sh_total st"
  "length (sh_sessions (drop_with_order n st)) \<le> length (sh_sessions st)"
  using length_delete_le [of n "sh_sessions st"]
  by (cases "map_of (sh_sessions st) n"; simp add: drop_with_order_def drop_session_fields)+

lemma fold_drop_le:
  "sh_total (fold drop_with_order ns st) \<le> sh_total st
   \<and> length (sh_sessions (fold drop_with_order ns st)) \<le> length (sh_sessions st)"
proof (induction ns arbitrary: st)
  case (Cons n ns)
  from Cons [of "drop_with_order n st"] drop_with_order_le [of n st] show ?case by simp
qed simp

lemma length_alist_update: "length (AList.update k v xs) \<le> Suc (length xs)"
  by (induction xs) auto

lemma enforce_keeps:
  assumes "books_of st" and "\<not> byte_pressure limits st" and "\<not> session_pressure limits st"
    and "session_in st fp = Some s" and "map_of (ss_entries s) k = Some e"
    and "\<not> entry_expired (ttl limits) now e"
  shows "session_in (enforce_limits limits now st) fp = Some s"
proof -
  let ?st1 = "fold drop_with_order (expired_sessions limits now st) st"
  have "distinct (map fst (sh_sessions st))" using assms(1) by (simp add: books_of_def books_def)
  then have "fp \<notin> set (expired_sessions limits now st)"
    using assms(4-6) by (auto simp: expired_sessions_def session_in_def list_all_iff dest!: map_of_SomeD
        dest: eq_key_imp_eq_value)
  then have fp: "session_in ?st1 fp = Some s" using assms(4) by (simp add: session_in_fold_drop)
  have quiet: "\<not> byte_pressure limits ?st1" "\<not> session_pressure limits ?st1"
    using fold_drop_le [of "expired_sessions limits now st" st] assms(2,3)
    by (simp_all add: byte_pressure_def session_pressure_def)
  have "enforce_limits limits now st = ?st1"
    unfolding enforce_limits_def Let_def
    using quiet by (simp add: evict_while_idle [of "byte_pressure limits" ?st1]
        evict_while_idle [of "session_pressure limits" ?st1])
  with fp show ?thesis by simp
qed

text \<open>Continuity: when the store has room, the reasoning of a turn is restored for its call ids
  until the time to live has passed.\<close>

theorem store_then_restore:
  assumes "shadow_ok limits st" and "bounded_store limits ids" and "ids \<noteq> []" and "r \<noteq> []"
    and "length r \<le> max_entry_bytes limits"
    and "sh_total st + length ids * length r \<le> max_total_bytes limits"
    and "length (sh_sessions st) < max_sessions limits"
    and "later - now \<le> ttl limits" and "t - now \<le> ttl limits"
  shows "fst (restore_reasoning limits h fp ids t (store_reasoning limits h fp ids r now later st)) = Some r"
proof -
  let ?ins = "insert_reasoning h fp ids r now st"
  let ?s = "inserted_session h fp ids r now st"
  let ?e = "\<lparr>se_reasoning = r, se_created = now\<rparr>"
  obtain i rest where ids: "ids = i # rest" using assms(3) by (cases ids) auto
  have entry: "map_of (ss_entries ?s) (session_key fp, h i) = Some ?e"
    by (simp add: inserted_session_def map_of_updates ids del: fold.simps)
  have "max_total_bytes limits + length ids * length r \<le> u64_max"
    using assms(2,5) unfolding bounded_store_def by (meson add_le_mono le_trans mult_le_mono order_refl)
  then have fit: "sh_total st + length ids * length r \<le> u64_max" using assms(6) by linarith
  then have tot: "sh_total ?ins = sh_total st + length ids * length r"
    using added_bytes [of 0 ids "length r"] by (simp add: insert_reasoning_def Let_def sat_add64_def)
  have "length (sh_sessions ?ins) \<le> Suc (length (sh_sessions st))"
    by (simp add: insert_reasoning_def Let_def length_alist_update)
  moreover have "books_of ?ins" using insert_books [OF assms(1,2,5)] .
  ultimately have "session_in (enforce_limits limits later (bump m_stores_update 1 ?ins)) fp = Some ?s"
    using tot assms(6-8) entry
    by (intro enforce_keeps [where k = "(session_key fp, h i)" and e = ?e])
       (simp_all add: byte_pressure_def session_pressure_def bump_def session_in_insert entry_expired_def
          books_of_def)
  then have "map_of (sh_sessions (store_reasoning limits h fp ids r now later st)) fp = Some ?s"
    using assms(4,5) ids by (simp add: store_reasoning_def Let_def session_in_def)
  then show ?thesis
    using entry assms(9) ids by (simp add: restore_reasoning_def entry_expired_def)
qed


lemma store_then_restore_witness:
  "fst (restore_reasoning default_limits length ''s'' [''c1''] 9
     (store_reasoning default_limits length ''s'' [''c1''] ''why'' 5 6 new_store)) = Some ''why''"
  by (rule store_then_restore [OF new_store_ok])
     (simp_all add: bounded_store_def default_limits_def new_store_def u64_max_def time_defs)

lemma shadow_store_bounded_witness:
  "reasoning_held (fold (shadow_step default_limits length)
     [Store ''s'' [''c1'', ''c2''] ''why'' 5 6, Restore ''s'' [''c1''] 7] new_store) \<le> 67108864"
  using shadow_store_bounded [of default_limits
      "[Store ''s'' [''c1'', ''c2''] ''why'' 5 6, Restore ''s'' [''c1''] 7]" _ length, OF _ refl]
  by (simp add: bounded_store_def default_limits_def u64_max_def)

subsection \<open>Restoring into a body\<close>

definition message_restored :: "json \<Rightarrow> json \<Rightarrow> bool" where
  "message_restored m m' \<longleftrightarrow>
     m' = m \<or> restorable_ids m \<noteq> None \<and> (\<exists>r. m' = set_member ''reasoning_content'' (JStr r) m)"

lemma restore_message_frame:
  "message_restored m (fst (restore_message limits h fp now m st))"
  by (auto simp: restore_message_def message_restored_def split: option.splits prod.splits)

lemma restore_messages_frame:
  "list_all2 message_restored ms (fst (restore_messages limits h fp clock ms st))"
proof (induction ms arbitrary: clock st)
  case (Cons m ms)
  then show ?case
    using restore_message_frame [of m limits h fp "clock 0" st]
    by (simp split: prod.split) (metis fst_conv)
qed simp

definition epoch_boundary :: "json list \<Rightarrow> nat" where
  "epoch_boundary ms = (case rposition (\<lambda>m. get_str m ''role'' = Some ''user'') ms of
     Some i \<Rightarrow> i | None \<Rightarrow> length ms)"

text \<open>What restoring may change in a request: nothing outside \<open>messages\<close>, no message before the
  newest user message, and behind it only assistant messages with tool calls and without
  reasoning, which gain a \<open>reasoning_content\<close> member and keep everything else.\<close>

theorem restore_into_frame:
  assumes "map_of body ''messages'' = Some (JArr ms)"
  shows "\<exists>ms'. map_of (fst (restore_into limits h fp clock body st)) ''messages'' = Some (JArr ms')
    \<and> take (epoch_boundary ms) ms' = take (epoch_boundary ms) ms
    \<and> list_all2 message_restored ms ms'
    \<and> (\<forall>k. k \<noteq> ''messages'' \<longrightarrow> map_of (fst (restore_into limits h fp clock body st)) k = map_of body k)"
proof -
  let ?n = "epoch_boundary ms"
  let ?r = "fst (restore_messages limits h fp clock (drop ?n ms) st)"
  have eq: "fst (restore_into limits h fp clock body st)
      = obj_insert ''messages'' (JArr (take ?n ms @ ?r)) body"
    using assms by (simp add: restore_into_def epoch_boundary_def Let_def split: prod.split)
  have "list_all2 message_restored (take ?n ms) (take ?n ms)"
    by (simp add: list_all2_same message_restored_def)
  then have "list_all2 message_restored (take ?n ms @ drop ?n ms) (take ?n ms @ ?r)"
    using restore_messages_frame by (rule list_all2_appendI)
  moreover have "?n \<le> length ms"
    by (auto simp: epoch_boundary_def dest: rposition_SomeD split: option.split)
  ultimately show ?thesis unfolding eq by (intro exI [of _ "take ?n ms @ ?r"]) simp
qed

lemma restore_into_frame_witness:
  "\<exists>ms'. map_of (fst (restore_into default_limits length ''s'' (\<lambda>_. 0)
      [(''messages'', JArr [JObj [(''role'', JStr ''user'')]])] new_store)) ''messages'' = Some (JArr ms')"
  using restore_into_frame [of "[(''messages'', JArr [JObj [(''role'', JStr ''user'')]])]"
      "[JObj [(''role'', JStr ''user'')]]" default_limits length "''s''" "\<lambda>_. 0" new_store] by auto

end
