(* ===== verification/Reasoning_Policy.thy ===== *)
theory Reasoning_Policy
  imports Json_Value
begin

text \<open>
  \<open>src/glm53/reasoning.rs\<close>: the reasoning effort and the exposure of thinking that a request
  gets. An error is a constructor that carries what the message names.
\<close>

datatype glm_effort = Low | High | Max

fun effort_as_str :: "glm_effort \<Rightarrow> string" where
  "effort_as_str Low = ''low''"
| "effort_as_str High = ''high''"
| "effort_as_str Max = ''max''"

text \<open>The order of the enum.\<close>

fun effort_rank :: "glm_effort \<Rightarrow> nat" where
  "effort_rank Low = 0"
| "effort_rank High = 1"
| "effort_rank Max = 2"

lemma effort_rank_inj: "effort_rank a = effort_rank b \<Longrightarrow> a = b"
  by (cases a; cases b) simp_all

instantiation glm_effort :: linorder
begin

definition less_eq_glm_effort :: "glm_effort \<Rightarrow> glm_effort \<Rightarrow> bool" where
  "a \<le> b \<longleftrightarrow> effort_rank a \<le> effort_rank b"

definition less_glm_effort :: "glm_effort \<Rightarrow> glm_effort \<Rightarrow> bool" where
  "a < b \<longleftrightarrow> effort_rank a < effort_rank b"

instance
  by standard (auto simp: less_eq_glm_effort_def less_glm_effort_def dest: effort_rank_inj)

end

definition LOW_BUDGET_LIMIT :: nat where "LOW_BUDGET_LIMIT = 8192"

datatype thinking_exposure = RequestedOnly | Always | Never

fun exposure_as_str :: "thinking_exposure \<Rightarrow> string" where
  "exposure_as_str RequestedOnly = ''requested_only''"
| "exposure_as_str Always = ''always''"
| "exposure_as_str Never = ''never''"

datatype reasoning_error =
    ThinkingNotObject
  | ThinkingTypeMissing
  | BudgetNotPositive
  | BudgetNotBelowMaxTokens
  | UnsupportedThinkingType string
  | UnsupportedEffort string

record reasoning_policy =
  effort :: glm_effort
  expose_thinking :: bool

definition from_thinking :: "json \<Rightarrow> nat \<Rightarrow> reasoning_error + glm_effort option" where
  "from_thinking v max_tokens =
     (case as_object v of
        None \<Rightarrow> Inl ThinkingNotObject
      | Some obj \<Rightarrow>
          (case obj_str obj ''type'' of
             None \<Rightarrow> Inl ThinkingTypeMissing
           | Some kind \<Rightarrow>
               (if kind = ''disabled'' then Inr (Some Low)
                else if kind = ''adaptive'' then Inr (Some High)
                else if kind = ''enabled'' then
                  (case obj_u64 obj ''budget_tokens'' of
                     None \<Rightarrow> Inl BudgetNotPositive
                   | Some budget \<Rightarrow>
                       (if budget = 0 then Inl BudgetNotPositive
                        else if max_tokens \<le> budget then Inl BudgetNotBelowMaxTokens
                        else Inr (Some (if budget < LOW_BUDGET_LIMIT then Low else High))))
                else Inl (UnsupportedThinkingType kind))))"

definition from_output_effort :: "string \<Rightarrow> reasoning_error + glm_effort" where
  "from_output_effort e =
     (if e = ''low'' then Inr Low
      else if e = ''medium'' \<or> e = ''high'' \<or> e = ''xhigh'' then Inr High
      else if e = ''max'' then Inr Max
      else Inl (UnsupportedEffort e))"

definition thinking_type :: "json option \<Rightarrow> string option" where
  "thinking_type thinking = Option.bind thinking (\<lambda>v. get_str v ''type'')"

definition resolve_reasoning_policy ::
  "json option \<Rightarrow> string option \<Rightarrow> nat \<Rightarrow> glm_effort \<Rightarrow> glm_effort \<Rightarrow> thinking_exposure
   \<Rightarrow> reasoning_error + reasoning_policy" where
  "resolve_reasoning_policy thinking output_effort max_tokens default_effort adaptive_effort exposure =
     (let chosen =
            (case output_effort of
               Some e \<Rightarrow> (case from_output_effort e of Inl err \<Rightarrow> Inl err | Inr x \<Rightarrow> Inr (Some x))
             | None \<Rightarrow>
                 (case thinking of
                    None \<Rightarrow> Inr (Some default_effort)
                  | Some v \<Rightarrow>
                      (case from_thinking v max_tokens of
                         Inl err \<Rightarrow> Inl err
                       | Inr x \<Rightarrow>
                           (if x = Some High \<and> get_str v ''type'' = Some ''adaptive''
                            then Inr (Some adaptive_effort) else Inr x))));
          expose = (case exposure of
               Always \<Rightarrow> True
             | Never \<Rightarrow> False
             | RequestedOnly \<Rightarrow> thinking_type thinking \<in> {Some ''enabled'', Some ''adaptive''})
      in case chosen of
           Inl err \<Rightarrow> Inl err
         | Inr x \<Rightarrow>
             Inr \<lparr>effort = (case x of Some e \<Rightarrow> e | None \<Rightarrow> default_effort), expose_thinking = expose\<rparr>)"

subsection \<open>Properties\<close>

lemma from_thinking_cases:
  assumes "from_thinking v max_tokens = Inr x"
  shows "x \<in> {Some Low, Some High}"
  using assms by (auto simp: from_thinking_def split: option.splits if_splits)

lemma from_output_effort_max: "from_output_effort e = Inr Max \<longleftrightarrow> e = ''max''"
  by (auto simp: from_output_effort_def)

text \<open>The anti-amplification rule. Every accepted request gets an effort, and it is the maximal
  one only if the caller wrote \<open>max\<close> or the operator configured it for the case at hand; with
  the default exposure thinking is shown only to a request that carries an enabled or adaptive
  thinking object.\<close>

theorem reasoning_policy_contained:
  assumes "resolve_reasoning_policy thinking output_effort max_tokens def ada exposure = Inr pol"
  shows "(effort pol = Max \<longrightarrow>
            output_effort = Some ''max''
            \<or> output_effort = None \<and> thinking = None \<and> def = Max
            \<or> output_effort = None \<and> thinking_type thinking = Some ''adaptive'' \<and> ada = Max)
    \<and> (expose_thinking pol \<longleftrightarrow>
         exposure = Always
         \<or> exposure = RequestedOnly \<and> thinking_type thinking \<in> {Some ''enabled'', Some ''adaptive''})"
proof
  show "expose_thinking pol \<longleftrightarrow>
         exposure = Always
         \<or> exposure = RequestedOnly \<and> thinking_type thinking \<in> {Some ''enabled'', Some ''adaptive''}"
    using assms by (auto simp: resolve_reasoning_policy_def Let_def
        split: sum.splits thinking_exposure.splits)
  show "effort pol = Max \<longrightarrow>
            output_effort = Some ''max''
            \<or> output_effort = None \<and> thinking = None \<and> def = Max
            \<or> output_effort = None \<and> thinking_type thinking = Some ''adaptive'' \<and> ada = Max"
  proof (cases output_effort)
    case (Some e)
    with assms from_output_effort_max [of e] show ?thesis
      by (auto simp: resolve_reasoning_policy_def Let_def split: sum.splits)
  next
    case None
    show ?thesis
    proof (cases thinking)
      case (Some v)
      with None assms from_thinking_cases [of v max_tokens] show ?thesis
        by (auto simp: resolve_reasoning_policy_def thinking_type_def Let_def
            split: sum.splits if_splits)
    qed (use None assms in \<open>auto simp: resolve_reasoning_policy_def Let_def\<close>)
  qed
qed

lemma reasoning_policy_contained_witness:
  "case resolve_reasoning_policy (Some (JObj [(''type'', JStr ''adaptive'')])) None 100 Low High RequestedOnly
     of Inr pol \<Rightarrow> effort pol \<noteq> Max \<and> expose_thinking pol | Inl _ \<Rightarrow> False"
  using reasoning_policy_contained [of "Some (JObj [(''type'', JStr ''adaptive'')])" None 100 Low High
      RequestedOnly "\<lparr>effort = High, expose_thinking = True\<rparr>"]
  by (simp add: resolve_reasoning_policy_def from_thinking_def obj_str_def get_str_def thinking_type_def)

definition enabled_budget :: "nat \<Rightarrow> json" where
  "enabled_budget n = JObj [(''type'', JStr ''enabled''), (''budget_tokens'', JNum (PosInt n))]"

text \<open>The effort of an enabled thinking object grows with its budget: of two accepted budgets the
  larger never gets the lower effort, and a budget is accepted exactly when it is positive and
  below \<open>max_tokens\<close>.\<close>

theorem effort_monotone_in_budget:
  "((\<exists>e. from_thinking (enabled_budget n) m = Inr (Some e)) \<longleftrightarrow> 0 < n \<and> n < m)
   \<and> (n \<le> k \<longrightarrow> from_thinking (enabled_budget n) m = Inr (Some a) \<longrightarrow>
        from_thinking (enabled_budget k) m = Inr (Some b) \<longrightarrow> a \<le> b)"
  by (auto simp: from_thinking_def enabled_budget_def obj_str_def obj_u64_def less_eq_glm_effort_def)

lemma effort_monotone_in_budget_witness: "Low \<le> High"
  using effort_monotone_in_budget [of 100 10000 9000 Low High]
  by (simp add: from_thinking_def enabled_budget_def obj_str_def obj_u64_def LOW_BUDGET_LIMIT_def)

end
