(* ===== verification/Optimize.thy ===== *)
theory Optimize
  imports Reasoning_Policy
begin

text \<open>
  \<open>src/optimize.rs\<close>: the rewriting of a chat-completions body before it is sent upstream. A
  body is edited as the code edits it, member by member; \<open>text_len\<close> stands for the length of the
  JSON text that \<open>serde_json\<close> prints, \<open>encode\<close> for the tokenizer. Counters saturate.
\<close>

datatype model_family = Glm53 | GenericOpenAi

fun split_on :: "(char \<Rightarrow> bool) \<Rightarrow> string \<Rightarrow> string list" where
  "split_on P [] = [[]]"
| "split_on P (c # s) =
     (if P c then [] # split_on P s else (c # hd (split_on P s)) # tl (split_on P s))"

definition glm_segment :: "string \<Rightarrow> bool" where
  "glm_segment segment =
     (let lower = to_ascii_lowercase segment in
      starts_with lower ''glm'' \<and> (case drop 3 lower of [] \<Rightarrow> True | c # _ \<Rightarrow> is_digit c))"

definition from_upstream_model :: "string \<Rightarrow> model_family" where
  "from_upstream_model model =
     (let i = last (split_on (\<lambda>c. c = CHR ''/'') model) in
      if list_ex glm_segment (split_on (\<lambda>c. c \<in> set ''-_.+'') i) then Glm53 else GenericOpenAi)"

record glm_config =
  gc_default_effort :: glm_effort
  gc_adaptive_effort :: glm_effort
  gc_expose :: thinking_exposure
  gc_strip :: bool
  gc_max_output_tokens :: nat
  gc_compaction :: bool

record request_optimization =
  ro_family :: model_family
  ro_effort :: string
  ro_expose :: bool
  ro_client_max :: "nat option"
  ro_effective_max :: "nat option"
  ro_reasoning_removed :: nat
  ro_empty_removed :: nat
  ro_normalized :: nat
  ro_before :: nat
  ro_after :: nat
  ro_system :: nat
  ro_messages :: nat
  ro_tools :: nat

definition empty_optimization :: request_optimization where
  "empty_optimization =
     \<lparr>ro_family = Glm53, ro_effort = [], ro_expose = False, ro_client_max = None,
      ro_effective_max = None, ro_reasoning_removed = 0, ro_empty_removed = 0, ro_normalized = 0,
      ro_before = 0, ro_after = 0, ro_system = 0, ro_messages = 0, ro_tools = 0\<rparr>"

definition other_bytes :: "request_optimization \<Rightarrow> nat" where
  "other_bytes r = ro_after r - ro_system r - ro_messages r - ro_tools r"

datatype origin = Anthropic "json option" "string option" | OpenAi

datatype optimize_error = NotAnObject | PolicyError reasoning_error

subsection \<open>Messages\<close>

definition block_is :: "string \<Rightarrow> json \<Rightarrow> bool" where
  "block_is kind block \<longleftrightarrow> get_str block ''type'' = Some kind"

definition empty_text_block :: "json \<Rightarrow> bool" where
  "empty_text_block block \<longleftrightarrow> block_is ''text'' block \<and> get_str block ''text'' = Some []"

definition compact_content :: "jmap \<Rightarrow> request_optimization \<Rightarrow> jmap \<times> request_optimization" where
  "compact_content obj opt =
     (case map_of obj ''content'' of
        Some (JArr blocks) \<Rightarrow>
          (let kept = filter (\<lambda>b. \<not> empty_text_block b) blocks;
               opt1 = opt\<lparr>ro_empty_removed :=
                 sat_add64 (ro_empty_removed opt) (length blocks - length kept)\<rparr>
           in case kept of
                [] \<Rightarrow> (obj_insert ''content'' (JStr []) obj, opt1)
              | [block] \<Rightarrow>
                  (case (block_is ''text'' block, get_str block ''text'') of
                     (True, Some t) \<Rightarrow>
                       (obj_insert ''content'' (JStr t) obj,
                        opt1\<lparr>ro_normalized := sat_add64 (ro_normalized opt1) 1\<rparr>)
                   | _ \<Rightarrow> (obj_insert ''content'' (JArr kept) obj, opt1))
              | _ \<Rightarrow> (obj_insert ''content'' (JArr kept) obj, opt1))
      | _ \<Rightarrow> (obj, opt))"

definition user_boundary :: "json list \<Rightarrow> nat" where
  "user_boundary messages =
     (case rposition (\<lambda>m. get_str m ''role'' = Some ''user'') messages of
        Some i \<Rightarrow> i | None \<Rightarrow> length messages)"

definition strip_message ::
  "(json \<Rightarrow> nat) \<Rightarrow> jmap \<Rightarrow> request_optimization \<Rightarrow> jmap \<times> request_optimization" where
  "strip_message text_len obj opt =
     (case map_of obj ''reasoning_content'' of
        None \<Rightarrow> (obj, opt)
      | Some removed \<Rightarrow>
          (obj_remove ''reasoning_content'' obj,
           opt\<lparr>ro_reasoning_removed := sat_add64 (ro_reasoning_removed opt) (text_len removed)\<rparr>))"

definition optimize_message ::
  "(json \<Rightarrow> nat) \<Rightarrow> glm_config \<Rightarrow> bool \<Rightarrow> json \<Rightarrow> request_optimization
   \<Rightarrow> json \<times> request_optimization" where
  "optimize_message text_len glm old message opt =
     (case as_object message of
        None \<Rightarrow> (message, opt)
      | Some obj \<Rightarrow>
          (let (obj1, opt1) =
             (if gc_strip glm \<and> obj_str obj ''role'' = Some ''assistant'' \<and> old
              then strip_message text_len obj opt else (obj, opt));
               (obj2, opt2) = (if gc_compaction glm then compact_content obj1 opt1 else (obj1, opt1))
           in (JObj obj2, opt2)))"

fun optimize_messages_from ::
  "(json \<Rightarrow> nat) \<Rightarrow> glm_config \<Rightarrow> nat \<Rightarrow> nat \<Rightarrow> json list \<Rightarrow> request_optimization
   \<Rightarrow> json list \<times> request_optimization" where
  "optimize_messages_from text_len glm boundary i [] opt = ([], opt)"
| "optimize_messages_from text_len glm boundary i (m # ms) opt =
     (case optimize_message text_len glm (i < boundary) m opt of
        (m', opt1) \<Rightarrow>
          (case optimize_messages_from text_len glm boundary (Suc i) ms opt1 of
             (ms', opt2) \<Rightarrow> (m' # ms', opt2)))"

definition optimize_messages ::
  "(json \<Rightarrow> nat) \<Rightarrow> glm_config \<Rightarrow> json list \<Rightarrow> request_optimization
   \<Rightarrow> json list \<times> request_optimization" where
  "optimize_messages text_len glm messages opt =
     optimize_messages_from text_len glm (user_boundary messages) 0 messages opt"

definition compute_breakdown ::
  "(json \<Rightarrow> nat) \<Rightarrow> jmap \<Rightarrow> request_optimization \<Rightarrow> request_optimization" where
  "compute_breakdown text_len obj opt =
     (let opt1 =
        (case Option.bind (map_of obj ''messages'') as_array of
           None \<Rightarrow> opt
         | Some messages \<Rightarrow>
             fold (\<lambda>m o'. if get_str m ''role'' = Some ''system''
                     then o'\<lparr>ro_system := sat_add64 (ro_system o') (text_len m)\<rparr>
                     else o'\<lparr>ro_messages := sat_add64 (ro_messages o') (text_len m)\<rparr>)
               messages opt)
      in case map_of obj ''tools'' of
           None \<Rightarrow> opt1
         | Some tools \<Rightarrow> opt1\<lparr>ro_tools := sat_add64 (ro_tools opt1) (text_len tools)\<rparr>)"

subsection \<open>Requests\<close>

definition openai_effort_to_glm :: "string \<Rightarrow> string" where
  "openai_effort_to_glm e =
     (if e = ''minimal'' \<or> e = ''low'' then ''low''
      else if e = ''medium'' \<or> e = ''high'' \<or> e = ''xhigh'' then ''high''
      else e)"

text \<open>The bound a client sets, whichever member carries it.\<close>

definition client_max_tokens :: "jmap \<Rightarrow> nat option" where
  "client_max_tokens obj =
     (case obj_u64 obj ''max_tokens'' of
        Some n \<Rightarrow> Some n | None \<Rightarrow> obj_u64 obj ''max_completion_tokens'')"

definition num :: "nat \<Rightarrow> json" where "num n = JNum (PosInt n)"

definition cap_output :: "nat option \<Rightarrow> nat \<Rightarrow> jmap \<Rightarrow> jmap" where
  "cap_output max_tokens cap obj =
     (case map_option (\<lambda>client. min client cap) max_tokens of
        Some effective \<Rightarrow>
          (if map_of obj ''max_completion_tokens'' \<noteq> None \<and> max_tokens = None
           then obj_insert ''max_completion_tokens'' (num effective)
                  (obj_remove ''max_completion_tokens'' obj)
           else obj_insert ''max_tokens'' (num effective) (obj_remove ''max_completion_tokens'' obj))
      | None \<Rightarrow> obj_insert ''max_tokens'' (num cap) obj)"

definition optimize_generic ::
  "(json \<Rightarrow> nat) \<Rightarrow> jmap \<Rightarrow> jmap \<times> request_optimization" where
  "optimize_generic text_len obj =
     (let before = text_len (JObj obj) in
      (obj, compute_breakdown text_len obj
         (empty_optimization\<lparr>ro_family := GenericOpenAi, ro_before := before, ro_after := before\<rparr>)))"

text \<open>The reasoning policy of a request, from the controls its protocol has.\<close>

definition glm_policy :: "glm_config \<Rightarrow> origin \<Rightarrow> jmap \<Rightarrow> reasoning_error + reasoning_policy" where
  "glm_policy glm org obj =
     (let (thinking, output_effort) =
            (case org of
               Anthropic thinking output_effort \<Rightarrow> (thinking, output_effort)
             | OpenAi \<Rightarrow> (None, obj_str obj ''reasoning_effort''))
      in resolve_reasoning_policy thinking (map_option openai_effort_to_glm output_effort)
           (case client_max_tokens obj of Some n \<Rightarrow> n | None \<Rightarrow> u64_max) (gc_default_effort glm)
           (gc_adaptive_effort glm) (gc_expose glm))"

definition glm_messages ::
  "(json \<Rightarrow> nat) \<Rightarrow> glm_config \<Rightarrow> jmap \<Rightarrow> request_optimization \<Rightarrow> jmap \<times> request_optimization" where
  "glm_messages text_len glm obj opt =
     (if gc_strip glm \<or> gc_compaction glm
      then case Option.bind (map_of obj ''messages'') as_array of
          None \<Rightarrow> (obj, opt)
        | Some messages \<Rightarrow>
            (case optimize_messages text_len glm messages opt of
               (ms, opt') \<Rightarrow> (obj_insert ''messages'' (JArr ms) obj, opt'))
      else (obj, opt))"

definition drop_metadata :: "glm_config \<Rightarrow> origin \<Rightarrow> jmap \<Rightarrow> jmap" where
  "drop_metadata glm org obj =
     (case org of
        Anthropic _ _ \<Rightarrow> (if gc_compaction glm then obj_remove ''metadata'' obj else obj)
      | OpenAi \<Rightarrow> obj)"

definition optimize_glm ::
  "(json \<Rightarrow> nat) \<Rightarrow> glm_config \<Rightarrow> origin \<Rightarrow> jmap
   \<Rightarrow> optimize_error + (jmap \<times> request_optimization)" where
  "optimize_glm text_len glm org obj =
     (case glm_policy glm org obj of
        Inl e \<Rightarrow> Inl (PolicyError e)
      | Inr policy \<Rightarrow>
          (let max_tokens = client_max_tokens obj;
               cap = gc_max_output_tokens glm;
               opt = empty_optimization\<lparr>ro_before := text_len (JObj obj),
                 ro_effort := effort_as_str (effort policy),
                 ro_expose := expose_thinking policy,
                 ro_client_max := max_tokens,
                 ro_effective_max :=
                   (case max_tokens of Some n \<Rightarrow> Some (min n cap) | None \<Rightarrow> Some cap)\<rparr>;
               obj1 = obj_insert ''reasoning_effort'' (JStr (effort_as_str (effort policy))) obj;
               obj2 = cap_output max_tokens cap obj1;
               (obj3, opt3) = glm_messages text_len glm obj2 opt;
               obj4 = drop_metadata glm org obj3
           in Inr (obj4, compute_breakdown text_len obj4
                (opt3\<lparr>ro_after := text_len (JObj obj4)\<rparr>))))"

definition optimize_request ::
  "(json \<Rightarrow> nat) \<Rightarrow> glm_config \<Rightarrow> origin \<Rightarrow> json
   \<Rightarrow> optimize_error + (json \<times> request_optimization)" where
  "optimize_request text_len glm org body =
     (case as_object body of
        None \<Rightarrow> Inl NotAnObject
      | Some obj \<Rightarrow>
          (case from_upstream_model (case obj_str obj ''model'' of Some m \<Rightarrow> m | None \<Rightarrow> []) of
             Glm53 \<Rightarrow>
               (case optimize_glm text_len glm org obj of
                  Inl e \<Rightarrow> Inl e | Inr (obj', opt) \<Rightarrow> Inr (JObj obj', opt))
           | GenericOpenAi \<Rightarrow>
               (case optimize_generic text_len obj of (obj', opt) \<Rightarrow> Inr (JObj obj', opt))))"

subsection \<open>Historical thinking of an Anthropic request\<close>

definition human_turn :: "json \<Rightarrow> bool" where
  "human_turn message \<longleftrightarrow>
     get_str message ''role'' = Some ''user''
     \<and> (case json_get message ''content'' of
          Some (JStr t) \<Rightarrow> t \<noteq> []
        | Some (JArr blocks) \<Rightarrow> list_ex (\<lambda>b. \<not> block_is ''tool_result'' b) blocks
        | _ \<Rightarrow> False)"

definition reasoning_epoch_boundary :: "json list \<Rightarrow> nat" where
  "reasoning_epoch_boundary messages =
     (case rposition human_turn messages of Some i \<Rightarrow> i | None \<Rightarrow> length messages)"

definition strip_thinking_message :: "json \<Rightarrow> json \<times> nat" where
  "strip_thinking_message message =
     (if get_str message ''role'' \<noteq> Some ''assistant'' then (message, 0)
      else case Option.bind (json_get message ''content'') as_array of
          None \<Rightarrow> (message, 0)
        | Some blocks \<Rightarrow>
            (let kept = filter (\<lambda>b. \<not> block_is ''thinking'' b) blocks
             in (put_member ''content'' (JArr kept) message, length blocks - length kept)))"

definition strip_anthropic_thinking :: "json \<Rightarrow> json \<times> nat" where
  "strip_anthropic_thinking request =
     (case Option.bind (json_get request ''messages'') as_array of
        None \<Rightarrow> (request, 0)
      | Some messages \<Rightarrow>
          (let boundary = reasoning_epoch_boundary messages;
               stripped = map strip_thinking_message (take boundary messages)
           in (put_member ''messages'' (JArr (map fst stripped @ drop boundary messages)) request,
               fold (\<lambda>(m, n) removed. sat_add64 removed n) stripped 0)))"

definition thinking_chunks :: "json \<Rightarrow> string list" where
  "thinking_chunks message =
     (if get_str message ''role'' \<noteq> Some ''assistant'' then []
      else case Option.bind (json_get message ''content'') as_array of
          None \<Rightarrow> []
        | Some blocks \<Rightarrow>
            List.map_filter (\<lambda>b. get_str b ''thinking'') (filter (block_is ''thinking'') blocks))"

definition collect_anthropic_thinking :: "json \<Rightarrow> string list" where
  "collect_anthropic_thinking request =
     (case Option.bind (json_get request ''messages'') as_array of
        None \<Rightarrow> []
      | Some messages \<Rightarrow>
          concat (map thinking_chunks (take (reasoning_epoch_boundary messages) messages)))"

text \<open>\<open>encode\<close> gives the tokens of a text, or the tokenizer's error message.\<close>

fun count_tokens :: "(string \<Rightarrow> string + nat list) \<Rightarrow> nat \<Rightarrow> string list \<Rightarrow> string + nat" where
  "count_tokens encode n [] = Inr n"
| "count_tokens encode n (chunk # chunks) =
     (case encode chunk of
        Inl message \<Rightarrow> Inl message
      | Inr ids \<Rightarrow> count_tokens encode (sat_add64 n (length ids)) chunks)"

definition removed_reasoning_tokens :: "(string \<Rightarrow> string + nat list) \<Rightarrow> json \<Rightarrow> string + nat" where
  "removed_reasoning_tokens encode request =
     count_tokens encode 0 (collect_anthropic_thinking request)"

subsection \<open>What the model is asked for\<close>

lemma map_of_glm_messages:
  "k \<noteq> ''messages'' \<Longrightarrow> map_of (fst (glm_messages text_len glm obj opt)) k = map_of obj k"
  by (simp add: glm_messages_def split: option.split prod.split)

lemma obj_ok_glm_messages: "obj_ok obj \<Longrightarrow> obj_ok (fst (glm_messages text_len glm obj opt))"
  by (simp add: glm_messages_def split: option.split prod.split)

lemma map_of_drop_metadata:
  "obj_ok obj \<Longrightarrow> k \<noteq> ''metadata'' \<Longrightarrow> map_of (drop_metadata glm org obj) k = map_of obj k"
  by (simp add: drop_metadata_def split: origin.split)

lemma obj_ok_cap: "obj_ok obj \<Longrightarrow> obj_ok (cap_output m cap obj)"
  by (simp add: cap_output_def split: option.split)

lemma optimize_glm_members:
  assumes "optimize_glm text_len glm org obj = Inr (obj', opt)" and "obj_ok obj"
  shows "\<exists>policy. glm_policy glm org obj = Inr policy
    \<and> (\<forall>k. k \<noteq> ''messages'' \<longrightarrow> k \<noteq> ''metadata'' \<longrightarrow>
         map_of obj' k = map_of (cap_output (client_max_tokens obj) (gc_max_output_tokens glm)
           (obj_insert ''reasoning_effort'' (JStr (effort_as_str (effort policy))) obj)) k)"
proof -
  obtain policy where policy: "glm_policy glm org obj = Inr policy"
    using assms(1) by (auto simp: optimize_glm_def split: sum.splits)
  let ?obj2 = "cap_output (client_max_tokens obj) (gc_max_output_tokens glm)
      (obj_insert ''reasoning_effort'' (JStr (effort_as_str (effort policy))) obj)"
  obtain o1 where obj': "obj' = drop_metadata glm org (fst (glm_messages text_len glm ?obj2 o1))"
    using assms(1) policy by (auto simp: optimize_glm_def Let_def split_beta)
  have "obj_ok ?obj2" using assms(2) by (simp add: obj_ok_cap)
  then have "obj_ok (fst (glm_messages text_len glm ?obj2 o1))" by (rule obj_ok_glm_messages)
  then have "map_of obj' k = map_of ?obj2 k" if "k \<noteq> ''messages''" "k \<noteq> ''metadata''" for k
    using that by (simp add: obj' map_of_drop_metadata map_of_glm_messages)
  with policy show ?thesis by blast
qed

lemma cap_output_max:
  assumes "obj_ok obj"
  shows "map_of (cap_output m cap obj) ''max_tokens'' =
           Some (num (case m of Some n \<Rightarrow> min n cap | None \<Rightarrow> cap))"
    and "m \<noteq> None \<Longrightarrow> map_of (cap_output m cap obj) ''max_completion_tokens'' = None"
    and "k \<noteq> ''max_tokens'' \<Longrightarrow> k \<noteq> ''max_completion_tokens'' \<Longrightarrow>
           map_of (cap_output m cap obj) k = map_of obj k"
  using assms by (cases m; simp add: cap_output_def)+

definition model_of :: "jmap \<Rightarrow> string" where
  "model_of obj = (case obj_str obj ''model'' of Some m \<Rightarrow> m | None \<Rightarrow> [])"

lemma optimize_request_glm:
  assumes "from_upstream_model (model_of obj) = Glm53"
  shows "optimize_request text_len glm org (JObj obj) =
    (case optimize_glm text_len glm org obj of
       Inl e \<Rightarrow> Inl e | Inr (obj', opt) \<Rightarrow> Inr (JObj obj', opt))"
  unfolding optimize_request_def model_of_def [symmetric]
  by (simp only: as_object.simps option.case assms model_family.case)

text \<open>What every accepted GLM request carries upstream: an explicit effort of the three known
  words, which is \<open>max\<close> only if the client or the operator asked for it; and a \<open>max_tokens\<close>
  that is the smaller of the configured cap and the client's own bound, whichever member carried it.\<close>

theorem glm_request_limits:
  assumes "optimize_request text_len glm org (JObj obj) = Inr (JObj obj', opt)"
    and "from_upstream_model (model_of obj) = Glm53"
    and "obj_ok obj"
  shows "obj_u64 obj' ''max_tokens'' =
           Some (case client_max_tokens obj of
                   Some n \<Rightarrow> min n (gc_max_output_tokens glm) | None \<Rightarrow> gc_max_output_tokens glm)
    \<and> (\<exists>policy. glm_policy glm org obj = Inr policy
         \<and> obj_str obj' ''reasoning_effort'' = Some (effort_as_str (effort policy)))"
proof -
  have "optimize_glm text_len glm org obj = Inr (obj', opt)"
    using assms(1) unfolding optimize_request_glm [OF assms(2)]
    by (cases "optimize_glm text_len glm org obj") (auto split: prod.splits)
  from optimize_glm_members [OF this assms(3)] obtain policy where
    policy: "glm_policy glm org obj = Inr policy"
    and same: "\<And>k. k \<noteq> ''messages'' \<Longrightarrow> k \<noteq> ''metadata'' \<Longrightarrow>
         map_of obj' k = map_of (cap_output (client_max_tokens obj) (gc_max_output_tokens glm)
           (obj_insert ''reasoning_effort'' (JStr (effort_as_str (effort policy))) obj)) k"
    by blast
  have ok: "obj_ok (obj_insert ''reasoning_effort'' (JStr (effort_as_str (effort policy))) obj)"
    using assms(3) by simp
  from policy show ?thesis
    using same [of "''max_tokens''"] same [of "''reasoning_effort''"]
    by (simp add: obj_u64_def obj_str_def cap_output_max [OF ok] num_def split: option.split)
qed

definition demo_glm :: glm_config where
  "demo_glm =
     \<lparr>gc_default_effort = High, gc_adaptive_effort = High, gc_expose = RequestedOnly, gc_strip = True,
      gc_max_output_tokens = 4096, gc_compaction = True\<rparr>"

definition demo_request :: jmap where
  "demo_request =
     [(''model'', JStr ''z-ai/glm-5.3''), (''max_completion_tokens'', num 9000)]"

lemma demo_request_policy:
  "case glm_policy demo_glm OpenAi demo_request of Inl _ \<Rightarrow> False | Inr _ \<Rightarrow> True"
  by code_simp

lemma demo_request_accepted:
  "\<exists>obj' opt. optimize_glm (\<lambda>_. 7) demo_glm OpenAi demo_request = Inr (obj', opt)"
  "from_upstream_model (model_of demo_request) = Glm53"
  "obj_ok demo_request" "client_max_tokens demo_request = Some 9000"
  subgoal using demo_request_policy
    by (auto simp: optimize_glm_def Let_def split_beta split: sum.splits)
  subgoal by code_simp
  subgoal by code_simp
  subgoal by code_simp
  done

theorem glm_request_limits_witness:
  "\<exists>obj' opt. optimize_request (\<lambda>_. 7) demo_glm OpenAi (JObj demo_request) = Inr (JObj obj', opt)
     \<and> obj_u64 obj' ''max_tokens'' = Some 4096"
proof -
  obtain obj' opt where
    run: "optimize_request (\<lambda>_. 7) demo_glm OpenAi (JObj demo_request) = Inr (JObj obj', opt)"
    using demo_request_accepted(1) optimize_request_glm [OF demo_request_accepted(2)] by auto
  from glm_request_limits [OF this demo_request_accepted(2,3)]
  have "obj_u64 obj' ''max_tokens'' = Some 4096"
    by (simp add: demo_request_accepted(4) demo_glm_def)
  with run show ?thesis by blast
qed

text \<open>A client bound in \<open>max_completion_tokens\<close> alone is moved, not kept: the branch that would
  put it back needs a request without any bound, so the member never survives a request that has
  one.\<close>

theorem max_completion_tokens_moved:
  assumes "optimize_glm text_len glm org obj = Inr (obj', opt)" and "obj_ok obj"
    and "client_max_tokens obj \<noteq> None"
  shows "map_of obj' ''max_completion_tokens'' = None \<and> map_of obj' ''max_tokens'' \<noteq> None"
proof -
  from optimize_glm_members [OF assms(1,2)] obtain policy where
    "glm_policy glm org obj = Inr policy"
    and same: "\<And>k. k \<noteq> ''messages'' \<Longrightarrow> k \<noteq> ''metadata'' \<Longrightarrow>
         map_of obj' k = map_of (cap_output (client_max_tokens obj) (gc_max_output_tokens glm)
           (obj_insert ''reasoning_effort'' (JStr (effort_as_str (effort policy))) obj)) k"
    by blast
  have ok: "obj_ok (obj_insert ''reasoning_effort'' (JStr (effort_as_str (effort policy))) obj)"
    using assms(2) by simp
  show ?thesis
    using same [of "''max_tokens''"] same [of "''max_completion_tokens''"]
      cap_output_max(1,2) [OF ok] assms(3) by simp
qed

theorem max_completion_tokens_moved_witness:
  "\<exists>obj' opt. optimize_glm (\<lambda>_. 7) demo_glm OpenAi demo_request = Inr (obj', opt)
     \<and> map_of obj' ''max_completion_tokens'' = None"
proof -
  obtain obj' opt where
    run: "optimize_glm (\<lambda>_. 7) demo_glm OpenAi demo_request = Inr (obj', opt)"
    using demo_request_accepted(1) by blast
  from max_completion_tokens_moved [OF this demo_request_accepted(3)] run show ?thesis
    by (auto simp: demo_request_accepted(4))
qed

subsection \<open>Messages keep their content\<close>

text \<open>The text of a content value, and the blocks of it that are not text.\<close>

definition block_text :: "json \<Rightarrow> string" where
  "block_text b = (if block_is ''text'' b then case get_str b ''text'' of Some t \<Rightarrow> t | None \<Rightarrow> [] else [])"

definition content_text :: "json option \<Rightarrow> string" where
  "content_text c =
     (case c of Some (JStr t) \<Rightarrow> t | Some (JArr bs) \<Rightarrow> concat (map block_text bs) | _ \<Rightarrow> [])"

definition other_blocks :: "json option \<Rightarrow> json list" where
  "other_blocks c =
     (case c of Some (JArr bs) \<Rightarrow> filter (\<lambda>b. \<not> (block_is ''text'' b \<and> get_str b ''text'' \<noteq> None)) bs
      | _ \<Rightarrow> [])"

lemma concat_kept: "concat (map block_text (filter (\<lambda>b. \<not> empty_text_block b) bs)) = concat (map block_text bs)"
  by (induction bs) (auto simp: empty_text_block_def block_text_def)

lemma others_kept:
  "filter (\<lambda>b. \<not> (block_is ''text'' b \<and> get_str b ''text'' \<noteq> None)) (filter (\<lambda>b. \<not> empty_text_block b) bs)
   = filter (\<lambda>b. \<not> (block_is ''text'' b \<and> get_str b ''text'' \<noteq> None)) bs"
  by (induction bs) (auto simp: empty_text_block_def)

lemma compact_content_spec:
  "(\<forall>k. k \<noteq> ''content'' \<longrightarrow> map_of (fst (compact_content obj opt)) k = map_of obj k)
   \<and> content_text (map_of (fst (compact_content obj opt)) ''content'') = content_text (map_of obj ''content'')
   \<and> other_blocks (map_of (fst (compact_content obj opt)) ''content'') = other_blocks (map_of obj ''content'')"
proof (cases "\<exists>blocks. map_of obj ''content'' = Some (JArr blocks)")
  case False
  then have "fst (compact_content obj opt) = obj"
    by (auto simp: compact_content_def split: option.split json.split)
  then show ?thesis by simp
next
  case True
  then obtain bs where bs: "map_of obj ''content'' = Some (JArr bs)" by blast
  let ?kept = "filter (\<lambda>b. \<not> empty_text_block b) bs"
  have ctext: "content_text (map_of obj ''content'') = concat (map block_text ?kept)"
    by (simp add: bs content_text_def concat_kept)
  have others: "other_blocks (map_of obj ''content'')
      = filter (\<lambda>b. \<not> (block_is ''text'' b \<and> get_str b ''text'' \<noteq> None)) ?kept"
    by (simp only: bs other_blocks_def others_kept option.case json.case)
  consider "?kept = []"
    | b t where "?kept = [b]" "block_is ''text'' b" "get_str b ''text'' = Some t"
    | "fst (compact_content obj opt) = obj_insert ''content'' (JArr ?kept) obj"
  proof (cases ?kept)
    case Nil
    with that(1) show ?thesis .
  next
    case (Cons b rest)
    note one = Cons
    show ?thesis
    proof (cases rest)
      case Nil
      show ?thesis
      proof (cases "block_is ''text'' b \<and> get_str b ''text'' \<noteq> None")
        case True
        with one Nil that(2) show ?thesis by auto
      next
        case False
        with one Nil have "fst (compact_content obj opt) = obj_insert ''content'' (JArr ?kept) obj"
          by (simp add: compact_content_def bs Let_def split: option.split bool.split)
        with that(3) show ?thesis .
      qed
    next
      case (Cons c more)
      with one have "fst (compact_content obj opt) = obj_insert ''content'' (JArr ?kept) obj"
        by (simp add: compact_content_def bs Let_def)
      with that(3) show ?thesis .
    qed
  qed
  then show ?thesis
  proof cases
    case 1
    then have "fst (compact_content obj opt) = obj_insert ''content'' (JStr []) obj"
      by (simp add: compact_content_def bs Let_def)
    then show ?thesis using 1 unfolding ctext others by (simp add: content_text_def other_blocks_def)
  next
    case 2
    then have "fst (compact_content obj opt) = obj_insert ''content'' (JStr t) obj"
      by (simp add: compact_content_def bs Let_def)
    then show ?thesis
      using 2 unfolding ctext others by (simp add: content_text_def other_blocks_def block_text_def)
  next
    case 3
    then show ?thesis unfolding ctext others by (simp add: content_text_def other_blocks_def)
  qed
qed

lemma optimize_message_spec:
  assumes "obj_ok obj"
  shows "\<exists>obj'. fst (optimize_message text_len glm old (JObj obj) opt) = JObj obj'
    \<and> (\<forall>k. k \<noteq> ''content'' \<longrightarrow> k \<noteq> ''reasoning_content'' \<longrightarrow> map_of obj' k = map_of obj k)
    \<and> content_text (map_of obj' ''content'') = content_text (map_of obj ''content'')
    \<and> other_blocks (map_of obj' ''content'') = other_blocks (map_of obj ''content'')
    \<and> map_of obj' ''reasoning_content'' =
        (if gc_strip glm \<and> obj_str obj ''role'' = Some ''assistant'' \<and> old then None
         else map_of obj ''reasoning_content'')"
proof -
  let ?strip = "gc_strip glm \<and> obj_str obj ''role'' = Some ''assistant'' \<and> old"
  let ?one = "if ?strip then strip_message text_len obj opt else (obj, opt)"
  have same: "map_of (fst ?one) k = map_of obj k" if "k \<noteq> ''reasoning_content''" for k
    using assms that by (simp add: strip_message_def split: option.split)
  have gone: "map_of (fst ?one) ''reasoning_content'' = (if ?strip then None else map_of obj ''reasoning_content'')"
    using assms by (simp add: strip_message_def split: option.split)
  let ?two = "if gc_compaction glm then compact_content (fst ?one) (snd ?one) else ?one"
  have two: "fst (optimize_message text_len glm old (JObj obj) opt) = JObj (fst ?two)"
    by (simp add: optimize_message_def Let_def split_beta)
  note compact = compact_content_spec [of "fst ?one" "snd ?one"]
  have "map_of (fst ?two) k = map_of (fst ?one) k" if "k \<noteq> ''content''" for k
    using compact that by (cases "gc_compaction glm") simp_all
  moreover have "content_text (map_of (fst ?two) ''content'') = content_text (map_of (fst ?one) ''content'')"
    using compact by (cases "gc_compaction glm") simp_all
  moreover have "other_blocks (map_of (fst ?two) ''content'') = other_blocks (map_of (fst ?one) ''content'')"
    using compact by (cases "gc_compaction glm") simp_all
  ultimately show ?thesis
    using same gone unfolding two by (intro exI [of _ "fst ?two"] conjI refl allI impI) simp_all
qed

lemma optimize_messages_from_nth:
  "optimize_messages_from text_len glm b i ms opt = (ms', opt') \<Longrightarrow>
   length ms' = length ms
   \<and> (\<forall>j < length ms. \<exists>o1. ms' ! j = fst (optimize_message text_len glm (i + j < b) (ms ! j) o1))"
proof (induction ms arbitrary: i opt ms' opt')
  case (Cons m ms)
  obtain m1 o1 where one: "optimize_message text_len glm (i < b) m opt = (m1, o1)" by force
  obtain ms1 o2 where rest: "optimize_messages_from text_len glm b (Suc i) ms o1 = (ms1, o2)" by force
  from Cons.prems one rest have ms': "ms' = m1 # ms1" by simp
  note IH = Cons.IH [OF rest]
  have "\<exists>o3. ms' ! j = fst (optimize_message text_len glm (i + j < b) ((m # ms) ! j) o3)"
    if "j < length (m # ms)" for j
  proof (cases j)
    case 0
    then show ?thesis using one by (intro exI [of _ opt]) (simp add: ms')
  next
    case (Suc k)
    with that IH obtain o3 where
      "ms1 ! k = fst (optimize_message text_len glm (Suc i + k < b) (ms ! k) o3)" by auto
    with Suc show ?thesis by (intro exI [of _ o3]) (simp add: ms')
  qed
  with IH ms' show ?case by simp
qed simp

text \<open>What the boundary is: a message lies before it when a user message comes after it, and every
  message does when the history has no user message at all.\<close>

lemma before_user_boundary:
  assumes "i < length ms"
  shows "i < user_boundary ms \<longleftrightarrow>
    (\<exists>j. i < j \<and> j < length ms \<and> get_str (ms ! j) ''role'' = Some ''user'')
    \<or> (\<forall>j < length ms. get_str (ms ! j) ''role'' \<noteq> Some ''user'')"
proof (cases "rposition (\<lambda>m. get_str m ''role'' = Some ''user'') ms")
  case None
  then have "\<forall>j < length ms. get_str (ms ! j) ''role'' \<noteq> Some ''user''"
    by (simp add: rposition_None all_set_conv_all_nth)
  then show ?thesis using assms by (simp add: user_boundary_def None)
next
  case (Some b)
  have "i < b \<longleftrightarrow> (\<exists>j. i < j \<and> j < length ms \<and> get_str (ms ! j) ''role'' = Some ''user'')"
    using rposition_SomeD [OF Some] by (meson less_le_trans linorder_not_less not_less_iff_gr_or_eq)
  then show ?thesis using rposition_SomeD [OF Some] by (auto simp: user_boundary_def Some)
qed

text \<open>C34. The history the model sees keeps its meaning and its tool chain. Every message stays at
  its position with every member but \<open>content\<close> and \<open>reasoning_content\<close> (so \<open>tool_calls\<close>,
  \<open>tool_call_id\<close> and \<open>role\<close>) untouched; its content has the same text and the same other blocks;
  and, where stripping is configured, \<open>reasoning_content\<close> goes exactly from the assistant messages
  that a message of role user follows, and from all of them if there is no message of role user. A tool result,
  which has its own role here, strips nothing.\<close>

theorem optimized_messages_keep_meaning:
  assumes "optimize_messages text_len glm ms opt = (ms', opt')"
    and "i < length ms" and "ms ! i = JObj obj" and "obj_ok obj"
  shows "length ms' = length ms
    \<and> (\<exists>obj'. ms' ! i = JObj obj'
         \<and> (\<forall>k. k \<noteq> ''content'' \<longrightarrow> k \<noteq> ''reasoning_content'' \<longrightarrow> map_of obj' k = map_of obj k)
         \<and> content_text (map_of obj' ''content'') = content_text (map_of obj ''content'')
         \<and> other_blocks (map_of obj' ''content'') = other_blocks (map_of obj ''content'')
         \<and> map_of obj' ''reasoning_content'' =
             (if gc_strip glm \<and> obj_str obj ''role'' = Some ''assistant''
                 \<and> ((\<exists>j. i < j \<and> j < length ms \<and> get_str (ms ! j) ''role'' = Some ''user'')
                    \<or> (\<forall>j < length ms. get_str (ms ! j) ''role'' \<noteq> Some ''user''))
              then None else map_of obj ''reasoning_content''))"
proof -
  note nth = optimize_messages_from_nth [OF assms(1) [unfolded optimize_messages_def]]
  then obtain o1 where "ms' ! i = fst (optimize_message text_len glm (i < user_boundary ms) (ms ! i) o1)"
    using assms(2) by auto
  then show ?thesis
    using nth optimize_message_spec [OF assms(4), of text_len glm "i < user_boundary ms" o1]
    unfolding before_user_boundary [OF assms(2), symmetric] by (simp add: assms(3))
qed

definition demo_history :: "json list" where
  "demo_history =
     [JObj [(''role'', JStr ''assistant''), (''content'', JStr ''Hm''),
            (''reasoning_content'', JStr ''why'')],
      JObj [(''role'', JStr ''user''), (''content'', JStr ''Go'')]]"

theorem optimized_messages_keep_meaning_witness:
  "\<exists>obj'. fst (optimize_messages (\<lambda>_. 7) demo_glm demo_history empty_optimization) ! 0 = JObj obj'
     \<and> map_of obj' ''reasoning_content'' = None
     \<and> content_text (map_of obj' ''content'') = ''Hm''"
proof -
  obtain ms' opt' where
    run: "optimize_messages (\<lambda>_. 7) demo_glm demo_history empty_optimization = (ms', opt')"
    by force
  have "0 < length demo_history" "user_boundary demo_history = 1" by code_simp+
  moreover have "demo_history ! 0 = JObj [(''role'', JStr ''assistant''), (''content'', JStr ''Hm''),
            (''reasoning_content'', JStr ''why'')]" by (simp add: demo_history_def)
  ultimately show ?thesis
    using optimized_messages_keep_meaning [OF run, of 0] before_user_boundary [of 0 demo_history] run
    by (auto simp: obj_ok_def obj_str_def content_text_def demo_glm_def)
qed

text \<open>A tool result is no boundary: the reasoning of the assistant message before it is sent, as the code's
  own comment says, where the description at the head of the file says that it is removed.\<close>

definition demo_tool_loop :: "json list" where
  "demo_tool_loop =
     [JObj [(''role'', JStr ''user''), (''content'', JStr ''Go'')],
      JObj [(''role'', JStr ''assistant''), (''reasoning_content'', JStr ''why'')],
      JObj [(''role'', JStr ''tool''), (''content'', JStr ''ok'')]]"

lemma tool_result_strips_nothing:
  "fst (optimize_messages (\<lambda>_. 7) demo_glm demo_tool_loop empty_optimization) = demo_tool_loop"
  by code_simp

subsection \<open>Historical thinking\<close>

lemma strip_thinking_message_role:
  "get_str (fst (strip_thinking_message m)) ''role'' = get_str m ''role''"
  by (simp add: strip_thinking_message_def Let_def get_str_def split: option.split)

lemma strip_thinking_message_other:
  "k \<noteq> ''content'' \<Longrightarrow> json_get (fst (strip_thinking_message m)) k = json_get m k"
  by (simp add: strip_thinking_message_def Let_def split: option.split)

lemma strip_thinking_message_human: "human_turn (fst (strip_thinking_message m)) = human_turn m"
proof (cases "get_str m ''role'' = Some ''assistant''")
  case True
  then show ?thesis using strip_thinking_message_role [of m] by (simp add: human_turn_def)
next
  case False
  then show ?thesis by (simp add: strip_thinking_message_def)
qed

lemma strip_thinking_message_content:
  assumes "get_str m ''role'' = Some ''assistant''" and "json_get m ''content'' = Some (JArr bs)"
  shows "json_get (fst (strip_thinking_message m)) ''content''
      = Some (JArr (filter (\<lambda>b. \<not> block_is ''thinking'' b) bs))"
  using assms by (simp add: strip_thinking_message_def Let_def get_put_member_same)

lemma strip_thinking_message_again:
  "strip_thinking_message (fst (strip_thinking_message m)) = (fst (strip_thinking_message m), 0)"
  "thinking_chunks (fst (strip_thinking_message m)) = []"
proof -
  let ?m = "fst (strip_thinking_message m)"
  have "strip_thinking_message ?m = (?m, 0) \<and> thinking_chunks ?m = []"
  proof (cases "get_str m ''role'' = Some ''assistant'' \<and> (\<exists>bs. json_get m ''content'' = Some (JArr bs))")
    case True
    then obtain bs where role: "get_str ?m ''role'' = Some ''assistant''"
      and content: "json_get ?m ''content'' = Some (JArr (filter (\<lambda>b. \<not> block_is ''thinking'' b) bs))"
      using strip_thinking_message_content strip_thinking_message_role by metis
    show ?thesis
      using role content
      by (simp add: strip_thinking_message_def [of ?m] thinking_chunks_def Let_def put_member_same List.map_filter_def)
  next
    case False
    have none: "Option.bind (json_get m ''content'') as_array = None" if "get_str m ''role'' = Some ''assistant''"
      using False that as_array_SomeD by (cases "Option.bind (json_get m ''content'') as_array") (auto simp: bind_eq_Some_conv)
    then have "?m = m" by (simp add: strip_thinking_message_def)
    with none show ?thesis by (simp add: strip_thinking_message_def thinking_chunks_def)
  qed
  then show "strip_thinking_message ?m = (?m, 0)" and "thinking_chunks ?m = []" by blast+
qed

text \<open>The messages after the rewriting.\<close>

definition stripped_messages :: "json list \<Rightarrow> json list" where
  "stripped_messages ms =
     map (fst \<circ> strip_thinking_message) (take (reasoning_epoch_boundary ms) ms)
     @ drop (reasoning_epoch_boundary ms) ms"

lemma boundary_le: "reasoning_epoch_boundary ms \<le> length ms"
  using rposition_SomeD [of human_turn ms]
  by (auto simp: reasoning_epoch_boundary_def less_imp_le split: option.split)

lemma length_stripped [simp]: "length (stripped_messages ms) = length ms"
  using boundary_le [of ms] by (simp add: stripped_messages_def)

lemma stripped_nth:
  "i < length ms \<Longrightarrow> stripped_messages ms ! i =
     (if i < reasoning_epoch_boundary ms then fst (strip_thinking_message (ms ! i)) else ms ! i)"
  using boundary_le [of ms] by (auto simp: stripped_messages_def nth_append)

lemma boundary_stripped: "reasoning_epoch_boundary (stripped_messages ms) = reasoning_epoch_boundary ms"
proof -
  have "rposition human_turn (stripped_messages ms) = rposition human_turn ms"
    by (rule rposition_cong) (simp_all add: stripped_nth strip_thinking_message_human)
  then show ?thesis by (simp add: reasoning_epoch_boundary_def split: option.split)
qed

lemma take_stripped:
  "take (reasoning_epoch_boundary ms) (stripped_messages ms)
   = map (fst \<circ> strip_thinking_message) (take (reasoning_epoch_boundary ms) ms)"
  using boundary_le [of ms] by (simp add: stripped_messages_def)

lemma strip_anthropic_messages:
  assumes "json_get request ''messages'' = Some (JArr ms)"
  shows "fst (strip_anthropic_thinking request) = put_member ''messages'' (JArr (stripped_messages ms)) request"
  using assms by (simp add: strip_anthropic_thinking_def stripped_messages_def Let_def)

lemma fold_no_removed: "\<forall>x \<in> set xs. snd x = 0 \<Longrightarrow> k \<le> u64_max \<Longrightarrow>
    fold (\<lambda>(m, n) removed. sat_add64 removed n) xs k = k"
  by (induction xs) (auto simp: sat_add64_def split_beta)

lemma strip_stripped:
  assumes "json_get request ''messages'' = Some (JArr (stripped_messages ms))"
  shows "strip_anthropic_thinking request = (request, 0)" "collect_anthropic_thinking request = []"
proof -
  let ?b = "reasoning_epoch_boundary ms"
  have "map fst (map strip_thinking_message (take ?b (stripped_messages ms)))
      @ drop ?b (stripped_messages ms) = stripped_messages ms"
  proof -
    have "map fst (map strip_thinking_message (take ?b (stripped_messages ms)))
        = take ?b (stripped_messages ms)"
      by (simp add: take_stripped strip_thinking_message_again)
    then show ?thesis by simp
  qed
  moreover have "fold (\<lambda>(m, n) removed. sat_add64 removed n)
      (map strip_thinking_message (take ?b (stripped_messages ms))) 0 = 0"
    by (rule fold_no_removed) (auto simp: take_stripped strip_thinking_message_again)
  ultimately show "strip_anthropic_thinking request = (request, 0)"
    using assms by (simp add: strip_anthropic_thinking_def Let_def boundary_stripped put_member_same)
  show "collect_anthropic_thinking request = []"
    using assms by (simp add: collect_anthropic_thinking_def boundary_stripped take_stripped
        strip_thinking_message_again)
qed

text \<open>Stripping historical thinking of an Anthropic request: every message from the last human
  turn on is untouched (the active tool chain keeps its reasoning); before it only the thinking
  blocks of assistant messages go; all other members of the request stay; a second pass finds
  nothing left to strip and nothing left to count. A request without a human turn loses the thinking of every assistant
  message.\<close>

theorem historical_thinking_stripped:
  assumes "json_get request ''messages'' = Some (JArr ms)"
  shows "\<exists>ms'. json_get (fst (strip_anthropic_thinking request)) ''messages'' = Some (JArr ms')
    \<and> length ms' = length ms
    \<and> (\<forall>i < length ms. ms' ! i =
         (if i < reasoning_epoch_boundary ms then fst (strip_thinking_message (ms ! i)) else ms ! i))
    \<and> (\<forall>k. k \<noteq> ''messages'' \<longrightarrow>
         json_get (fst (strip_anthropic_thinking request)) k = json_get request k)
    \<and> strip_anthropic_thinking (fst (strip_anthropic_thinking request))
         = (fst (strip_anthropic_thinking request), 0)
    \<and> collect_anthropic_thinking (fst (strip_anthropic_thinking request)) = []
    \<and> ((\<forall>m \<in> set ms. \<not> human_turn m) \<longrightarrow> (\<forall>m \<in> set ms'. thinking_chunks m = []))"
proof -
  let ?r = "fst (strip_anthropic_thinking request)"
  have put: "?r = put_member ''messages'' (JArr (stripped_messages ms)) request"
    using assms by (rule strip_anthropic_messages)
  have get: "json_get ?r ''messages'' = Some (JArr (stripped_messages ms))"
    using assms by (simp add: put get_put_member_same)
  have "thinking_chunks m = []" if "\<forall>m \<in> set ms. \<not> human_turn m" "m \<in> set (stripped_messages ms)" for m
  proof -
    have "reasoning_epoch_boundary ms = length ms"
      using that(1) by (simp add: reasoning_epoch_boundary_def rposition_None [THEN iffD2])
    with that(2) show ?thesis by (auto simp: stripped_messages_def strip_thinking_message_again)
  qed
  then show ?thesis
    using strip_stripped [OF get]
    by (intro exI [of _ "stripped_messages ms"] conjI get) (auto simp: stripped_nth put)
qed

theorem historical_thinking_stripped_witness:
  "json_get (fst (strip_anthropic_thinking (JObj [(''messages'', JArr demo_history)]))) ''messages''
     = Some (JArr demo_history)"
proof -
  have "json_get (JObj [(''messages'', JArr demo_history)]) ''messages'' = Some (JArr demo_history)"
    by simp
  from historical_thinking_stripped [OF this] obtain ms' where
    ms': "json_get (fst (strip_anthropic_thinking (JObj [(''messages'', JArr demo_history)])))
      ''messages'' = Some (JArr ms')" "length ms' = length demo_history"
      "\<forall>i < length demo_history. ms' ! i = (if i < reasoning_epoch_boundary demo_history
         then fst (strip_thinking_message (demo_history ! i)) else demo_history ! i)" by blast
  have "length demo_history = 2" "reasoning_epoch_boundary demo_history = 1"
    "fst (strip_thinking_message (demo_history ! 0)) = demo_history ! 0" by code_simp+
  then have "ms' = demo_history" using ms'(2,3) by (intro nth_equalityI) (auto simp: less_Suc_eq)
  with ms'(1) show ?thesis by simp
qed

end
