(* ===== verification/Cache.thy ===== *)
theory Cache
  imports Json_Value "HOL-Library.List_Lexorder" "HOL-Library.Char_ord"
begin

text \<open>
  \<open>src/cache.rs\<close>: what keeps the bytes of a prompt prefix stable between turns, and the
  fingerprints of sessions. The scalar printer, the string escaper and the parser of
  \<open>serde_json\<close>, SHA-256 and HMAC-SHA256 are parameters: \<open>scalar\<close>, \<open>escape\<close>, \<open>parse\<close>,
  \<open>sha256\<close>, \<open>hmac\<close>.
\<close>

subsection \<open>The billing header\<close>

definition BILLING_HEADER_PREFIX :: string where
  "BILLING_HEADER_PREFIX = ''x-anthropic-billing-header:''"

definition line_end :: "char \<Rightarrow> bool" where
  "line_end c \<longleftrightarrow> byte c = 10 \<or> byte c = 13"

definition strip_leading_anthropic_billing_header :: "string \<Rightarrow> nat" where
  "strip_leading_anthropic_billing_header s =
     (if \<not> starts_with s BILLING_HEADER_PREFIX then 0
      else
        (let rest = drop (length BILLING_HEADER_PREFIX) s;
             cut = length BILLING_HEADER_PREFIX + length (takeWhile (\<lambda>c. \<not> line_end c) rest)
         in if starts_with (drop cut s) [char_of (13 :: nat), char_of (10 :: nat)] then cut + 2
            else case drop cut s of
                [] \<Rightarrow> cut
              | c # _ \<Rightarrow> (if line_end c then cut + 1 else cut)))"

definition without_billing_header :: "string \<Rightarrow> string" where
  "without_billing_header s = drop (strip_leading_anthropic_billing_header s) s"

definition strip_system_block :: "json \<Rightarrow> json" where
  "strip_system_block block =
     (if get_str block ''type'' = Some ''text''
      then case json_get block ''text'' of
          Some (JStr s) \<Rightarrow> put_member ''text'' (JStr (without_billing_header s)) block
        | _ \<Rightarrow> block
      else block)"

definition strip_billing_header_in_anthropic_system :: "json \<Rightarrow> json" where
  "strip_billing_header_in_anthropic_system request =
     (case json_get request ''system'' of
        Some (JStr s) \<Rightarrow> put_member ''system'' (JStr (without_billing_header s)) request
      | Some (JArr blocks) \<Rightarrow> put_member ''system'' (JArr (map strip_system_block blocks)) request
      | _ \<Rightarrow> request)"

subsection \<open>Canonical JSON\<close>

definition separated :: "string list \<Rightarrow> string" where
  "separated parts =
     (case parts of [] \<Rightarrow> [] | p # ps \<Rightarrow> p @ concat (map (\<lambda>q. CHR '','' # q) ps))"

definition member_text :: "(string \<Rightarrow> string) \<Rightarrow> string \<times> string \<Rightarrow> string" where
  "member_text escape = (\<lambda>(k, printed). escape k @ '':'' @ printed)"

text \<open>The members are written in the byte order of their names.\<close>

primrec write_canonical ::
  "(json \<Rightarrow> string) \<Rightarrow> (string \<Rightarrow> string) \<Rightarrow> json \<Rightarrow> string" where
  "write_canonical scalar escape JNull = scalar JNull"
| "write_canonical scalar escape (JBool b) = scalar (JBool b)"
| "write_canonical scalar escape (JNum n) = scalar (JNum n)"
| "write_canonical scalar escape (JStr s) = escape s"
| "write_canonical scalar escape (JArr xs) =
     ''['' @ separated (map (write_canonical scalar escape) xs) @ '']''"
| "write_canonical scalar escape (JObj kvs) =
     ''{'' @ separated (map (member_text escape)
       (sort_key fst (map (map_prod id (write_canonical scalar escape)) kvs))) @ ''}''"

definition canonical_json_string ::
  "(json \<Rightarrow> string) \<Rightarrow> (string \<Rightarrow> string) \<Rightarrow> json \<Rightarrow> string" where
  "canonical_json_string scalar escape v = write_canonical scalar escape v"

text \<open>One tool call, and whether its arguments were rewritten.\<close>

definition canonical_call ::
  "(string \<Rightarrow> json option) \<Rightarrow> (json \<Rightarrow> string) \<Rightarrow> (string \<Rightarrow> string) \<Rightarrow> json \<Rightarrow> json \<times> nat" where
  "canonical_call parse scalar escape call =
     (case Option.bind (json_get call ''function'') as_object of
        None \<Rightarrow> (call, 0)
      | Some function \<Rightarrow>
          (case obj_str function ''arguments'' of
             None \<Rightarrow> (call, 0)
           | Some arguments \<Rightarrow>
               (case parse arguments of
                  None \<Rightarrow> (call, 0)
                | Some parsed \<Rightarrow>
                    (let canonical = canonical_json_string scalar escape parsed
                     in if canonical \<noteq> arguments
                        then (put_member ''function''
                                (JObj (obj_insert ''arguments'' (JStr canonical) function)) call, 1)
                        else (call, 0)))))"

definition canonical_message ::
  "(string \<Rightarrow> json option) \<Rightarrow> (json \<Rightarrow> string) \<Rightarrow> (string \<Rightarrow> string) \<Rightarrow> json \<Rightarrow> json \<times> nat" where
  "canonical_message parse scalar escape message =
     (if get_str message ''role'' \<noteq> Some ''assistant'' then (message, 0)
      else case Option.bind (json_get message ''tool_calls'') as_array of
          None \<Rightarrow> (message, 0)
        | Some calls \<Rightarrow>
            (let done = map (canonical_call parse scalar escape) calls
             in (put_member ''tool_calls'' (JArr (map fst done)) message, sum_list (map snd done))))"

definition is_action :: "json \<Rightarrow> bool" where
  "is_action message \<longleftrightarrow>
     get_str message ''role'' = Some ''user'' \<or> get_str message ''role'' = Some ''tool''"

definition canonicalize_tool_arguments ::
  "(string \<Rightarrow> json option) \<Rightarrow> (json \<Rightarrow> string) \<Rightarrow> (string \<Rightarrow> string) \<Rightarrow> jmap \<Rightarrow> jmap \<times> nat" where
  "canonicalize_tool_arguments parse scalar escape obj =
     (case Option.bind (map_of obj ''messages'') as_array of
        None \<Rightarrow> (obj, 0)
      | Some messages \<Rightarrow>
          (case rposition is_action messages of
             None \<Rightarrow> (obj, 0)
           | Some last_action_index \<Rightarrow>
               (let done = map (canonical_message parse scalar escape) (take last_action_index messages)
                in (obj_insert ''messages''
                      (JArr (map fst done @ drop last_action_index messages)) obj,
                    sum_list (map snd done)))))"

subsection \<open>Hashes and fingerprints\<close>

text \<open>\<open>u64::to_le_bytes\<close>, and lower-case hexadecimal digits of bytes.\<close>

fun le_bytes :: "nat \<Rightarrow> nat \<Rightarrow> string" where
  "le_bytes 0 n = []"
| "le_bytes (Suc k) n = char_of n # le_bytes k (n div 256)"

definition hex_digit_char :: "nat \<Rightarrow> char" where
  "hex_digit_char n = (if n < 10 then char_of (48 + n) else char_of (87 + n))"

definition to_hex :: "string \<Rightarrow> string" where
  "to_hex bytes = concat (map (\<lambda>c. [hex_digit_char (byte c div 16), hex_digit_char (byte c mod 16)]) bytes)"

definition nul :: char where "nul = char_of (0 :: nat)"

definition hashed_section :: "(json \<Rightarrow> string) \<Rightarrow> jmap \<Rightarrow> string \<Rightarrow> string" where
  "hashed_section json_text obj section =
     (case map_of obj section of
        None \<Rightarrow> []
      | Some v \<Rightarrow> section @ [nul] @ le_bytes 8 (length (json_text v)) @ json_text v)"

definition prefix_sections :: "string list" where
  "prefix_sections = [''system'', ''messages'', ''tools'']"

definition prefix_input :: "(json \<Rightarrow> string) \<Rightarrow> jmap \<Rightarrow> string" where
  "prefix_input json_text obj = concat (map (hashed_section json_text obj) prefix_sections)"

definition stable_prefix_hash ::
  "(string \<Rightarrow> string) \<Rightarrow> (json \<Rightarrow> string) \<Rightarrow> jmap \<Rightarrow> string \<times> nat" where
  "stable_prefix_hash sha256 json_text obj =
     (to_hex (sha256 (prefix_input json_text obj)),
      sum_list (map (\<lambda>section. case map_of obj section of
         None \<Rightarrow> 0 | Some v \<Rightarrow> length (json_text v)) prefix_sections))"

text \<open>\<open>hmac key message\<close> is the 32-byte tag.\<close>

definition session_fingerprint ::
  "(string \<Rightarrow> string \<Rightarrow> string) \<Rightarrow> string \<Rightarrow> string \<Rightarrow> string" where
  "session_fingerprint hmac secret raw_session_id = take 16 (to_hex (hmac secret raw_session_id))"

definition UPSTREAM_TASK_ID_DOMAIN :: string where
  "UPSTREAM_TASK_ID_DOMAIN = ''cline-proxy/x-task-id/v2'' @ [nul]"

definition task_id_message :: "string \<Rightarrow> string \<Rightarrow> string" where
  "task_id_message session_fp cline_api_key =
     UPSTREAM_TASK_ID_DOMAIN @ session_fp @ [nul] @ cline_api_key"

definition upstream_task_id ::
  "(string \<Rightarrow> string \<Rightarrow> string) \<Rightarrow> string \<Rightarrow> string \<Rightarrow> string \<Rightarrow> string" where
  "upstream_task_id hmac secret session_fp cline_api_key =
     take 16 (to_hex (hmac secret (task_id_message session_fp cline_api_key)))"

definition non_empty :: "string option \<Rightarrow> string option" where
  "non_empty o' = Option.bind o' (\<lambda>s. if s = [] then None else Some s)"

definition session_raw_id :: "json \<Rightarrow> string option" where
  "session_raw_id request =
     (case Option.bind (json_get request ''metadata'') as_object of
        None \<Rightarrow> None
      | Some metadata \<Rightarrow>
          non_empty (case obj_str metadata ''user_id'' of
             Some i \<Rightarrow> Some i | None \<Rightarrow> obj_str metadata ''session_id''))"

definition extract_session_fingerprint ::
  "(string \<Rightarrow> string \<Rightarrow> string) \<Rightarrow> json \<Rightarrow> string \<Rightarrow> string option" where
  "extract_session_fingerprint hmac request secret =
     map_option (session_fingerprint hmac secret) (session_raw_id request)"

definition RESPONSES_SESSION_DOMAIN :: string where
  "RESPONSES_SESSION_DOMAIN = ''cline-proxy/responses/v1'' @ [nul]"

definition responses_message :: "string \<Rightarrow> string" where
  "responses_message raw_session_id = RESPONSES_SESSION_DOMAIN @ [nul] @ raw_session_id"

definition responses_session_fingerprint ::
  "(string \<Rightarrow> string \<Rightarrow> string) \<Rightarrow> string \<Rightarrow> string \<Rightarrow> string" where
  "responses_session_fingerprint hmac secret raw_session_id =
     take 16 (to_hex (hmac secret (responses_message raw_session_id)))"

definition responses_session_raw_id :: "json \<Rightarrow> string option" where
  "responses_session_raw_id request =
     (case non_empty (get_str request ''prompt_cache_key'') of
        Some key \<Rightarrow> Some key
      | None \<Rightarrow>
          (case Option.bind (json_get request ''metadata'') as_object of
             None \<Rightarrow> None
           | Some metadata \<Rightarrow>
               non_empty (case obj_str metadata ''session_id'' of
                  Some i \<Rightarrow> Some i | None \<Rightarrow> obj_str metadata ''user_id'')))"

definition log_prefix_telemetry ::
  "(string \<Rightarrow> string) \<Rightarrow> (json \<Rightarrow> string) \<Rightarrow> json \<Rightarrow> string \<times> nat" where
  "log_prefix_telemetry sha256 json_text body =
     stable_prefix_hash sha256 json_text (case as_object body of Some obj \<Rightarrow> obj | None \<Rightarrow> [])"

subsection \<open>The system text without its billing line\<close>

lemma char_10_13: "byte (char_of (13 :: nat)) = 13" "byte (char_of (10 :: nat)) = 10"
  by (simp_all add: byte_def)

text \<open>Only a leading billing line goes. A text that does not start with the header is kept; from
  any other text exactly its first line and that line's terminator are cut, where LF, CRLF and CR
  each count as one terminator, and a text of one line becomes empty.\<close>

theorem billing_header_spec:
  "if starts_with s BILLING_HEADER_PREFIX
   then \<exists>meta terminator.
      s = BILLING_HEADER_PREFIX @ meta @ terminator @ without_billing_header s
      \<and> list_all (\<lambda>c. \<not> line_end c) meta
      \<and> (terminator = [] \<and> without_billing_header s = []
         \<or> terminator = [char_of (10 :: nat)]
         \<or> terminator = [char_of (13 :: nat), char_of (10 :: nat)]
         \<or> terminator = [char_of (13 :: nat)]
            \<and> \<not> starts_with (without_billing_header s) [char_of (10 :: nat)])
   else without_billing_header s = s"
proof (cases "starts_with s BILLING_HEADER_PREFIX")
  case True
  let ?P = BILLING_HEADER_PREFIX and ?ends = "\<lambda>c. \<not> line_end c"
  define rest where "rest = drop (length ?P) s"
  have s: "s = ?P @ rest" using True unfolding rest_def starts_with_iff by (metis append_take_drop_id)
  define meta where "meta = takeWhile ?ends rest"
  have "drop (length meta) rest = dropWhile ?ends rest"
    unfolding meta_def by (rule dropWhile_eq_drop [symmetric])
  let ?tail = "dropWhile ?ends rest"
  define k where "k = length ?P + length meta"
  then have "drop k s = ?tail"
    using \<open>drop (length meta) rest = ?tail\<close> by (simp add: s)
  then have behind: "drop (k + j) s = drop j ?tail" for j by (metis add.commute drop_drop)
  have meta: "list_all ?ends meta"
    unfolding meta_def list_all_iff by (auto dest: set_takeWhileD)
  have split: "rest = meta @ dropWhile ?ends rest" by (simp add: meta_def)
  have "strip_leading_anthropic_billing_header s =
      (if starts_with ?tail [char_of (13 :: nat), char_of (10 :: nat)] then k + 2
       else case ?tail of [] \<Rightarrow> k + 0 | c # _ \<Rightarrow> (if line_end c then k + 1 else k + 0))"
    using True behind [of 0]
    by (simp only: strip_leading_anthropic_billing_header_def Let_def rest_def [symmetric]
        meta_def [symmetric] k_def [symmetric] not_True_eq_False if_False add_0_right drop_0)
  then have cut: "without_billing_header s =
      (if starts_with ?tail [char_of (13 :: nat), char_of (10 :: nat)] then drop 2 ?tail
       else case ?tail of [] \<Rightarrow> [] | c # cs \<Rightarrow> (if line_end c then cs else c # cs))"
    unfolding without_billing_header_def
    using behind [of 0, simplified] behind [of 1, simplified] behind [of 2, simplified]
    by (cases ?tail) (simp_all del: dropWhile_eq_Nil_conv)
  define tail where "tail = ?tail"
  note cut = cut [folded tail_def]
  have whole: "s = ?P @ meta @ tail" using split s unfolding tail_def by simp
  have ends: "line_end c" if "tail = c # cs" for c cs
    using that hd_dropWhile [of ?ends rest] unfolding tail_def by auto
  have "\<exists>terminator. tail = terminator @ without_billing_header s
      \<and> (terminator = [] \<and> without_billing_header s = []
         \<or> terminator = [char_of (10 :: nat)]
         \<or> terminator = [char_of (13 :: nat), char_of (10 :: nat)]
         \<or> terminator = [char_of (13 :: nat)]
            \<and> \<not> starts_with (without_billing_header s) [char_of (10 :: nat)])"
  proof (cases tail)
    case Nil
    then show ?thesis using cut by simp
  next
    case (Cons c cs)
    then have c: "c = char_of (10 :: nat) \<or> c = char_of (13 :: nat)"
      using ends char_10_13 byte_inj unfolding line_end_def by metis
    show ?thesis
    proof (cases "starts_with tail [char_of (13 :: nat), char_of (10 :: nat)]")
      case True
      then have "tail = [char_of (13 :: nat), char_of (10 :: nat)] @ drop 2 tail"
        unfolding starts_with_iff by (metis append_take_drop_id length_Cons list.size(3) numeral_2_eq_2)
      then show ?thesis using True cut
        by (intro exI [of _ "[char_of (13 :: nat), char_of (10 :: nat)]"]) simp
    next
      case False
      then have "c = char_of (13 :: nat) \<Longrightarrow> \<not> starts_with cs [char_of (10 :: nat)]" using Cons by auto
      moreover have "without_billing_header s = cs"
        using cut [unfolded if_not_P [OF False]] ends [OF Cons] by (simp add: Cons)
      ultimately show ?thesis using Cons c by (intro exI [of _ "[c]"]) auto
    qed
  qed
  then show ?thesis using True meta whole by (simp only: if_True) blast
next
  case False
  then show ?thesis
    by (simp add: without_billing_header_def strip_leading_anthropic_billing_header_def)
qed

subsection \<open>Canonical bytes stand for the meaning\<close>

text \<open>
  \<open>json_print\<close> is the compact printer with the members in map order; \<open>same_json\<close> is the
  equality of values, which ignores the order of members.
\<close>

primrec json_print :: "(json \<Rightarrow> string) \<Rightarrow> (string \<Rightarrow> string) \<Rightarrow> json \<Rightarrow> string" where
  "json_print scalar escape JNull = scalar JNull"
| "json_print scalar escape (JBool b) = scalar (JBool b)"
| "json_print scalar escape (JNum n) = scalar (JNum n)"
| "json_print scalar escape (JStr s) = escape s"
| "json_print scalar escape (JArr xs) =
     ''['' @ separated (map (json_print scalar escape) xs) @ '']''"
| "json_print scalar escape (JObj kvs) =
     ''{'' @ separated (map (member_text escape) (map (map_prod id (json_print scalar escape)) kvs)) @ ''}''"

primrec sort_members :: "json \<Rightarrow> json" where
  "sort_members JNull = JNull"
| "sort_members (JBool b) = JBool b"
| "sort_members (JNum n) = JNum n"
| "sort_members (JStr s) = JStr s"
| "sort_members (JArr xs) = JArr (map sort_members xs)"
| "sort_members (JObj kvs) = JObj (sort_key fst (map (map_prod id sort_members) kvs))"

primrec json_ok :: "json \<Rightarrow> bool" where
  "json_ok JNull = True"
| "json_ok (JBool b) = True"
| "json_ok (JNum n) = True"
| "json_ok (JStr s) = True"
| "json_ok (JArr xs) = list_all id (map json_ok xs)"
| "json_ok (JObj kvs) = (obj_ok kvs \<and> list_all snd (map (map_prod id json_ok) kvs))"

inductive same_json :: "json \<Rightarrow> json \<Rightarrow> bool" where
  scalar: "(\<forall>xs. v \<noteq> JArr xs) \<Longrightarrow> (\<forall>kvs. v \<noteq> JObj kvs) \<Longrightarrow> same_json v v"
| array: "list_all2 same_json xs ys \<Longrightarrow> same_json (JArr xs) (JArr ys)"
| object: "(\<And>k. rel_option same_json (map_of kvs k) (map_of kvs' k)) \<Longrightarrow>
     same_json (JObj kvs) (JObj kvs')"

lemma insort_key_map_prod:
  "insort_key fst (map_prod id f x) (map (map_prod id f) ys) = map (map_prod id f) (insort_key fst x ys)"
  by (induction ys) simp_all

lemma sort_key_map_prod:
  "sort_key fst (map (map_prod id f) kvs) = map (map_prod id f) (sort_key fst kvs)"
proof (induction kvs)
  case (Cons a kvs)
  then show ?case by (simp only: list.map sort_key_simps insort_key_map_prod)
qed simp

lemma sort_key_sorted: "sort_key f (sort_key f xs) = sort_key f xs"
  by (simp add: sort_key_id_if_sorted)

lemma obj_ok_sort_key: "obj_ok (sort_key fst kvs) = obj_ok kvs"
  by (simp add: obj_ok_def distinct_map)

lemma write_canonical_print: "write_canonical scalar escape v = json_print scalar escape (sort_members v)"
proof (induction v)
  case (JArr xs)
  then have "map (write_canonical scalar escape) xs = map (json_print scalar escape \<circ> sort_members) xs"
    by simp
  then show ?case
    by (simp only: write_canonical.simps json_print.simps sort_members.simps map_map)
next
  case (JObj kvs)
  then have "map (map_prod id (write_canonical scalar escape)) kvs
      = map (map_prod id (json_print scalar escape)) (map (map_prod id sort_members) kvs)"
    by (auto simp: map_prod_def split_beta)
  then show ?case by (simp only: write_canonical.simps json_print.simps sort_members.simps sort_key_map_prod)
qed simp_all

lemma sort_key_unique:
  assumes "distinct (map fst xs)" and "distinct (map fst ys)" and "set xs = set ys"
  shows "sort_key fst xs = sort_key fst ys"
proof (rule map_sorted_distinct_set_unique [where f = fst])
  show "inj_on fst (set (sort_key fst xs) \<union> set (sort_key fst ys))"
    using assms by (simp add: distinct_map)
qed (use assms in \<open>simp_all add: distinct_map\<close>)

lemma json_ok_member: "json_ok (JObj kvs) \<Longrightarrow> map_of kvs k = Some v \<Longrightarrow> json_ok v"
  by (auto simp: list_all_iff map_prod_def split_beta dest!: map_of_SomeD)

lemma set_by_map_of: "obj_ok kvs \<Longrightarrow> obj_ok kvs' \<Longrightarrow> map_of kvs = map_of kvs' \<Longrightarrow> set kvs = set kvs'"
  unfolding obj_ok_def by (simp add: map_of_inject_set)

lemma map_of_mapped: "map_of (map (map_prod id f) kvs) k = map_option f (map_of kvs k)"
  by (induction kvs) auto

lemma obj_ok_mapped: "obj_ok (map (map_prod id f) kvs) = obj_ok kvs"
  by (simp add: obj_ok_def comp_def)

lemma same_json_sorted: "same_json v w \<Longrightarrow> json_ok v \<Longrightarrow> json_ok w \<Longrightarrow> sort_members v = sort_members w"
proof (induction rule: same_json.induct)
  case (array xs ys)
  then have "list_all2 (\<lambda>x y. sort_members x = sort_members y) xs ys"
    by (auto simp: list_all2_conv_all_nth list_all_iff)
  then show ?case by (simp add: list_all2_conv_all_nth list_eq_iff_nth_eq)
next
  case (object kvs kvs')
  let ?f = "map_prod id sort_members"
  have "map_option sort_members (map_of kvs k) = map_option sort_members (map_of kvs' k)" for k
    using object.IH [of k] json_ok_member [OF object.prems(1)] json_ok_member [OF object.prems(2)]
    by (cases "map_of kvs k"; cases "map_of kvs' k") auto
  then have "map_of (map ?f kvs) = map_of (map ?f kvs')" by (simp add: fun_eq_iff map_of_mapped)
  moreover have ok: "obj_ok (map ?f kvs)" "obj_ok (map ?f kvs')"
    using object.prems by (simp_all add: obj_ok_mapped)
  ultimately have "set (map ?f kvs) = set (map ?f kvs')" by (intro set_by_map_of)
  with ok have "sort_key fst (map ?f kvs) = sort_key fst (map ?f kvs')"
    unfolding obj_ok_def by (intro sort_key_unique)
  then show ?case by (simp only: sort_members.simps)
qed simp

lemma sorted_same_json: "json_ok v \<Longrightarrow> json_ok w \<Longrightarrow> sort_members v = sort_members w \<Longrightarrow> same_json v w"
proof (induction v arbitrary: w)
  case (JArr xs)
  obtain ys where w: "w = JArr ys" using JArr.prems(3) by (cases w) simp_all
  with JArr.prems have eq: "map sort_members xs = map sort_members ys" by simp
  then have "list_all2 same_json xs ys"
    using JArr.IH JArr.prems(1,2) w
    by (auto simp: list_all2_conv_all_nth list_eq_iff_nth_eq list_all_iff)
  with w show ?case by (simp add: same_json.array)
next
  case (JObj kvs)
  let ?f = "map_prod id sort_members"
  obtain kvs' where w: "w = JObj kvs'" using JObj.prems(3) by (cases w) simp_all
  have ok: "obj_ok (map ?f kvs)" "obj_ok (map ?f kvs')"
    using JObj.prems w by (simp_all add: obj_ok_mapped)
  have "set (sort_key fst (map ?f kvs)) = set (sort_key fst (map ?f kvs'))"
    using JObj.prems(3) w by simp
  then have "map_of (map ?f kvs) = map_of (map ?f kvs')"
    using ok unfolding obj_ok_def set_sort by (simp only: map_of_inject_set)
  then have eq: "map_option sort_members (map_of kvs k) = map_option sort_members (map_of kvs' k)" for k
    by (metis map_of_mapped)
  have "rel_option same_json (map_of kvs k) (map_of kvs' k)" for k
  proof (cases "map_of kvs k")
    case None
    with eq [of k] show ?thesis by simp
  next
    case (Some a)
    with eq [of k] obtain b where b: "map_of kvs' k = Some b" "sort_members a = sort_members b"
      by (cases "map_of kvs' k") simp_all
    have "(k, a) \<in> set kvs" using Some by (rule map_of_SomeD)
    then have "same_json a b"
      using JObj.IH [of "(k, a)" a b] b(2) json_ok_member [OF JObj.prems(1) Some]
        json_ok_member [of kvs' k b] JObj.prems(2) b(1) w by simp
    with Some b(1) show ?thesis by simp
  qed
  with w show ?case by (simp add: same_json.object)
next
  case JNull
  then show ?case by (cases w) (simp_all add: same_json.scalar)
next
  case (JBool b)
  then show ?case by (cases w) (simp_all add: same_json.scalar)
next
  case (JNum n)
  then show ?case by (cases w) (simp_all add: same_json.scalar)
next
  case (JStr s)
  then show ?case by (cases w) (simp_all add: same_json.scalar)
qed

lemma sort_members_idem: "sort_members (sort_members v) = sort_members v"
proof (induction v)
  case (JObj kvs)
  let ?f = "map_prod id sort_members"
  have "map ?f (map ?f kvs) = map ?f kvs"
    using JObj by (auto simp: map_prod_def split_beta)
  then have "sort_key fst (map ?f (sort_key fst (map ?f kvs))) = sort_key fst (map ?f kvs)"
    unfolding sort_key_map_prod [symmetric] by (simp only: sort_key_sorted)
  then show ?case by (simp only: sort_members.simps)
qed simp_all

lemma json_ok_sort_members: "json_ok v \<Longrightarrow> json_ok (sort_members v)"
proof (induction v)
  case (JObj kvs)
  then show ?case
    by (auto simp: list_all_iff obj_ok_sort_key obj_ok_mapped)
qed (auto simp: list_all_iff)

text \<open>C28. Canonical bytes are a function of the meaning, and separate meanings: two values print the
  same canonical text exactly when they are equal as JSON values, whatever the order in which their
  members were written at any depth. The hypotheses ask that the library's parser reads back what
  its printer wrote for the two values with sorted members.\<close>

theorem canonical_bytes_iff_same_meaning:
  assumes "json_ok v" and "json_ok w"
    and "parse (json_print scalar escape (sort_members v)) = Some (sort_members v)"
    and "parse (json_print scalar escape (sort_members w)) = Some (sort_members w)"
  shows "canonical_json_string scalar escape v = canonical_json_string scalar escape w
         \<longleftrightarrow> same_json v w"
proof
  assume "canonical_json_string scalar escape v = canonical_json_string scalar escape w"
  then have "json_print scalar escape (sort_members v) = json_print scalar escape (sort_members w)"
    by (simp only: canonical_json_string_def write_canonical_print)
  then have "sort_members v = sort_members w" using assms(3,4) by (metis option.inject)
  with assms(1,2) show "same_json v w" by (rule sorted_same_json)
next
  assume "same_json v w"
  then show "canonical_json_string scalar escape v = canonical_json_string scalar escape w"
    using assms(1,2) by (simp add: canonical_json_string_def write_canonical_print same_json_sorted)
qed

definition demo_args :: json where
  "demo_args = JObj [(''b'', JBool True), (''a'', JNull)]"

definition demo_scalar :: "json \<Rightarrow> string" where
  "demo_scalar v = (case v of JBool True \<Rightarrow> ''true'' | _ \<Rightarrow> ''null'')"

definition demo_escape :: "string \<Rightarrow> string" where
  "demo_escape s = ''|'' @ s @ ''|''"

definition demo_parse :: "string \<Rightarrow> json option" where
  "demo_parse s =
     (if s = ''{|b|:true, |a|:null}'' then Some demo_args
      else if s = ''{|a|:null,|b|:true}'' then Some (sort_members demo_args) else None)"

lemma demo_canonical:
  "json_print demo_scalar demo_escape (sort_members demo_args) = ''{|a|:null,|b|:true}''"
  "sort_members demo_args = JObj [(''a'', JNull), (''b'', JBool True)]"
  by code_simp+

theorem canonical_bytes_iff_same_meaning_witness:
  "same_json demo_args (JObj [(''a'', JNull), (''b'', JBool True)])"
proof -
  let ?w = "JObj [(''a'', JNull), (''b'', JBool True)]"
  have "json_ok demo_args" "json_ok ?w" "sort_members ?w = ?w"
    "canonical_json_string demo_scalar demo_escape demo_args
       = canonical_json_string demo_scalar demo_escape ?w" by code_simp+
  then show ?thesis
    using canonical_bytes_iff_same_meaning [of demo_args ?w demo_parse demo_scalar demo_escape]
      demo_canonical by (simp add: demo_parse_def)
qed

subsection \<open>Historical tool calls\<close>

definition call_arguments :: "json \<Rightarrow> string option" where
  "call_arguments call =
     Option.bind (Option.bind (json_get call ''function'') as_object) (\<lambda>f. obj_str f ''arguments'')"

definition call_name :: "json \<Rightarrow> json option" where
  "call_name call = Option.bind (json_get call ''function'') (\<lambda>f. json_get f ''name'')"

text \<open>Values without floating-point numbers. The parser of the library is exact on them only: the
  feature \<open>float_roundtrip\<close> is not on in \<open>Cargo.toml\<close>, so a printed float may be read back as its
  neighbour.\<close>

primrec float_free :: "json \<Rightarrow> bool" where
  "float_free JNull = True"
| "float_free (JBool b) = True"
| "float_free (JNum n) = (case n of Float _ \<Rightarrow> False | _ \<Rightarrow> True)"
| "float_free (JStr s) = True"
| "float_free (JArr xs) = list_all id (map float_free xs)"
| "float_free (JObj kvs) = list_all snd (map (map_prod id float_free) kvs)"

text \<open>What the conversion does to the arguments of a call: they are kept, or replaced by the canonical
  text of the value they parse to, which parses to an equal value if no float is in it.\<close>

definition canonical_arguments ::
  "(string \<Rightarrow> json option) \<Rightarrow> (json \<Rightarrow> string) \<Rightarrow> (string \<Rightarrow> string) \<Rightarrow> string option \<Rightarrow> string option \<Rightarrow> bool" where
  "canonical_arguments parse scalar escape a b \<longleftrightarrow>
     a = b
     \<or> (\<exists>s v t. a = Some s \<and> parse s = Some v \<and> b = Some t \<and> t = json_print scalar escape (sort_members v)
          \<and> (float_free v \<longrightarrow> (\<exists>w. parse t = Some w \<and> same_json v w)))"

definition same_call ::
  "(string \<Rightarrow> json option) \<Rightarrow> (json \<Rightarrow> string) \<Rightarrow> (string \<Rightarrow> string) \<Rightarrow> json \<Rightarrow> json \<Rightarrow> bool" where
  "same_call parse scalar escape c d \<longleftrightarrow>
     (\<forall>k. k \<noteq> ''function'' \<longrightarrow> json_get c k = json_get d k) \<and> call_name c = call_name d
     \<and> canonical_arguments parse scalar escape (call_arguments c) (call_arguments d)"

definition calls_of :: "json \<Rightarrow> json list" where
  "calls_of message =
     (case Option.bind (json_get message ''tool_calls'') as_array of None \<Rightarrow> [] | Some calls \<Rightarrow> calls)"

text \<open>A call whose arguments hold no float, or do not parse.\<close>

definition exact_call :: "(string \<Rightarrow> json option) \<Rightarrow> json \<Rightarrow> bool" where
  "exact_call parse call \<longleftrightarrow>
     (case Option.bind (call_arguments call) parse of None \<Rightarrow> True | Some v \<Rightarrow> float_free v)"

text \<open>What the parser must satisfy: it returns maps with distinct names, and it reads back what the
  printer wrote for a value it returned, with sorted members, if the value has no float.\<close>

definition reads_back :: "(string \<Rightarrow> json option) \<Rightarrow> (json \<Rightarrow> string) \<Rightarrow> (string \<Rightarrow> string) \<Rightarrow> bool" where
  "reads_back parse scalar escape \<longleftrightarrow>
     (\<forall>s v. parse s = Some v \<longrightarrow>
        json_ok v
        \<and> (float_free v \<longrightarrow> parse (json_print scalar escape (sort_members v)) = Some (sort_members v)))"

lemma same_call_refl [simp]: "same_call parse scalar escape c c"
  by (simp add: same_call_def canonical_arguments_def)

lemma canonical_call_spec:
  assumes "reads_back parse scalar escape"
  shows "same_call parse scalar escape call (fst (canonical_call parse scalar escape call))"
    and "exact_call parse call \<Longrightarrow>
      canonical_call parse scalar escape (fst (canonical_call parse scalar escape call))
           = (fst (canonical_call parse scalar escape call), 0)"
proof -
  let ?c = "canonical_call parse scalar escape"
  have "same_call parse scalar escape call (fst (?c call))
    \<and> (exact_call parse call \<longrightarrow> ?c (fst (?c call)) = (fst (?c call), 0))"
  proof (cases "fst (?c call) = call \<and> snd (?c call) = 0")
    case True
    then have "?c call = (call, 0)" by (metis prod.collapse)
    then show ?thesis by simp
  next
    case False
    then obtain f args v where f: "Option.bind (json_get call ''function'') as_object = Some f"
      and args: "obj_str f ''arguments'' = Some args" and v: "parse args = Some v"
      and new: "canonical_json_string scalar escape v \<noteq> args"
      by (auto simp: canonical_call_def Let_def split: option.splits if_splits)
    let ?text = "json_print scalar escape (sort_members v)"
    have canon: "canonical_json_string scalar escape v = ?text"
      by (simp add: canonical_json_string_def write_canonical_print)
    let ?f = "obj_insert ''arguments'' (JStr ?text) f"
    let ?d = "put_member ''function'' (JObj ?f) call"
    have get: "json_get call ''function'' = Some (JObj f)"
      using f by (cases "json_get call ''function''") (auto elim: as_object.elims)
    have step: "?c call = (?d, 1)"
      using new by (simp add: canonical_call_def get args v canon)
    have getd: "json_get ?d ''function'' = Some (JObj ?f)"
      using get by (simp add: get_put_member_same)
    have reread: "float_free v \<Longrightarrow> parse ?text = Some (sort_members v)" and ok: "json_ok v"
      using assms v unfolding reads_back_def by blast+
    have again: "canonical_json_string scalar escape (sort_members v) = ?text"
      by (simp add: canonical_json_string_def write_canonical_print sort_members_idem)
    have "?c ?d = (?d, 0)" if "float_free v"
      using reread [OF that] by (simp add: canonical_call_def getd obj_str_def again)
    moreover have "exact_call parse call \<longleftrightarrow> float_free v"
      using args v by (simp add: exact_call_def call_arguments_def get)
    moreover have "same_json v (sort_members v)"
      using ok json_ok_sort_members [OF ok] by (intro sorted_same_json) (simp_all add: sort_members_idem)
    then have "canonical_arguments parse scalar escape (call_arguments call) (call_arguments ?d)"
      using v reread args by (simp add: canonical_arguments_def call_arguments_def get getd obj_str_def)
    then have "same_call parse scalar escape call ?d"
      by (simp add: same_call_def call_name_def get getd)
    ultimately show ?thesis by (simp add: step)
  qed
  then show "same_call parse scalar escape call (fst (?c call))"
    and "exact_call parse call \<Longrightarrow> ?c (fst (?c call)) = (fst (?c call), 0)"
    by blast+
qed

lemma canonical_message_spec:
  fixes parse :: "string \<Rightarrow> json option" and scalar :: "json \<Rightarrow> string" and escape :: "string \<Rightarrow> string"
  assumes "reads_back parse scalar escape"
  defines "c \<equiv> canonical_message parse scalar escape"
  shows "k \<noteq> ''tool_calls'' \<Longrightarrow> json_get (fst (c m)) k = json_get m k"
    and "list_all2 (same_call parse scalar escape) (calls_of m) (calls_of (fst (c m)))"
    and "list_all (exact_call parse) (calls_of m) \<Longrightarrow> c (fst (c m)) = (fst (c m), 0)"
proof -
  have "(\<forall>k. k \<noteq> ''tool_calls'' \<longrightarrow> json_get (fst (c m)) k = json_get m k)
    \<and> list_all2 (same_call parse scalar escape) (calls_of m) (calls_of (fst (c m)))
    \<and> (list_all (exact_call parse) (calls_of m) \<longrightarrow> c (fst (c m)) = (fst (c m), 0))"
  proof (cases "get_str m ''role'' = Some ''assistant'' \<and> (\<exists>calls. json_get m ''tool_calls'' = Some (JArr calls))")
    case True
    then obtain calls where calls: "json_get m ''tool_calls'' = Some (JArr calls)"
      and role: "get_str m ''role'' = Some ''assistant''" by blast
    let ?call = "canonical_call parse scalar escape"
    let ?m = "put_member ''tool_calls'' (JArr (map (fst \<circ> ?call) calls)) m"
    have cm: "fst (c m) = ?m" by (simp add: c_def canonical_message_def calls role Let_def)
    have get: "json_get ?m ''tool_calls'' = Some (JArr (map (fst \<circ> ?call) calls))"
      using calls by (simp add: get_put_member_same)
    have "get_str ?m ''role'' = Some ''assistant''" using role by (simp add: get_str_def)
    moreover have "map ?call (map (fst \<circ> ?call) calls) = map (\<lambda>d. (fst (?call d), 0)) calls"
      if "list_all (exact_call parse) calls"
      using canonical_call_spec(2) [OF assms(1)] that by (simp add: list_all_iff)
    ultimately have "c ?m = (?m, 0)" if "list_all (exact_call parse) calls"
      using get that by (simp add: c_def canonical_message_def Let_def put_member_same comp_def)
    moreover have "list_all2 (same_call parse scalar escape) calls (map (fst \<circ> ?call) calls)"
      using canonical_call_spec(1) [OF assms(1)] by (simp add: list_all2_conv_all_nth)
    ultimately show ?thesis by (simp add: cm calls_of_def calls get)
  next
    case False
    have "Option.bind (json_get m ''tool_calls'') as_array = None" if "get_str m ''role'' = Some ''assistant''"
      using False that as_array_SomeD
      by (cases "Option.bind (json_get m ''tool_calls'') as_array") (auto simp: bind_eq_Some_conv)
    then have "c m = (m, 0)" by (simp add: c_def canonical_message_def)
    then show ?thesis by (simp add: list_all2_refl)
  qed
  then show "k \<noteq> ''tool_calls'' \<Longrightarrow> json_get (fst (c m)) k = json_get m k"
    and "list_all2 (same_call parse scalar escape) (calls_of m) (calls_of (fst (c m)))"
    and "list_all (exact_call parse) (calls_of m) \<Longrightarrow> c (fst (c m)) = (fst (c m), 0)" by blast+
qed

text \<open>C27. Canonicalizing a history changes nothing that the model reads as different. The request
  keeps every other member, every message its position and its other members, every call its order,
  id and function name; a call's argument string is kept, or replaced by the canonical text of the value
  it parses to, which parses to an equal value unless a float is in it. From the last message that is an action
  on nothing changes at all. And if no call has a float among its arguments, a second pass over the result changes
  nothing and counts nothing, so such a history, rewritten once, is byte-stable from then on. Floats are
  left out because the library's parser is not exact on them.\<close>

theorem canonicalized_history_keeps_meaning:
  assumes "reads_back parse scalar escape"
    and "map_of obj ''messages'' = Some (JArr ms)"
    and "canonicalize_tool_arguments parse scalar escape obj = (obj', n)"
  shows "(list_all (\<lambda>m. list_all (exact_call parse) (calls_of m)) ms \<longrightarrow>
         canonicalize_tool_arguments parse scalar escape obj' = (obj', 0))
    \<and> (\<forall>k. k \<noteq> ''messages'' \<longrightarrow> map_of obj' k = map_of obj k)
    \<and> (\<exists>ms'. map_of obj' ''messages'' = Some (JArr ms') \<and> length ms' = length ms
         \<and> (case rposition is_action ms of None \<Rightarrow> ms' = ms | Some k \<Rightarrow> drop k ms' = drop k ms)
         \<and> (\<forall>i < length ms.
              (\<forall>k. k \<noteq> ''tool_calls'' \<longrightarrow> json_get (ms' ! i) k = json_get (ms ! i) k)
              \<and> list_all2 (same_call parse scalar escape) (calls_of (ms ! i)) (calls_of (ms' ! i))))"
proof (cases "rposition is_action ms")
  case None
  then have "obj' = obj" using assms(2,3) by (simp add: canonicalize_tool_arguments_def)
  then show ?thesis
    using assms(2) None by (simp add: canonicalize_tool_arguments_def list_all2_refl)
next
  case (Some last)
  let ?c = "canonical_message parse scalar escape"
  let ?exact = "list_all (\<lambda>m. list_all (exact_call parse) (calls_of m)) ms"
  define ms' where "ms' = map (fst \<circ> ?c) (take last ms) @ drop last ms"
  note spec = canonical_message_spec [OF assms(1)]
  have last: "last < length ms" using rposition_SomeD [OF Some] by blast
  have obj': "obj' = obj_insert ''messages'' (JArr ms') obj"
    using assms(2,3) Some by (simp add: canonicalize_tool_arguments_def Let_def ms'_def)
  have len: "length ms' = length ms" using last by (simp add: ms'_def)
  have nth: "ms' ! i = (if i < last then fst (?c (ms ! i)) else ms ! i)" if "i < length ms" for i
    using that last by (auto simp: ms'_def nth_append)
  have role: "get_str (ms' ! i) ''role'' = get_str (ms ! i) ''role''" if "i < length ms" for i
    using nth [OF that] spec(1) by (simp add: get_str_def)
  have "rposition is_action ms' = Some last"
    using rposition_cong [OF len, of is_action] Some role by (simp add: len is_action_def)
  moreover have "map fst (map ?c (take last ms')) @ drop last ms' = ms'"
    and "sum_list (map snd (map ?c (take last ms'))) = 0" if ?exact
  proof -
    have "\<forall>m \<in> set (take last ms). ?c (fst (?c m)) = (fst (?c m), 0)"
      using that spec(3) in_set_takeD by (fastforce simp: list_all_iff)
    then have fixed: "map ?c (map (fst \<circ> ?c) (take last ms)) = map (\<lambda>m. (fst (?c m), 0)) (take last ms)"
      by simp
    have take: "take last ms' = map (fst \<circ> ?c) (take last ms)" using last by (simp add: ms'_def)
    have "map fst (map ?c (take last ms')) = take last ms'" unfolding take fixed by simp
    then show "map fst (map ?c (take last ms')) @ drop last ms' = ms'" by (simp only: append_take_drop_id)
    show "sum_list (map snd (map ?c (take last ms'))) = 0" unfolding take fixed by (simp add: comp_def)
  qed
  moreover have "obj_insert ''messages'' (JArr ms') obj' = obj'"
    by (simp add: obj' obj_insert_same)
  ultimately have "?exact \<longrightarrow> canonicalize_tool_arguments parse scalar escape obj' = (obj', 0)"
    unfolding canonicalize_tool_arguments_def Let_def by (simp add: obj')
  moreover have "map_of obj' k = map_of obj k" if "k \<noteq> ''messages''" for k
    using that by (simp add: obj')
  moreover have "map_of obj' ''messages'' = Some (JArr ms')" by (simp add: obj')
  moreover have "drop last ms' = drop last ms" using last by (simp add: ms'_def)
  moreover have "(\<forall>k. k \<noteq> ''tool_calls'' \<longrightarrow> json_get (ms' ! i) k = json_get (ms ! i) k)
      \<and> list_all2 (same_call parse scalar escape) (calls_of (ms ! i)) (calls_of (ms' ! i))" if "i < length ms" for i
    using nth [OF that] spec(1,2) by (simp add: list_all2_refl)
  ultimately show ?thesis using len Some by simp
qed

subsection \<open>Unambiguous hash inputs\<close>

lemma length_le_bytes [simp]: "length (le_bytes k n) = k"
  by (induction k n rule: le_bytes.induct) simp_all

lemma le_bytes_inj: "le_bytes k m = le_bytes k n \<Longrightarrow> m < 256 ^ k \<Longrightarrow> n < 256 ^ k \<Longrightarrow> m = n"
proof (induction k arbitrary: m n)
  case (Suc k)
  then have "char_of m = (char_of n :: char)" and rest: "m div 256 = n div 256"
    by (auto intro!: Suc.IH)
  then have "m mod 256 = n mod 256" by (metis of_char_of)
  with rest show ?case by (metis div_mult_mod_eq)
qed simp

definition section_texts :: "(json \<Rightarrow> string) \<Rightarrow> jmap \<Rightarrow> string option list" where
  "section_texts json_text obj = map (\<lambda>k. map_option json_text (map_of obj k)) prefix_sections"

fun framed :: "string \<times> string option \<Rightarrow> string" where
  "framed (name, None) = []"
| "framed (name, Some body) = name @ [nul] @ le_bytes 8 (length body) @ body"

lemma framed_cancel:
  assumes "framed (n, a) @ r = framed (n, b) @ s" and "n \<noteq> []"
    and "\<forall>body. a = Some body \<or> b = Some body \<longrightarrow> length body \<le> u64_max"
    and "r = [] \<or> hd r \<noteq> hd n" and "s = [] \<or> hd s \<noteq> hd n"
  shows "a = b \<and> r = s"
proof (cases a; cases b)
  fix x y assume xy: "a = Some x" "b = Some y"
  then have "le_bytes 8 (length x) @ x @ r = le_bytes 8 (length y) @ y @ s" using assms(1) by simp
  then have "le_bytes 8 (length x) = le_bytes 8 (length y)" and rest: "x @ r = y @ s" by simp_all
  moreover have "length x < 256 ^ 8" "length y < 256 ^ 8"
    using assms(3) xy by (auto simp: u64_max_def)
  ultimately have "length x = length y" using le_bytes_inj by blast
  with rest xy show ?thesis by simp
qed (use assms in \<open>auto simp: neq_Nil_conv\<close>)

text \<open>Equal stability hashes mean equal prefixes, up to a collision of SHA-256: the hashed bytes
  determine which of the three sections are present and the text of each, so text can never move
  across a section boundary unnoticed.\<close>

theorem prefix_input_unambiguous:
  assumes "prefix_input json_text obj = prefix_input json_text obj'"
    and "\<forall>v. length (json_text v) \<le> u64_max"
  shows "section_texts json_text obj = section_texts json_text obj'"
proof -
  let ?t = "\<lambda>o' k. map_option json_text (map_of o' k)"
  have sec: "hashed_section json_text o' k = framed (k, ?t o' k)" for o' k
    by (simp add: hashed_section_def split: option.split)
  have len: "\<forall>body. ?t obj k = Some body \<or> ?t obj' k = Some body \<longrightarrow> length body \<le> u64_max" for k
    using assms(2) by auto
  have heads: "framed (''messages'', a) @ framed (''tools'', b) = []
      \<or> hd (framed (''messages'', a) @ framed (''tools'', b)) \<noteq> hd ''system''"
    "framed (''tools'', b) = [] \<or> hd (framed (''tools'', b)) \<noteq> hd ''messages''" for a b
    by (cases a; cases b; simp)+
  have "framed (''system'', ?t obj ''system'') @ framed (''messages'', ?t obj ''messages'')
        @ framed (''tools'', ?t obj ''tools'')
      = framed (''system'', ?t obj' ''system'') @ framed (''messages'', ?t obj' ''messages'')
        @ framed (''tools'', ?t obj' ''tools'')"
    using assms(1) by (simp add: prefix_input_def prefix_sections_def sec)
  from framed_cancel [OF this _ len heads(1) heads(1)] have s1: "?t obj ''system'' = ?t obj' ''system''"
    and r1: "framed (''messages'', ?t obj ''messages'') @ framed (''tools'', ?t obj ''tools'')
      = framed (''messages'', ?t obj' ''messages'') @ framed (''tools'', ?t obj' ''tools'')" by simp_all
  from framed_cancel [OF r1 _ len heads(2) heads(2)] have s2: "?t obj ''messages'' = ?t obj' ''messages''"
    and r2: "framed (''tools'', ?t obj ''tools'') = framed (''tools'', ?t obj' ''tools'')" by simp_all
  from framed_cancel [of "''tools''" "?t obj ''tools''" "[]" "?t obj' ''tools''" "[]", OF _ _ len]
  have "?t obj ''tools'' = ?t obj' ''tools''" using r2 by simp
  with s1 s2 show ?thesis by (simp add: section_texts_def prefix_sections_def)
qed

subsection \<open>Fingerprints\<close>

definition is_hex_char :: "char \<Rightarrow> bool" where
  "is_hex_char c \<longleftrightarrow> c \<in> set ''0123456789abcdef''"

definition opaque_id :: "string \<Rightarrow> bool" where
  "opaque_id s \<longleftrightarrow> length s = 16 \<and> list_all is_hex_char s"

lemma hex_digit_char_hex: "n < 16 \<Longrightarrow> is_hex_char (hex_digit_char n)"
proof -
  have "\<forall>n < 16. is_hex_char (hex_digit_char n)" by code_simp
  then show "n < 16 \<Longrightarrow> is_hex_char (hex_digit_char n)" by blast
qed

lemma to_hex_length [simp]: "length (to_hex bytes) = 2 * length bytes"
  by (induction bytes) (simp_all add: to_hex_def)

lemma to_hex_chars: "list_all is_hex_char (to_hex bytes)"
proof -
  have "is_hex_char (hex_digit_char (byte c div 16))" "is_hex_char (hex_digit_char (byte c mod 16))" for c
    using byte_less_256 [of c] by (simp_all add: hex_digit_char_hex less_mult_imp_div_less)
  then show ?thesis by (induction bytes) (simp_all add: to_hex_def)
qed

lemma opaque_take: "8 \<le> length tag \<Longrightarrow> opaque_id (take 16 (to_hex tag))"
  using to_hex_chars [of tag] by (auto simp: opaque_id_def list_all_iff dest: in_set_takeD)

lemma nul_not_hex: "opaque_id s \<Longrightarrow> nul \<notin> set s"
proof -
  have "\<not> is_hex_char nul" by code_simp
  then show "opaque_id s \<Longrightarrow> nul \<notin> set s" unfolding opaque_id_def list_all_iff by blast
qed

lemma append_nul_inj: "nul \<notin> set a \<Longrightarrow> nul \<notin> set b \<Longrightarrow> a @ nul # x = b @ nul # y \<Longrightarrow> a = b \<and> x = y"
proof (induction a arbitrary: b)
  case Nil
  then show ?case by (cases b) auto
next
  case (Cons c a)
  then show ?case by (cases b) auto
qed

text \<open>Identities handed out are opaque and credential-scoped. Every fingerprint and task id is 16
  lower-case hexadecimal digits, whatever the session id or key contains; the bytes authenticated
  for a task id determine both the session fingerprint and the credential, so two credentials never
  authenticate the same bytes; and no input of a Responses fingerprint is the input of a task id or
  of the plain fingerprint of the same session id.\<close>

theorem identities_opaque_and_scoped:
  assumes "\<forall>k m. length (hmac k m) = 32"
  shows "opaque_id (session_fingerprint hmac secret raw)
    \<and> opaque_id (responses_session_fingerprint hmac secret raw)
    \<and> opaque_id (upstream_task_id hmac secret fp key)
    \<and> (task_id_message (session_fingerprint hmac secret raw) key
         = task_id_message (session_fingerprint hmac secret raw') key'
       \<longleftrightarrow> session_fingerprint hmac secret raw = session_fingerprint hmac secret raw' \<and> key = key')
    \<and> responses_message raw \<noteq> task_id_message fp key \<and> responses_message raw \<noteq> raw"
proof -
  have ids: "opaque_id (session_fingerprint hmac secret r)"
    "opaque_id (responses_session_fingerprint hmac secret r)" "opaque_id (upstream_task_id hmac secret fp key)" for r
    using assms
    by (simp_all add: session_fingerprint_def responses_session_fingerprint_def upstream_task_id_def opaque_take)
  have "task_id_message (session_fingerprint hmac secret raw) key
      = task_id_message (session_fingerprint hmac secret raw') key'
    \<longleftrightarrow> session_fingerprint hmac secret raw = session_fingerprint hmac secret raw' \<and> key = key'"
    using append_nul_inj [OF nul_not_hex [OF ids(1)] nul_not_hex [OF ids(1)]]
    by (auto simp: task_id_message_def)
  moreover have "responses_message raw \<noteq> task_id_message fp key"
    by (simp add: responses_message_def task_id_message_def RESPONSES_SESSION_DOMAIN_def UPSTREAM_TASK_ID_DOMAIN_def)
  moreover have "length (responses_message raw) \<noteq> length raw"
    by (simp add: responses_message_def RESPONSES_SESSION_DOMAIN_def)
  ultimately show ?thesis using ids by auto
qed

subsection \<open>Concrete runs\<close>

theorem identities_opaque_and_scoped_witness:
  "opaque_id (upstream_task_id (\<lambda>k m. replicate 32 (CHR ''x'')) ''secret'' ''fp'' ''key'')"
  using identities_opaque_and_scoped [of "\<lambda>k m. replicate 32 (CHR ''x'')"] by simp

theorem prefix_input_unambiguous_witness:
  "section_texts (\<lambda>v. ''x'') [(''system'', JNull)] = section_texts (\<lambda>v. ''x'') [(''system'', JBool True)]"
  using prefix_input_unambiguous [of "\<lambda>v. ''x''" "[(''system'', JNull)]" "[(''system'', JBool True)]"]
  by (simp add: prefix_input_def prefix_sections_def hashed_section_def u64_max_def)

lemma demo_reads_back: "reads_back demo_parse demo_scalar demo_escape"
proof -
  have "json_ok demo_args" "json_ok (sort_members demo_args)" by code_simp+
  then show ?thesis
    using demo_canonical(1)
    by (auto simp: reads_back_def demo_parse_def sort_members_idem split: if_splits)
qed

definition demo_calls :: jmap where
  "demo_calls =
     [(''messages'', JArr
        [JObj [(''role'', JStr ''assistant''),
               (''tool_calls'', JArr [JObj [(''function'',
                  JObj [(''arguments'', JStr ''{|b|:true, |a|:null}'')])]])],
         JObj [(''role'', JStr ''tool'')]])]"

theorem canonicalized_history_keeps_meaning_witness:
  "snd (canonicalize_tool_arguments demo_parse demo_scalar demo_escape demo_calls) = 1
   \<and> snd (canonicalize_tool_arguments demo_parse demo_scalar demo_escape
        (fst (canonicalize_tool_arguments demo_parse demo_scalar demo_escape demo_calls))) = 0"
proof -
  obtain obj' n where run:
    "canonicalize_tool_arguments demo_parse demo_scalar demo_escape demo_calls = (obj', n)" by force
  have "\<exists>ms. map_of demo_calls ''messages'' = Some (JArr ms)
      \<and> list_all (\<lambda>m. list_all (exact_call demo_parse) (calls_of m)) ms"
    by (simp add: demo_calls_def calls_of_def exact_call_def call_arguments_def obj_str_def demo_parse_def demo_args_def)
  then obtain ms where ms: "map_of demo_calls ''messages'' = Some (JArr ms)"
    and "list_all (\<lambda>m. list_all (exact_call demo_parse) (calls_of m)) ms" by blast
  with canonicalized_history_keeps_meaning [OF demo_reads_back ms run]
  have "canonicalize_tool_arguments demo_parse demo_scalar demo_escape obj' = (obj', 0)" by blast
  moreover have "snd (canonicalize_tool_arguments demo_parse demo_scalar demo_escape demo_calls) = 1"
    by code_simp
  ultimately show ?thesis by (simp add: run)
qed

theorem billing_header_spec_witness:
  "without_billing_header ''You are Claude'' = ''You are Claude''"
  using billing_header_spec [of "''You are Claude''"] by (simp add: BILLING_HEADER_PREFIX_def)

end
