(* ===== verification/Responses_Types.thy ===== *)
theory Responses_Types
  imports Web_Search
begin

text \<open>
  The Responses wire format: \<open>src/responses/types.rs\<close> and the frames that
  \<open>src/responses/stream.rs\<close> writes, one constructor per \<open>json!\<close> literal. \<open>frame_members\<close>
  gives the literal, \<open>frame_json\<close> the event with its sequence number. Output indices, ids and
  counters are natural numbers and texts; \<open>json_text\<close> prints a JSON value.
\<close>

definition json_nat :: "nat \<Rightarrow> json" where "json_nat n = JNum (PosInt n)"

type_synonym usage = "nat \<times> nat \<times> nat \<times> nat"

definition usage_field :: "json option \<Rightarrow> nat" where
  "usage_field v = (case Option.bind v as_u64 of Some n \<Rightarrow> n | None \<Rightarrow> 0)"

definition pointer2 :: "json \<Rightarrow> string \<Rightarrow> string \<Rightarrow> json option" where
  "pointer2 v a b = Option.bind (json_get v a) (\<lambda>w. json_get w b)"

definition map_usage :: "json \<Rightarrow> usage" where
  "map_usage u =
     (let input = usage_field (json_get u ''prompt_tokens'');
          output = usage_field (json_get u ''completion_tokens'');
          cached = usage_field (pointer2 u ''prompt_tokens_details'' ''cached_tokens'');
          reasoning = usage_field (pointer2 u ''completion_tokens_details'' ''reasoning_tokens'')
      in (input, output, min cached input, min reasoning output))"

text \<open>The total is computed with a plain \<open>+\<close>: it wraps in a release build.\<close>

definition usage_json :: "usage \<Rightarrow> json" where
  "usage_json u =
     (case u of (input, output, cached, reasoning) \<Rightarrow>
        JObj [(''input_tokens'', json_nat input),
              (''input_tokens_details'', JObj [(''cached_tokens'', json_nat cached)]),
              (''output_tokens'', json_nat output),
              (''output_tokens_details'', JObj [(''reasoning_tokens'', json_nat reasoning)]),
              (''total_tokens'', json_nat (nat ((int input + int output) mod 2 ^ 64)))])"

definition sse_event :: "(json \<Rightarrow> string) \<Rightarrow> json \<Rightarrow> string" where
  "sse_event json_text data = ''data: '' @ json_text data @ [newline, newline]"

definition sse_ping :: string where "sse_ping = '': ping'' @ [newline, newline]"

definition base_response ::
  "string \<Rightarrow> string \<Rightarrow> string \<Rightarrow> json list \<Rightarrow> usage option \<Rightarrow> nat \<Rightarrow> jmap" where
  "base_response response_id model status output usage created_at =
     [(''id'', JStr response_id), (''object'', JStr ''response''), (''created_at'', json_nat created_at),
      (''status'', JStr status), (''model'', JStr model), (''output'', JArr output),
      (''usage'', usage_json (case usage of Some u \<Rightarrow> u | None \<Rightarrow> (0, 0, 0, 0))),
      (''error'', JNull), (''incomplete_details'', JNull), (''parallel_tool_calls'', JBool True)]"

subsection \<open>Frames\<close>

datatype frame =
    Created jmap
  | InProgress jmap
  | ReasoningAdded nat string
  | SummaryPartAdded string nat
  | SummaryDelta string nat string
  | SummaryTextDone string nat string
  | SummaryPartDone string nat string
  | ReasoningDone nat string string
  | MessageAdded nat string
  | ContentPartAdded string nat
  | TextDelta string nat string
  | TextDone string nat string
  | ContentPartDone string nat string
  | MessageDone nat string string
  | CallAdded nat string string string
  | ArgumentsDelta string nat string
  | ArgumentsDone string nat string
  | CallDone nat string string string string
  | SearchInProgress nat string
  | SearchDone nat string json
  | ResponseCompleted jmap
  | ResponseIncomplete jmap
  | ResponseFailed jmap

definition summary_item :: "string \<Rightarrow> string \<Rightarrow> json" where
  "summary_item item_id s =
     JObj [(''type'', JStr ''reasoning''), (''id'', JStr item_id),
       (''summary'', JArr [JObj [(''type'', JStr ''summary_text''), (''text'', JStr s)]]),
       (''status'', JStr ''completed'')]"

definition output_text_part :: "string \<Rightarrow> json" where
  "output_text_part s =
     JObj [(''type'', JStr ''output_text''), (''text'', JStr s), (''annotations'', JArr [])]"

definition message_item :: "string \<Rightarrow> string \<Rightarrow> json" where
  "message_item item_id s =
     JObj [(''type'', JStr ''message''), (''id'', JStr item_id), (''role'', JStr ''assistant''),
       (''status'', JStr ''completed''), (''content'', JArr [output_text_part s])]"

definition call_item :: "string \<Rightarrow> string \<Rightarrow> string \<Rightarrow> string \<Rightarrow> string \<Rightarrow> json" where
  "call_item item_id call_id name arguments status =
     JObj [(''type'', JStr ''function_call''), (''id'', JStr item_id), (''call_id'', JStr call_id),
       (''name'', JStr name), (''arguments'', JStr arguments), (''status'', JStr status)]"

definition at_item :: "string \<Rightarrow> string \<Rightarrow> nat \<Rightarrow> jmap" where
  "at_item kind item_id oi =
     [(''type'', JStr kind), (''item_id'', JStr item_id), (''output_index'', json_nat oi)]"

definition item_frame :: "string \<Rightarrow> nat \<Rightarrow> json \<Rightarrow> jmap" where
  "item_frame kind oi item =
     [(''type'', JStr kind), (''output_index'', json_nat oi), (''item'', item)]"

fun frame_members :: "frame \<Rightarrow> jmap" where
  "frame_members (Created r) = [(''type'', JStr ''response.created''), (''response'', JObj r)]"
| "frame_members (InProgress r) = [(''type'', JStr ''response.in_progress''), (''response'', JObj r)]"
| "frame_members (ReasoningAdded oi i) =
     item_frame ''response.output_item.added'' oi
       (JObj [(''type'', JStr ''reasoning''), (''id'', JStr i), (''summary'', JArr []),
              (''status'', JStr ''in_progress'')])"
| "frame_members (SummaryPartAdded i oi) =
     at_item ''response.reasoning_summary_part.added'' i oi
       @ [(''summary_index'', json_nat 0),
          (''part'', JObj [(''type'', JStr ''summary_text''), (''text'', JStr [])])]"
| "frame_members (SummaryDelta i oi s) =
     at_item ''response.reasoning_summary_text.delta'' i oi
       @ [(''summary_index'', json_nat 0), (''delta'', JStr s)]"
| "frame_members (SummaryTextDone i oi s) =
     at_item ''response.reasoning_summary_text.done'' i oi
       @ [(''summary_index'', json_nat 0), (''text'', JStr s)]"
| "frame_members (SummaryPartDone i oi s) =
     at_item ''response.reasoning_summary_part.done'' i oi
       @ [(''summary_index'', json_nat 0),
          (''part'', JObj [(''type'', JStr ''summary_text''), (''text'', JStr s)])]"
| "frame_members (ReasoningDone oi i s) =
     item_frame ''response.output_item.done'' oi (summary_item i s)"
| "frame_members (MessageAdded oi i) =
     item_frame ''response.output_item.added'' oi
       (JObj [(''type'', JStr ''message''), (''id'', JStr i), (''role'', JStr ''assistant''),
              (''status'', JStr ''in_progress''), (''content'', JArr [])])"
| "frame_members (ContentPartAdded i oi) =
     at_item ''response.content_part.added'' i oi
       @ [(''content_index'', json_nat 0), (''part'', output_text_part [])]"
| "frame_members (TextDelta i oi s) =
     at_item ''response.output_text.delta'' i oi
       @ [(''content_index'', json_nat 0), (''delta'', JStr s)]"
| "frame_members (TextDone i oi s) =
     at_item ''response.output_text.done'' i oi
       @ [(''content_index'', json_nat 0), (''text'', JStr s)]"
| "frame_members (ContentPartDone i oi s) =
     at_item ''response.content_part.done'' i oi
       @ [(''content_index'', json_nat 0), (''part'', output_text_part s)]"
| "frame_members (MessageDone oi i s) =
     item_frame ''response.output_item.done'' oi (message_item i s)"
| "frame_members (CallAdded oi i call_id name) =
     item_frame ''response.output_item.added'' oi (call_item i call_id name [] ''in_progress'')"
| "frame_members (ArgumentsDelta i oi s) =
     at_item ''response.function_call_arguments.delta'' i oi @ [(''delta'', JStr s)]"
| "frame_members (ArgumentsDone i oi s) =
     at_item ''response.function_call_arguments.done'' i oi @ [(''arguments'', JStr s)]"
| "frame_members (CallDone oi i call_id name s) =
     item_frame ''response.output_item.done'' oi (call_item i call_id name s ''completed'')"
| "frame_members (SearchInProgress oi i) =
     [(''type'', JStr ''response.web_search_call.in_progress''), (''output_index'', json_nat oi),
      (''item_id'', JStr i)]"
| "frame_members (SearchDone oi i item) = item_frame ''response.output_item.done'' oi item"
| "frame_members (ResponseCompleted r) = [(''type'', JStr ''response.completed''), (''response'', JObj r)]"
| "frame_members (ResponseIncomplete r) = [(''type'', JStr ''response.incomplete''), (''response'', JObj r)]"
| "frame_members (ResponseFailed r) = [(''type'', JStr ''response.failed''), (''response'', JObj r)]"

definition frame_json :: "nat \<times> frame \<Rightarrow> json" where
  "frame_json = (\<lambda>(sequence, f). JObj (obj_insert ''sequence_number'' (json_nat sequence) (frame_members f)))"

definition frame_text :: "(json \<Rightarrow> string) \<Rightarrow> nat \<times> frame \<Rightarrow> string" where
  "frame_text json_text f = sse_event json_text (frame_json f)"

end
