(* ===== verification/Responses_Stream.thy ===== *)
theory Responses_Stream
  imports Responses_Types Machine_Interfaces
begin

text \<open>
  \<open>ResponsesConverter\<close> of \<open>src/responses/stream.rs\<close>: upstream chat chunks in, Responses
  frames out. \<open>cv_out\<close> holds every frame written to the caller's buffer so far, with its sequence
  number; \<open>fresh n\<close> is the \<open>n\<close>-th random id and \<open>cv_fresh\<close> counts the ids drawn. An output
  index of \<open>None\<close> is the code's \<open>usize::MAX\<close>, no index yet. The tool slots are a \<open>BTreeMap\<close>.
\<close>

record item_state =
  it_id :: string
  it_index :: "nat option"
  it_accum :: string
  it_added :: bool
  it_part_added :: bool
  it_part_done :: bool
  it_done :: bool

record tool_slot =
  sl_item_id :: string
  sl_call_id :: string
  sl_name :: string
  sl_arguments :: string
  sl_index :: nat
  sl_done :: bool
  sl_server :: bool

datatype output_item =
    ReasoningItem string
  | MessageItem string
  | FunctionCallItem string
  | WebSearchCallItem json

record converter =
  cv_response_id :: string
  cv_model :: string
  cv_expose :: bool
  cv_started :: bool
  cv_sequence :: nat
  cv_created_at :: nat
  cv_next_index :: nat
  cv_reasoning :: "item_state option"
  cv_message :: "item_state option"
  cv_tools :: "(int \<times> tool_slot) list"
  cv_server_names :: "string list"
  cv_items :: "output_item list"
  cv_finish_reason :: "string option"
  cv_usage :: "usage option"
  cv_error :: "string option"
  cv_model_seen :: "string option"
  cv_fresh :: nat
  cv_out :: "(nat \<times> frame) list"

definition new_converter :: "string \<Rightarrow> string \<Rightarrow> bool \<Rightarrow> string list \<Rightarrow> nat \<Rightarrow> converter" where
  "new_converter response_id model expose server_names created_at =
     \<lparr>cv_response_id = response_id, cv_model = model, cv_expose = expose, cv_started = False,
      cv_sequence = 0, cv_created_at = created_at, cv_next_index = 0, cv_reasoning = None,
      cv_message = None, cv_tools = [], cv_server_names = server_names, cv_items = [],
      cv_finish_reason = None, cv_usage = None, cv_error = None, cv_model_seen = None,
      cv_fresh = 0, cv_out = []\<rparr>"

definition current_model :: "converter \<Rightarrow> string" where
  "current_model c = (case cv_model_seen c of Some m \<Rightarrow> m | None \<Rightarrow> cv_model c)"

definition slots :: "converter \<Rightarrow> tool_slot list" where
  "slots c = map snd (cv_tools c)"

definition reasoning_text :: "converter \<Rightarrow> string" where
  "reasoning_text c = (case cv_reasoning c of Some st \<Rightarrow> it_accum st | None \<Rightarrow> [])"

definition message_text :: "converter \<Rightarrow> string" where
  "message_text c = (case cv_message c of Some st \<Rightarrow> it_accum st | None \<Rightarrow> [])"

definition tool_call_ids :: "converter \<Rightarrow> string list" where
  "tool_call_ids c = map sl_call_id (slots c)"

definition tool_bytes :: "converter \<Rightarrow> nat" where
  "tool_bytes c = sum_list (map (length \<circ> sl_arguments) (slots c))"

definition emit :: "frame \<Rightarrow> converter \<Rightarrow> converter" where
  "emit f c =
     c\<lparr>cv_sequence := Suc (cv_sequence c), cv_out := cv_out c @ [(Suc (cv_sequence c), f)]\<rparr>"

definition ensure_started :: "converter \<Rightarrow> converter" where
  "ensure_started c =
     (if cv_started c then c
      else let r = base_response (cv_response_id c) (current_model c) ''in_progress'' [] None (cv_created_at c)
           in emit (InProgress r) (emit (Created r) (c\<lparr>cv_started := True\<rparr>)))"

definition new_item :: "string \<Rightarrow> string \<Rightarrow> item_state" where
  "new_item item_id accum =
     \<lparr>it_id = item_id, it_index = None, it_accum = accum, it_added = False, it_part_added = False,
      it_part_done = False, it_done = False\<rparr>"

subsection \<open>Reasoning and text\<close>

text \<open>The state of the item, made on first use.\<close>

definition need_reasoning :: "(nat \<Rightarrow> string) \<Rightarrow> converter \<Rightarrow> converter" where
  "need_reasoning fresh c =
     (case cv_reasoning c of
        Some _ \<Rightarrow> c
      | None \<Rightarrow> c\<lparr>cv_reasoning := Some (new_item (''rs_'' @ fresh (cv_fresh c)) []),
                  cv_fresh := Suc (cv_fresh c)\<rparr>)"

definition need_message :: "(nat \<Rightarrow> string) \<Rightarrow> converter \<Rightarrow> converter" where
  "need_message fresh c =
     (case cv_message c of
        Some _ \<Rightarrow> c
      | None \<Rightarrow> c\<lparr>cv_message := Some (new_item (''msg_'' @ fresh (cv_fresh c)) []),
                  cv_fresh := Suc (cv_fresh c)\<rparr>)"

definition pick_index :: "item_state \<Rightarrow> converter \<Rightarrow> nat" where
  "pick_index st c = (case it_index st of Some n \<Rightarrow> n | None \<Rightarrow> cv_next_index c)"

definition feed_reasoning :: "(nat \<Rightarrow> string) \<Rightarrow> string \<Rightarrow> converter \<Rightarrow> converter" where
  "feed_reasoning fresh reasoning c =
     (let c0 = need_reasoning fresh c;
          st = the (cv_reasoning c0);
          st' = st\<lparr>it_accum := it_accum st @ reasoning\<rparr>
      in if \<not> cv_expose c then c0\<lparr>cv_reasoning := Some st'\<rparr>
         else
           let oi = pick_index st c0;
               c1 = c0\<lparr>cv_reasoning := Some (st'\<lparr>it_added := True, it_part_added := True, it_index := Some oi\<rparr>),
                       cv_next_index := (if it_index st = None then Suc (cv_next_index c0) else cv_next_index c0)\<rparr>;
               c2 = (if it_added st then c1
                     else emit (ReasoningAdded oi (it_id st))
                            (c1\<lparr>cv_items := cv_items c1 @ [ReasoningItem (it_id st)]\<rparr>));
               c3 = (if it_part_added st then c2 else emit (SummaryPartAdded (it_id st) oi) c2)
           in emit (SummaryDelta (it_id st) oi reasoning) c3)"

definition feed_text :: "(nat \<Rightarrow> string) \<Rightarrow> string \<Rightarrow> converter \<Rightarrow> converter" where
  "feed_text fresh content c =
     (let c0 = need_message fresh c;
          st = the (cv_message c0);
          oi = pick_index st c0;
          c1 = c0\<lparr>cv_message := Some (st\<lparr>it_accum := it_accum st @ content,
                     it_added := True, it_part_added := (if it_added st then it_part_added st else True),
                     it_index := Some oi\<rparr>),
                  cv_next_index := (if it_index st = None then Suc (cv_next_index c0) else cv_next_index c0)\<rparr>;
          c2 = (if it_added st then c1
                else emit (ContentPartAdded (it_id st) oi) (emit (MessageAdded oi (it_id st))
                       (c1\<lparr>cv_items := cv_items c1 @ [MessageItem (it_id st)]\<rparr>)))
      in emit (TextDelta (it_id st) oi content) c2)"

text \<open>Only an item that was announced is closed, and an announced item has its index.\<close>

definition shown_index :: "item_state \<Rightarrow> nat" where
  "shown_index st = the (it_index st)"

definition close_message_item :: "converter \<Rightarrow> converter" where
  "close_message_item c =
     (case cv_message c of
        None \<Rightarrow> c
      | Some st \<Rightarrow>
          (if it_done st then c
           else let i = it_id st; oi = shown_index st; s = it_accum st;
                    c1 = c\<lparr>cv_message := Some (st\<lparr>it_done := True, it_part_done := True\<rparr>)\<rparr>;
                    c2 = (if it_part_added st \<and> \<not> it_part_done st
                          then emit (ContentPartDone i oi s) (emit (TextDone i oi s) c1) else c1)
                in emit (MessageDone oi i s) c2))"

definition close_reasoning_item :: "converter \<Rightarrow> converter" where
  "close_reasoning_item c =
     (case cv_reasoning c of
        None \<Rightarrow> c
      | Some st \<Rightarrow>
          (if \<not> it_added st \<or> it_done st then c
           else let i = it_id st; oi = shown_index st; s = it_accum st;
                    c1 = c\<lparr>cv_reasoning := Some (st\<lparr>it_done := True, it_part_done := True\<rparr>)\<rparr>;
                    c2 = (if it_part_added st \<and> \<not> it_part_done st
                          then emit (SummaryPartDone i oi s) (emit (SummaryTextDone i oi s) c1) else c1)
                in emit (ReasoningDone oi i s) c2))"

subsection \<open>Tool calls\<close>

definition call_index :: "json \<Rightarrow> int" where
  "call_index tool_call = (case Option.bind (json_get tool_call ''index'') as_i64 of Some i \<Rightarrow> i | None \<Rightarrow> 0)"

definition call_field :: "json \<Rightarrow> string \<Rightarrow> string option" where
  "call_field tool_call field = Option.bind (pointer2 tool_call ''function'' field) as_str"

definition ensure_tool_item_added :: "(nat \<Rightarrow> string) \<Rightarrow> json \<Rightarrow> converter \<Rightarrow> converter" where
  "ensure_tool_item_added fresh tool_call c =
     (let index = call_index tool_call
      in if map_of (cv_tools c) index \<noteq> None then c
         else
           let c1 = (if cv_tools c = [] then close_message_item c else c);
               call_id = str_or [] (get_str tool_call ''id'');
               name = str_or [] (call_field tool_call ''name'');
               is_server = (name \<in> set (cv_server_names c));
               oi = cv_next_index c1;
               item_id = ''fc_'' @ fresh (cv_fresh c1);
               c2 = c1\<lparr>cv_next_index := Suc oi, cv_fresh := Suc (cv_fresh c1),
                       cv_tools := btree_insert index
                         \<lparr>sl_item_id = item_id, sl_call_id = call_id, sl_name = name, sl_arguments = [],
                          sl_index = oi, sl_done = False, sl_server = is_server\<rparr> (cv_tools c1)\<rparr>
           in if is_server then c2
              else let c3 = emit (CallAdded oi item_id call_id name) c2
                   in c3\<lparr>cv_items := cv_items c3 @ [FunctionCallItem item_id]\<rparr>)"

definition patched :: "string option \<Rightarrow> string \<Rightarrow> string" where
  "patched new old = (case new of Some s \<Rightarrow> (if s = [] then old else s) | None \<Rightarrow> old)"

definition feed_tool_call_arguments :: "json \<Rightarrow> converter \<Rightarrow> converter" where
  "feed_tool_call_arguments tool_call c =
     (let index = call_index tool_call
      in case map_of (cv_tools c) index of
           None \<Rightarrow> c
         | Some slot \<Rightarrow>
             let delta_args = str_or [] (call_field tool_call ''arguments'');
                 slot' = slot\<lparr>sl_call_id := patched (get_str tool_call ''id'') (sl_call_id slot),
                              sl_name := patched (call_field tool_call ''name'') (sl_name slot),
                              sl_arguments := sl_arguments slot @ delta_args\<rparr>;
                 c1 = c\<lparr>cv_tools := btree_insert index slot' (cv_tools c)\<rparr>
             in if delta_args \<noteq> [] \<and> \<not> sl_server slot
                then emit (ArgumentsDelta (sl_item_id slot) (sl_index slot) delta_args) c1 else c1)"

subsection \<open>Chunks\<close>

definition feed_delta :: "(nat \<Rightarrow> string) \<Rightarrow> json \<Rightarrow> bool \<times> converter \<Rightarrow> bool \<times> converter" where
  "feed_delta fresh delta = (\<lambda>(semantic, c).
     let reasoning = str_or [] (get_str delta ''reasoning_content'');
         content = str_or [] (get_str delta ''content'');
         tool_calls = Option.bind (json_get delta ''tool_calls'') as_array;
         c1 = (if reasoning \<noteq> [] then feed_reasoning fresh reasoning c else c);
         c2 = (if content \<noteq> [] then feed_text fresh content c1 else c1);
         c3 = (case tool_calls of
                 None \<Rightarrow> c2
               | Some tcs \<Rightarrow>
                   fold feed_tool_call_arguments tcs (fold (ensure_tool_item_added fresh) tcs c2))
     in (semantic \<or> reasoning \<noteq> [] \<or> content \<noteq> [] \<or> tool_calls \<noteq> None, c3))"

definition feed_choice :: "(nat \<Rightarrow> string) \<Rightarrow> json \<Rightarrow> bool \<times> converter \<Rightarrow> bool \<times> converter" where
  "feed_choice fresh upstream_choice = (\<lambda>(semantic, c).
     let (semantic1, c1) =
       (case get_str upstream_choice ''finish_reason'' of
          Some finish \<Rightarrow> (True, c\<lparr>cv_finish_reason := Some finish\<rparr>)
        | None \<Rightarrow> (semantic, c))
     in case json_get upstream_choice ''delta'' of
          None \<Rightarrow> (semantic1, c1)
        | Some delta \<Rightarrow> feed_delta fresh delta (semantic1, c1))"

definition note_chunk :: "json \<Rightarrow> converter \<Rightarrow> converter" where
  "note_chunk chunk c =
     (let c1 = (case get_str chunk ''model'' of
                  Some m \<Rightarrow> (if m = [] then c else c\<lparr>cv_model_seen := Some m\<rparr>)
                | None \<Rightarrow> c)
      in case json_get chunk ''usage'' of
           Some u \<Rightarrow> (if is_object u then c1\<lparr>cv_usage := Some (map_usage u)\<rparr> else c1)
         | None \<Rightarrow> c1)"

definition feed_chunk :: "(nat \<Rightarrow> string) \<Rightarrow> json \<Rightarrow> converter \<Rightarrow> bool \<times> converter" where
  "feed_chunk fresh chunk c =
     (let c1 = note_chunk chunk (ensure_started c)
      in case Option.bind (json_get chunk ''choices'') as_array of
           None \<Rightarrow> (False, c1)
         | Some choices \<Rightarrow> fold (feed_choice fresh) choices (False, c1))"

subsection \<open>The end of the stream\<close>

definition item_json :: "converter \<Rightarrow> output_item \<Rightarrow> json option" where
  "item_json c item =
     (case item of
        ReasoningItem i \<Rightarrow>
          Some (summary_item i (case cv_reasoning c of
            Some st \<Rightarrow> (if it_id st = i then it_accum st else []) | None \<Rightarrow> []))
      | MessageItem i \<Rightarrow>
          Some (message_item i (case cv_message c of
            Some st \<Rightarrow> (if it_id st = i then it_accum st else []) | None \<Rightarrow> []))
      | FunctionCallItem i \<Rightarrow>
          map_option (\<lambda>slot. call_item (sl_item_id slot) (sl_call_id slot) (sl_name slot)
              (sl_arguments slot) ''completed'')
            (find (\<lambda>slot. sl_item_id slot = i) (slots c))
      | WebSearchCallItem v \<Rightarrow> Some v)"

definition terminal_response :: "string \<Rightarrow> converter \<Rightarrow> jmap" where
  "terminal_response status c =
     base_response (cv_response_id c) (current_model c) status
       (List.map_filter (item_json c) (cv_items c)) (cv_usage c) (cv_created_at c)"

definition error_object :: "string \<Rightarrow> json" where
  "error_object message = JObj [(''code'', JStr ''upstream_error''), (''message'', JStr message)]"

definition incomplete_object :: json where
  "incomplete_object = JObj [(''reason'', JStr ''max_output_tokens'')]"

definition finish_call :: "tool_slot \<Rightarrow> converter \<Rightarrow> converter" where
  "finish_call slot c =
     emit (CallDone (sl_index slot) (sl_item_id slot) (sl_call_id slot) (sl_name slot) (sl_arguments slot))
       (emit (ArgumentsDone (sl_item_id slot) (sl_index slot) (sl_arguments slot)) c)"

definition finish :: "string option \<Rightarrow> converter \<Rightarrow> converter" where
  "finish error c0 =
     (let c = c0\<lparr>cv_error := error\<rparr>
      in case error of
           Some message \<Rightarrow>
             emit (ResponseFailed (obj_insert ''error'' (error_object message) (terminal_response ''failed'' c))) c
         | None \<Rightarrow>
             (let c1 = close_message_item (close_reasoning_item c);
                  c2 = fold finish_call (filter (\<lambda>slot. \<not> sl_done slot \<and> \<not> sl_server slot) (slots c1)) c1;
                  c3 = c2\<lparr>cv_tools := map (\<lambda>(i, slot). (i, slot\<lparr>sl_done := True\<rparr>)) (cv_tools c2)\<rparr>
              in if cv_finish_reason c3 = Some ''length''
                 then emit (ResponseIncomplete
                        (obj_insert ''incomplete_details'' incomplete_object (terminal_response ''incomplete'' c3))) c3
                 else emit (ResponseCompleted (terminal_response ''completed'' c3)) c3))"

definition nonstream_response :: "converter \<Rightarrow> jmap" where
  "nonstream_response c =
     (case cv_error c of
        Some message \<Rightarrow> obj_insert ''error'' (error_object message) (terminal_response ''failed'' c)
      | None \<Rightarrow>
          (if cv_finish_reason c = Some ''length''
           then obj_insert ''incomplete_details'' incomplete_object (terminal_response ''incomplete'' c)
           else terminal_response ''completed'' c))"

subsection \<open>Server-tool rounds\<close>

definition has_server_tools :: "converter \<Rightarrow> bool" where
  "has_server_tools c = list_ex sl_server (slots c)"

definition has_client_tools :: "converter \<Rightarrow> bool" where
  "has_client_tools c = list_ex (\<lambda>slot. \<not> sl_server slot) (slots c)"

definition server_tool_calls :: "converter \<Rightarrow> tool_call list" where
  "server_tool_calls c =
     map (\<lambda>slot. \<lparr>tc_id = sl_call_id slot, tc_name = sl_name slot, tc_arguments = sl_arguments slot\<rparr>)
       (filter sl_server (slots c))"

definition begin_new_upstream_round :: "converter \<Rightarrow> converter" where
  "begin_new_upstream_round c = c\<lparr>cv_tools := [], cv_finish_reason := None\<rparr>"

definition search_item :: "string \<Rightarrow> search_outcome \<Rightarrow> json" where
  "search_item item_id outcome =
     JObj [(''type'', JStr ''web_search_call''), (''id'', JStr item_id),
       (''status'', JStr (if so_error outcome \<noteq> None then ''failed'' else ''completed'')),
       (''action'', JObj [(''type'', JStr ''search''), (''query'', JStr (so_query outcome)),
          (''sources'', JArr (map (\<lambda>url. JObj [(''type'', JStr ''url''), (''url'', JStr url)])
             (List.map_filter (\<lambda>r. get_str r ''url'') (so_results outcome))))])]"

definition emit_search :: "(nat \<Rightarrow> string) \<Rightarrow> search_outcome \<Rightarrow> converter \<Rightarrow> converter" where
  "emit_search fresh outcome c =
     (let item_id = ''ws_'' @ fresh (cv_fresh c);
          oi = cv_next_index c;
          c1 = emit (SearchInProgress oi item_id) (c\<lparr>cv_fresh := Suc (cv_fresh c), cv_next_index := Suc oi\<rparr>);
          item = search_item item_id outcome;
          c2 = emit (SearchDone oi item_id item) c1
      in c2\<lparr>cv_items := cv_items c2 @ [WebSearchCallItem item]\<rparr>)"

definition emit_web_search_round ::
  "(nat \<Rightarrow> string) \<Rightarrow> tool_call list \<Rightarrow> search_outcome list \<Rightarrow> converter \<Rightarrow> converter \<times> nat" where
  "emit_web_search_round fresh tcs outcomes c =
     (fold (emit_search fresh) (map snd (zip tcs outcomes)) c, length outcomes)"

end
