(* ===== verification/Responses_Order.thy ===== *)
theory Responses_Order
  imports Responses_Stream
begin

text \<open>
  What the frames of a Responses stream promise the client: consecutive sequence numbers, no
  reference to an item before it was announced, deltas that add up to the terminal texts, and a
  terminal frame that carries the non-streamed response.
\<close>

subsection \<open>Sequence numbers\<close>

datatype conv_op =
    FeedChunk json
  | SearchRound "tool_call list" "search_outcome list"
  | NewRound
  | Finish "string option"

fun conv_step :: "(nat \<Rightarrow> string) \<Rightarrow> conv_op \<Rightarrow> converter \<Rightarrow> converter" where
  "conv_step fresh (FeedChunk chunk) c = snd (feed_chunk fresh chunk c)"
| "conv_step fresh (SearchRound tcs outcomes) c = fst (emit_web_search_round fresh tcs outcomes c)"
| "conv_step fresh NewRound c = begin_new_upstream_round c"
| "conv_step fresh (Finish error) c = finish error c"

text \<open>\<open>c\<close> becomes \<open>d\<close> by writing frames with the next numbers.\<close>

definition writes :: "converter \<Rightarrow> converter \<Rightarrow> bool" where
  "writes c d \<longleftrightarrow>
     (\<exists>new. cv_out d = cv_out c @ new \<and> map fst new = [Suc (cv_sequence c)..<Suc (cv_sequence d)])
     \<and> cv_sequence c \<le> cv_sequence d"

lemma writes_same: "cv_out d = cv_out c \<Longrightarrow> cv_sequence d = cv_sequence c \<Longrightarrow> writes c d"
  by (simp add: writes_def)

lemma writes_refl [simp]: "writes c c"
  by (simp add: writes_same)

lemma writes_trans: "writes c d \<Longrightarrow> writes d e \<Longrightarrow> writes c e"
proof -
  assume "writes c d" and "writes d e"
  then obtain new more where new: "cv_out d = cv_out c @ new" "map fst new = [Suc (cv_sequence c)..<Suc (cv_sequence d)]"
    and more: "cv_out e = cv_out d @ more" "map fst more = [Suc (cv_sequence d)..<Suc (cv_sequence e)]"
    and le: "cv_sequence c \<le> cv_sequence d" "cv_sequence d \<le> cv_sequence e"
    unfolding writes_def by blast
  have "[Suc (cv_sequence c)..<Suc (cv_sequence d)] @ [Suc (cv_sequence d)..<Suc (cv_sequence e)]
      = [Suc (cv_sequence c)..<Suc (cv_sequence e)]"
    using upt_add_eq_append [of "Suc (cv_sequence c)" "Suc (cv_sequence d)" "cv_sequence e - cv_sequence d"] le
    by simp
  then have "map fst (new @ more) = [Suc (cv_sequence c)..<Suc (cv_sequence e)]" using new more by simp
  then show "writes c e" using new(1) more(1) le unfolding writes_def by auto
qed

lemma writes_one: "writes d (emit f d)"
  unfolding writes_def by (intro conjI exI [of _ "[(Suc (cv_sequence d), f)]"]) (simp_all add: emit_def)

lemma writes_emit: "writes c d \<Longrightarrow> writes c (emit f d)"
  using writes_one by (rule writes_trans [rotated])

lemma writes_emit_of:
  "cv_out d' = cv_out d \<Longrightarrow> cv_sequence d' = cv_sequence d \<Longrightarrow> writes c d \<Longrightarrow> writes c d'"
  by (simp add: writes_def)

lemma writes_fold: "(\<And>x d. x \<in> set xs \<Longrightarrow> writes d (f x d)) \<Longrightarrow> writes c (fold f xs c)"
proof (induction xs arbitrary: c)
  case (Cons x xs)
  then have "writes c (f x c)" and "writes (f x c) (fold f xs (f x c))" by simp_all
  then show ?case by (simp add: writes_trans)
qed simp

lemma writes_ensure_started: "writes c (ensure_started c)"
  by (auto simp: ensure_started_def Let_def intro!: writes_emit writes_same)

lemma writes_need: "writes c (need_reasoning fresh c)" "writes c (need_message fresh c)"
  by (auto simp: need_reasoning_def need_message_def intro!: writes_same split: option.split)

lemma emit_keeps_update:
  "writes c d \<Longrightarrow> writes c (d\<lparr>cv_items := x\<rparr>)" "writes c d \<Longrightarrow> writes c (d\<lparr>cv_reasoning := r\<rparr>)"
  "writes c d \<Longrightarrow> writes c (d\<lparr>cv_message := r\<rparr>)" "writes c d \<Longrightarrow> writes c (d\<lparr>cv_next_index := n\<rparr>)"
  "writes c d \<Longrightarrow> writes c (d\<lparr>cv_fresh := n\<rparr>)" "writes c d \<Longrightarrow> writes c (d\<lparr>cv_tools := t\<rparr>)"
  "writes c d \<Longrightarrow> writes c (d\<lparr>cv_finish_reason := fr\<rparr>)" "writes c d \<Longrightarrow> writes c (d\<lparr>cv_error := e\<rparr>)"
  "writes c d \<Longrightarrow> writes c (d\<lparr>cv_model_seen := m\<rparr>)" "writes c d \<Longrightarrow> writes c (d\<lparr>cv_usage := u\<rparr>)"
  "writes c d \<Longrightarrow> writes c (d\<lparr>cv_started := b\<rparr>)"
  by (simp_all add: writes_def)

lemmas writes_intros = writes_emit emit_keeps_update writes_refl

lemma writes_feed_reasoning: "writes c (feed_reasoning fresh reasoning c)"
proof -
  have "writes (need_reasoning fresh c) (feed_reasoning fresh reasoning c)"
    by (simp add: feed_reasoning_def Let_def writes_intros)
  then show ?thesis by (rule writes_trans [OF writes_need(1)])
qed

lemma writes_feed_text: "writes c (feed_text fresh content c)"
proof -
  have "writes (need_message fresh c) (feed_text fresh content c)"
    by (simp add: feed_text_def Let_def writes_intros)
  then show ?thesis by (rule writes_trans [OF writes_need(2)])
qed

lemma writes_close: "writes c (close_message_item c)" "writes c (close_reasoning_item c)"
  by (simp_all add: close_message_item_def close_reasoning_item_def Let_def writes_intros split: option.split)

lemma writes_tool_item: "writes c (ensure_tool_item_added fresh tool_call c)"
  using writes_close(1) [of c] by (simp add: ensure_tool_item_added_def Let_def writes_intros)

lemma writes_tool_arguments: "writes c (feed_tool_call_arguments tool_call c)"
  by (simp add: feed_tool_call_arguments_def Let_def writes_intros split: option.split)

lemma writes_feed_delta: "writes c (snd (feed_delta fresh delta (semantic, c)))"
proof -
  let ?reasoning = "str_or [] (get_str delta ''reasoning_content'')"
  let ?content = "str_or [] (get_str delta ''content'')"
  define c1 where "c1 = (if ?reasoning \<noteq> [] then feed_reasoning fresh ?reasoning c else c)"
  define c2 where "c2 = (if ?content \<noteq> [] then feed_text fresh ?content c1 else c1)"
  have "writes c c1" "writes c1 c2" by (simp_all add: c1_def c2_def writes_feed_reasoning writes_feed_text)
  then have c2: "writes c c2" by (rule writes_trans)
  have "writes c (fold feed_tool_call_arguments tcs (fold (ensure_tool_item_added fresh) tcs c2))" for tcs
  proof -
    have "writes c2 (fold (ensure_tool_item_added fresh) tcs c2)"
      by (rule writes_fold) (rule writes_tool_item)
    moreover have "writes d (fold feed_tool_call_arguments tcs d)" for d
      by (rule writes_fold) (rule writes_tool_arguments)
    ultimately show ?thesis using c2 writes_trans by blast
  qed
  moreover have "snd (feed_delta fresh delta (semantic, c)) =
      (case Option.bind (json_get delta ''tool_calls'') as_array of
         None \<Rightarrow> c2
       | Some tcs \<Rightarrow> fold feed_tool_call_arguments tcs (fold (ensure_tool_item_added fresh) tcs c2))"
    unfolding c2_def c1_def by (simp add: feed_delta_def Let_def)
  ultimately show ?thesis using c2 by (simp split: option.split)
qed

lemma writes_feed_choice: "writes c (snd (feed_choice fresh v (semantic, c)))"
proof -
  have "writes c (snd (feed_delta fresh delta (b, c\<lparr>cv_finish_reason := r\<rparr>)))" for delta b r
    by (rule writes_trans [OF _ writes_feed_delta]) (simp add: writes_same)
  then show ?thesis
    by (auto simp: feed_choice_def Let_def writes_feed_delta intro!: writes_same split: option.split)
qed

lemma writes_choices: "writes c (snd (fold (feed_choice fresh) vs (semantic, c)))"
proof (induction vs arbitrary: semantic c)
  case (Cons v vs)
  obtain b d where bd: "feed_choice fresh v (semantic, c) = (b, d)" by force
  then have "writes c d" using writes_feed_choice [of c fresh v semantic] by simp
  then show ?case using Cons.IH [of d b] bd by (simp add: writes_trans)
qed simp

lemma writes_feed_chunk: "writes c (snd (feed_chunk fresh chunk c))"
proof -
  have "writes (ensure_started c) (note_chunk chunk (ensure_started c))"
    by (auto simp: note_chunk_def Let_def intro!: writes_same split: option.split)
  then have "writes c (note_chunk chunk (ensure_started c))"
    using writes_ensure_started writes_trans by blast
  then show ?thesis
    using writes_choices writes_trans by (fastforce simp: feed_chunk_def Let_def split: option.split)
qed

lemma writes_search_round: "writes c (fst (emit_web_search_round fresh tcs outcomes c))"
  unfolding emit_web_search_round_def fst_conv
  by (rule writes_fold) (simp add: emit_search_def Let_def writes_intros)

lemma writes_finish: "writes c (finish error c)"
proof -
  have calls: "writes d (fold finish_call slots d)" for slots d
    by (rule writes_fold) (simp add: finish_call_def writes_intros)
  have "writes c (close_message_item (close_reasoning_item (c\<lparr>cv_error := e\<rparr>)))" for e
    using writes_close writes_trans emit_keeps_update(8) [OF writes_refl, of c] by blast
  then have "writes c (fold finish_call slots (close_message_item (close_reasoning_item (c\<lparr>cv_error := e\<rparr>))))"
    for slots e
    using calls writes_trans by blast
  then show ?thesis by (simp add: finish_def Let_def writes_intros split: option.split)
qed

lemma writes_step: "writes c (conv_step fresh op c)"
  by (cases op) (simp_all add: writes_feed_chunk writes_search_round writes_finish
      begin_new_upstream_round_def writes_same)

text \<open>The numbers that an operation writes.\<close>

definition new_numbers :: "(nat \<Rightarrow> string) \<Rightarrow> conv_op \<Rightarrow> converter \<Rightarrow> converter \<times> nat list" where
  "new_numbers fresh op c =
     (conv_step fresh op c, map fst (drop (length (cv_out c)) (cv_out (conv_step fresh op c))))"

interpretation numbered: sequenced_emitter "new_numbers fresh" cv_sequence
proof
  fix op c d ns
  assume "new_numbers fresh op c = (d, ns)"
  then have "d = conv_step fresh op c" "ns = map fst (drop (length (cv_out c)) (cv_out d))"
    by (auto simp: new_numbers_def)
  with writes_step [of c fresh op] show "ns = [Suc (cv_sequence c)..<Suc (cv_sequence d)] \<and> cv_sequence c \<le> cv_sequence d"
    unfolding writes_def by auto
qed

definition run_ops :: "(nat \<Rightarrow> string) \<Rightarrow> conv_op list \<Rightarrow> converter \<Rightarrow> converter" where
  "run_ops fresh ops c = fold (conv_step fresh) ops c"

lemma emit_all_out:
  "numbered.emit_all fresh ops c = (d, ns) \<Longrightarrow> d = run_ops fresh ops c \<and> map fst (cv_out d) = map fst (cv_out c) @ ns"
proof (induction ops arbitrary: c d ns)
  case (Cons op ops)
  obtain e ks where e: "new_numbers fresh op c = (e, ks)" by force
  obtain ms where rest: "numbered.emit_all fresh ops e = (d, ms)" "ns = ks @ ms"
    using Cons.prems e by (auto split: prod.splits)
  have "e = conv_step fresh op c" "map fst (cv_out e) = map fst (cv_out c) @ ks"
    using e writes_step [of c fresh op] by (auto simp: new_numbers_def writes_def)
  moreover note Cons.IH [OF rest(1)]
  ultimately show ?case using rest(2) by (auto simp: run_ops_def)
qed (simp add: run_ops_def)

text \<open>Whatever chunks, search rounds and ends a stream is made of, its frames carry the sequence
  numbers 1, 2, 3 and so on without gap or repetition, across rounds and up to the terminal frame.\<close>

theorem frames_numbered:
  "map fst (cv_out (run_ops fresh ops (new_converter rid model expose server_names created)))
     = [1..<Suc (length (cv_out (run_ops fresh ops (new_converter rid model expose server_names created))))]"
proof -
  let ?c = "new_converter rid model expose server_names created"
  obtain d ns where run: "numbered.emit_all fresh ops ?c = (d, ns)" by force
  have d: "d = run_ops fresh ops ?c" and "map fst (cv_out d) = ns" "ns = [Suc 0..<Suc (cv_sequence d)]"
    using emit_all_out [OF run] numbered.emit_all_numbers [OF run]
    by (auto simp: new_converter_def simp del: upt_Suc)
  then have "map fst (cv_out d) = [1..<Suc (cv_sequence d)]" by (simp del: upt_Suc)
  moreover from this have "length (cv_out d) = cv_sequence d"
    by (metis diff_Suc_1 length_map length_upt)
  ultimately show ?thesis unfolding d [symmetric] by (simp del: upt_Suc)
qed

subsection \<open>Announced items and delta texts\<close>

definition frames :: "converter \<Rightarrow> frame list" where "frames c = map snd (cv_out c)"

fun announces :: "frame \<Rightarrow> (nat \<times> string) list" where
  "announces (ReasoningAdded oi i) = [(oi, i)]"
| "announces (MessageAdded oi i) = [(oi, i)]"
| "announces (CallAdded oi i _ _) = [(oi, i)]"
| "announces (SearchInProgress oi i) = [(oi, i)]"
| "announces _ = []"

fun refers :: "frame \<Rightarrow> (nat \<times> string) list" where
  "refers (SummaryPartAdded i oi) = [(oi, i)]"
| "refers (SummaryDelta i oi _) = [(oi, i)]"
| "refers (SummaryTextDone i oi _) = [(oi, i)]"
| "refers (SummaryPartDone i oi _) = [(oi, i)]"
| "refers (ReasoningDone oi i _) = [(oi, i)]"
| "refers (ContentPartAdded i oi) = [(oi, i)]"
| "refers (TextDelta i oi _) = [(oi, i)]"
| "refers (TextDone i oi _) = [(oi, i)]"
| "refers (ContentPartDone i oi _) = [(oi, i)]"
| "refers (MessageDone oi i _) = [(oi, i)]"
| "refers (ArgumentsDelta i oi _) = [(oi, i)]"
| "refers (ArgumentsDone i oi _) = [(oi, i)]"
| "refers (CallDone oi i _ _ _) = [(oi, i)]"
| "refers (SearchDone oi i _) = [(oi, i)]"
| "refers _ = []"

definition announced :: "frame list \<Rightarrow> (nat \<times> string) list" where
  "announced fs = concat (map announces fs)"

text \<open>Every item that a frame names has been announced before it.\<close>

fun grounded :: "(nat \<times> string) set \<Rightarrow> frame list \<Rightarrow> bool" where
  "grounded A [] = True"
| "grounded A (f # fs) = (set (refers f) \<subseteq> A \<and> grounded (A \<union> set (announces f)) fs)"

fun text_of :: "frame \<Rightarrow> string" where
  "text_of (TextDelta _ _ s) = s" | "text_of _ = []"

fun summary_of :: "frame \<Rightarrow> string" where
  "summary_of (SummaryDelta _ _ s) = s" | "summary_of _ = []"

fun arguments_of :: "nat \<Rightarrow> frame \<Rightarrow> string" where
  "arguments_of oi (ArgumentsDelta _ oi' s) = (if oi' = oi then s else [])" | "arguments_of oi _ = []"

definition texts :: "frame list \<Rightarrow> string" where "texts fs = concat (map text_of fs)"
definition summaries :: "frame list \<Rightarrow> string" where "summaries fs = concat (map summary_of fs)"
definition arguments_at :: "nat \<Rightarrow> frame list \<Rightarrow> string" where
  "arguments_at oi fs = concat (map (arguments_of oi) fs)"

lemma grounded_append: "grounded A (fs @ gs) \<longleftrightarrow> grounded A fs \<and> grounded (A \<union> set (announced fs)) gs"
  by (induction fs arbitrary: A) (auto simp: announced_def Un_assoc)

lemma frame_sums_append [simp]:
  "announced (fs @ gs) = announced fs @ announced gs" "texts (fs @ gs) = texts fs @ texts gs"
  "summaries (fs @ gs) = summaries fs @ summaries gs"
  "arguments_at oi (fs @ gs) = arguments_at oi fs @ arguments_at oi gs"
  by (simp_all add: announced_def texts_def summaries_def arguments_at_def)

lemma frame_sums_Cons [simp]:
  "announced (f # fs) = announces f @ announced fs" "texts (f # fs) = text_of f @ texts fs"
  "summaries (f # fs) = summary_of f @ summaries fs"
  "arguments_at oi (f # fs) = arguments_of oi f @ arguments_at oi fs"
  "announced [] = []" "texts [] = []" "summaries [] = []" "arguments_at oi [] = []"
  by (simp_all add: announced_def texts_def summaries_def arguments_at_def)

lemma frames_emit [simp]: "frames (emit f c) = frames c @ [f]"
  by (simp add: frames_def emit_def)

lemma frames_update [simp]:
  "frames (c\<lparr>cv_items := x\<rparr>) = frames c" "frames (c\<lparr>cv_reasoning := r\<rparr>) = frames c"
  "frames (c\<lparr>cv_message := r\<rparr>) = frames c" "frames (c\<lparr>cv_next_index := n\<rparr>) = frames c"
  "frames (c\<lparr>cv_fresh := n\<rparr>) = frames c" "frames (c\<lparr>cv_tools := t\<rparr>) = frames c"
  "frames (c\<lparr>cv_finish_reason := fr\<rparr>) = frames c" "frames (c\<lparr>cv_error := e\<rparr>) = frames c"
  "frames (c\<lparr>cv_model_seen := m\<rparr>) = frames c" "frames (c\<lparr>cv_usage := u\<rparr>) = frames c"
  "frames (c\<lparr>cv_started := b\<rparr>) = frames c"
  by (simp_all add: frames_def)

lemma emit_fields [simp]:
  "cv_message (emit f c) = cv_message c" "cv_reasoning (emit f c) = cv_reasoning c"
  "cv_tools (emit f c) = cv_tools c" "cv_expose (emit f c) = cv_expose c"
  "cv_next_index (emit f c) = cv_next_index c" "cv_items (emit f c) = cv_items c"
  "cv_fresh (emit f c) = cv_fresh c" "cv_started (emit f c) = cv_started c"
  "cv_finish_reason (emit f c) = cv_finish_reason c" "cv_error (emit f c) = cv_error c"
  "cv_usage (emit f c) = cv_usage c" "cv_response_id (emit f c) = cv_response_id c"
  "cv_created_at (emit f c) = cv_created_at c" "cv_model_seen (emit f c) = cv_model_seen c"
  "cv_model (emit f c) = cv_model c" "cv_server_names (emit f c) = cv_server_names c"
  by (simp_all add: emit_def)

subsection \<open>The invariant\<close>

definition item_shown :: "frame list \<Rightarrow> item_state \<Rightarrow> bool" where
  "item_shown fs st \<longleftrightarrow>
     it_added st \<and> it_part_added st \<and> (\<exists>oi. it_index st = Some oi \<and> (oi, it_id st) \<in> set (announced fs))"

definition message_inv :: "frame list \<Rightarrow> item_state option \<Rightarrow> bool" where
  "message_inv fs m =
     (case m of None \<Rightarrow> texts fs = [] | Some st \<Rightarrow> item_shown fs st \<and> texts fs = it_accum st)"

definition reasoning_inv :: "bool \<Rightarrow> frame list \<Rightarrow> item_state option \<Rightarrow> bool" where
  "reasoning_inv expose fs r =
     (case r of
        None \<Rightarrow> summaries fs = []
      | Some st \<Rightarrow>
          (if expose then item_shown fs st \<and> summaries fs = it_accum st
           else \<not> it_added st \<and> it_index st = None \<and> summaries fs = []))"

definition slot_inv :: "frame list \<Rightarrow> nat \<Rightarrow> tool_slot \<Rightarrow> bool" where
  "slot_inv fs n slot \<longleftrightarrow>
     sl_index slot < n \<and> arguments_at (sl_index slot) fs = (if sl_server slot then [] else sl_arguments slot)
     \<and> (\<not> sl_server slot \<longrightarrow> (sl_index slot, sl_item_id slot) \<in> set (announced fs))"

definition index_inv :: "frame list \<Rightarrow> nat \<Rightarrow> bool" where
  "index_inv fs n \<longleftrightarrow>
     grounded {} fs \<and> distinct (map fst (announced fs)) \<and> (\<forall>k \<in> set (announced fs). fst k < n)
     \<and> (\<forall>oi \<ge> n. arguments_at oi fs = [])"

definition stream_inv :: "converter \<Rightarrow> bool" where
  "stream_inv c \<longleftrightarrow>
     index_inv (frames c) (cv_next_index c) \<and> message_inv (frames c) (cv_message c)
     \<and> reasoning_inv (cv_expose c) (frames c) (cv_reasoning c)
     \<and> btree_ok (cv_tools c)
     \<and> (\<forall>i j s t. map_of (cv_tools c) i = Some s \<longrightarrow> map_of (cv_tools c) j = Some t \<longrightarrow>
          sl_index s = sl_index t \<longrightarrow> i = j)
     \<and> (\<forall>i slot. map_of (cv_tools c) i = Some slot \<longrightarrow> slot_inv (frames c) (cv_next_index c) slot)"

text \<open>A frame that adds nothing to any sum and names only announced items.\<close>

definition plain :: "frame list \<Rightarrow> frame \<Rightarrow> bool" where
  "plain fs f \<longleftrightarrow>
     announces f = [] \<and> text_of f = [] \<and> summary_of f = [] \<and> (\<forall>oi. arguments_of oi f = [])
     \<and> set (refers f) \<subseteq> set (announced fs)"

lemma stream_inv_plain: "stream_inv c \<Longrightarrow> plain (frames c) f \<Longrightarrow> stream_inv (emit f c)"
  by (auto simp: stream_inv_def plain_def index_inv_def message_inv_def reasoning_inv_def item_shown_def
      slot_inv_def grounded_append slots_def split: option.splits)

lemma stream_inv_cong:
  "stream_inv c \<Longrightarrow> cv_out d = cv_out c \<Longrightarrow> cv_next_index d = cv_next_index c \<Longrightarrow>
   cv_message d = cv_message c \<Longrightarrow> cv_reasoning d = cv_reasoning c \<Longrightarrow> cv_expose d = cv_expose c \<Longrightarrow>
   cv_tools d = cv_tools c \<Longrightarrow> stream_inv d"
  by (simp add: stream_inv_def frames_def slots_def)

lemma item_shown_index: "item_shown fs st \<Longrightarrow> (shown_index st, it_id st) \<in> set (announced fs)"
  by (auto simp: item_shown_def shown_index_def)

lemma stream_inv_close_message: "stream_inv c \<Longrightarrow> stream_inv (close_message_item c)"
proof (cases "cv_message c")
  case (Some st)
  assume inv: "stream_inv c"
  let ?c1 = "c\<lparr>cv_message := Some (st\<lparr>it_done := True, it_part_done := True\<rparr>)\<rparr>"
  have shown: "item_shown (frames c) st" using inv Some by (simp add: stream_inv_def message_inv_def)
  have c1: "stream_inv ?c1"
    using inv Some by (auto simp: stream_inv_def message_inv_def item_shown_def slots_def)
  have "plain (frames c @ gs) (TextDone (it_id st) (shown_index st) s)"
    "plain (frames c @ gs) (ContentPartDone (it_id st) (shown_index st) s)"
    "plain (frames c @ gs) (MessageDone (shown_index st) (it_id st) s)" for gs s
    using item_shown_index [OF shown] by (simp_all add: plain_def)
  note plain = this this [of "[]", simplified]
  show ?thesis
    using c1 inv by (auto simp: close_message_item_def Some Let_def intro!: stream_inv_plain plain)
qed (simp add: close_message_item_def)

lemma stream_inv_close_reasoning: "stream_inv c \<Longrightarrow> stream_inv (close_reasoning_item c)"
proof (cases "cv_reasoning c")
  case (Some st)
  assume inv: "stream_inv c"
  show ?thesis
  proof (cases "it_added st \<and> \<not> it_done st")
    case True
    let ?c1 = "c\<lparr>cv_reasoning := Some (st\<lparr>it_done := True, it_part_done := True\<rparr>)\<rparr>"
    have shown: "item_shown (frames c) st"
      using inv Some True by (auto simp: stream_inv_def reasoning_inv_def split: if_splits)
    have c1: "stream_inv ?c1"
      using inv Some by (auto simp: stream_inv_def reasoning_inv_def item_shown_def slots_def)
    have "plain (frames c @ gs) (SummaryTextDone (it_id st) (shown_index st) s)"
      "plain (frames c @ gs) (SummaryPartDone (it_id st) (shown_index st) s)"
      "plain (frames c @ gs) (ReasoningDone (shown_index st) (it_id st) s)" for gs s
      using item_shown_index [OF shown] by (simp_all add: plain_def)
    note plain = this this [of "[]", simplified]
    show ?thesis
      using c1 True by (auto simp: close_reasoning_item_def Some Let_def intro!: stream_inv_plain plain)
  qed (use inv in \<open>auto simp: close_reasoning_item_def Some\<close>)
qed (simp add: close_reasoning_item_def)

lemma slot_inv_more:
  "slot_inv fs n slot \<Longrightarrow> n \<le> n' \<Longrightarrow> arguments_at (sl_index slot) gs = [] \<Longrightarrow> slot_inv (fs @ gs) n' slot"
  by (auto simp: slot_inv_def)

lemma index_inv_more:
  "index_inv fs n \<Longrightarrow> n \<le> n' \<Longrightarrow> grounded (set (announced fs)) gs \<Longrightarrow>
   distinct (map fst (announced gs)) \<Longrightarrow> (\<forall>k \<in> set (announced gs). n \<le> fst k \<and> fst k < n') \<Longrightarrow>
   (\<forall>oi \<ge> n'. arguments_at oi gs = []) \<Longrightarrow> index_inv (fs @ gs) n'"
  by (fastforce simp: index_inv_def grounded_append)

lemma message_inv_more: "message_inv fs m \<Longrightarrow> texts gs = [] \<Longrightarrow> message_inv (fs @ gs) m"
  by (auto simp: message_inv_def item_shown_def split: option.splits)

lemma reasoning_inv_more: "reasoning_inv e fs r \<Longrightarrow> summaries gs = [] \<Longrightarrow> reasoning_inv e (fs @ gs) r"
  by (auto simp: reasoning_inv_def item_shown_def split: option.splits)

text \<open>A step that writes \<open>gs\<close> and leaves the tool slots alone.\<close>

lemma stream_inv_step:
  assumes "stream_inv c" and "frames d = frames c @ gs" and "cv_tools d = cv_tools c"
    and "cv_expose d = cv_expose c" and "cv_next_index c \<le> cv_next_index d"
    and "grounded (set (announced (frames c))) gs" and "distinct (map fst (announced gs))"
    and "\<forall>k \<in> set (announced gs). cv_next_index c \<le> fst k \<and> fst k < cv_next_index d"
    and "\<forall>oi. arguments_at oi gs = []"
    and "message_inv (frames c @ gs) (cv_message d)"
    and "reasoning_inv (cv_expose c) (frames c @ gs) (cv_reasoning d)"
  shows "stream_inv d"
proof -
  have "index_inv (frames d) (cv_next_index d)"
    unfolding assms(2) using assms by (intro index_inv_more) (auto simp: stream_inv_def)
  moreover have "slot_inv (frames d) (cv_next_index d) slot" if "map_of (cv_tools c) i = Some slot" for i slot
    unfolding assms(2) using assms that by (intro slot_inv_more) (auto simp: stream_inv_def)
  ultimately show ?thesis using assms unfolding stream_inv_def by simp
qed

lemma stream_inv_feed_text: "stream_inv c \<Longrightarrow> stream_inv (feed_text fresh content c)"
proof -
  assume inv: "stream_inv c"
  then have r: "reasoning_inv (cv_expose c) (frames c) (cv_reasoning c)"
    and m: "message_inv (frames c) (cv_message c)" by (simp_all add: stream_inv_def)
  show ?thesis
  proof (cases "cv_message c")
    case None
    let ?i = "''msg_'' @ fresh (cv_fresh c)" and ?oi = "cv_next_index c"
    let ?gs = "[MessageAdded ?oi ?i, ContentPartAdded ?i ?oi, TextDelta ?i ?oi content]"
    have "texts (frames c) = []" using m None by (simp add: message_inv_def)
    then show ?thesis
      using r None
      by (intro stream_inv_step [OF inv, of _ ?gs])
        (auto simp: feed_text_def need_message_def new_item_def pick_index_def Let_def message_inv_def
          item_shown_def intro: reasoning_inv_more)
  next
    case (Some st)
    then have shown: "item_shown (frames c) st" and sum: "texts (frames c) = it_accum st"
      using m by (simp_all add: message_inv_def)
    then obtain oi where oi: "it_index st = Some oi" "(oi, it_id st) \<in> set (announced (frames c))"
      "it_added st" "it_part_added st" by (auto simp: item_shown_def)
    show ?thesis
      using r Some oi sum
      by (intro stream_inv_step [OF inv, of _ "[TextDelta (it_id st) oi content]"])
        (auto simp: feed_text_def need_message_def pick_index_def Let_def message_inv_def
          item_shown_def intro: reasoning_inv_more)
  qed
qed

lemma stream_inv_feed_reasoning: "stream_inv c \<Longrightarrow> stream_inv (feed_reasoning fresh reasoning c)"
proof -
  assume inv: "stream_inv c"
  then have r: "reasoning_inv (cv_expose c) (frames c) (cv_reasoning c)"
    and m: "message_inv (frames c) (cv_message c)" by (simp_all add: stream_inv_def)
  show ?thesis
  proof (cases "cv_expose c")
    case False
    then show ?thesis
      using r m by (intro stream_inv_step [OF inv, of _ "[]"])
        (auto simp: feed_reasoning_def need_reasoning_def new_item_def Let_def reasoning_inv_def
          split: option.splits)
  next
    case True
    show ?thesis
    proof (cases "cv_reasoning c")
      case None
      let ?i = "''rs_'' @ fresh (cv_fresh c)" and ?oi = "cv_next_index c"
      let ?gs = "[ReasoningAdded ?oi ?i, SummaryPartAdded ?i ?oi, SummaryDelta ?i ?oi reasoning]"
      have "summaries (frames c) = []" using r None by (simp add: reasoning_inv_def)
      then show ?thesis
        using m None True
        by (intro stream_inv_step [OF inv, of _ ?gs])
          (auto simp: feed_reasoning_def need_reasoning_def new_item_def pick_index_def Let_def
            reasoning_inv_def item_shown_def intro: message_inv_more)
    next
      case (Some st)
      then have shown: "item_shown (frames c) st" and sum: "summaries (frames c) = it_accum st"
        using r True by (simp_all add: reasoning_inv_def)
      then obtain oi where oi: "it_index st = Some oi" "(oi, it_id st) \<in> set (announced (frames c))"
        "it_added st" "it_part_added st" by (auto simp: item_shown_def)
      show ?thesis
        using m Some oi sum True
        by (intro stream_inv_step [OF inv, of _ "[SummaryDelta (it_id st) oi reasoning]"])
          (auto simp: feed_reasoning_def need_reasoning_def pick_index_def Let_def reasoning_inv_def
            item_shown_def intro: message_inv_more)
    qed
  qed
qed

subsection \<open>Tool slots\<close>

text \<open>A step that puts one slot and writes \<open>gs\<close>.\<close>

lemma stream_inv_put:
  assumes inv: "stream_inv c" and d: "frames d = frames c @ gs" "cv_tools d = btree_insert i slot (cv_tools c)"
    "cv_expose d = cv_expose c" "cv_next_index c \<le> cv_next_index d" "cv_message d = cv_message c"
    "cv_reasoning d = cv_reasoning c"
    and gs: "grounded (set (announced (frames c))) gs" "distinct (map fst (announced gs))"
    "\<forall>k \<in> set (announced gs). cv_next_index c \<le> fst k \<and> fst k < cv_next_index d"
    "\<forall>oi. oi \<noteq> sl_index slot \<longrightarrow> arguments_at oi gs = []" "texts gs = []" "summaries gs = []"
    and slot: "slot_inv (frames c @ gs) (cv_next_index d) slot"
    and own: "\<forall>j t. j \<noteq> i \<longrightarrow> map_of (cv_tools c) j = Some t \<longrightarrow> sl_index t \<noteq> sl_index slot"
  shows "stream_inv d"
proof -
  note parts = inv [unfolded stream_inv_def]
  have "sl_index slot < cv_next_index d" using slot by (simp add: slot_inv_def)
  then have idx: "index_inv (frames d) (cv_next_index d)"
    unfolding d(1) using parts d gs by (intro index_inv_more) auto
  have sl: "slot_inv (frames d) (cv_next_index d) t" if "map_of (cv_tools d) j = Some t" for j t
  proof (cases "j = i")
    case True
    then show ?thesis using that slot d parts by simp
  next
    case False
    then have t: "map_of (cv_tools c) j = Some t" using that d parts by simp
    then show ?thesis
      unfolding d(1) using parts d gs(4) own False by (intro slot_inv_more) auto
  qed
  have inj: "j = k" if s: "map_of (cv_tools d) j = Some s" and t: "map_of (cv_tools d) k = Some t"
      and same: "sl_index s = sl_index t" for j k s t
  proof -
    have upd: "map_of (cv_tools d) = (map_of (cv_tools c))(i \<mapsto> slot)" using parts d(2) by simp
    consider "j = i" "k = i" | "j = i" "k \<noteq> i" | "j \<noteq> i" "k = i" | "j \<noteq> i" "k \<noteq> i" by blast
    then show ?thesis
    proof cases
      case 2
      then have "map_of (cv_tools c) k = Some t" "s = slot" using s t upd by simp_all
      with own 2 same show ?thesis by metis
    next
      case 3
      then have "map_of (cv_tools c) j = Some s" "t = slot" using s t upd by simp_all
      with own 3 same show ?thesis by metis
    next
      case 4
      then have "map_of (cv_tools c) j = Some s" "map_of (cv_tools c) k = Some t" using s t upd by simp_all
      with parts same show ?thesis by blast
    qed simp
  qed
  have msg: "message_inv (frames d) (cv_message d)"
    and rsn: "reasoning_inv (cv_expose d) (frames d) (cv_reasoning d)"
    using parts d gs by (simp_all add: message_inv_more reasoning_inv_more)
  have ok: "btree_ok (cv_tools d)" using parts d(2) by (simp add: btree_ok_insert)
  show ?thesis
    unfolding stream_inv_def
    by (intro conjI allI impI) (fact idx, fact msg, fact rsn, fact ok, erule (2) inj, erule sl)
qed

lemma stream_inv_tool_item: "stream_inv c \<Longrightarrow> stream_inv (ensure_tool_item_added fresh tool_call c)"
proof (cases "map_of (cv_tools c) (call_index tool_call)")
  case None
  assume "stream_inv c"
  define c1 where "c1 = (if cv_tools c = [] then close_message_item c else c)"
  have inv: "stream_inv c1" using \<open>stream_inv c\<close> by (simp add: c1_def stream_inv_close_message)
  have tools: "cv_tools c1 = cv_tools c" "cv_server_names c1 = cv_server_names c"
    by (simp_all add: c1_def close_message_item_def Let_def split: option.split)
  let ?name = "str_or [] (call_field tool_call ''name'')" and ?id = "str_or [] (get_str tool_call ''id'')"
  let ?oi = "cv_next_index c1" and ?item = "''fc_'' @ fresh (cv_fresh c1)"
  define slot where "slot = \<lparr>sl_item_id = ?item, sl_call_id = ?id, sl_name = ?name, sl_arguments = [],
      sl_index = ?oi, sl_done = False, sl_server = ?name \<in> set (cv_server_names c)\<rparr>"
  let ?gs = "if sl_server slot then [] else [CallAdded ?oi ?item ?id ?name]"
  have next_free: "arguments_at ?oi (frames c1) = []"
    using inv by (simp add: stream_inv_def index_inv_def)
  have own: "\<forall>j t. j \<noteq> call_index tool_call \<longrightarrow> map_of (cv_tools c1) j = Some t \<longrightarrow> sl_index t \<noteq> sl_index slot"
  proof (intro allI impI)
    fix j t assume "map_of (cv_tools c1) j = Some t"
    then have "slot_inv (frames c1) ?oi t" using inv unfolding stream_inv_def by blast
    then show "sl_index t \<noteq> sl_index slot" by (simp add: slot_inv_def slot_def)
  qed
  have result: "ensure_tool_item_added fresh tool_call c =
    (let c2 = c1\<lparr>cv_next_index := Suc ?oi, cv_fresh := Suc (cv_fresh c1),
        cv_tools := btree_insert (call_index tool_call) slot (cv_tools c1)\<rparr>
     in if sl_server slot then c2
        else let c3 = emit (CallAdded ?oi ?item ?id ?name) c2
             in c3\<lparr>cv_items := cv_items c3 @ [FunctionCallItem ?item]\<rparr>)"
    using None by (simp add: ensure_tool_item_added_def c1_def slot_def Let_def)
  show ?thesis
    unfolding result Let_def
    by (rule stream_inv_put [OF inv, where gs = ?gs and slot = slot and i = "call_index tool_call"])
      (use own next_free in \<open>simp_all add: slot_inv_def slot_def\<close>)
qed (simp add: ensure_tool_item_added_def Let_def)

lemma stream_inv_tool_arguments: "stream_inv c \<Longrightarrow> stream_inv (feed_tool_call_arguments tool_call c)"
proof (cases "map_of (cv_tools c) (call_index tool_call)")
  case (Some slot)
  assume inv: "stream_inv c"
  let ?args = "str_or [] (call_field tool_call ''arguments'')"
  define slot' where "slot' = slot\<lparr>sl_call_id := patched (get_str tool_call ''id'') (sl_call_id slot),
      sl_name := patched (call_field tool_call ''name'') (sl_name slot),
      sl_arguments := sl_arguments slot @ ?args\<rparr>"
  let ?gs = "if ?args \<noteq> [] \<and> \<not> sl_server slot
     then [ArgumentsDelta (sl_item_id slot) (sl_index slot) ?args] else []"
  have slot: "slot_inv (frames c) (cv_next_index c) slot"
    using inv Some by (auto simp: stream_inv_def)
  have own: "\<forall>j t. j \<noteq> call_index tool_call \<longrightarrow> map_of (cv_tools c) j = Some t \<longrightarrow> sl_index t \<noteq> sl_index slot'"
    using inv Some unfolding stream_inv_def slot'_def by simp metis
  have result: "feed_tool_call_arguments tool_call c =
    (let c1 = c\<lparr>cv_tools := btree_insert (call_index tool_call) slot' (cv_tools c)\<rparr>
     in if ?args \<noteq> [] \<and> \<not> sl_server slot
        then emit (ArgumentsDelta (sl_item_id slot) (sl_index slot) ?args) c1 else c1)"
    using Some by (simp add: feed_tool_call_arguments_def slot'_def Let_def)
  show ?thesis
    unfolding result Let_def
    by (rule stream_inv_put [OF inv, where gs = ?gs and slot = slot' and i = "call_index tool_call"])
      (use own slot in \<open>auto simp: slot_inv_def slot'_def\<close>)
qed (simp add: feed_tool_call_arguments_def Let_def)

subsection \<open>Every operation keeps the invariant\<close>

lemma fold_inv: "(\<And>x d. P d \<Longrightarrow> P (f x d)) \<Longrightarrow> P c \<Longrightarrow> P (fold f xs c)"
  by (induction xs arbitrary: c) simp_all

lemma stream_inv_feed_delta:
  assumes inv: "stream_inv c"
  shows "stream_inv (snd (feed_delta fresh delta (semantic, c)))"
proof -
  let ?reasoning = "str_or [] (get_str delta ''reasoning_content'')"
  let ?content = "str_or [] (get_str delta ''content'')"
  define c1 where "c1 = (if ?reasoning \<noteq> [] then feed_reasoning fresh ?reasoning c else c)"
  define c2 where "c2 = (if ?content \<noteq> [] then feed_text fresh ?content c1 else c1)"
  have c2: "stream_inv c2"
    using inv by (simp add: c2_def c1_def stream_inv_feed_text stream_inv_feed_reasoning)
  have "stream_inv (fold feed_tool_call_arguments tcs (fold (ensure_tool_item_added fresh) tcs c2))" for tcs
    using c2 by (intro fold_inv [where P = stream_inv] stream_inv_tool_arguments stream_inv_tool_item)
  moreover have "snd (feed_delta fresh delta (semantic, c)) =
      (case Option.bind (json_get delta ''tool_calls'') as_array of
         None \<Rightarrow> c2
       | Some tcs \<Rightarrow> fold feed_tool_call_arguments tcs (fold (ensure_tool_item_added fresh) tcs c2))"
    unfolding c2_def c1_def by (simp add: feed_delta_def Let_def)
  ultimately show ?thesis using c2 by (simp split: option.split)
qed

lemma stream_inv_feed_choice: "stream_inv c \<Longrightarrow> stream_inv (snd (feed_choice fresh v (semantic, c)))"
proof -
  assume inv: "stream_inv c"
  then have "stream_inv (c\<lparr>cv_finish_reason := r\<rparr>)" for r by (rule stream_inv_cong) simp_all
  with inv show ?thesis
    by (auto simp: feed_choice_def Let_def stream_inv_feed_delta split: option.split)
qed

lemma stream_inv_choices: "stream_inv c \<Longrightarrow> stream_inv (snd (fold (feed_choice fresh) vs (semantic, c)))"
proof (induction vs arbitrary: semantic c)
  case (Cons v vs)
  obtain b d where bd: "feed_choice fresh v (semantic, c) = (b, d)" by force
  then have "stream_inv d" using stream_inv_feed_choice [OF Cons.prems, of fresh v semantic] by simp
  then show ?case using Cons.IH [of d b] bd by simp
qed simp

lemma stream_inv_start: "stream_inv c \<Longrightarrow> stream_inv (ensure_started c)"
proof -
  assume inv: "stream_inv c"
  then have started: "stream_inv (c\<lparr>cv_started := True\<rparr>)" by (rule stream_inv_cong) simp_all
  have "plain fs (Created r)" "plain fs (InProgress r)" for fs r by (simp_all add: plain_def)
  with inv started show ?thesis by (simp add: ensure_started_def Let_def stream_inv_plain)
qed

lemma stream_inv_feed_chunk: "stream_inv c \<Longrightarrow> stream_inv (snd (feed_chunk fresh chunk c))"
proof -
  assume "stream_inv c"
  then have "stream_inv (ensure_started c)" by (rule stream_inv_start)
  then have "stream_inv (note_chunk chunk (ensure_started c))"
    by (rule stream_inv_cong) (simp_all add: note_chunk_def Let_def split: option.split)
  then show ?thesis by (simp add: feed_chunk_def Let_def stream_inv_choices split: option.split)
qed

lemma stream_inv_emit_search: "stream_inv c \<Longrightarrow> stream_inv (emit_search fresh outcome c)"
proof -
  assume inv: "stream_inv c"
  let ?i = "''ws_'' @ fresh (cv_fresh c)" and ?oi = "cv_next_index c"
  show ?thesis
    by (rule stream_inv_step [OF inv, of _ "[SearchInProgress ?oi ?i, SearchDone ?oi ?i (search_item ?i outcome)]"])
      (use inv in \<open>auto simp: emit_search_def Let_def stream_inv_def intro: message_inv_more reasoning_inv_more\<close>)
qed

lemma stream_inv_finish: "stream_inv c \<Longrightarrow> stream_inv (finish error c)"
proof -
  assume inv: "stream_inv c"
  have err: "stream_inv (c\<lparr>cv_error := e\<rparr>)" for e using inv by (rule stream_inv_cong) simp_all
  have ends: "plain fs (ResponseFailed r)" "plain fs (ResponseCompleted r)" "plain fs (ResponseIncomplete r)"
    for fs r by (simp_all add: plain_def)
  let ?c1 = "close_message_item (close_reasoning_item (c\<lparr>cv_error := None\<rparr>))"
  have c1: "stream_inv ?c1" using err by (intro stream_inv_close_message stream_inv_close_reasoning)
  let ?todo = "filter (\<lambda>slot. \<not> sl_done slot \<and> \<not> sl_server slot) (slots ?c1)"
  have known: "\<forall>slot \<in> set ?todo. (sl_index slot, sl_item_id slot) \<in> set (announced (frames ?c1))"
  proof
    fix slot assume "slot \<in> set ?todo"
    then obtain i where "(i, slot) \<in> set (cv_tools ?c1)" and client: "\<not> sl_server slot"
      by (auto simp: slots_def)
    then have "map_of (cv_tools ?c1) i = Some slot"
      using c1 by (simp add: stream_inv_def btree_ok_def)
    then have "slot_inv (frames ?c1) (cv_next_index ?c1) slot" using c1 unfolding stream_inv_def by blast
    with client show "(sl_index slot, sl_item_id slot) \<in> set (announced (frames ?c1))"
      by (simp add: slot_inv_def)
  qed
  have calls: "stream_inv (fold finish_call todo d)"
    if "stream_inv d" "\<forall>slot \<in> set todo. (sl_index slot, sl_item_id slot) \<in> set (announced (frames d))" for todo d
    using that
  proof (induction todo arbitrary: d)
    case (Cons slot todo)
    have "plain (frames d @ gs) (ArgumentsDone (sl_item_id slot) (sl_index slot) (sl_arguments slot))"
      "plain (frames d @ gs) (CallDone (sl_index slot) (sl_item_id slot) x y z)" for gs x y z
      using Cons.prems(2) by (simp_all add: plain_def)
    note plain = this this [of "[]", simplified]
    have "stream_inv (finish_call slot d)"
      using Cons.prems(1) by (auto simp: finish_call_def intro!: stream_inv_plain plain)
    moreover have "\<forall>s \<in> set todo. (sl_index s, sl_item_id s) \<in> set (announced (frames (finish_call slot d)))"
      using Cons.prems(2) by (simp add: finish_call_def)
    ultimately show ?case using Cons.IH by simp
  qed simp
  let ?c2 = "fold finish_call ?todo ?c1"
  let ?c3 = "?c2\<lparr>cv_tools := map (\<lambda>(i, slot). (i, slot\<lparr>sl_done := True\<rparr>)) (cv_tools ?c2)\<rparr>"
  have c2: "stream_inv ?c2" using c1 known by (rule calls)
  have "stream_inv ?c3"
  proof -
    have get: "map_of (map (\<lambda>(i, slot). (i, slot\<lparr>sl_done := True\<rparr>)) m) i
        = map_option (\<lambda>slot. slot\<lparr>sl_done := True\<rparr>) (map_of m i)" for m :: "(int \<times> tool_slot) list" and i
      by (induction m) auto
    have keys: "map fst (map (\<lambda>(i, slot). (i, slot\<lparr>sl_done := True\<rparr>)) m) = map fst m"
      for m :: "(int \<times> tool_slot) list" by (induction m) auto
    show ?thesis using c2 unfolding stream_inv_def
      by (auto simp: get btree_ok_def keys slot_inv_def simp del: map_map)
  qed
  then show ?thesis using err ends by (cases error) (simp_all add: finish_def Let_def stream_inv_plain)
qed

lemma stream_inv_conv_step: "stream_inv c \<Longrightarrow> stream_inv (conv_step fresh op c)"
proof (cases op)
  case (SearchRound tcs outcomes)
  assume "stream_inv c"
  then show ?thesis
    using SearchRound by (simp add: emit_web_search_round_def fold_inv [where P = stream_inv] stream_inv_emit_search)
next
  case NewRound
  assume "stream_inv c"
  then show ?thesis
    by (simp add: NewRound begin_new_upstream_round_def stream_inv_def slots_def btree_ok_def)
qed (simp_all add: stream_inv_feed_chunk stream_inv_finish)

lemma stream_inv_new: "stream_inv (new_converter rid model expose server_names created)"
  by (simp add: stream_inv_def new_converter_def frames_def index_inv_def message_inv_def reasoning_inv_def
      btree_ok_def slots_def)

interpretation converting: machine "conv_step fresh" "\<lambda>_. True" stream_inv
  by unfold_locales (rule stream_inv_conv_step)

lemma stream_inv_run: "stream_inv (run_ops fresh ops (new_converter rid model expose server_names created))"
  unfolding run_ops_def using stream_inv_new by (intro converting.run_inv) (simp_all add: list_all_iff)

text \<open>C19. A client can place every frame. Whatever the upstream sends, in every stream each frame that
  names an item (a delta, a part, a done) comes after the frame that announced that item under the
  same output index, so no argument delta ever precedes its call; and no output index is announced
  twice.\<close>

theorem items_announced_first:
  "grounded {} (frames (run_ops fresh ops (new_converter rid model expose server_names created)))
   \<and> distinct (map fst (announced (frames (run_ops fresh ops
        (new_converter rid model expose server_names created)))))"
  using stream_inv_run unfolding stream_inv_def index_inv_def by blast

text \<open>C20. Nothing is lost or doubled between the deltas and what the converter accumulates for the terminal
  response: at every moment the text deltas written so far add up to the accumulated text, the argument deltas of each client call
  to its accumulated arguments, the summary deltas to the reasoning when it is exposed; and the
  arguments of calls that the gateway runs itself are never written.\<close>

theorem deltas_add_up:
  assumes "c = run_ops fresh ops (new_converter rid model expose server_names created)"
  shows "texts (frames c) = message_text c
    \<and> (cv_expose c \<longrightarrow> summaries (frames c) = reasoning_text c)
    \<and> (\<forall>slot \<in> set (slots c). arguments_at (sl_index slot) (frames c)
         = (if sl_server slot then [] else sl_arguments slot))"
proof -
  have inv: "stream_inv c" unfolding assms by (rule stream_inv_run)
  have "arguments_at (sl_index slot) (frames c) = (if sl_server slot then [] else sl_arguments slot)"
    if "slot \<in> set (slots c)" for slot
  proof -
    from that obtain i where "(i, slot) \<in> set (cv_tools c)" by (auto simp: slots_def)
    then have "map_of (cv_tools c) i = Some slot" using inv by (simp add: stream_inv_def btree_ok_def)
    then have "slot_inv (frames c) (cv_next_index c) slot" using inv unfolding stream_inv_def by blast
    then show ?thesis by (simp add: slot_inv_def)
  qed
  moreover have "message_inv (frames c) (cv_message c)"
    "reasoning_inv (cv_expose c) (frames c) (cv_reasoning c)"
    using inv by (simp_all add: stream_inv_def)
  ultimately show ?thesis
    by (auto simp: message_inv_def message_text_def reasoning_inv_def reasoning_text_def split: option.splits)
qed

subsection \<open>The terminal frame\<close>

lemma item_json_emit [simp]: "item_json (emit f c) = item_json c"
  by (simp add: item_json_def slots_def fun_eq_iff split: output_item.split)

lemma current_model_emit [simp]: "current_model (emit f c) = current_model c"
  by (simp add: current_model_def split: option.split)

lemma terminal_response_emit [simp]: "terminal_response status (emit f c) = terminal_response status c"
  by (simp add: terminal_response_def)

lemma nonstream_response_emit [simp]: "nonstream_response (emit f c) = nonstream_response c"
  by (simp add: nonstream_response_def split: option.split)

lemma kept_error: "cv_error (close_message_item c) = cv_error c" "cv_error (close_reasoning_item c) = cv_error c"
  "cv_error (fold finish_call todo c) = cv_error c"
proof -
  show "cv_error (fold finish_call todo c) = cv_error c"
    by (induction todo arbitrary: c) (simp_all add: finish_call_def)
qed (simp_all add: close_message_item_def close_reasoning_item_def Let_def split: option.split)

text \<open>Streaming and non-streaming cannot diverge: the last frame of every stream is
  \<open>response.failed\<close> after an error, \<open>response.incomplete\<close> when the upstream hit its length limit and
  \<open>response.completed\<close> otherwise, and the object in it is the one that the non-streamed answer
  assembles from the same state.\<close>

theorem terminal_frame_is_nonstream_response:
  "snd (last (cv_out (finish error c))) =
     (case error of
        Some _ \<Rightarrow> ResponseFailed (nonstream_response (finish error c))
      | None \<Rightarrow>
          (if cv_finish_reason (finish error c) = Some ''length''
           then ResponseIncomplete (nonstream_response (finish error c))
           else ResponseCompleted (nonstream_response (finish error c))))"
proof -
  have out: "snd (last (cv_out (emit f d))) = f" for f d by (simp add: emit_def)
  show ?thesis
  proof (cases error)
    case (Some m)
    then show ?thesis by (simp add: finish_def Let_def out nonstream_response_def)
  next
    case None
    define c2 where "c2 = (let c1 = close_message_item (close_reasoning_item (c\<lparr>cv_error := None\<rparr>))
      in fold finish_call (filter (\<lambda>slot. \<not> sl_done slot \<and> \<not> sl_server slot) (slots c1)) c1)"
    define c3 where "c3 = c2\<lparr>cv_tools := map (\<lambda>(i, slot). (i, slot\<lparr>sl_done := True\<rparr>)) (cv_tools c2)\<rparr>"
    have "cv_error c3 = None" by (simp add: c3_def c2_def Let_def kept_error)
    moreover have "finish error c = (if cv_finish_reason c3 = Some ''length''
         then emit (ResponseIncomplete
                (obj_insert ''incomplete_details'' incomplete_object (terminal_response ''incomplete'' c3))) c3
         else emit (ResponseCompleted (terminal_response ''completed'' c3)) c3)"
      by (simp add: None finish_def c3_def c2_def Let_def)
    ultimately show ?thesis by (simp add: None out nonstream_response_def)
  qed
qed

subsection \<open>Reasoning that was not asked for\<close>

fun reasoning_frame :: "frame \<Rightarrow> bool" where
  "reasoning_frame (ReasoningAdded _ _) = True"
| "reasoning_frame (SummaryPartAdded _ _) = True"
| "reasoning_frame (SummaryDelta _ _ _) = True"
| "reasoning_frame (SummaryTextDone _ _ _) = True"
| "reasoning_frame (SummaryPartDone _ _ _) = True"
| "reasoning_frame (ReasoningDone _ _ _) = True"
| "reasoning_frame _ = False"

definition hidden :: "converter \<Rightarrow> bool" where
  "hidden c \<longleftrightarrow>
     \<not> cv_expose c \<and> list_all (\<lambda>f. \<not> reasoning_frame f) (frames c) \<and> (\<forall>i. ReasoningItem i \<notin> set (cv_items c))
     \<and> (\<forall>st. cv_reasoning c = Some st \<longrightarrow> \<not> it_added st)"

lemma hidden_emit: "hidden c \<Longrightarrow> \<not> reasoning_frame f \<Longrightarrow> hidden (emit f c)"
  by (simp add: hidden_def)

lemma hidden_update [simp]:
  "hidden (c\<lparr>cv_message := r\<rparr>) = hidden c" "hidden (c\<lparr>cv_next_index := n\<rparr>) = hidden c"
  "hidden (c\<lparr>cv_fresh := n\<rparr>) = hidden c" "hidden (c\<lparr>cv_tools := t\<rparr>) = hidden c"
  "hidden (c\<lparr>cv_finish_reason := fr\<rparr>) = hidden c" "hidden (c\<lparr>cv_error := e\<rparr>) = hidden c"
  "hidden (c\<lparr>cv_model_seen := m\<rparr>) = hidden c" "hidden (c\<lparr>cv_usage := u\<rparr>) = hidden c"
  "hidden (c\<lparr>cv_started := b\<rparr>) = hidden c"
  by (simp_all add: hidden_def)

lemma hidden_items:
  "hidden c \<Longrightarrow> cv_items c = xs \<Longrightarrow> (\<And>i. x \<noteq> ReasoningItem i) \<Longrightarrow> hidden (c\<lparr>cv_items := xs @ [x]\<rparr>)"
  by (auto simp: hidden_def)

lemma hidden_start: "hidden c \<Longrightarrow> hidden (ensure_started c)"
  by (simp add: ensure_started_def Let_def hidden_emit)

lemma hidden_close: "hidden c \<Longrightarrow> hidden (close_message_item c)" "hidden c \<Longrightarrow> hidden (close_reasoning_item c)"
  by (simp_all add: close_message_item_def close_reasoning_item_def Let_def hidden_emit split: option.split)
     (auto simp: hidden_def)

lemma hidden_reasoning: "hidden c \<Longrightarrow> hidden (feed_reasoning fresh reasoning c)"
  by (auto simp: hidden_def feed_reasoning_def need_reasoning_def new_item_def Let_def split: option.splits)

lemma hidden_text: "hidden c \<Longrightarrow> hidden (feed_text fresh content c)"
  by (auto simp: feed_text_def need_message_def Let_def intro!: hidden_emit hidden_items split: option.split)

lemma hidden_tool_item: "hidden c \<Longrightarrow> hidden (ensure_tool_item_added fresh tool_call c)"
  using hidden_close(1) [of c]
  by (auto simp: ensure_tool_item_added_def Let_def intro!: hidden_emit hidden_items)

lemma hidden_tool_arguments: "hidden c \<Longrightarrow> hidden (feed_tool_call_arguments tool_call c)"
  by (auto simp: feed_tool_call_arguments_def Let_def intro!: hidden_emit split: option.split)

lemma hidden_feed_delta: "hidden c \<Longrightarrow> hidden (snd (feed_delta fresh delta (semantic, c)))"
  by (simp add: feed_delta_def Let_def hidden_reasoning hidden_text hidden_tool_item hidden_tool_arguments
      fold_inv [where P = hidden] split: option.split)

lemma hidden_feed_choice: "hidden c \<Longrightarrow> hidden (snd (feed_choice fresh v (semantic, c)))"
  by (auto simp: feed_choice_def Let_def hidden_feed_delta split: option.split)

lemma hidden_choices: "hidden c \<Longrightarrow> hidden (snd (fold (feed_choice fresh) vs (semantic, c)))"
proof (induction vs arbitrary: semantic c)
  case (Cons v vs)
  obtain b d where bd: "feed_choice fresh v (semantic, c) = (b, d)" by force
  then have "hidden d" using hidden_feed_choice [OF Cons.prems, of fresh v semantic] by simp
  then show ?case using Cons.IH [of d b] bd by simp
qed simp

lemma hidden_step: "hidden c \<Longrightarrow> hidden (conv_step fresh op c)"
proof (cases op)
  case (FeedChunk chunk)
  assume "hidden c"
  then have "hidden (note_chunk chunk (ensure_started c))"
    by (simp add: note_chunk_def Let_def hidden_start split: option.split)
  then show ?thesis by (simp add: FeedChunk feed_chunk_def Let_def hidden_choices split: option.split)
next
  case (SearchRound tcs outcomes)
  assume c: "hidden c"
  have "hidden d \<Longrightarrow> hidden (emit_search fresh outcome d)" for outcome d
    by (auto simp: emit_search_def Let_def intro!: hidden_emit hidden_items)
  with c show ?thesis by (simp add: SearchRound emit_web_search_round_def fold_inv [where P = hidden])
next
  case NewRound
  assume "hidden c"
  then have "hidden (c\<lparr>cv_tools := []\<rparr>)" by simp
  then show ?thesis by (simp add: NewRound begin_new_upstream_round_def hidden_def frames_def)
next
  case (Finish error)
  assume c: "hidden c"
  have "hidden d \<Longrightarrow> hidden (finish_call slot d)" for slot d
    by (simp add: finish_call_def hidden_emit)
  with c show ?thesis
    by (simp add: Finish finish_def Let_def hidden_emit hidden_close fold_inv [where P = hidden] split: option.split)
qed

interpretation hiding: machine "conv_step fresh" "\<lambda>_. True" hidden
  by unfold_locales (rule hidden_step)

text \<open>C29. Reasoning stays private unless the client asked for it: in a stream without exposure no frame
  carries reasoning, no output item is a reasoning item, and no entry of the terminal output has
  the type \<open>reasoning\<close> unless it is a search item the gateway made itself.\<close>

theorem hidden_reasoning_stays_hidden:
  assumes "c = run_ops fresh ops (new_converter rid model False server_names created)"
  shows "list_all (\<lambda>f. \<not> reasoning_frame f) (frames c)
    \<and> (\<forall>v \<in> set (List.map_filter (item_json c) (cv_items c)).
         get_str v ''type'' = Some ''reasoning'' \<longrightarrow> WebSearchCallItem v \<in> set (cv_items c))"
proof -
  have "hidden (new_converter rid model False server_names created)"
    by (simp add: hidden_def new_converter_def frames_def)
  then have hidden: "hidden c"
    unfolding assms run_ops_def by (intro hiding.run_inv) (simp_all add: list_all_iff)
  have "WebSearchCallItem v \<in> set (cv_items c)"
    if v: "v \<in> set (List.map_filter (item_json c) (cv_items c))" and reasoning: "get_str v ''type'' = Some ''reasoning''" for v
  proof -
    obtain item where item: "item \<in> set (cv_items c)" "item_json c item = Some v"
      using v by (auto simp: List.map_filter_def)
    show ?thesis
    proof (cases item)
      case (ReasoningItem i)
      with item hidden show ?thesis by (simp add: hidden_def)
    qed (use reasoning item in \<open>auto simp: item_json_def message_item_def call_item_def get_str_def\<close>)
  qed
  with hidden show ?thesis by (simp add: hidden_def)
qed

subsection \<open>Concrete streams\<close>

definition delta_chunk :: "jmap \<Rightarrow> json" where
  "delta_chunk delta = JObj [(''choices'', JArr [JObj [(''delta'', JObj delta)]])]"

definition search_delta :: json where
  "search_delta = delta_chunk
     [(''content'', JStr ''a''),
      (''tool_calls'', JArr [JObj [(''id'', JStr ''c''),
         (''function'', JObj [(''name'', JStr ''web_search''), (''arguments'', JStr ''q'')])]])]"

definition demo_stream :: converter where
  "demo_stream =
     run_ops show_nat
       [FeedChunk search_delta,
        SearchRound [\<lparr>tc_id = ''c'', tc_name = ''web_search'', tc_arguments = ''q''\<rparr>]
          [search_failed ''q'' Unavailable],
        NewRound, FeedChunk (delta_chunk [(''content'', JStr ''b'')]), Finish None]
       (new_converter ''resp'' ''m'' False [''web_search''] 0)"

text \<open>Text after a search round is written into an item that is already done. The message item is
  closed before the first tool call; when the model goes on writing in the next generation, its
  delta names the closed item and grows its text, and closing the item at the end of the stream
  writes nothing: the client has received the done frames with the shorter text.\<close>

theorem text_after_search_enters_closed_item:
  assumes message: "cv_message c = Some st" and closed: "it_done st" "it_added st"
  shows "frames (close_message_item (feed_text fresh s c))
           = frames c @ [TextDelta (it_id st) (pick_index st c) s]
    \<and> message_text (feed_text fresh s c) = it_accum st @ s"
  using assms
  by (simp_all add: feed_text_def need_message_def close_message_item_def message_text_def emit_def
      frames_def Let_def)

text \<open>Such a state arises: a text, a search call, and the next generation.\<close>

definition searched_once :: converter where
  "searched_once =
     begin_new_upstream_round
       (ensure_tool_item_added show_nat
          (JObj [(''function'', JObj [(''name'', JStr ''web_search'')])])
          (feed_text show_nat ''a'' (new_converter ''resp'' ''m'' False [''web_search''] 0)))"

lemma searched_once_message:
  "\<exists>st. cv_message searched_once = Some st \<and> it_done st \<and> it_added st \<and> it_accum st = ''a''"
  by (simp add: searched_once_def begin_new_upstream_round_def ensure_tool_item_added_def feed_text_def
      need_message_def close_message_item_def new_converter_def new_item_def emit_def call_index_def
      call_field_def pointer2_def Let_def)

theorem text_after_search_enters_closed_item_witness:
  "\<exists>st. message_text (feed_text show_nat ''b'' searched_once) = ''ab''
     \<and> frames (close_message_item (feed_text show_nat ''b'' searched_once))
        = frames searched_once @ [TextDelta (it_id st) (pick_index st searched_once) ''b'']"
proof -
  obtain st where st: "cv_message searched_once = Some st" "it_done st" "it_added st" "it_accum st = ''a''"
    using searched_once_message by blast
  show ?thesis
    using text_after_search_enters_closed_item [OF st(1-3), of show_nat "''b''"] st(4) by (intro exI [of _ st]) simp
qed

definition frames_at :: "nat \<Rightarrow> frame list \<Rightarrow> frame list" where
  "frames_at oi fs = filter (\<lambda>f. list_ex (\<lambda>k. fst k = oi) (announces f @ refers f)) fs"

text \<open>A call whose first fragment has neither id nor name is announced with both empty.\<close>

lemma nameless_call_announced:
  "frames_at 0 (frames (run_ops show_nat [FeedChunk (delta_chunk [(''tool_calls'', JArr [JObj []])])]
     (new_converter ''resp'' ''m'' False [] 0))) = [CallAdded 0 ''fc_0'' [] []]"
  by code_simp

theorem deltas_add_up_witness:
  "texts (frames demo_stream) = message_text demo_stream"
  using deltas_add_up [OF demo_stream_def] by blast

theorem hidden_reasoning_stays_hidden_witness:
  "list_all (\<lambda>f. \<not> reasoning_frame f) (frames demo_stream)"
  using hidden_reasoning_stays_hidden [OF demo_stream_def] by blast

end
