(* ===== verification/Rust_Result.thy ===== *)
theory Rust_Result
  imports Main
begin

text \<open>
  Rust's \<open>Result\<close> as a sum, the error on the left: the \<open>?\<close> operator, \<open>ok_or\<close>,
  and a loop over an enumerated slice that stops at the first error.
\<close>

definition and_then :: "'e + 'a \<Rightarrow> ('a \<Rightarrow> 'e + 'b) \<Rightarrow> 'e + 'b" where
  "and_then r f = (case r of Inl e \<Rightarrow> Inl e | Inr a \<Rightarrow> f a)"

definition ok_or :: "'e \<Rightarrow> 'a option \<Rightarrow> 'e + 'a" where
  "ok_or e v = (case v of None \<Rightarrow> Inl e | Some a \<Rightarrow> Inr a)"

definition is_ok :: "'e + 'a \<Rightarrow> bool" where
  "is_ok r \<longleftrightarrow> (case r of Inl _ \<Rightarrow> False | Inr _ \<Rightarrow> True)"

fun try_map :: "(nat \<Rightarrow> 'a \<Rightarrow> 'e + 'b) \<Rightarrow> nat \<Rightarrow> 'a list \<Rightarrow> 'e + 'b list" where
  "try_map f i [] = Inr []"
| "try_map f i (x # xs) = and_then (f i x) (\<lambda>y. and_then (try_map f (Suc i) xs) (\<lambda>ys. Inr (y # ys)))"

text \<open>A loop that threads a state and stops at the first error.\<close>

fun try_fold :: "('a \<Rightarrow> 's \<Rightarrow> 'e + 's) \<Rightarrow> 'a list \<Rightarrow> 's \<Rightarrow> 'e + 's" where
  "try_fold f [] s = Inr s"
| "try_fold f (x # xs) s = and_then (f x s) (try_fold f xs)"

lemma and_then_simps [simp]:
  "and_then (Inl e) f = Inl e" "and_then (Inr a) f = f a"
  by (simp_all add: and_then_def)

lemma and_then_Inr: "and_then r f = Inr b \<longleftrightarrow> (\<exists>a. r = Inr a \<and> f a = Inr b)"
  by (cases r) simp_all

lemma and_then_Inl: "and_then r f = Inl e \<longleftrightarrow> r = Inl e \<or> (\<exists>a. r = Inr a \<and> f a = Inl e)"
  by (cases r) simp_all

lemma ok_or_Inr [simp]: "ok_or e v = Inr a \<longleftrightarrow> v = Some a"
  by (simp add: ok_or_def split: option.split)

lemma ok_or_Inl: "ok_or e v = Inl e' \<longleftrightarrow> v = None \<and> e' = e"
  by (auto simp: ok_or_def split: option.split)

lemma ok_or_simps [simp]: "ok_or e None = Inl e" "ok_or e (Some a) = Inr a"
  by (simp_all add: ok_or_def)

lemma is_ok_simps [simp]: "\<not> is_ok (Inl e)" "is_ok (Inr a)"
  by (simp_all add: is_ok_def)

lemma is_ok_iff: "is_ok r \<longleftrightarrow> (\<exists>a. r = Inr a)"
  by (cases r) simp_all

text \<open>The loop succeeds exactly when every body does, and then lists their results in order.\<close>

lemma try_map_Inr:
  "try_map f i xs = Inr ys \<longleftrightarrow> length ys = length xs \<and> (\<forall>k < length xs. f (i + k) (xs ! k) = Inr (ys ! k))"
proof (induction xs arbitrary: i ys)
  case (Cons x xs)
  show ?case
    by (cases ys) (auto simp: and_then_Inr Cons.IH nth_Cons less_Suc_eq_0_disj split: nat.split)
qed auto

lemma try_map_ok: "is_ok (try_map f i xs) \<longleftrightarrow> (\<forall>k < length xs. is_ok (f (i + k) (xs ! k)))"
proof (induction xs arbitrary: i)
  case (Cons x xs)
  have "is_ok (try_map f i (x # xs)) \<longleftrightarrow> is_ok (f i x) \<and> is_ok (try_map f (Suc i) xs)"
    by (auto simp: is_ok_iff and_then_Inr)
  then show ?case by (auto simp: Cons.IH nth_Cons less_Suc_eq_0_disj split: nat.split)
qed auto

lemma try_map_pure: "(\<And>k x. x \<in> set xs \<Longrightarrow> f k x = Inr (g x)) \<Longrightarrow> try_map f i xs = Inr (map g xs)"
  by (induction xs arbitrary: i) auto

lemma try_fold_append: "try_fold f (xs @ ys) s = and_then (try_fold f xs s) (try_fold f ys)"
proof (induction xs arbitrary: s)
  case (Cons x xs)
  then show ?case by (cases "f x s") simp_all
qed simp

text \<open>An invariant that every step keeps holds at the end; an effect of every step adds up.\<close>

lemma try_fold_invariant:
  "try_fold f xs s = Inr t \<Longrightarrow> P s \<Longrightarrow>
   (\<And>x s s'. x \<in> set xs \<Longrightarrow> P s \<Longrightarrow> f x s = Inr s' \<Longrightarrow> P s') \<Longrightarrow> P t"
proof (induction xs arbitrary: s)
  case (Cons x xs)
  then obtain s' where "f x s = Inr s'" "try_fold f xs s' = Inr t" by (auto simp: and_then_Inr)
  with Cons show ?case by (meson list.set_intros)
qed simp

lemma try_fold_relates:
  "try_fold f xs s = Inr t \<Longrightarrow> R s s \<Longrightarrow>
   (\<And>x s' s''. x \<in> set xs \<Longrightarrow> R s s' \<Longrightarrow> f x s' = Inr s'' \<Longrightarrow> R s s'') \<Longrightarrow> R s t"
  by (rule try_fold_invariant [where P = "R s"])

end
