(* ===== verification/Responses_Request.thy ===== *)
theory Responses_Request
  imports Responses_Stream Rust_Result
begin

text \<open>
  \<open>src/responses/request.rs\<close>: a Responses request becomes an OpenAI chat body. One constructor of
  \<open>request_error\<close> per rejection of the code, with the indices and the text its message quotes;
  \<open>json_text\<close> prints JSON, \<open>f64\<close> prints a number as the double \<open>as_f64\<close> makes of it.
\<close>

datatype request_error =
    BodyNotObject
  | BadMaxOutputTokens
  | ReasoningNotObject
  | UnsupportedEffort string
  | InputShape
  | InputRequired
  | ItemNotObject nat
  | ItemReference
  | UnsupportedItem nat string
  | InputEmpty
  | RoleRequired nat
  | PartNotObject nat nat
  | ImageInput nat
  | UnsupportedPart nat nat string
  | PartTypeRequired nat nat
  | ContentShape nat
  | UnsupportedRole nat string
  | CallIdRequired nat
  | CallNameRequired nat
  | OutputCallIdRequired nat
  | OutputPartNotObject nat nat
  | ImageOutput nat
  | UnsupportedOutputPart nat nat string
  | OutputPartTypeRequired nat nat
  | OutputShape nat
  | SearchIdRequired nat
  | ToolsNotArray
  | ToolNotObject nat
  | ToolNameRequired nat
  | ParametersNotObject nat
  | UnsupportedMode string
  | ChoiceNameRequired
  | UnsupportedChoice string
  | ChoiceTypeRequired
  | ChoiceShape

record converted_request =
  cr_chat_body :: json
  cr_thinking :: bool
  cr_client_model :: "string option"
  cr_cache_key :: "string option"
  cr_search_uses :: "nat option"

definition non_empty_str :: "jmap \<Rightarrow> string \<Rightarrow> string option" where
  "non_empty_str obj field =
     (case obj_str obj field of Some s \<Rightarrow> (if s = [] then None else Some s) | None \<Rightarrow> None)"

definition role_message :: "string \<Rightarrow> json \<Rightarrow> json" where
  "role_message role content = JObj [(''role'', JStr role), (''content'', content)]"

subsection \<open>Input items\<close>

text \<open>The text of one content part.\<close>

definition message_part :: "nat \<Rightarrow> nat \<Rightarrow> json \<Rightarrow> request_error + string" where
  "message_part index part_index part =
     and_then (ok_or (PartNotObject index part_index) (as_object part)) (\<lambda>part.
       case obj_str part ''type'' of
         None \<Rightarrow> Inl (PartTypeRequired index part_index)
       | Some kind \<Rightarrow>
           (if kind \<in> {''input_text'', ''output_text''} then Inr (str_or [] (obj_str part ''text''))
            else if kind = ''input_image'' then Inl (ImageInput index)
            else if kind = ''refusal'' then Inr (str_or [] (obj_str part ''refusal''))
            else Inl (UnsupportedPart index part_index kind)))"

definition message_content :: "nat \<Rightarrow> json option \<Rightarrow> request_error + string" where
  "message_content index content =
     (case content of
        None \<Rightarrow> Inr []
      | Some JNull \<Rightarrow> Inr []
      | Some (JStr s) \<Rightarrow> Inr s
      | Some (JArr parts) \<Rightarrow>
          and_then (try_map (message_part index) 0 parts) (\<lambda>texts. Inr (join_with [newline] texts))
      | Some _ \<Rightarrow> Inl (ContentShape index))"

definition convert_message_item :: "jmap \<Rightarrow> nat \<Rightarrow> request_error + json" where
  "convert_message_item obj index =
     and_then (ok_or (RoleRequired index) (obj_str obj ''role'')) (\<lambda>role.
     and_then (message_content index (map_of obj ''content'')) (\<lambda>s.
       if role \<in> {''system'', ''developer''} then Inr (role_message ''system'' (JStr s))
       else if role = ''user'' then Inr (role_message ''user'' (JStr s))
       else if role = ''assistant''
         then Inr (role_message ''assistant'' (if s = [] then JNull else JStr s))
       else Inl (UnsupportedRole index role)))"

definition convert_function_call :: "jmap \<Rightarrow> nat \<Rightarrow> request_error + json" where
  "convert_function_call obj index =
     and_then (ok_or (CallIdRequired index) (non_empty_str obj ''call_id'')) (\<lambda>call_id.
     and_then (ok_or (CallNameRequired index) (non_empty_str obj ''name'')) (\<lambda>name.
       Inr (JObj [(''id'', JStr call_id), (''type'', JStr ''function''),
         (''function'', JObj [(''name'', JStr name),
            (''arguments'', JStr (str_or ''{}'' (obj_str obj ''arguments'')))])])))"

definition output_part :: "nat \<Rightarrow> nat \<Rightarrow> json \<Rightarrow> request_error + string" where
  "output_part index part_index part =
     and_then (ok_or (OutputPartNotObject index part_index) (as_object part)) (\<lambda>part.
       case obj_str part ''type'' of
         None \<Rightarrow> Inl (OutputPartTypeRequired index part_index)
       | Some kind \<Rightarrow>
           (if kind \<in> {''input_text'', ''output_text''} then Inr (str_or [] (obj_str part ''text''))
            else if kind = ''input_image'' then Inl (ImageOutput index)
            else Inl (UnsupportedOutputPart index part_index kind)))"

definition tool_output :: "nat \<Rightarrow> json option \<Rightarrow> request_error + string" where
  "tool_output index output =
     (case output of
        None \<Rightarrow> Inr []
      | Some JNull \<Rightarrow> Inr []
      | Some (JStr s) \<Rightarrow> Inr s
      | Some (JArr parts) \<Rightarrow>
          and_then (try_map (output_part index) 0 parts) (\<lambda>texts. Inr (join_with [newline] texts))
      | Some _ \<Rightarrow> Inl (OutputShape index))"

definition tool_result :: "string \<Rightarrow> string \<Rightarrow> json" where
  "tool_result call_id content =
     JObj [(''role'', JStr ''tool''), (''tool_call_id'', JStr call_id), (''content'', JStr content)]"

definition convert_function_call_output :: "jmap \<Rightarrow> nat \<Rightarrow> request_error + json" where
  "convert_function_call_output obj index =
     and_then (ok_or (OutputCallIdRequired index) (non_empty_str obj ''call_id'')) (\<lambda>call_id.
     and_then (tool_output index (map_of obj ''output'')) (\<lambda>content. Inr (tool_result call_id content)))"

definition source_lines :: "nat \<Rightarrow> json \<Rightarrow> string" where
  "source_lines position source =
     show_nat (Suc position) @ ''. '' @ str_or [] (get_str source ''url'') @ [newline]
     @ (case get_str source ''title'' of Some title \<Rightarrow> ''   '' @ title @ [newline] | None \<Rightarrow> [])"

definition calls_message :: "json list \<Rightarrow> json" where
  "calls_message tool_calls =
     JObj [(''role'', JStr ''assistant''), (''content'', JNull), (''tool_calls'', JArr tool_calls)]"

definition convert_web_search_call ::
  "(json \<Rightarrow> string) \<Rightarrow> jmap \<Rightarrow> nat \<Rightarrow> request_error + (json \<times> json)" where
  "convert_web_search_call json_text obj index =
     and_then (ok_or (SearchIdRequired index) (non_empty_str obj ''id'')) (\<lambda>item_id.
       let action = map_of obj ''action'';
           query = str_or [] (Option.bind action (\<lambda>a. get_str a ''query''));
           sources = (case Option.bind (Option.bind action (\<lambda>a. json_get a ''sources'')) as_array of
                        Some sources \<Rightarrow> sources | None \<Rightarrow> []);
           listing = ''Web search results for '' @ [quote] @ query @ [quote] @ '':'' @ [newline]
             @ concat (map (\<lambda>(position, source). source_lines position source) (List.enumerate 0 sources))
       in Inr (calls_message [JObj [(''id'', JStr item_id), (''type'', JStr ''function''),
                 (''function'', JObj [(''name'', JStr FUNCTION_NAME),
                    (''arguments'', JStr (json_text (JObj [(''query'', JStr query)])))])]],
               tool_result item_id listing))"

text \<open>\<open>flush_calls\<close> on the messages so far and the pending calls.\<close>

definition flush_calls :: "json list \<Rightarrow> json list \<Rightarrow> json list" where
  "flush_calls messages pending =
     (if pending = [] then messages else messages @ [calls_message pending])"

definition item_kind :: "jmap \<Rightarrow> string" where
  "item_kind obj = str_or ''message'' (obj_str obj ''type'')"

definition convert_item ::
  "(json \<Rightarrow> string) \<Rightarrow> jmap \<Rightarrow> nat \<Rightarrow> json list \<times> json list \<Rightarrow> request_error + (json list \<times> json list)" where
  "convert_item json_text obj index = (\<lambda>(messages, pending).
     let kind = item_kind obj in
     if kind = ''message''
       then and_then (convert_message_item obj index) (\<lambda>m. Inr (messages @ [m], pending))
     else if kind = ''function_call''
       then and_then (convert_function_call obj index) (\<lambda>call. Inr (messages, pending @ [call]))
     else if kind = ''function_call_output''
       then and_then (convert_function_call_output obj index)
              (\<lambda>m. Inr (flush_calls messages pending @ [m], []))
     else if kind = ''reasoning'' then Inr (flush_calls messages pending, [])
     else if kind = ''web_search_call''
       then and_then (convert_web_search_call json_text obj index)
              (\<lambda>(assistant, tool). Inr (flush_calls messages pending @ [assistant, tool], []))
     else if kind = ''item_reference'' then Inl ItemReference
     else Inl (UnsupportedItem index kind))"

fun convert_items_from ::
  "(json \<Rightarrow> string) \<Rightarrow> nat \<Rightarrow> json list \<Rightarrow> json list \<times> json list \<Rightarrow> request_error + (json list \<times> json list)" where
  "convert_items_from json_text index [] st = Inr st"
| "convert_items_from json_text index (item # items) st =
     and_then (ok_or (ItemNotObject index) (as_object item)) (\<lambda>obj.
     and_then (convert_item json_text obj index st) (convert_items_from json_text (Suc index) items))"

definition convert_input_items :: "(json \<Rightarrow> string) \<Rightarrow> json list \<Rightarrow> request_error + json list" where
  "convert_input_items json_text items =
     and_then (convert_items_from json_text 0 items ([], [])) (\<lambda>(messages, pending).
       let all = flush_calls messages pending
       in if all = [] then Inl InputEmpty else Inr all)"

definition convert_input :: "(json \<Rightarrow> string) \<Rightarrow> jmap \<Rightarrow> request_error + json list" where
  "convert_input json_text obj =
     (case map_of obj ''input'' of
        Some (JStr s) \<Rightarrow> Inr [role_message ''user'' (JStr s)]
      | Some (JArr items) \<Rightarrow> convert_input_items json_text items
      | Some _ \<Rightarrow> Inl InputShape
      | None \<Rightarrow> Inl InputRequired)"

subsection \<open>Tools\<close>

definition flat_tool :: "nat \<Rightarrow> jmap \<Rightarrow> request_error + json" where
  "flat_tool index obj =
     and_then (ok_or (ToolNameRequired index) (non_empty_str obj ''name'')) (\<lambda>name.
       let f1 = [(''name'', JStr name)];
           f2 = (case obj_str obj ''description'' of
                   Some d \<Rightarrow> obj_insert ''description'' (JStr d) f1 | None \<Rightarrow> f1);
           strict = (\<lambda>f. case map_of obj ''strict'' of
                   Some (JBool b) \<Rightarrow> obj_insert ''strict'' (JBool b) f | _ \<Rightarrow> f);
           tool = (\<lambda>f. JObj [(''type'', JStr ''function''), (''function'', JObj f)])
       in case map_of obj ''parameters'' of
            None \<Rightarrow> Inr (tool (strict f2))
          | Some schema \<Rightarrow>
              (if is_object schema then Inr (tool (strict (obj_insert ''parameters'' schema f2)))
               else Inl (ParametersNotObject index)))"

text \<open>The tools a declaration contributes: a hosted tool other than the search is dropped.\<close>

definition convert_tool :: "nat \<Rightarrow> json \<Rightarrow> request_error + json list" where
  "convert_tool index tool =
     and_then (ok_or (ToolNotObject index) (as_object tool)) (\<lambda>obj.
       case obj_str obj ''type'' of
         None \<Rightarrow> and_then (flat_tool index obj) (\<lambda>t. Inr [t])
       | Some kind \<Rightarrow>
           (if kind = ''function'' \<and> map_of obj ''function'' \<noteq> None then Inr [tool]
            else if kind = ''web_search'' then Inr [upstream_function]
            else if kind = ''function'' then and_then (flat_tool index obj) (\<lambda>t. Inr [t])
            else Inr []))"

definition convert_tools :: "json list \<Rightarrow> request_error + json list" where
  "convert_tools tools = and_then (try_map convert_tool 0 tools) (\<lambda>ts. Inr (concat ts))"

definition convert_tool_choice :: "json \<Rightarrow> request_error + json option" where
  "convert_tool_choice v =
     (case v of
        JStr mode \<Rightarrow>
          (if mode \<in> {''auto'', ''none'', ''required''} then Inr (Some (JStr mode))
           else Inl (UnsupportedMode mode))
      | JObj obj \<Rightarrow>
          (case obj_str obj ''type'' of
             None \<Rightarrow> Inl ChoiceTypeRequired
           | Some kind \<Rightarrow>
               (if kind = ''function''
                then and_then (ok_or ChoiceNameRequired (non_empty_str obj ''name'')) (\<lambda>name.
                  Inr (Some (JObj [(''type'', JStr ''function''),
                                   (''function'', JObj [(''name'', JStr name)])])))
                else if kind \<in> {''auto'', ''none'', ''required'', ''allowed_tools''}
                  then Inr (Some (JStr ''auto''))
                else Inl (UnsupportedChoice kind)))
      | JNull \<Rightarrow> Inr None
      | _ \<Rightarrow> Inl ChoiceShape)"

definition is_search_tool :: "json \<Rightarrow> bool" where
  "is_search_tool tool \<longleftrightarrow> get_str tool ''type'' = Some ''web_search''"

definition clamp_uses :: "nat \<Rightarrow> nat" where
  "clamp_uses uses = max 1 (min uses MAX_WEB_SEARCH_USES_PER_REQUEST)"

definition note_uses :: "json \<Rightarrow> nat option \<Rightarrow> nat option" where
  "note_uses tool uses =
     (if is_search_tool tool
      then case Option.bind (json_get tool ''max_uses'') as_u64 of
             None \<Rightarrow> uses
           | Some n \<Rightarrow> Some (case uses of None \<Rightarrow> clamp_uses n | Some m \<Rightarrow> min m (clamp_uses n))
      else uses)"

definition search_uses :: "json list \<Rightarrow> nat option" where
  "search_uses tools =
     (if list_ex is_search_tool tools
      then Some (case fold note_uses tools None of
                   Some n \<Rightarrow> n | None \<Rightarrow> MAX_WEB_SEARCH_USES_PER_REQUEST)
      else None)"

subsection \<open>The request\<close>

definition max_tokens_member :: "jmap \<Rightarrow> jmap \<Rightarrow> request_error + jmap" where
  "max_tokens_member obj chat =
     (case map_of obj ''max_output_tokens'' of
        None \<Rightarrow> Inr chat
      | Some v \<Rightarrow>
          (case as_u64 v of
             None \<Rightarrow> Inl BadMaxOutputTokens
           | Some n \<Rightarrow> (if 0 < n then Inr (obj_insert ''max_tokens'' (json_nat n) chat)
                       else Inl BadMaxOutputTokens)))"

fun as_number :: "json \<Rightarrow> jnum option" where
  "as_number (JNum n) = Some n"
| "as_number _ = None"

definition float_member :: "(jnum \<Rightarrow> string) \<Rightarrow> string \<Rightarrow> jmap \<Rightarrow> jmap \<Rightarrow> jmap" where
  "float_member f64 field obj chat =
     (case Option.bind (map_of obj field) as_number of
        Some n \<Rightarrow> obj_insert field (JNum (Float (f64 n))) chat | None \<Rightarrow> chat)"

definition effort_wire :: "string \<Rightarrow> string option" where
  "effort_wire effort =
     (if effort \<in> {''none'', ''minimal'', ''low''} then Some ''low''
      else if effort \<in> {''medium'', ''high'', ''xhigh'', ''max''} then Some ''high''
      else None)"

definition reasoning_member :: "jmap \<Rightarrow> jmap \<Rightarrow> request_error + (jmap \<times> bool)" where
  "reasoning_member obj chat =
     (case map_of obj ''reasoning'' of
        None \<Rightarrow> Inr (chat, False)
      | Some v \<Rightarrow>
          and_then (ok_or ReasoningNotObject (as_object v)) (\<lambda>reasoning.
            let effort = obj_str reasoning ''effort'';
                thinking = (case obj_str reasoning ''summary'' of
                              Some summary \<Rightarrow> summary \<noteq> ''none'' | None \<Rightarrow> False) \<or> effort = None
            in case effort of
                 None \<Rightarrow> Inr (chat, thinking)
               | Some e \<Rightarrow>
                   and_then (ok_or (UnsupportedEffort e) (effort_wire e)) (\<lambda>wire.
                     Inr (obj_insert ''reasoning_effort'' (JStr wire) chat, thinking))))"

definition tools_member :: "jmap \<Rightarrow> jmap \<Rightarrow> request_error + (jmap \<times> nat option)" where
  "tools_member obj chat =
     (case map_of obj ''tools'' of
        None \<Rightarrow> Inr (chat, None)
      | Some v \<Rightarrow>
          and_then (ok_or ToolsNotArray (as_array v)) (\<lambda>tools.
          and_then (convert_tools tools) (\<lambda>converted.
            Inr (if converted = [] then chat else obj_insert ''tools'' (JArr converted) chat,
                 search_uses tools))))"

definition choice_member :: "jmap \<Rightarrow> jmap \<Rightarrow> request_error + jmap" where
  "choice_member obj chat =
     (case map_of obj ''tool_choice'' of
        None \<Rightarrow> Inr chat
      | Some v \<Rightarrow>
          and_then (convert_tool_choice v) (\<lambda>converted.
            Inr (case converted of Some w \<Rightarrow> obj_insert ''tool_choice'' w chat | None \<Rightarrow> chat)))"

definition convert_request ::
  "(json \<Rightarrow> string) \<Rightarrow> (jnum \<Rightarrow> string) \<Rightarrow> json \<Rightarrow> string \<Rightarrow> request_error + converted_request" where
  "convert_request json_text f64 request default_model =
     and_then (ok_or BodyNotObject (as_object request)) (\<lambda>obj.
     and_then (max_tokens_member obj [(''model'', JStr default_model)]) (\<lambda>c1.
       let c2 = float_member f64 ''top_p'' obj (float_member f64 ''temperature'' obj c1);
           cache_key = non_empty_str obj ''prompt_cache_key'';
           c3 = (case cache_key of
                   Some key \<Rightarrow> obj_insert ''prompt_cache_key'' (JStr key) c2 | None \<Rightarrow> c2)
       in
     and_then (reasoning_member obj c3) (\<lambda>(c4, thinking).
     and_then (convert_input json_text obj) (\<lambda>messages.
     and_then (tools_member obj (obj_insert ''messages'' (JArr messages) c4)) (\<lambda>(c5, uses).
     and_then (choice_member obj c5) (\<lambda>c6.
       Inr \<lparr>cr_chat_body = JObj c6, cr_thinking = thinking,
            cr_client_model = obj_str obj ''model'', cr_cache_key = cache_key,
            cr_search_uses = uses\<rparr>))))))"


subsection \<open>The layout of a history\<close>

text \<open>
  A reference for the single pass: what each item contributes on its own, and where it goes. An
  item says a message, adds a call, or ends the block of calls and then adds messages of its own.
\<close>

datatype item_effect = Say json | Call json | Break "json list"

definition item_effect :: "(json \<Rightarrow> string) \<Rightarrow> nat \<Rightarrow> json \<Rightarrow> request_error + item_effect" where
  "item_effect json_text index item =
     and_then (ok_or (ItemNotObject index) (as_object item)) (\<lambda>obj.
       let kind = item_kind obj in
       if kind = ''message'' then and_then (convert_message_item obj index) (\<lambda>m. Inr (Say m))
       else if kind = ''function_call''
         then and_then (convert_function_call obj index) (\<lambda>call. Inr (Call call))
       else if kind = ''function_call_output''
         then and_then (convert_function_call_output obj index) (\<lambda>m. Inr (Break [m]))
       else if kind = ''reasoning'' then Inr (Break [])
       else if kind = ''web_search_call''
         then and_then (convert_web_search_call json_text obj index)
                (\<lambda>(assistant, tool). Inr (Break [assistant, tool]))
       else if kind = ''item_reference'' then Inl ItemReference
       else Inl (UnsupportedItem index kind))"

fun says :: "item_effect list \<Rightarrow> json list" where
  "says [] = []"
| "says (Say m # es) = m # says es"
| "says (_ # es) = says es"

fun pended :: "item_effect list \<Rightarrow> json list" where
  "pended [] = []"
| "pended (Call c # es) = c # pended es"
| "pended (_ # es) = pended es"

text \<open>The messages of a block come first, then one assistant turn with all its calls.\<close>

definition block_messages :: "item_effect list \<Rightarrow> json list" where
  "block_messages es = says es @ (if pended es = [] then [] else [calls_message (pended es)])"

fun layout :: "item_effect list \<Rightarrow> item_effect list \<Rightarrow> json list" where
  "layout block [] = block_messages block"
| "layout block (Break ms # es) = block_messages block @ ms @ layout [] es"
| "layout block (Say m # es) = layout (block @ [Say m]) es"
| "layout block (Call c # es) = layout (block @ [Call c]) es"

lemma says_append [simp]: "says (es @ fs) = says es @ says fs"
  by (induction es rule: says.induct) simp_all

lemma pended_append [simp]: "pended (es @ fs) = pended es @ pended fs"
  by (induction es rule: pended.induct) simp_all

lemma flush_append: "flush_calls (pre @ messages) pending = pre @ flush_calls messages pending"
  by (simp add: flush_calls_def)

fun add_effect :: "item_effect \<Rightarrow> json list \<times> json list \<Rightarrow> json list \<times> json list" where
  "add_effect (Say m) (messages, pending) = (messages @ [m], pending)"
| "add_effect (Call c) (messages, pending) = (messages, pending @ [c])"
| "add_effect (Break ms) (messages, pending) = (flush_calls messages pending @ ms, [])"

lemma convert_item_effect:
  "as_object item = Some obj \<Longrightarrow>
   convert_item json_text obj index st =
     and_then (item_effect json_text index item) (\<lambda>e. Inr (add_effect e st))"
  by (cases st)
    (auto simp: convert_item_def item_effect_def and_then_def Let_def split: sum.split prod.split)

lemma convert_items_effects:
  "convert_items_from json_text index items st =
     and_then (try_map (item_effect json_text) index items) (\<lambda>es. Inr (fold add_effect es st))"
proof (induction items arbitrary: index st)
  case (Cons item items)
  show ?case
  proof (cases "as_object item")
    case None
    then show ?thesis by (simp add: item_effect_def)
  next
    case (Some obj)
    then have step: "convert_item json_text obj index st =
        and_then (item_effect json_text index item) (\<lambda>e. Inr (add_effect e st))"
      by (rule convert_item_effect)
    show ?thesis
      by (cases "item_effect json_text index item"; cases "try_map (item_effect json_text) (Suc index) items")
        (simp_all add: Some step Cons.IH)
  qed
qed simp

lemma layout_fold:
  "fold add_effect es (pre @ says block, pended block) = (messages, pending) \<Longrightarrow>
   flush_calls messages pending = pre @ layout block es"
proof (induction block es arbitrary: pre rule: layout.induct)
  case (1 block)
  then show ?case by (auto simp: block_messages_def flush_calls_def)
next
  case (2 block ms es)
  from 2(2) have "fold add_effect es ((pre @ block_messages block @ ms) @ says [], pended []) = (messages, pending)"
    by (simp add: block_messages_def flush_calls_def split: if_splits)
  then show ?case using 2(1) by simp
next
  case (3 block m es)
  then show ?case using "3.IH" [of pre] by simp
next
  case (4 block c es)
  then show ?case using "4.IH" [of pre] by simp
qed

text \<open>The single pass over the input items computes a fixed layout: the history is cut at tool
  outputs, reasoning and replayed searches; in each block all messages come first and then one
  assistant turn with all the calls of the block, in order. The first item that is rejected decides
  the error, and a history without a message is rejected. So a message that follows a call is moved
  in front of it, which the comment on replayed order excludes.\<close>

theorem input_items_layout:
  "convert_input_items json_text items =
     and_then (try_map (item_effect json_text) 0 items) (\<lambda>es.
       if layout [] es = [] then Inl InputEmpty else Inr (layout [] es))"
proof (cases "try_map (item_effect json_text) 0 items")
  case (Inr es)
  obtain messages pending where st: "fold add_effect es ([], []) = (messages, pending)" by fastforce
  then have "flush_calls messages pending = layout [] es"
    using layout_fold [of es "[]" "[]"] by simp
  then show ?thesis
    by (simp add: convert_input_items_def convert_items_effects Inr st Let_def)
qed (simp add: convert_input_items_def convert_items_effects)


text \<open>The pass really moves calls: a message after a pending call comes out before it.\<close>

lemma message_overtakes_call:
  "layout [] [Call c, Say m, Break [r]] = [m, calls_message [c], r]"
  by (simp add: block_messages_def flush_calls_def)

subsection \<open>Identifiers\<close>

definition id_of :: "json \<Rightarrow> string" where
  "id_of v = str_or [] (get_str v ''id'')"

text \<open>The call ids an assistant message announces, and the one a tool message answers.\<close>

definition announced_ids :: "json \<Rightarrow> string list" where
  "announced_ids m =
     (case Option.bind (json_get m ''tool_calls'') as_array of Some cs \<Rightarrow> map id_of cs | None \<Rightarrow> [])"

definition answered_ids :: "json \<Rightarrow> string list" where
  "answered_ids m = (case get_str m ''tool_call_id'' of Some i \<Rightarrow> [i] | None \<Rightarrow> [])"

definition item_announces :: "json \<Rightarrow> string list" where
  "item_announces item =
     (if get_str item ''type'' = Some ''function_call'' then [str_or [] (get_str item ''call_id'')]
      else if get_str item ''type'' = Some ''web_search_call'' then [id_of item] else [])"

definition item_answers :: "json \<Rightarrow> string list" where
  "item_answers item =
     (if get_str item ''type'' = Some ''function_call_output'' then [str_or [] (get_str item ''call_id'')]
      else if get_str item ''type'' = Some ''web_search_call'' then [id_of item] else [])"

fun effect_announces :: "item_effect \<Rightarrow> string list" where
  "effect_announces (Say m) = announced_ids m"
| "effect_announces (Call c) = [id_of c]"
| "effect_announces (Break ms) = concat (map announced_ids ms)"

fun effect_answers :: "item_effect \<Rightarrow> string list" where
  "effect_answers (Say m) = answered_ids m"
| "effect_answers (Call c) = []"
| "effect_answers (Break ms) = concat (map answered_ids ms)"

fun plain_effect :: "item_effect \<Rightarrow> bool" where
  "plain_effect (Say m) \<longleftrightarrow> announced_ids m = [] \<and> answered_ids m = []"
| "plain_effect _ \<longleftrightarrow> True"

lemma announced_calls_message [simp]: "announced_ids (calls_message cs) = map id_of cs"
  by (simp add: announced_ids_def calls_message_def)

lemma answered_calls_message [simp]: "answered_ids (calls_message cs) = []"
  by (simp add: answered_ids_def calls_message_def get_str_def)

lemma ids_tool_result [simp]:
  "announced_ids (tool_result i s) = []" "answered_ids (tool_result i s) = [i]"
  by (simp_all add: announced_ids_def answered_ids_def tool_result_def get_str_def)

lemma ids_role_message [simp]:
  "announced_ids (role_message r v) = []" "answered_ids (role_message r v) = []"
  by (simp_all add: announced_ids_def answered_ids_def role_message_def get_str_def)

lemma non_empty_str_Some: "non_empty_str obj k = Some s \<longleftrightarrow> obj_str obj k = Some s \<and> s \<noteq> []"
  by (auto simp: non_empty_str_def split: option.split)

lemma if3_Inr:
  "(if P then Inr a else if Q then Inr b else if R then Inr c else Inl e) = Inr m \<Longrightarrow> m \<in> {a, b, c}"
  by (auto split: if_split_asm)

lemma convert_message_item_ids:
  assumes "convert_message_item obj index = Inr m"
  shows "announced_ids m = [] \<and> answered_ids m = []"
proof -
  obtain s v where "m \<in> {role_message ''system'' (JStr s), role_message ''user'' (JStr s), role_message ''assistant'' v}"
    using assms unfolding convert_message_item_def and_then_Inr by (blast dest: if3_Inr)
  then show ?thesis by auto
qed

lemma convert_function_call_id:
  "convert_function_call obj index = Inr c \<Longrightarrow>
   obj_str obj ''call_id'' \<noteq> None \<and> id_of c = str_or [] (obj_str obj ''call_id'')"
  by (auto simp: convert_function_call_def and_then_Inr non_empty_str_Some id_of_def get_str_def str_or_def)

lemma convert_function_call_output_ids:
  "convert_function_call_output obj index = Inr m \<Longrightarrow>
   announced_ids m = [] \<and> answered_ids m = [str_or [] (obj_str obj ''call_id'')]"
  by (auto simp: convert_function_call_output_def and_then_Inr non_empty_str_Some str_or_def)

lemma convert_web_search_call_ids:
  assumes "convert_web_search_call json_text obj index = Inr (a, t)"
  shows "announced_ids a = [str_or [] (obj_str obj ''id'')]" "answered_ids a = []"
    "announced_ids t = []" "answered_ids t = [str_or [] (obj_str obj ''id'')]"
  using assms
  by (auto simp: convert_web_search_call_def and_then_Inr Let_def non_empty_str_Some str_or_def id_of_def get_str_def)

lemma item_effect_kinds:
  assumes "as_object item = Some obj"
  shows "item_kind obj = ''message'' \<Longrightarrow> item_effect json_text index item =
           and_then (convert_message_item obj index) (\<lambda>m. Inr (Say m))"
    and "item_kind obj = ''function_call'' \<Longrightarrow> item_effect json_text index item =
           and_then (convert_function_call obj index) (\<lambda>call. Inr (Call call))"
    and "item_kind obj = ''function_call_output'' \<Longrightarrow> item_effect json_text index item =
           and_then (convert_function_call_output obj index) (\<lambda>m. Inr (Break [m]))"
    and "item_kind obj = ''reasoning'' \<Longrightarrow> item_effect json_text index item = Inr (Break [])"
    and "item_kind obj = ''web_search_call'' \<Longrightarrow> item_effect json_text index item =
           and_then (convert_web_search_call json_text obj index)
             (\<lambda>(assistant, tool). Inr (Break [assistant, tool]))"
  using assms by (simp_all add: item_effect_def Let_def)

lemma item_kinds:
  assumes "as_object item = Some obj" and "item_effect json_text index item = Inr e"
  shows "item_kind obj \<in> {''message'', ''function_call'', ''function_call_output'', ''reasoning'', ''web_search_call''}"
  using assms by (auto simp: item_effect_def Let_def split: if_splits)

lemma item_kind_type:
  "as_object item = Some obj \<Longrightarrow> k \<noteq> ''message'' \<Longrightarrow> get_str item ''type'' = Some k \<longleftrightarrow> item_kind obj = k"
  by (auto simp: get_str_object item_kind_def str_or_def split: option.split)

lemma item_effect_ids:
  assumes e: "item_effect json_text index item = Inr e"
  shows "effect_announces e = item_announces item \<and> effect_answers e = item_answers item \<and> plain_effect e"
proof -
  from e obtain obj where obj: "as_object item = Some obj"
    by (auto simp: item_effect_def and_then_Inr)
  have kind: "item_announces item =
      (if item_kind obj = ''function_call'' then [str_or [] (obj_str obj ''call_id'')]
       else if item_kind obj = ''web_search_call'' then [str_or [] (obj_str obj ''id'')] else [])"
    "item_answers item =
      (if item_kind obj = ''function_call_output'' then [str_or [] (obj_str obj ''call_id'')]
       else if item_kind obj = ''web_search_call'' then [str_or [] (obj_str obj ''id'')] else [])"
    using item_kind_type [OF obj, of "''function_call''"] item_kind_type [OF obj, of "''web_search_call''"]
      item_kind_type [OF obj, of "''function_call_output''"]
    by (simp_all add: item_announces_def item_answers_def id_of_def get_str_object [OF obj])
  consider "item_kind obj = ''message''" | "item_kind obj = ''function_call''"
    | "item_kind obj = ''function_call_output''" | "item_kind obj = ''reasoning''"
    | "item_kind obj = ''web_search_call''"
    using item_kinds [OF obj e] by auto
  then show ?thesis
  proof cases
    case 1
    then obtain m where "convert_message_item obj index = Inr m" "e = Say m"
      using e by (auto simp: item_effect_kinds(1) [OF obj] and_then_Inr)
    with convert_message_item_ids 1 show ?thesis by (simp add: kind)
  next
    case 2
    then obtain c where "convert_function_call obj index = Inr c" "e = Call c"
      using e by (auto simp: item_effect_kinds(2) [OF obj] and_then_Inr)
    with convert_function_call_id 2 show ?thesis by (simp add: kind)
  next
    case 3
    then obtain m where "convert_function_call_output obj index = Inr m" "e = Break [m]"
      using e by (auto simp: item_effect_kinds(3) [OF obj] and_then_Inr)
    with convert_function_call_output_ids 3 show ?thesis by (simp add: kind)
  next
    case 4
    then have "e = Break []" using e by (simp add: item_effect_kinds(4) [OF obj])
    with 4 show ?thesis by (simp add: kind)
  next
    case 5
    then obtain a t where "convert_web_search_call json_text obj index = Inr (a, t)" "e = Break [a, t]"
      using e by (auto simp: item_effect_kinds(5) [OF obj] and_then_Inr)
    with convert_web_search_call_ids 5 show ?thesis by (simp add: kind)
  qed
qed


fun open_effect :: "item_effect \<Rightarrow> bool" where
  "open_effect (Break _) \<longleftrightarrow> False"
| "open_effect _ \<longleftrightarrow> True"

lemma block_ids:
  "list_all plain_effect es \<Longrightarrow> list_all open_effect es \<Longrightarrow>
   concat (map announced_ids (block_messages es)) = concat (map effect_announces es)
   \<and> concat (map answered_ids (block_messages es)) = concat (map effect_answers es)"
proof -
  assume es: "list_all plain_effect es" "list_all open_effect es"
  have ids: "concat (map announced_ids (says es)) = [] \<and> concat (map answered_ids (says es)) = []
      \<and> concat (map effect_announces es) = map id_of (pended es)
      \<and> concat (map effect_answers es) = []"
    using es by (induction es rule: says.induct) auto
  show ?thesis
    unfolding block_messages_def flush_calls_def using ids
    by (cases "pended es = []") (simp_all only: ids map_append concat_append if_True if_False list.map concat.simps
        append_Nil append_Nil2 announced_calls_message answered_calls_message simp_thms)
qed

lemma layout_ids:
  "list_all plain_effect (block @ es) \<Longrightarrow> list_all open_effect block \<Longrightarrow>
   concat (map announced_ids (layout block es)) = concat (map effect_announces (block @ es))
   \<and> concat (map answered_ids (layout block es)) = concat (map effect_answers (block @ es))"
proof (induction block es rule: layout.induct)
  case (1 block)
  then show ?case using block_ids [of block] by simp
next
  case (2 block ms es)
  then show ?case using block_ids [of block] by simp
qed simp_all

lemma effects_ids:
  assumes "try_map (item_effect json_text) i items = Inr es"
  shows "concat (map effect_announces es) = concat (map item_announces items)
    \<and> concat (map effect_answers es) = concat (map item_answers items) \<and> list_all plain_effect es"
  using assms by (induction items arbitrary: i es) (auto simp: and_then_Inr dest!: item_effect_ids)

text \<open>C31. Call ids survive the conversion of a history: the calls announced by the assistant messages and
  the calls answered by the tool messages are those of the items, in the same order; none is lost,
  invented or renamed.\<close>

theorem history_ids_preserved:
  assumes "convert_input_items json_text items = Inr messages"
  shows "concat (map announced_ids messages) = concat (map item_announces items)
    \<and> concat (map answered_ids messages) = concat (map item_answers items)"
proof -
  obtain es where es: "try_map (item_effect json_text) 0 items = Inr es" and "messages = layout [] es"
    using assms by (auto simp: input_items_layout and_then_Inr split: if_split_asm)
  then show ?thesis using layout_ids [of "[]" es] effects_ids [OF es] by simp
qed


definition demo_history :: "json list" where
  "demo_history =
     [JObj [(''type'', JStr ''function_call''), (''call_id'', JStr ''c''), (''name'', JStr ''f'')],
      JObj [(''role'', JStr ''user''), (''content'', JStr ''hi'')],
      JObj [(''type'', JStr ''function_call_output''), (''call_id'', JStr ''c'')]]"

lemma demo_history_converts:
  "convert_input_items (\<lambda>_. []) demo_history =
     Inr [role_message ''user'' (JStr ''hi''),
          calls_message [JObj [(''id'', JStr ''c''), (''type'', JStr ''function''),
            (''function'', JObj [(''name'', JStr ''f''), (''arguments'', JStr ''{}'')])]],
          tool_result ''c'' []]"
  by (simp add: demo_history_def convert_input_items_def convert_item_def item_kind_def obj_str_def str_or_def
      Let_def convert_function_call_def non_empty_str_def convert_message_item_def message_content_def
      convert_function_call_output_def tool_output_def flush_calls_def)

theorem history_ids_preserved_witness:
  "[''c''] = concat (map item_announces demo_history) \<and> [''c''] = concat (map item_answers demo_history)"
proof -
  let ?messages = "[role_message ''user'' (JStr ''hi''),
          calls_message [JObj [(''id'', JStr ''c''), (''type'', JStr ''function''),
            (''function'', JObj [(''name'', JStr ''f''), (''arguments'', JStr ''{}'')])]],
          tool_result ''c'' []]"
  have "concat (map announced_ids ?messages) = [''c'']" "concat (map answered_ids ?messages) = [''c'']"
    by (simp_all add: id_of_def get_str_def str_or_def)
  then show ?thesis using history_ids_preserved [OF demo_history_converts] by metis
qed

subsection \<open>The converted body\<close>

lemma max_tokens_member_adds:
  "max_tokens_member obj chat = Inr chat' \<Longrightarrow> adds_only {''max_tokens''} chat chat'"
  by (auto simp: max_tokens_member_def split: option.splits if_split_asm)

lemma float_member_adds: "adds_only {field} chat (float_member f64 field obj chat)"
  by (simp add: float_member_def split: option.split)

lemma reasoning_member_adds:
  "reasoning_member obj chat = Inr (chat', thinking) \<Longrightarrow> adds_only {''reasoning_effort''} chat chat'"
  by (auto simp: reasoning_member_def and_then_Inr Let_def split: option.splits)

lemma choice_member_adds: "choice_member obj chat = Inr chat' \<Longrightarrow> adds_only {''tool_choice''} chat chat'"
  by (auto simp: choice_member_def and_then_Inr split: option.splits)

lemma tools_member_adds: "tools_member obj chat = Inr (chat', uses) \<Longrightarrow> adds_only {''tools''} chat chat'"
  by (auto simp: tools_member_def and_then_Inr split: option.splits)

lemma flat_tool_function: "flat_tool index obj = Inr t \<Longrightarrow> get_str t ''type'' = Some ''function''"
  by (auto simp: flat_tool_def and_then_Inr Let_def get_str_def split: option.splits if_split_asm)

lemma convert_tool_functions:
  assumes "convert_tool index tool = Inr ts"
  shows "\<forall>t \<in> set ts. get_str t ''type'' = Some ''function''"
proof -
  obtain obj where obj: "as_object tool = Some obj"
    using assms by (auto simp: convert_tool_def and_then_Inr)
  show ?thesis
    using assms flat_tool_function upstream_function_type
    by (cases "obj_str obj ''type''")
       (auto simp: convert_tool_def and_then_Inr obj get_str_object [OF obj] split: if_split_asm)
qed

lemma convert_tool_search:
  assumes "convert_tool index tool = Inr ts" and "is_search_tool tool"
  shows "upstream_function \<in> set ts"
proof -
  obtain obj where obj: "as_object tool = Some obj"
    using assms by (auto simp: convert_tool_def and_then_Inr)
  then show ?thesis
    using assms by (auto simp: convert_tool_def is_search_tool_def get_str_object [OF obj])
qed

lemma convert_tools_offer:
  assumes "convert_tools tools = Inr converted"
  shows "(\<forall>t \<in> set converted. get_str t ''type'' = Some ''function'')
    \<and> (list_ex is_search_tool tools \<longrightarrow> upstream_function \<in> set converted)"
proof -
  obtain tss where tss: "try_map convert_tool 0 tools = Inr tss" and converted: "converted = concat tss"
    using assms by (auto simp: convert_tools_def and_then_Inr)
  have each: "\<exists>i tool. tool \<in> set tools \<and> convert_tool i tool = Inr ts" if "ts \<in> set tss" for ts
    using tss that unfolding try_map_Inr by (metis in_set_conv_nth nth_mem)
  have used: "\<exists>i. \<exists>ts \<in> set tss. convert_tool i tool = Inr ts" if "tool \<in> set tools" for tool
    using tss that unfolding try_map_Inr by (metis in_set_conv_nth nth_mem)
  show ?thesis
  proof (intro conjI impI)
    show "\<forall>t \<in> set converted. get_str t ''type'' = Some ''function''"
      unfolding converted using each convert_tool_functions by fastforce
    assume "list_ex is_search_tool tools"
    then obtain tool where "tool \<in> set tools" "is_search_tool tool" by (auto simp: list_ex_iff)
    with used convert_tool_search show "upstream_function \<in> set converted"
      unfolding converted by fastforce
  qed
qed

lemma note_uses_range:
  "uses = None \<or> (\<exists>n \<in> {1..MAX_WEB_SEARCH_USES_PER_REQUEST}. uses = Some n) \<Longrightarrow>
   fold note_uses tools uses = None \<or> (\<exists>n \<in> {1..MAX_WEB_SEARCH_USES_PER_REQUEST}. fold note_uses tools uses = Some n)"
proof (induction tools arbitrary: uses)
  case (Cons tool tools)
  have "note_uses tool uses = None \<or> (\<exists>n \<in> {1..MAX_WEB_SEARCH_USES_PER_REQUEST}. note_uses tool uses = Some n)"
    using Cons.prems
    by (auto simp: note_uses_def clamp_uses_def MAX_WEB_SEARCH_USES_PER_REQUEST_def split: option.split)
  from Cons.IH [OF this] show ?case by simp
qed simp

lemma search_uses_range: "search_uses tools = Some n \<Longrightarrow> 1 \<le> n \<and> n \<le> MAX_WEB_SEARCH_USES_PER_REQUEST"
  using note_uses_range [of None tools]
  by (auto simp: search_uses_def MAX_WEB_SEARCH_USES_PER_REQUEST_def split: if_split_asm)

definition declares_search :: "json \<Rightarrow> bool" where
  "declares_search request \<longleftrightarrow>
     (case Option.bind (json_get request ''tools'') as_array of
        Some tools \<Rightarrow> list_ex is_search_tool tools | None \<Rightarrow> False)"

text \<open>C32. What a converted request offers the model can be answered: every offered tool is a function;
  the search function is among them with a budget of one to five searches exactly when the client
  declared the hosted search, and every other hosted tool is gone. The model is the configured one,
  and no member of the client's request outside the listed ones reaches the upstream.\<close>

theorem offered_tools_answerable:
  assumes "convert_request json_text f64 request model = Inr r"
  shows "(\<forall>t \<in> set (offered_tools (cr_chat_body r)). get_str t ''type'' = Some ''function'')
    \<and> (cr_search_uses r \<noteq> None \<longleftrightarrow> declares_search request)
    \<and> (\<forall>n. cr_search_uses r = Some n \<longrightarrow>
         1 \<le> n \<and> n \<le> MAX_WEB_SEARCH_USES_PER_REQUEST
         \<and> upstream_function \<in> set (offered_tools (cr_chat_body r)))
    \<and> json_get (cr_chat_body r) ''model'' = Some (JStr model)
    \<and> (\<forall>k. k \<notin> {''model'', ''max_tokens'', ''temperature'', ''top_p'', ''prompt_cache_key'',
         ''reasoning_effort'', ''messages'', ''tools'', ''tool_choice''} \<longrightarrow>
         json_get (cr_chat_body r) k = None)"
proof -
  obtain obj c1 c3 c4 thinking messages c5 uses c6 where
    obj: "as_object request = Some obj" and
    c1: "max_tokens_member obj [(''model'', JStr model)] = Inr c1" and
    c3: "c3 = (case non_empty_str obj ''prompt_cache_key'' of
         Some key \<Rightarrow> obj_insert ''prompt_cache_key'' (JStr key)
           (float_member f64 ''top_p'' obj (float_member f64 ''temperature'' obj c1))
       | None \<Rightarrow> float_member f64 ''top_p'' obj (float_member f64 ''temperature'' obj c1))" and
    c4: "reasoning_member obj c3 = Inr (c4, thinking)" and
    c5: "tools_member obj (obj_insert ''messages'' (JArr messages) c4) = Inr (c5, uses)" and
    c6: "choice_member obj c5 = Inr c6" and
    r: "cr_chat_body r = JObj c6" "cr_search_uses r = uses"
    using assms by (auto simp: convert_request_def and_then_Inr Let_def)
  let ?keys = "{''max_tokens'', ''temperature'', ''top_p'', ''prompt_cache_key'', ''reasoning_effort''}"
  have c4_old: "map_of c4 k = map_of [(''model'', JStr model)] k" if "k \<notin> ?keys" for k
  proof -
    have "map_of c4 k = map_of c3 k" using adds_only_D [OF reasoning_member_adds [OF c4]] that by simp
    also have "map_of c3 k = map_of c1 k"
      using that adds_only_D [OF float_member_adds, of k]
      unfolding c3 by (simp split: option.split)
    also have "\<dots> = map_of [(''model'', JStr model)] k"
      using adds_only_D [OF max_tokens_member_adds [OF c1]] that by simp
    finally show ?thesis .
  qed
  have other: "map_of c6 k = map_of c4 k" if "k \<notin> {''messages'', ''tools'', ''tool_choice''}" for k
    using that adds_only_D [OF choice_member_adds [OF c6], of k] adds_only_D [OF tools_member_adds [OF c5], of k]
    by simp
  have members: "json_get (cr_chat_body r) ''model'' = Some (JStr model)"
    using other [of "''model''"] c4_old [of "''model''"] by (simp add: r)
  have unknown: "json_get (cr_chat_body r) k = None"
    if "k \<notin> {''model'', ''max_tokens'', ''temperature'', ''top_p'', ''prompt_cache_key'',
         ''reasoning_effort'', ''messages'', ''tools'', ''tool_choice''}" for k
    using that other [of k] c4_old [of k] by (simp add: r)
  have tools6: "map_of c6 ''tools'' = map_of c5 ''tools''"
    using adds_only_D [OF choice_member_adds [OF c6], of "''tools''"] by simp
  have none: "map_of (obj_insert ''messages'' (JArr messages) c4) ''tools'' = None"
    using c4_old [of "''tools''"] by simp
  show ?thesis
  proof (cases "map_of obj ''tools''")
    case None
    then have "c5 = obj_insert ''messages'' (JArr messages) c4" "uses = None" using c5 by (auto simp: tools_member_def)
    then have "offered_tools (cr_chat_body r) = []" using none tools6 by (simp add: r offered_tools_def)
    then show ?thesis using members unknown None \<open>uses = None\<close>
      by (simp add: r declares_search_def json_get_object [OF obj])
  next
    case (Some v)
    then obtain tools converted where tools: "as_array v = Some tools" "convert_tools tools = Inr converted"
      and c5_eq: "c5 = (if converted = [] then obj_insert ''messages'' (JArr messages) c4
          else obj_insert ''tools'' (JArr converted) (obj_insert ''messages'' (JArr messages) c4))"
      and uses: "uses = search_uses tools"
      using c5 by (auto simp: tools_member_def and_then_Inr)
    have offered: "offered_tools (cr_chat_body r) = converted"
      using none tools6 by (simp add: r offered_tools_def c5_eq)
    have declared: "declares_search request = list_ex is_search_tool tools"
      using Some tools by (simp add: declares_search_def json_get_object [OF obj])
    have "search_uses tools \<noteq> None \<longleftrightarrow> list_ex is_search_tool tools"
      by (simp add: search_uses_def)
    then show ?thesis
      using convert_tools_offer [OF tools(2)] search_uses_range [of tools] members unknown
      unfolding offered r(2) uses declared by (metis option.discI)
  qed
qed


definition demo_responses_request :: json where
  "demo_responses_request =
     JObj [(''input'', JStr ''hi''), (''store'', JBool True),
       (''tools'', JArr [JObj [(''type'', JStr ''x_search'')],
          JObj [(''type'', JStr ''web_search''), (''max_uses'', json_nat 9)]])]"

lemma demo_responses_request_converts:
  "\<exists>r. convert_request (\<lambda>_. []) (\<lambda>_. []) demo_responses_request ''glm'' = Inr r \<and> cr_search_uses r = Some 5"
  by (simp add: demo_responses_request_def convert_request_def max_tokens_member_def float_member_def
      non_empty_str_def obj_str_def reasoning_member_def convert_input_def tools_member_def convert_tools_def
      convert_tool_def choice_member_def Let_def search_uses_def is_search_tool_def get_str_def note_uses_def
      clamp_uses_def json_nat_def MAX_WEB_SEARCH_USES_PER_REQUEST_def)

theorem offered_tools_answerable_witness:
  "\<exists>r. convert_request (\<lambda>_. []) (\<lambda>_. []) demo_responses_request ''glm'' = Inr r
     \<and> upstream_function \<in> set (offered_tools (cr_chat_body r)) \<and> json_get (cr_chat_body r) ''store'' = None"
proof -
  obtain r where r: "convert_request (\<lambda>_. []) (\<lambda>_. []) demo_responses_request ''glm'' = Inr r"
    "cr_search_uses r = Some 5"
    using demo_responses_request_converts by blast
  show ?thesis using offered_tools_answerable [OF r(1)] r by (intro exI [of _ r]) auto
qed

text \<open>A choice object of the mode \<open>none\<close> is turned into \<open>auto\<close>, although the string form is kept.\<close>

lemma object_mode_weakened:
  "convert_tool_choice (JObj [(''type'', JStr ''none'')]) = Inr (Some (JStr ''auto''))"
  "convert_tool_choice (JStr ''none'') = Inr (Some (JStr ''none''))"
  by (simp_all add: convert_tool_choice_def obj_str_def)

end
