(* ===== verification/Responses_Turn.thy ===== *)
theory Responses_Turn
  imports Responses_Order Responses_Request
begin

text \<open>
  From one Responses turn to the next: the client sends the output list of a terminal response back
  as history, and the request converter has to read what the stream converter wrote.
\<close>

subsection \<open>What a converter records\<close>

text \<open>What \<open>finish\<close> does without an error before it writes the terminal frame.\<close>

definition settle_items :: "converter \<Rightarrow> converter" where
  "settle_items c =
     (let c1 = close_message_item (close_reasoning_item (c\<lparr>cv_error := None\<rparr>));
          c2 = fold finish_call (filter (\<lambda>slot. \<not> sl_done slot \<and> \<not> sl_server slot) (slots c1)) c1
      in c2\<lparr>cv_tools := map (\<lambda>(i, slot). (i, slot\<lparr>sl_done := True\<rparr>)) (cv_tools c2)\<rparr>)"

lemma finish_None:
  "finish None c =
     (let d = settle_items c in
      emit (if cv_finish_reason d = Some ''length''
            then ResponseIncomplete
                   (obj_insert ''incomplete_details'' incomplete_object (terminal_response ''incomplete'' d))
            else ResponseCompleted (terminal_response ''completed'' d)) d)"
  by (simp add: finish_def settle_items_def Let_def)

lemma finish_Some:
  "finish (Some message) c =
     emit (ResponseFailed (obj_insert ''error'' (error_object message)
         (terminal_response ''failed'' (c\<lparr>cv_error := Some message\<rparr>)))) (c\<lparr>cv_error := Some message\<rparr>)"
  by (simp add: finish_def Let_def)

lemma kept_finish_reason:
  "cv_finish_reason (close_message_item c) = cv_finish_reason c"
  "cv_finish_reason (close_reasoning_item c) = cv_finish_reason c"
  "cv_finish_reason (fold finish_call todo c) = cv_finish_reason c"
proof -
  show "cv_finish_reason (fold finish_call todo c) = cv_finish_reason c"
    by (induction todo arbitrary: c) (simp_all add: finish_call_def)
qed (simp_all add: close_message_item_def close_reasoning_item_def Let_def split: option.split)

lemma settle_finish_reason [simp]: "cv_finish_reason (settle_items c) = cv_finish_reason c"
  by (simp add: settle_items_def Let_def kept_finish_reason)

lemma finish_reason_finish [simp]: "cv_finish_reason (finish error c) = cv_finish_reason c"
  by (cases error) (simp_all add: finish_None finish_Some Let_def)

text \<open>The frames that end a stream.\<close>

fun terminal :: "frame \<Rightarrow> bool" where
  "terminal (ResponseCompleted _) = True"
| "terminal (ResponseIncomplete _) = True"
| "terminal (ResponseFailed _) = True"
| "terminal _ = False"

text \<open>A law of output items that the four ways of recording one satisfy, and a law of frames that all
  but the terminal ones satisfy, hold throughout a run.\<close>

locale output_law =
  fixes item_law :: "output_item \<Rightarrow> bool"
    and frame_law :: "frame \<Rightarrow> bool"
  assumes law_reasoning: "item_law (ReasoningItem i)"
    and law_message: "item_law (MessageItem i)"
    and law_call: "item_law (FunctionCallItem i)"
    and law_search: "item_law (WebSearchCallItem (search_item (''ws_'' @ i) outcome))"
    and law_frame: "\<not> terminal f \<Longrightarrow> frame_law f"
begin

definition lawful :: "converter \<Rightarrow> bool" where
  "lawful c \<longleftrightarrow> list_all item_law (cv_items c) \<and> list_all frame_law (frames c)"

lemma lawful_same: "cv_items d = cv_items c \<Longrightarrow> frames d = frames c \<Longrightarrow> lawful c \<Longrightarrow> lawful d"
  by (simp add: lawful_def)

lemma lawful_emit: "\<not> terminal f \<Longrightarrow> lawful c \<Longrightarrow> lawful (emit f c)"
  by (simp add: lawful_def law_frame)

lemma lawful_start: "lawful c \<Longrightarrow> lawful (ensure_started c)"
  by (simp add: ensure_started_def Let_def lawful_def law_frame)

lemma lawful_close: "lawful c \<Longrightarrow> lawful (close_message_item c)" "lawful c \<Longrightarrow> lawful (close_reasoning_item c)"
  by (simp_all add: lawful_def law_frame close_message_item_def close_reasoning_item_def Let_def split: option.split)

lemma lawful_feed:
  "lawful c \<Longrightarrow> lawful (feed_reasoning fresh s c)" "lawful c \<Longrightarrow> lawful (feed_text fresh s c)"
  by (simp_all add: lawful_def law_frame feed_reasoning_def feed_text_def need_reasoning_def need_message_def
      Let_def law_reasoning law_message split: option.split)

lemma lawful_tool_item: "lawful c \<Longrightarrow> lawful (ensure_tool_item_added fresh tool_call c)"
  using lawful_close(1) [of c] by (simp add: lawful_def law_frame ensure_tool_item_added_def Let_def law_call)

lemma lawful_tool_arguments: "lawful c \<Longrightarrow> lawful (feed_tool_call_arguments tool_call c)"
  by (simp add: lawful_def law_frame feed_tool_call_arguments_def Let_def split: option.split)

lemma lawful_feed_delta: "lawful c \<Longrightarrow> lawful (snd (feed_delta fresh delta (semantic, c)))"
  by (simp add: feed_delta_def Let_def lawful_feed lawful_tool_item lawful_tool_arguments
      fold_inv [where P = lawful] split: option.split)

lemma lawful_feed_choice: "lawful c \<Longrightarrow> lawful (snd (feed_choice fresh v (semantic, c)))"
  using lawful_same [of "c\<lparr>cv_finish_reason := r\<rparr>" c for r]
  by (simp add: feed_choice_def Let_def lawful_feed_delta split: option.split)

lemma lawful_choices: "lawful c \<Longrightarrow> lawful (snd (fold (feed_choice fresh) vs (semantic, c)))"
proof (induction vs arbitrary: semantic c)
  case (Cons v vs)
  obtain b d where bd: "feed_choice fresh v (semantic, c) = (b, d)" by force
  then have "lawful d" using lawful_feed_choice [OF Cons.prems, of fresh v semantic] by simp
  then show ?case using Cons.IH [of d b] bd by simp
qed simp

lemma lawful_feed_chunk: "lawful c \<Longrightarrow> lawful (snd (feed_chunk fresh chunk c))"
proof -
  assume "lawful c"
  then have "lawful (note_chunk chunk (ensure_started c))"
    using lawful_start [of c] by (simp add: lawful_def note_chunk_def Let_def split: option.split)
  then show ?thesis by (simp add: feed_chunk_def Let_def lawful_choices split: option.split)
qed

lemma lawful_search_round: "lawful c \<Longrightarrow> lawful (fst (emit_web_search_round fresh tcs outcomes c))"
proof -
  assume c: "lawful c"
  have "lawful d \<Longrightarrow> lawful (emit_search fresh outcome d)" for outcome d
    using law_search [of "fresh (cv_fresh d)" outcome]
    by (simp add: emit_search_def law_frame lawful_def Let_def)
  with c show ?thesis by (simp add: emit_web_search_round_def fold_inv [where P = lawful])
qed

lemma lawful_new_round: "lawful c \<Longrightarrow> lawful (begin_new_upstream_round c)"
  by (simp add: begin_new_upstream_round_def lawful_def)

text \<open>The last operation writes lawful frames and then one terminal frame.\<close>

lemma lawful_finish:
  assumes "lawful c"
  shows "\<exists>d f. finish error c = emit f d \<and> terminal f \<and> lawful d \<and> (error \<noteq> None \<longleftrightarrow> (\<exists>r. f = ResponseFailed r))"
proof (cases error)
  case (Some message)
  have "lawful (c\<lparr>cv_error := error\<rparr>)" using assms by (simp add: lawful_def)
  then show ?thesis
    unfolding Some finish_Some
    by (intro exI [of _ "c\<lparr>cv_error := Some message\<rparr>"] exI [of _ "ResponseFailed _"] conjI) (rule refl, simp_all)
next
  case None
  have call: "lawful d \<Longrightarrow> lawful (finish_call slot d)" for slot d
    by (simp add: finish_call_def lawful_emit)
  have update: "lawful d \<Longrightarrow> lawful (d\<lparr>cv_tools := t\<rparr>)" "lawful d \<Longrightarrow> lawful (d\<lparr>cv_error := e\<rparr>)" for d t e
    by (simp_all add: lawful_def)
  have "lawful (settle_items c)"
    using assms by (simp add: settle_items_def Let_def lawful_close call update fold_inv [where P = lawful])
  then show ?thesis
    unfolding None finish_None Let_def by (intro exI [of _ "settle_items c"] exI [of _ "if _ then _ else _"] conjI) (rule refl, simp_all)
qed

lemma lawful_step:
  assumes "\<And>f. terminal f \<Longrightarrow> frame_law f" and "lawful c"
  shows "lawful (conv_step fresh op c)"
proof (cases op)
  case (Finish error)
  obtain d f where "finish error c = emit f d" "terminal f" "lawful d" using lawful_finish [OF assms(2)] by blast
  with assms(1) Finish show ?thesis by (simp add: lawful_def)
qed (use assms lawful_feed_chunk lawful_search_round lawful_new_round in auto)

lemma lawful_new: "lawful (new_converter rid model expose server_names created)"
  by (simp add: lawful_def new_converter_def frames_def)

lemma lawful_run:
  assumes "\<And>f. terminal f \<Longrightarrow> frame_law f"
  shows "lawful (run_ops fresh ops (new_converter rid model expose server_names created))"
  unfolding run_ops_def by (rule fold_inv [where P = lawful]) (rule lawful_step [OF assms] lawful_new; simp)+

end

definition search_listed :: "output_item \<Rightarrow> bool" where
  "search_listed item \<longleftrightarrow>
     (case item of WebSearchCallItem v \<Rightarrow> \<exists>i outcome. v = search_item (''ws_'' @ i) outcome | _ \<Rightarrow> True)"

interpretation searches: output_law search_listed "\<lambda>_. True"
  by unfold_locales (auto simp: search_listed_def)

interpretation quiet: output_law "\<lambda>_. True" "\<lambda>f. \<not> terminal f"
  by unfold_locales simp_all

subsection \<open>Replay\<close>

text \<open>The output list of a terminal response.\<close>

definition replayed_output :: "converter \<Rightarrow> json list" where
  "replayed_output c = List.map_filter (item_json c) (cv_items c)"

definition user_item :: "string \<Rightarrow> json" where
  "user_item s = JObj [(''type'', JStr ''message''), (''role'', JStr ''user''), (''content'', JStr s)]"

lemma effect_user_item:
  "item_effect json_text i (user_item s) = Inr (Say (role_message ''user'' (JStr s)))"
  by (simp add: user_item_def item_effect_def item_kind_def obj_str_def str_or_def Let_def
      convert_message_item_def message_content_def)

lemma effect_summary_item: "item_effect json_text k (summary_item i s) = Inr (Break [])"
  by (simp add: summary_item_def item_effect_def item_kind_def obj_str_def str_or_def Let_def)

lemma effect_message_item:
  "item_effect json_text k (message_item i s)
     = Inr (Say (role_message ''assistant'' (if s = [] then JNull else JStr s)))"
  by (simp add: message_item_def item_effect_def item_kind_def obj_str_def str_or_def Let_def
      convert_message_item_def message_content_def message_part_def output_text_part_def)

lemma effect_call_item:
  "call_id \<noteq> [] \<Longrightarrow> name \<noteq> [] \<Longrightarrow>
   is_ok (item_effect json_text k (call_item i call_id name arguments status))"
  by (simp add: call_item_def item_effect_def item_kind_def obj_str_def str_or_def Let_def
      convert_function_call_def non_empty_str_def)

lemma effect_search_item: "is_ok (item_effect json_text k (search_item (''ws_'' @ i) outcome))"
  by (simp add: search_item_def item_effect_def item_kind_def obj_str_def str_or_def Let_def
      convert_web_search_call_def non_empty_str_def)

definition named_call :: "tool_slot \<Rightarrow> bool" where
  "named_call slot \<longleftrightarrow> sl_call_id slot \<noteq> [] \<and> sl_name slot \<noteq> []"

lemma replayed_item_accepted:
  assumes "list_all search_listed (cv_items c)" and named: "list_all named_call (slots c)"
    and v: "v \<in> set (replayed_output c)"
  shows "is_ok (item_effect json_text k v)"
proof -
  obtain item where item: "item \<in> set (cv_items c)" "item_json c item = Some v"
    using v by (auto simp: replayed_output_def List.map_filter_def)
  then have listed: "search_listed item" using assms(1) by (simp add: list_all_iff)
  show ?thesis
  proof (cases item)
    case (ReasoningItem i)
    with item show ?thesis using effect_summary_item by (auto simp: item_json_def)
  next
    case (MessageItem i)
    with item show ?thesis using effect_message_item by (auto simp: item_json_def)
  next
    case (FunctionCallItem i)
    with item obtain slot where slot: "find (\<lambda>slot. sl_item_id slot = i) (slots c) = Some slot"
      "v = call_item (sl_item_id slot) (sl_call_id slot) (sl_name slot) (sl_arguments slot) ''completed''"
      by (auto simp: item_json_def)
    then have "slot \<in> set (slots c)" by (auto simp: find_Some_iff)
    with named have "named_call slot" by (simp add: list_all_iff)
    with slot(2) show ?thesis by (simp add: effect_call_item named_call_def)
  next
    case (WebSearchCallItem w)
    with item listed show ?thesis using effect_search_item by (auto simp: item_json_def search_listed_def)
  qed
qed

lemma says_in_layout: "Say m \<in> set (block @ es) \<Longrightarrow> m \<in> set (layout block es)"
proof (induction block es rule: layout.induct)
  have says: "Say m \<in> set es \<Longrightarrow> m \<in> set (says es)" for m es by (induction es rule: says.induct) auto
  case (1 block)
  then show ?case using says by (auto simp: block_messages_def flush_calls_def)
next
  have says: "Say m \<in> set es \<Longrightarrow> m \<in> set (says es)" for m es by (induction es rule: says.induct) auto
  case (2 block ms es)
  then show ?case using says by (auto simp: block_messages_def flush_calls_def)
qed auto

text \<open>C16. A client can send a finished turn back: when every tool call got its id and name, the output
  list of the terminal response converts together with the next user message. The assistant text
  and the user message are among the messages, and the calls announced upstream are exactly the
  calls and searches of the turn, with their ids and in their order.\<close>

theorem terminal_output_replayable:
  assumes c: "c = run_ops fresh ops (new_converter rid model expose server_names created)"
    and named: "list_all named_call (slots c)"
  shows "\<exists>messages. convert_input_items json_text (user_item s # replayed_output c) = Inr messages
    \<and> role_message ''user'' (JStr s) \<in> set messages
    \<and> (\<forall>i t. message_item i t \<in> set (replayed_output c) \<longrightarrow> t \<noteq> [] \<longrightarrow>
         role_message ''assistant'' (JStr t) \<in> set messages)
    \<and> concat (map announced_ids messages) = concat (map item_announces (replayed_output c))"
proof -
  let ?items = "user_item s # replayed_output c"
  have listed: "list_all search_listed (cv_items c)"
    using searches.lawful_run unfolding c searches.lawful_def by blast
  have "is_ok (item_effect json_text k v)" if "v \<in> set ?items" for k v
    using that effect_user_item replayed_item_accepted [OF listed named] by auto
  then have "is_ok (try_map (item_effect json_text) 0 ?items)" unfolding try_map_ok by (meson nth_mem)
  then obtain es where es: "try_map (item_effect json_text) 0 ?items = Inr es" by (auto simp: is_ok_iff)
  have effect: "\<exists>e \<in> set es. \<exists>k. item_effect json_text k v = Inr e" if "v \<in> set ?items" for v
  proof -
    from that obtain k where "k < length ?items" "?items ! k = v" by (metis in_set_conv_nth)
    with es show ?thesis by (metis try_map_Inr nth_mem)
  qed
  have user: "role_message ''user'' (JStr s) \<in> set (layout [] es)"
    using effect [of "user_item s"] says_in_layout [of _ "[]" es] by (auto simp: effect_user_item)
  have ok: "convert_input_items json_text ?items = Inr (layout [] es)"
    unfolding input_items_layout es using user by auto
  have "role_message ''assistant'' (JStr t) \<in> set (layout [] es)"
    if "message_item i t \<in> set (replayed_output c)" "t \<noteq> []" for i t
    using effect [of "message_item i t"] that says_in_layout [of _ "[]" es] by (auto simp: effect_message_item)
  moreover have "item_announces (user_item s) = []"
    by (simp add: item_announces_def user_item_def get_str_def)
  ultimately show ?thesis using ok user history_ids_preserved [OF ok] by auto
qed


text \<open>A turn with one tool call whose fragments arrive in one chunk.\<close>

definition called_once :: converter where
  "called_once =
     run_ops show_nat
       [FeedChunk (delta_chunk [(''tool_calls'', JArr [JObj [(''id'', JStr ''c''),
          (''function'', JObj [(''name'', JStr ''f'')])]])])]
       (new_converter ''resp'' ''m'' False [] 0)"

lemma called_once_slots: "map (\<lambda>slot. (sl_call_id slot, sl_name slot)) (slots called_once) = [(''c'', ''f'')]"
  by code_simp

theorem terminal_output_replayable_witness:
  "\<exists>messages. convert_input_items (\<lambda>_. ''{}'') (user_item ''u'' # replayed_output called_once) = Inr messages
    \<and> concat (map announced_ids messages) = concat (map item_announces (replayed_output called_once))"
proof -
  have "list_all named_call (slots called_once)"
    using called_once_slots by (auto simp: list_all_iff named_call_def map_eq_Cons_conv)
  from terminal_output_replayable [OF called_once_def this, of "\<lambda>_. ''{}''" "''u''"] show ?thesis by blast
qed

end
