(* ===== verification/Responses_Pump.thy ===== *)
theory Responses_Pump
  imports Responses_Turn Search_Loop Stream_Watch Reasoning_Shadow
begin

text \<open>
  \<open>src/responses_pump.rs\<close>: the task that turns one upstream chat stream into a Responses stream,
  and its non-streamed twin that aggregates. An event is one arm of the \<open>select!\<close>; the handler of an
  arm runs to its end before the next. \<open>pu_buffer\<close> holds the bytes after the last line feed. The
  outside world is \<open>pump_env\<close>: the JSON parser, the searches, and whether the request for the
  \<open>n\<close>-th continuation is answered (an error message otherwise). Clock readings are part of an event:
  the first of a chunk and the last one taken while its lines are handled. Summary counters that no
  decision reads (times, byte counts) are left out; keepalive comments carry no state.
\<close>

definition MAX_UPSTREAM_SSE_LINE_BYTES :: nat where
  "MAX_UPSTREAM_SSE_LINE_BYTES = 8 * 1024 * 1024"

datatype pump_mode = Streaming | Aggregating

datatype pump_failure =
    UnexpectedEnd
  | Interrupted
  | Stalled stall_kind
  | ContinuationFailed string

datatype pump_phase = Running | Finished | Failed pump_failure | Abandoned | PumpPanicked

record pump =
  pu_conv :: converter
  pu_watch :: stream_watch
  pu_buffer :: string
  pu_body :: json
  pu_rounds_left :: nat
  pu_sent :: nat
  pu_generation :: nat
  pu_searches :: nat
  pu_error :: bool
  pu_phase :: pump_phase

record pump_env =
  pe_fresh :: "nat \<Rightarrow> string"
  pe_parse :: "string \<Rightarrow> json option"
  pe_search :: "nat \<Rightarrow> string \<Rightarrow> search_outcome"
  pe_continue :: "nat \<Rightarrow> json \<Rightarrow> string option"
  pe_context :: "responses_search_context option"
  pe_connected :: "nat \<Rightarrow> bool"
  pe_timeouts :: stream_timeouts

datatype pump_event =
    Ping
  | ClientGone
  | Deadline instant
  | StreamEnd
  | ReadError
  | Chunk instant instant string

fun failure_message :: "pump_failure \<Rightarrow> string" where
  "failure_message UnexpectedEnd = ''upstream stream ended unexpectedly''"
| "failure_message Interrupted = ''upstream stream was interrupted''"
| "failure_message (Stalled kind) = stall_message kind"
| "failure_message (ContinuationFailed message) = message"

definition new_pump ::
  "pump_env \<Rightarrow> string \<Rightarrow> string \<Rightarrow> bool \<Rightarrow> nat \<Rightarrow> json \<Rightarrow> instant \<Rightarrow> pump" where
  "new_pump env response_id model expose created_at chat_body now =
     \<lparr>pu_conv = new_converter response_id model expose
        (case pe_context env of None \<Rightarrow> [] | Some _ \<Rightarrow> [FUNCTION_NAME]) created_at,
      pu_watch = new_watch (pe_timeouts env) now, pu_buffer = [], pu_body = chat_body,
      pu_rounds_left = (case pe_context env of None \<Rightarrow> 0 | Some config \<Rightarrow> rc_max_uses config),
      pu_sent = 0, pu_generation = 0, pu_searches = 0, pu_error = False, pu_phase = Running\<rparr>"

subsection \<open>Lines\<close>

definition is_blank :: "char \<Rightarrow> bool" where
  "is_blank c \<longleftrightarrow> byte c = 32 \<or> byte c = 9 \<or> byte c = 13"

definition trim_ascii :: "string \<Rightarrow> string" where
  "trim_ascii s = rev (dropWhile is_blank (rev (dropWhile is_blank s)))"

text \<open>The bytes up to the first line feed, and the bytes after it.\<close>

fun split_line :: "string \<Rightarrow> (string \<times> string) option" where
  "split_line [] = None"
| "split_line (c # s) =
     (if c = newline then Some ([], s) else map_option (\<lambda>(line, rest). (c # line, rest)) (split_line s))"

definition strip_data :: "string \<Rightarrow> string option" where
  "strip_data line = (if starts_with line ''data:'' then Some (drop 5 line) else None)"

subsection \<open>The end of a generation\<close>

text \<open>The streaming task tells the client; the aggregating one returns the error.\<close>

fun pump_fail :: "pump_mode \<Rightarrow> pump_failure \<Rightarrow> pump \<Rightarrow> pump" where
  "pump_fail Streaming failure p =
     p\<lparr>pu_conv := finish (Some (failure_message failure)) (pu_conv p), pu_error := True, pu_phase := Finished\<rparr>"
| "pump_fail Aggregating failure p = p\<lparr>pu_phase := Failed failure\<rparr>"

definition pump_complete :: "pump \<Rightarrow> pump" where
  "pump_complete p = p\<lparr>pu_conv := finish None (pu_conv p), pu_phase := Finished\<rparr>"

definition end_of_stream :: "pump_mode \<Rightarrow> pump \<Rightarrow> pump" where
  "end_of_stream mode p =
     (if cv_finish_reason (pu_conv p) = None then pump_fail mode UnexpectedEnd p else pump_complete p)"

definition server_round_due :: "pump \<Rightarrow> bool" where
  "server_round_due p \<longleftrightarrow>
     has_server_tools (pu_conv p) \<and> \<not> has_client_tools (pu_conv p) \<and> 0 < pu_rounds_left p"

text \<open>The streaming task sends the frames of the round before it continues; \<open>pe_connected env n\<close> says
  whether the client still takes those of the round after generation \<open>n\<close>.\<close>

definition run_server_round :: "pump_mode \<Rightarrow> pump_env \<Rightarrow> instant \<Rightarrow> pump \<Rightarrow> pump" where
  "run_server_round mode env now p =
     (case pe_context env of
        None \<Rightarrow> p\<lparr>pu_phase := PumpPanicked\<rparr>
      | Some config \<Rightarrow>
          let tcs = server_tool_calls (pu_conv p) in
          case execute_server_round (pe_parse env) (pe_search env) config tcs (pu_sent p) of
            (outcomes, _, sent) \<Rightarrow>
              (case emit_web_search_round (pe_fresh env) tcs outcomes (pu_conv p) of
                 (c, executed) \<Rightarrow>
                   let p1 = p\<lparr>pu_conv := c, pu_rounds_left := pu_rounds_left p - 1, pu_sent := sent,
                              pu_searches := sat_add64 (pu_searches p) executed\<rparr>
                   in case append_server_round (pu_body p) tcs outcomes of
                        None \<Rightarrow> p1\<lparr>pu_phase := PumpPanicked\<rparr>
                      | Some body \<Rightarrow>
                          let p2 = p1\<lparr>pu_conv := begin_new_upstream_round c, pu_body := body\<rparr>
                          in if mode = Streaming \<and> \<not> pe_connected env (pu_generation p)
                             then p2\<lparr>pu_phase := Abandoned\<rparr>
                             else case pe_continue env (pu_generation p) body of
                                 Some message \<Rightarrow> pump_fail mode (ContinuationFailed message) p2
                               | None \<Rightarrow> p2\<lparr>pu_watch := new_watch (pe_timeouts env) now, pu_buffer := [],
                                           pu_generation := Suc (pu_generation p)\<rparr>))"

fun on_done_line :: "pump_mode \<Rightarrow> pump_env \<Rightarrow> instant \<Rightarrow> pump \<Rightarrow> pump" where
  "on_done_line Streaming env now p =
     (if server_round_due p then run_server_round Streaming env now p else end_of_stream Streaming p)"
| "on_done_line Aggregating env now p =
     (if cv_finish_reason (pu_conv p) = None then pump_fail Aggregating UnexpectedEnd p
      else if server_round_due p then run_server_round Aggregating env now p
      else pump_complete p)"

subsection \<open>Events\<close>

text \<open>One line: whether the loop over the buffer goes on, and the state.\<close>

definition pump_line :: "pump_mode \<Rightarrow> pump_env \<Rightarrow> instant \<Rightarrow> string \<Rightarrow> pump \<Rightarrow> bool \<times> pump" where
  "pump_line mode env later raw p =
     (let line = trim_ascii raw in
      if line = [] then (True, p)
      else if MAX_UPSTREAM_SSE_LINE_BYTES < length line then (True, p)
      else
        let p1 = p\<lparr>pu_watch := on_sse_event (pu_watch p)\<rparr> in
        case strip_data line of
          None \<Rightarrow> (True, p1)
        | Some rest \<Rightarrow>
            let payload = trim_ascii rest in
            if payload = ''[DONE]'' then (False, on_done_line mode env later p1)
            else case pe_parse env payload of
                None \<Rightarrow> (True, p1)
              | Some chunk \<Rightarrow>
                  (case feed_chunk (pe_fresh env) chunk (pu_conv p1) of
                     (semantic, c) \<Rightarrow>
                       (True, p1\<lparr>pu_conv := c,
                          pu_watch := (if semantic then on_semantic later (pu_watch p1) else pu_watch p1)\<rparr>)))"

lemma split_line_length: "split_line s = Some (line, rest) \<Longrightarrow> length rest < length s"
  by (induction s arbitrary: line) (auto split: if_split_asm)

lemma pump_line_cases:
  assumes "pump_line mode env later raw p = (b, q)"
  obtains (stop) "\<not> b" "q = on_done_line mode env later (p\<lparr>pu_watch := on_sse_event (pu_watch p)\<rparr>)"
  | (skip) w where "b" "q = p\<lparr>pu_watch := w\<rparr>"
  | (feed) chunk w where "b" "q = p\<lparr>pu_conv := snd (feed_chunk (pe_fresh env) chunk (pu_conv p)), pu_watch := w\<rparr>"
proof -
  have "(\<not> b \<and> q = on_done_line mode env later (p\<lparr>pu_watch := on_sse_event (pu_watch p)\<rparr>))
      \<or> (b \<and> (q = p\<lparr>pu_watch := pu_watch p\<rparr> \<or> q = p\<lparr>pu_watch := on_sse_event (pu_watch p)\<rparr>))
      \<or> (b \<and> (\<exists>chunk w. q = p\<lparr>pu_conv := snd (feed_chunk (pe_fresh env) chunk (pu_conv p)), pu_watch := w\<rparr>))"
    using assms
    by (auto simp: pump_line_def Let_def split: if_split_asm option.splits prod.splits) (metis snd_conv)+
  then show ?thesis using that by blast
qed

lemma pump_line_buffer: "pump_line mode env later raw p = (True, q) \<Longrightarrow> pu_buffer q = pu_buffer p"
  by (auto simp: pump_line_def Let_def split: if_split_asm option.splits prod.splits)

function pump_lines :: "pump_mode \<Rightarrow> pump_env \<Rightarrow> instant \<Rightarrow> pump \<Rightarrow> pump" where
  "pump_lines mode env later p =
     (case split_line (pu_buffer p) of
        None \<Rightarrow> p
      | Some (raw, rest) \<Rightarrow>
          (case pump_line mode env later raw (p\<lparr>pu_buffer := rest\<rparr>) of
             (True, q) \<Rightarrow> pump_lines mode env later q
           | (False, q) \<Rightarrow> q))"
  by pat_completeness auto
termination pump_lines
proof (relation "measure (\<lambda>(mode, env, later, p). length (pu_buffer p))", goal_cases)
  case (2 mode env later p a raw rest b q)
  then show ?case
    using split_line_length [of "pu_buffer p" raw rest]
      pump_line_buffer [of mode env later raw "p\<lparr>pu_buffer := rest\<rparr>" q] by auto
qed simp

declare pump_lines.simps [simp del]

fun on_event :: "pump_mode \<Rightarrow> pump_env \<Rightarrow> pump_event \<Rightarrow> pump \<Rightarrow> pump" where
  "on_event mode env Ping p = p"
| "on_event mode env ClientGone p = (if mode = Streaming then p\<lparr>pu_phase := Abandoned\<rparr> else p)"
| "on_event mode env (Deadline now) p =
     (case check (pu_watch p) now of Some stall \<Rightarrow> pump_fail mode (Stalled stall) p | None \<Rightarrow> p)"
| "on_event mode env StreamEnd p = end_of_stream mode p"
| "on_event mode env ReadError p = pump_fail mode Interrupted p"
| "on_event mode env (Chunk now later bs) p =
     pump_lines mode env later
       (p\<lparr>pu_watch := on_upstream_bytes now (pu_watch p), pu_buffer := pu_buffer p @ bs\<rparr>)"

text \<open>The loop runs only while it is not done.\<close>

definition pump_step :: "pump_mode \<Rightarrow> pump_env \<Rightarrow> pump_event \<Rightarrow> pump \<Rightarrow> pump" where
  "pump_step mode env e p = (if pu_phase p = Running then on_event mode env e p else p)"

definition pump_run :: "pump_mode \<Rightarrow> pump_env \<Rightarrow> pump_event list \<Rightarrow> pump \<Rightarrow> pump" where
  "pump_run mode env es p = fold (pump_step mode env) es p"

text \<open>What a non-streamed request answers once the loop has ended.\<close>

definition aggregate_result :: "pump \<Rightarrow> (pump_failure + jmap) option" where
  "aggregate_result p =
     (case pu_phase p of
        Finished \<Rightarrow> Some (Inr (nonstream_response (pu_conv p)))
      | Failed failure \<Rightarrow> Some (Inl failure)
      | _ \<Rightarrow> None)"

definition openai_usage_shape :: "usage \<Rightarrow> json" where
  "openai_usage_shape u =
     (case u of (input, output, cached, reasoning) \<Rightarrow>
        JObj [(''prompt_tokens'', json_nat input), (''completion_tokens'', json_nat output),
              (''prompt_tokens_details'', JObj [(''cached_tokens'', json_nat cached)]),
              (''completion_tokens_details'', JObj [(''reasoning_tokens'', json_nat reasoning)])])"

definition commit_shadow ::
  "shadow_limits \<Rightarrow> (string \<Rightarrow> nat) \<Rightarrow> instant \<Rightarrow> instant \<Rightarrow> string option \<Rightarrow> converter
   \<Rightarrow> shadow_store \<Rightarrow> shadow_store" where
  "commit_shadow limits hash_id now later session c st =
     (case session of
        None \<Rightarrow> st
      | Some fp \<Rightarrow>
          (if cv_finish_reason c = Some ''tool_calls''
           then store_reasoning limits hash_id fp (tool_call_ids c) (reasoning_text c) now later st
           else if cv_finish_reason c \<noteq> None then clear_session fp st
           else st))"


subsection \<open>Cutting the stream into chunks\<close>

text \<open>Everything but the timers.\<close>

definition untimed :: "pump \<Rightarrow> pump" where
  "untimed p = p\<lparr>pu_watch := new_watch timeouts_disabled 0\<rparr>"

lemma untimed_watch [simp]: "untimed (p\<lparr>pu_watch := w\<rparr>) = untimed p"
  by (simp add: untimed_def)

lemma untimed_fields [simp]:
  "pu_conv (untimed p) = pu_conv p" "pu_buffer (untimed p) = pu_buffer p" "pu_body (untimed p) = pu_body p"
  "pu_rounds_left (untimed p) = pu_rounds_left p" "pu_sent (untimed p) = pu_sent p"
  "pu_generation (untimed p) = pu_generation p" "pu_searches (untimed p) = pu_searches p"
  "pu_error (untimed p) = pu_error p" "pu_phase (untimed p) = pu_phase p"
  by (simp_all add: untimed_def)

lemma untimed_eq:
  "untimed p = untimed q \<longleftrightarrow>
     pu_conv p = pu_conv q \<and> pu_buffer p = pu_buffer q \<and> pu_body p = pu_body q
     \<and> pu_rounds_left p = pu_rounds_left q \<and> pu_sent p = pu_sent q \<and> pu_generation p = pu_generation q
     \<and> pu_searches p = pu_searches q \<and> pu_error p = pu_error q \<and> pu_phase p = pu_phase q"
  by (cases p; cases q) (auto simp: untimed_def)

lemma untimed_fail: "untimed p = untimed q \<Longrightarrow> untimed (pump_fail mode f p) = untimed (pump_fail mode f q)"
  by (cases mode) (simp_all add: untimed_eq)

lemma untimed_end: "untimed p = untimed q \<Longrightarrow> untimed (end_of_stream mode p) = untimed (end_of_stream mode q)"
  using untimed_fail [of p q mode UnexpectedEnd]
  by (auto simp: end_of_stream_def pump_complete_def untimed_eq)

lemma untimed_round:
  assumes "untimed p = untimed q"
  shows "untimed (run_server_round mode env now p) = untimed (run_server_round mode env now' q)"
  using assms
  by (cases mode)
     (auto simp: run_server_round_def Let_def untimed_eq split: option.splits prod.splits)

lemma untimed_done_line:
  assumes "untimed p = untimed q"
  shows "untimed (on_done_line mode env now p) = untimed (on_done_line mode env now' q)"
proof -
  have "server_round_due p = server_round_due q" "cv_finish_reason (pu_conv p) = cv_finish_reason (pu_conv q)"
    using assms by (simp_all add: untimed_eq server_round_due_def)
  then show ?thesis
    using untimed_round [OF assms] untimed_end [OF assms] untimed_fail [OF assms] assms
    by (cases mode) (auto simp: pump_complete_def untimed_eq)
qed

lemma untimed_line:
  assumes "untimed p = untimed q"
  shows "fst (pump_line mode env l raw p) = fst (pump_line mode env l' raw q)
    \<and> untimed (snd (pump_line mode env l raw p)) = untimed (snd (pump_line mode env l' raw q))"
proof -
  have stop: "untimed (on_done_line mode env l (p\<lparr>pu_watch := v\<rparr>)) =
      untimed (on_done_line mode env l' (q\<lparr>pu_watch := w\<rparr>))" for v w
    by (rule untimed_done_line) (simp add: assms)
  have "pu_conv p = pu_conv q" using assms by (simp add: untimed_eq)
  moreover have "untimed (p\<lparr>pu_conv := c, pu_watch := v\<rparr>) = untimed (q\<lparr>pu_conv := c, pu_watch := w\<rparr>)" for c v w
    using assms by (simp add: untimed_eq)
  ultimately show ?thesis
    using assms stop
    by (simp add: pump_line_def Let_def split: option.split prod.split)
qed

lemma untimed_lines:
  "untimed p = untimed q \<Longrightarrow> untimed (pump_lines mode env l p) = untimed (pump_lines mode env l' q)"
proof (induction mode env l p arbitrary: q rule: pump_lines.induct)
  case (1 mode env l p)
  from "1.prems" have buffers: "pu_buffer q = pu_buffer p" by (simp add: untimed_eq)
  show ?case
  proof (cases "split_line (pu_buffer p)")
    case None
    then show ?thesis using "1.prems" buffers
      by (simp add: pump_lines.simps [of mode env l p] pump_lines.simps [of mode env l' q])
  next
    case (Some cut)
    obtain raw rest where cut: "cut = (raw, rest)" by force
    have same: "untimed (p\<lparr>pu_buffer := rest\<rparr>) = untimed (q\<lparr>pu_buffer := rest\<rparr>)"
      using "1.prems" by (simp add: untimed_eq)
    obtain b r where br: "pump_line mode env l raw (p\<lparr>pu_buffer := rest\<rparr>) = (b, r)" by force
    obtain r' where br': "pump_line mode env l' raw (q\<lparr>pu_buffer := rest\<rparr>) = (b, r')" and r: "untimed r = untimed r'"
      using untimed_line [OF same, of mode env l raw l'] br that
      by (cases "pump_line mode env l' raw (q\<lparr>pu_buffer := rest\<rparr>)") auto
    have p: "pump_lines mode env l p = (if b then pump_lines mode env l r else r)"
      unfolding pump_lines.simps [of mode env l p] by (simp add: Some cut br split: bool.split)
    have q: "pump_lines mode env l' q = (if b then pump_lines mode env l' r' else r')"
      unfolding pump_lines.simps [of mode env l' q] by (simp add: buffers Some cut br' split: bool.split)
    show ?thesis
    proof (cases b)
      case True
      have "untimed (pump_lines mode env l r) = untimed (pump_lines mode env l' r')"
        using True by (intro "1.IH" [OF Some cut [symmetric] br [symmetric] _ r]) simp
      with True show ?thesis unfolding p q by simp
    next
      case False
      with r show ?thesis unfolding p q by simp
    qed
  qed
qed


text \<open>The loop over a buffer to which bytes are added: it goes as before up to the point where the
  old buffer was exhausted, if the old one did not end the generation first.\<close>

definition same_generation :: "pump \<Rightarrow> pump \<Rightarrow> bool" where
  "same_generation p q \<longleftrightarrow> pu_phase q = Running \<and> pu_generation q = pu_generation p"

lemma split_line_append:
  "split_line (s @ t) =
     (case split_line s of
        Some (line, rest) \<Rightarrow> Some (line, rest @ t)
      | None \<Rightarrow> map_option (\<lambda>(line, rest). (s @ line, rest)) (split_line t))"
proof (induction s)
  case Nil
  then show ?case by (cases "split_line t") auto
next
  case (Cons c s)
  then show ?case by (cases "split_line t") (auto split: option.split)
qed

lemma pump_line_goes_on:
  "pump_line mode env l raw p = (True, q) \<Longrightarrow> pu_phase q = pu_phase p \<and> pu_generation q = pu_generation p"
  by (auto simp: pump_line_def Let_def split: if_split_asm option.splits prod.splits)

lemma fail_ends: "pu_phase (pump_fail mode f p) \<noteq> Running"
  by (cases mode) simp_all

lemma end_ends: "pu_phase (end_of_stream mode p) \<noteq> Running"
  by (simp add: end_of_stream_def fail_ends pump_complete_def)

lemma round_ends: "\<not> same_generation p (run_server_round mode env now p)"
  using fail_ends by (auto simp: same_generation_def run_server_round_def Let_def split: option.split prod.split)

lemma done_line_ends: "\<not> same_generation p (on_done_line mode env now p)"
  using round_ends [of p mode env now] end_ends [of mode p] fail_ends [of mode UnexpectedEnd p]
  by (cases mode) (auto simp: same_generation_def pump_complete_def)

lemma pump_line_stops:
  assumes "pump_line mode env l raw p = (False, q)"
  shows "\<not> same_generation p q"
proof -
  from assms have "q = on_done_line mode env l (p\<lparr>pu_watch := on_sse_event (pu_watch p)\<rparr>)"
    by (auto simp: pump_line_def Let_def split: if_split_asm option.splits prod.splits)
  then show ?thesis
    using done_line_ends [of "p\<lparr>pu_watch := on_sse_event (pu_watch p)\<rparr>" mode env l]
    by (simp add: same_generation_def)
qed

text \<open>The line handlers leave the buffer alone, up to the reset of a new generation.\<close>

lemma fail_buffer: "pump_fail mode f (p\<lparr>pu_buffer := b\<rparr>) = (pump_fail mode f p)\<lparr>pu_buffer := b\<rparr>"
  by (cases mode) simp_all

lemma end_buffer: "end_of_stream mode (p\<lparr>pu_buffer := b\<rparr>) = (end_of_stream mode p)\<lparr>pu_buffer := b\<rparr>"
  by (simp add: end_of_stream_def fail_buffer pump_complete_def)

text \<open>States that agree once their loops have ended: the bytes left over do not matter then.\<close>

definition settled :: "pump \<Rightarrow> pump" where
  "settled p = (if pu_phase p = Running then untimed p else untimed (p\<lparr>pu_buffer := []\<rparr>))"

lemma settled_untimed: "untimed p = untimed q \<Longrightarrow> settled p = settled q"
  by (auto simp: settled_def untimed_eq)

lemma settled_fail: "settled (pump_fail mode f (p\<lparr>pu_buffer := b\<rparr>)) = settled (pump_fail mode f p)"
  using fail_ends [of mode f p] fail_ends [of mode f "p\<lparr>pu_buffer := b\<rparr>"]
  by (simp add: settled_def fail_buffer)

lemma settled_end: "settled (end_of_stream mode (p\<lparr>pu_buffer := b\<rparr>)) = settled (end_of_stream mode p)"
  using end_ends [of mode p] by (simp add: settled_def end_buffer)

lemma settled_round:
  assumes "pu_phase p = Running"
  shows "settled (run_server_round mode env now (p\<lparr>pu_buffer := b\<rparr>)) = settled (run_server_round mode env now p)"
  using assms
  by (cases mode)
     (auto simp: run_server_round_def Let_def settled_def untimed_eq split: option.split prod.split)

lemma settled_done_line:
  "pu_phase p = Running \<Longrightarrow>
   settled (on_done_line mode env now (p\<lparr>pu_buffer := b\<rparr>)) = settled (on_done_line mode env now p)"
proof -
  assume running: "pu_phase p = Running"
  have due: "server_round_due (p\<lparr>pu_buffer := b\<rparr>) = server_round_due p" by (simp add: server_round_due_def)
  have complete: "settled (pump_complete (p\<lparr>pu_buffer := b\<rparr>)) = settled (pump_complete p)"
    by (simp add: pump_complete_def settled_def untimed_eq)
  have reason: "cv_finish_reason (pu_conv (p\<lparr>pu_buffer := b\<rparr>)) = cv_finish_reason (pu_conv p)" by simp
  show ?thesis
    by (cases mode) (simp_all only: on_done_line.simps due complete reason settled_round [OF running]
        settled_end settled_fail split: if_split, auto)
qed

lemma pump_line_more:
  assumes line: "pump_line mode env l raw p = (b, q)" and running: "pu_phase p = Running"
  shows "\<exists>q'. pump_line mode env l' raw (p\<lparr>pu_buffer := buf\<rparr>) = (b, q')
    \<and> (if b then untimed q' = untimed (q\<lparr>pu_buffer := buf\<rparr>) else settled q' = settled q)"
proof -
  let ?p = "p\<lparr>pu_buffer := buf\<rparr>"
  define p1 where "p1 = p\<lparr>pu_watch := on_sse_event (pu_watch p)\<rparr>"
  have "untimed (p1\<lparr>pu_buffer := buf\<rparr>) = untimed (?p\<lparr>pu_watch := w\<rparr>)" for w
    by (simp add: p1_def untimed_eq)
  then have "settled (on_done_line mode env l' (?p\<lparr>pu_watch := w\<rparr>))
      = settled (on_done_line mode env l (p1\<lparr>pu_buffer := buf\<rparr>))" for w
    by (metis settled_untimed untimed_done_line)
  then have stop: "settled (on_done_line mode env l' (?p\<lparr>pu_watch := w\<rparr>)) = settled (on_done_line mode env l p1)" for w
    using settled_done_line [of p1 mode env l buf] running by (simp add: p1_def)
  show ?thesis
  proof (cases b)
    case True
    then show ?thesis using line
      by (auto simp: pump_line_def Let_def untimed_eq split: if_split_asm option.splits prod.splits)
  next
    case False
    then have "q = on_done_line mode env l p1"
      using line by (auto simp: pump_line_def Let_def p1_def split: if_split_asm option.splits prod.splits)
    moreover have "pump_line mode env l' raw ?p
        = (False, on_done_line mode env l' (?p\<lparr>pu_watch := on_sse_event (pu_watch p)\<rparr>))"
      using line False by (auto simp: pump_line_def Let_def split: if_split_asm option.splits prod.splits)
    ultimately show ?thesis using False stop by simp
  qed
qed

lemma pump_lines_append:
  assumes "pu_phase p = Running"
  shows "if same_generation p (pump_lines mode env l p)
    then untimed (pump_lines mode env l' (p\<lparr>pu_buffer := pu_buffer p @ bs\<rparr>))
           = untimed (pump_lines mode env l'
               ((pump_lines mode env l p)\<lparr>pu_buffer := pu_buffer (pump_lines mode env l p) @ bs\<rparr>))
    else settled (pump_lines mode env l' (p\<lparr>pu_buffer := pu_buffer p @ bs\<rparr>)) = settled (pump_lines mode env l p)"
  using assms
proof (induction mode env l p rule: pump_lines.induct)
  case (1 mode env l p)
  let ?longer = "p\<lparr>pu_buffer := pu_buffer p @ bs\<rparr>"
  show ?case
  proof (cases "split_line (pu_buffer p)")
    case None
    then show ?thesis using "1.prems" by (simp add: pump_lines.simps [of mode env l p] same_generation_def)
  next
    case (Some cut)
    obtain raw rest where cut: "cut = (raw, rest)" by force
    let ?p = "p\<lparr>pu_buffer := rest\<rparr>"
    obtain b q where bq: "pump_line mode env l raw ?p = (b, q)" by force
    obtain q' where bq': "pump_line mode env l' raw (p\<lparr>pu_buffer := rest @ bs\<rparr>) = (b, q')"
      and q': "if b then untimed q' = untimed (q\<lparr>pu_buffer := rest @ bs\<rparr>) else settled q' = settled q"
      using pump_line_more [OF bq, of l' "rest @ bs"] "1.prems" by auto
    have p: "pump_lines mode env l p = (if b then pump_lines mode env l q else q)"
      unfolding pump_lines.simps [of mode env l p] by (simp add: Some cut bq split: bool.split)
    have longer: "pump_lines mode env l' ?longer = (if b then pump_lines mode env l' q' else q')"
      unfolding pump_lines.simps [of mode env l' ?longer]
      by (simp add: split_line_append Some cut bq' split: bool.split)
    show ?thesis
    proof (cases b)
      case True
      have buffer: "pu_buffer q = rest" using pump_line_buffer [of mode env l raw ?p q] bq True by simp
      have q: "pu_phase q = Running" "pu_generation q = pu_generation p"
        using pump_line_goes_on [of mode env l raw ?p q] bq True "1.prems" by simp_all
      then have gen: "same_generation p r = same_generation q r" for r by (simp add: same_generation_def)
      have "untimed q' = untimed (q\<lparr>pu_buffer := pu_buffer q @ bs\<rparr>)" using q' True buffer by simp
      then have "untimed (pump_lines mode env l' q') = untimed (pump_lines mode env l' (q\<lparr>pu_buffer := pu_buffer q @ bs\<rparr>))"
        by (rule untimed_lines)
      note same = this settled_untimed [OF this]
      note IH = "1.IH" [OF Some cut [symmetric] bq [symmetric] _ q(1)]
      have p: "pump_lines mode env l p = pump_lines mode env l q" and longer: "pump_lines mode env l' ?longer = pump_lines mode env l' q'"
        using p longer True by simp_all
      show ?thesis
        unfolding p longer gen same using IH True by blast
    next
      case False
      then have "\<not> same_generation p q" using pump_line_stops [of mode env l raw ?p q] bq by (simp add: same_generation_def)
      with False q' show ?thesis unfolding p longer by simp
    qed
  qed
qed


lemma pump_lines_drained:
  "pu_phase p = Running \<Longrightarrow> same_generation p (pump_lines mode env l p) \<Longrightarrow>
   split_line (pu_buffer (pump_lines mode env l p)) = None"
proof (induction mode env l p rule: pump_lines.induct)
  case (1 mode env l p)
  show ?case
  proof (cases "split_line (pu_buffer p)")
    case None
    then show ?thesis by (simp add: pump_lines.simps [of mode env l p])
  next
    case (Some cut)
    obtain raw rest where cut: "cut = (raw, rest)" by force
    obtain b q where bq: "pump_line mode env l raw (p\<lparr>pu_buffer := rest\<rparr>) = (b, q)" by force
    have p: "pump_lines mode env l p = (if b then pump_lines mode env l q else q)"
      unfolding pump_lines.simps [of mode env l p] by (simp add: Some cut bq split: bool.split)
    show ?thesis
    proof (cases b)
      case True
      have "pu_phase q = Running" "pu_generation q = pu_generation p"
        using pump_line_goes_on [of mode env l raw "p\<lparr>pu_buffer := rest\<rparr>" q] bq True "1.prems"(1) by simp_all
      then show ?thesis using "1.IH" [OF Some cut [symmetric] bq [symmetric]] True "1.prems"(2)
        by (simp add: p same_generation_def)
    next
      case False
      then show ?thesis using pump_line_stops [of mode env l raw "p\<lparr>pu_buffer := rest\<rparr>" q] bq "1.prems"(2)
        by (simp add: p same_generation_def)
    qed
  qed
qed

text \<open>The chunks of one upstream response. Once the generation has ended, the bytes left are not
  read: the task has finished or reads the next response.\<close>

fun feed_response ::
  "pump_mode \<Rightarrow> pump_env \<Rightarrow> (instant \<times> instant \<times> string) list \<Rightarrow> pump \<Rightarrow> pump" where
  "feed_response mode env [] p = p"
| "feed_response mode env ((now, later, bs) # chunks) p =
     (let q = pump_step mode env (Chunk now later bs) p
      in if same_generation p q then feed_response mode env chunks q else q)"

abbreviation chunk_bytes :: "(instant \<times> instant \<times> string) list \<Rightarrow> string" where
  "chunk_bytes chunks \<equiv> concat (map (snd \<circ> snd) chunks)"

lemma feed_response_bytes:
  "pu_phase p = Running \<Longrightarrow> split_line (pu_buffer p) = None \<Longrightarrow>
   settled (feed_response mode env chunks p)
     = settled (pump_lines mode env l (p\<lparr>pu_buffer := pu_buffer p @ chunk_bytes chunks\<rparr>))"
proof (induction chunks arbitrary: p)
  case Nil
  then show ?case by (simp add: pump_lines.simps)
next
  case (Cons chunk chunks)
  obtain now later bs where chunk: "chunk = (now, later, bs)" by (cases chunk)
  define p1 where "p1 = p\<lparr>pu_watch := on_upstream_bytes now (pu_watch p), pu_buffer := pu_buffer p @ bs\<rparr>"
  define q where "q = pump_lines mode env later p1"
  have running: "pu_phase p1 = Running" using Cons.prems by (simp add: p1_def)
  have step: "pump_step mode env (Chunk now later bs) p = q" using Cons.prems by (simp add: pump_step_def p1_def q_def)
  have gen: "same_generation p r = same_generation p1 r" for r by (simp add: same_generation_def p1_def)
  let ?rest = "chunk_bytes chunks"
  have "untimed (p\<lparr>pu_buffer := pu_buffer p @ chunk_bytes (chunk # chunks)\<rparr>)
      = untimed (p1\<lparr>pu_buffer := pu_buffer p1 @ ?rest\<rparr>)"
    by (simp add: untimed_eq p1_def chunk)
  then have all: "settled (pump_lines mode env l (p\<lparr>pu_buffer := pu_buffer p @ chunk_bytes (chunk # chunks)\<rparr>))
      = settled (pump_lines mode env l (p1\<lparr>pu_buffer := pu_buffer p1 @ ?rest\<rparr>))"
    by (metis settled_untimed untimed_lines)
  note append = pump_lines_append [OF running, of mode env later l ?rest, folded q_def]
  show ?case
  proof (cases "same_generation p1 q")
    case True
    then have "pu_phase q = Running" by (simp add: same_generation_def)
    moreover have "split_line (pu_buffer q) = None"
      using pump_lines_drained [OF running] True unfolding q_def by blast
    ultimately have "settled (feed_response mode env chunks q)
        = settled (pump_lines mode env l (q\<lparr>pu_buffer := pu_buffer q @ ?rest\<rparr>))" by (rule Cons.IH)
    moreover have "settled (pump_lines mode env l (p1\<lparr>pu_buffer := pu_buffer p1 @ ?rest\<rparr>))
        = settled (pump_lines mode env l (q\<lparr>pu_buffer := pu_buffer q @ ?rest\<rparr>))"
      using append True by (intro settled_untimed) simp
    moreover have "feed_response mode env (chunk # chunks) p = feed_response mode env chunks q"
      using True by (simp add: chunk step gen)
    ultimately show ?thesis unfolding all by simp
  next
    case False
    moreover have "feed_response mode env (chunk # chunks) p = q"
      using False by (simp add: chunk step gen)
    ultimately show ?thesis unfolding all using append by simp
  qed
qed

text \<open>An upstream that sends one line, parsed as \<open>chunk\<close>.\<close>

definition demo_pump_env :: "json \<Rightarrow> pump_env" where
  "demo_pump_env chunk =
     \<lparr>pe_fresh = show_nat, pe_parse = (\<lambda>_. Some chunk),
      pe_search = (\<lambda>_ q. search_failed q Unavailable), pe_continue = (\<lambda>_ _. None),
      pe_context = None, pe_connected = (\<lambda>_. True),
      pe_timeouts = timeouts_disabled\<rparr>"

definition demo_start :: "json \<Rightarrow> pump" where
  "demo_start chunk = new_pump (demo_pump_env chunk) ''r'' ''m'' False 0 JNull 0"

text \<open>C11. How the network cuts an upstream response into chunks does not matter. From a state with no
  full line in its buffer, two sequences of chunks with the same bytes lead to the same frames, the
  same requests and the same phase, whatever their times; only the timers and, after the end, the
  bytes left over may differ.\<close>

theorem chunking_irrelevant:
  assumes "pu_phase p = Running" and "split_line (pu_buffer p) = None"
    and "chunk_bytes chunks = chunk_bytes chunks'"
  shows "settled (feed_response mode env chunks p) = settled (feed_response mode env chunks' p)"
  using feed_response_bytes [OF assms(1,2), of mode env chunks 0]
    feed_response_bytes [OF assms(1,2), of mode env chunks' 0] assms(3) by simp

theorem chunking_irrelevant_witness:
  "settled (feed_response Streaming (demo_pump_env JNull) [(0, 0, ''data:''), (5, 7, ''x'' @ [newline])]
      (demo_start JNull))
   = settled (feed_response Streaming (demo_pump_env JNull) [(3, 4, ''data:x'' @ [newline])]
      (demo_start JNull))"
  by (rule chunking_irrelevant) (simp_all add: demo_start_def new_pump_def)

end
