(* ===== verification/Responses_Outcome.thy ===== *)
theory Responses_Outcome
  imports Responses_Pump
begin

text \<open>
  What a Responses request promises over its whole life, whatever the upstream sends: how its stream
  ends, that no announced call is lost across search rounds, how many rounds it can take, and that
  the aggregated answer is the one the stream would have carried.
\<close>

subsection \<open>Invariants of the loop\<close>

text \<open>A property of the task that every arm of the loop keeps, one handler at a time.\<close>

locale pump_invariant =
  fixes mode :: pump_mode
    and env :: pump_env
    and holds :: "pump \<Rightarrow> bool"
  assumes holds_quiet: "holds p \<Longrightarrow> pu_phase p = Running \<Longrightarrow> holds (p\<lparr>pu_watch := w, pu_buffer := b\<rparr>)"
    and holds_feed: "holds p \<Longrightarrow> pu_phase p = Running \<Longrightarrow>
      holds (p\<lparr>pu_conv := snd (feed_chunk (pe_fresh env) chunk (pu_conv p))\<rparr>)"
    and holds_done: "holds p \<Longrightarrow> pu_phase p = Running \<Longrightarrow> holds (on_done_line mode env now p)"
    and holds_end: "holds p \<Longrightarrow> pu_phase p = Running \<Longrightarrow> holds (end_of_stream mode p)"
    and holds_fail: "holds p \<Longrightarrow> pu_phase p = Running \<Longrightarrow> holds (pump_fail mode f p)"
    and holds_gone: "holds p \<Longrightarrow> pu_phase p = Running \<Longrightarrow> holds (p\<lparr>pu_phase := Abandoned\<rparr>)"
begin

lemma holds_watch: "holds p \<Longrightarrow> pu_phase p = Running \<Longrightarrow> holds (p\<lparr>pu_watch := w\<rparr>)"
  using holds_quiet [of p "pu_buffer p" w] by simp

lemma holds_buffer: "holds p \<Longrightarrow> pu_phase p = Running \<Longrightarrow> holds (p\<lparr>pu_buffer := b\<rparr>)"
  using holds_quiet [of p b "pu_watch p"] by simp

lemma holds_line:
  assumes "holds p" "pu_phase p = Running" "pump_line mode env later raw p = (b, q)"
  shows "holds q \<and> (b \<longrightarrow> pu_phase q = Running)"
  using assms(3)
proof (cases rule: pump_line_cases)
  case stop
  then show ?thesis using holds_done holds_watch assms(1,2) by simp
next
  case (skip w)
  then show ?thesis using holds_watch assms(1,2) by simp
next
  case (feed chunk w)
  then show ?thesis
    using holds_watch [OF holds_feed [OF assms(1,2), of chunk], of w] assms(2) by simp
qed

lemma holds_lines: "holds p \<Longrightarrow> pu_phase p = Running \<Longrightarrow> holds (pump_lines mode env later p)"
proof (induction "length (pu_buffer p)" arbitrary: p rule: less_induct)
  case less
  show ?case
  proof (cases "split_line (pu_buffer p)")
    case None
    then show ?thesis using less.prems by (simp add: pump_lines.simps [of mode env later p])
  next
    case (Some cut)
    obtain raw rest where cut: "cut = (raw, rest)" by force
    obtain b q where bq: "pump_line mode env later raw (p\<lparr>pu_buffer := rest\<rparr>) = (b, q)" by force
    have q: "holds q \<and> (b \<longrightarrow> pu_phase q = Running)"
      using holds_line [OF holds_buffer [OF less.prems] _ bq] less.prems by simp
    have "b \<Longrightarrow> length (pu_buffer q) < length (pu_buffer p)"
      using pump_line_buffer [of mode env later raw "p\<lparr>pu_buffer := rest\<rparr>" q] bq Some cut split_line_length
      by fastforce
    then have "b \<Longrightarrow> holds (pump_lines mode env later q)" using less.hyps q by blast
    then show ?thesis
      unfolding pump_lines.simps [of mode env later p] using q
      by (simp add: Some cut bq split: bool.split)
  qed
qed

lemma holds_step: "holds p \<Longrightarrow> holds (pump_step mode env e p)"
proof (cases "pu_phase p = Running")
  case True
  assume p: "holds p"
  show ?thesis
  proof (cases e)
    case (Chunk now later bs)
    then show ?thesis using True p holds_lines holds_quiet by (simp add: pump_step_def)
  next
    case (Deadline now)
    then show ?thesis using True p holds_fail by (simp add: pump_step_def split: option.split)
  qed (use True p holds_fail holds_end holds_gone in \<open>simp_all add: pump_step_def\<close>)
qed (simp add: pump_step_def)

lemma holds_run: "holds p \<Longrightarrow> holds (pump_run mode env es p)"
  unfolding pump_run_def by (rule fold_inv [where P = holds]) (rule holds_step)

end

text \<open>A property of the converter: \<open>live\<close> while the loop runs, \<open>ended\<close> once it has been finished.\<close>

locale pump_law =
  fixes live :: "converter \<Rightarrow> bool"
    and ended :: "converter \<Rightarrow> bool"
  assumes live_feed: "live c \<Longrightarrow> live (snd (feed_chunk fresh chunk c))"
    and live_search: "live c \<Longrightarrow> live (fst (emit_web_search_round fresh tcs outcomes c))"
    and live_round: "live c \<Longrightarrow> \<not> has_client_tools c \<Longrightarrow> live (begin_new_upstream_round c)"
    and ended_fail: "live c \<Longrightarrow> ended (finish (Some message) c)"
    and ended_complete: "live c \<Longrightarrow> cv_finish_reason c \<noteq> None \<Longrightarrow> ended (finish None c)"
begin

definition law :: "pump \<Rightarrow> bool" where
  "law p \<longleftrightarrow> (if pu_phase p = Finished then ended (pu_conv p) else live (pu_conv p))"

lemma law_fail: "live (pu_conv p) \<Longrightarrow> law (pump_fail mode f p)"
  by (cases mode) (simp_all add: law_def ended_fail)

lemma law_end: "live (pu_conv p) \<Longrightarrow> law (end_of_stream mode p)"
  by (auto simp: end_of_stream_def law_fail) (simp add: law_def pump_complete_def ended_complete)

lemma has_client_tools_search: "has_client_tools (fst (emit_web_search_round fresh tcs outcomes c)) = has_client_tools c"
proof -
  have "slots (fold (emit_search fresh) os c) = slots c" for os
    by (induction os arbitrary: c) (simp_all add: emit_search_def slots_def Let_def)
  then show ?thesis by (simp add: has_client_tools_def emit_web_search_round_def)
qed

lemma law_round:
  assumes "live (pu_conv p)" "pu_phase p = Running" "server_round_due p"
  shows "law (run_server_round mode env now p)"
proof (cases "pe_context env")
  case None
  then show ?thesis using assms by (simp add: run_server_round_def law_def)
next
  case (Some config)
  let ?tcs = "server_tool_calls (pu_conv p)"
  obtain outcomes uses sent where run:
    "execute_server_round (pe_parse env) (pe_search env) config ?tcs (pu_sent p) = (outcomes, uses, sent)"
    by (metis prod_cases3)
  obtain c executed where c: "emit_web_search_round (pe_fresh env) ?tcs outcomes (pu_conv p) = (c, executed)"
    by force
  have live: "live c" using live_search [OF assms(1), of "pe_fresh env" ?tcs outcomes] by (simp add: c)
  have "\<not> has_client_tools c"
    using has_client_tools_search [of "pe_fresh env" ?tcs outcomes "pu_conv p"] assms(3)
    by (simp add: c server_round_due_def)
  then have next_round: "live (begin_new_upstream_round c)" by (rule live_round [OF live])
  show ?thesis
    using live next_round assms(2) law_fail
    by (auto simp: run_server_round_def Some run c Let_def law_def [of "_\<lparr>pu_phase := _\<rparr>"]
        law_def [of "_\<lparr>pu_generation := _\<rparr>"] split: option.split)
qed

lemma law_done_line:
  "live (pu_conv p) \<Longrightarrow> pu_phase p = Running \<Longrightarrow> law (on_done_line mode env now p)"
  using law_round [of p] law_end [of p] law_fail [of p] ended_complete [of "pu_conv p"]
  by (cases mode)
     (auto simp: law_def [of "pump_complete p"] law_def [of "p\<lparr>pu_conv := _, pu_phase := _\<rparr>"] pump_complete_def
        simp del: pump_fail.simps)

lemma law_running: "pu_phase p = Running \<Longrightarrow> law p = live (pu_conv p)"
  by (simp add: law_def)

end

sublocale pump_law \<subseteq> task: pump_invariant mode env law for mode env
  by unfold_locales (simp_all add: law_running law_done_line law_end law_fail live_feed, simp add: law_def)

subsection \<open>How a stream ends\<close>

definition unended :: "converter \<Rightarrow> bool" where
  "unended c \<longleftrightarrow> list_all (\<lambda>f. \<not> terminal f) (frames c)"

definition ended_once :: "converter \<Rightarrow> bool" where
  "ended_once c \<longleftrightarrow>
     (\<exists>fs f. frames c = fs @ [f] \<and> terminal f \<and> list_all (\<lambda>f. \<not> terminal f) fs
        \<and> ((\<forall>r. f \<noteq> ResponseFailed r) \<longrightarrow> cv_finish_reason c \<noteq> None))"

lemma unended_lawful: "unended c = quiet.lawful c"
  by (simp add: unended_def quiet.lawful_def list_all_iff)

lemma ended_once_finish:
  assumes "unended c" and "error = None \<Longrightarrow> cv_finish_reason c \<noteq> None"
  shows "ended_once (finish error c)"
proof -
  obtain d f where "finish error c = emit f d" "terminal f" "quiet.lawful d"
      "error \<noteq> None \<longleftrightarrow> (\<exists>r. f = ResponseFailed r)"
    using quiet.lawful_finish [OF assms(1) [unfolded unended_lawful], of error] by (elim exE conjE) (rule that)
  then have "frames (finish error c) = frames d @ [f]" "list_all (\<lambda>f. \<not> terminal f) (frames d)"
      and failed: "error \<noteq> None \<longleftrightarrow> (\<exists>r. f = ResponseFailed r)"
    by (simp_all add: quiet.lawful_def)
  moreover have "(\<forall>r. f \<noteq> ResponseFailed r) \<longrightarrow> cv_finish_reason (finish error c) \<noteq> None"
    using failed assms(2) by (cases error) (auto simp del: not_None_eq)
  ultimately show ?thesis
    using \<open>terminal f\<close> unfolding ended_once_def by (intro exI [of _ "frames d"] exI [of _ f] conjI)
qed

interpretation ending: pump_law unended ended_once
proof
  fix c assume "unended c"
  then show "unended (snd (feed_chunk fresh chunk c))" "unended (fst (emit_web_search_round fresh tcs outcomes c))"
    "unended (begin_new_upstream_round c)" for fresh chunk tcs outcomes
    unfolding unended_lawful
    by (fact quiet.lawful_feed_chunk quiet.lawful_search_round quiet.lawful_new_round)+
qed (rule ended_once_finish; simp)+

text \<open>Where the finish reason comes from. A line can set it only by carrying a chunk with one, and a new
  generation starts without one.\<close>

definition gives_reason :: "json \<Rightarrow> bool" where
  "gives_reason chunk \<longleftrightarrow>
     (\<exists>vs v. Option.bind (json_get chunk ''choices'') as_array = Some vs \<and> v \<in> set vs
        \<and> get_str v ''finish_reason'' \<noteq> None)"

lemma reason_kept [simp]:
  "cv_finish_reason (emit f c) = cv_finish_reason c" "cv_finish_reason (ensure_started c) = cv_finish_reason c"
  "cv_finish_reason (feed_reasoning fresh r c) = cv_finish_reason c"
  "cv_finish_reason (feed_text fresh t c) = cv_finish_reason c"
  "cv_finish_reason (close_message_item c) = cv_finish_reason c"
  "cv_finish_reason (ensure_tool_item_added fresh v c) = cv_finish_reason c"
  "cv_finish_reason (feed_tool_call_arguments v c) = cv_finish_reason c"
  "cv_finish_reason (note_chunk chunk c) = cv_finish_reason c"
  by (simp_all add: emit_def ensure_started_def feed_reasoning_def need_reasoning_def feed_text_def need_message_def
      close_message_item_def ensure_tool_item_added_def feed_tool_call_arguments_def note_chunk_def Let_def
      split: option.split)

lemma reason_delta: "cv_finish_reason (snd (feed_delta fresh delta (semantic, c))) = cv_finish_reason c"
proof -
  have folds: "cv_finish_reason (fold feed_tool_call_arguments vs d) = cv_finish_reason d"
    "cv_finish_reason (fold (ensure_tool_item_added fresh) vs d) = cv_finish_reason d" for vs d
    by (induction vs arbitrary: d) simp_all
  show ?thesis by (simp add: feed_delta_def Let_def folds split: option.split)
qed

lemma reason_choice:
  "get_str v ''finish_reason'' = None \<Longrightarrow>
     cv_finish_reason (snd (feed_choice fresh v (semantic, c))) = cv_finish_reason c"
  by (simp add: feed_choice_def Let_def reason_delta split: option.split)

lemma reason_choices:
  "\<forall>v \<in> set vs. get_str v ''finish_reason'' = None \<Longrightarrow>
     cv_finish_reason (snd (fold (feed_choice fresh) vs sc)) = cv_finish_reason (snd sc)"
proof (induction vs arbitrary: sc)
  case (Cons v vs)
  then show ?case by (cases sc) (simp add: reason_choice)
qed simp

lemma reason_chunk:
  "\<not> gives_reason chunk \<Longrightarrow> cv_finish_reason (snd (feed_chunk fresh chunk c)) = cv_finish_reason c"
  by (auto simp: feed_chunk_def gives_reason_def Let_def reason_choices split: option.split)

lemma reason_round:
  assumes "pu_generation (run_server_round mode env now p) \<noteq> pu_generation p"
  shows "cv_finish_reason (pu_conv (run_server_round mode env now p)) = None"
proof -
  have "pu_generation (pump_fail mode f q) = pu_generation q" for f q by (cases mode) simp_all
  then show ?thesis using assms
    by (auto simp: run_server_round_def Let_def begin_new_upstream_round_def split: option.splits prod.splits if_split_asm)
qed

lemma fail_generation [simp]: "pu_generation (pump_fail mode f p) = pu_generation p"
  by (cases mode) simp_all

lemma end_generation [simp]: "pu_generation (end_of_stream mode p) = pu_generation p"
  by (simp add: end_of_stream_def pump_complete_def)

text \<open>A payload stands in a complete \<open>data:\<close> line of the bytes.\<close>

definition carries :: "string \<Rightarrow> string \<Rightarrow> bool" where
  "carries bytes payload \<longleftrightarrow>
     (\<exists>before raw behind rest. bytes = before @ raw @ newline # behind \<and> newline \<notin> set raw
        \<and> strip_data (trim_ascii raw) = Some rest \<and> payload = trim_ascii rest)"

lemma split_line_parts: "split_line s = Some (raw, rest) \<Longrightarrow> s = raw @ newline # rest \<and> newline \<notin> set raw"
  by (induction s arbitrary: raw) (auto split: if_split_asm)

lemma carries_rest: "split_line s = Some (raw, rest) \<Longrightarrow> carries rest payload \<Longrightarrow> carries s payload"
  unfolding carries_def by (drule split_line_parts) (metis append_Cons append_assoc)

lemma carries_first:
  "split_line s = Some (raw, rest) \<Longrightarrow> strip_data (trim_ascii raw) = Some v \<Longrightarrow> carries s (trim_ascii v)"
  unfolding carries_def by (drule split_line_parts) (metis append_Nil)

text \<open>What one step does to the generation and to the finish reason.\<close>

definition reason_origin :: "pump_env \<Rightarrow> string \<Rightarrow> pump \<Rightarrow> pump \<Rightarrow> bool" where
  "reason_origin env bytes p q \<longleftrightarrow>
     (if pu_generation q \<noteq> pu_generation p then cv_finish_reason (pu_conv q) = None
      else cv_finish_reason (pu_conv q) \<in> {None, cv_finish_reason (pu_conv p)}
        \<or> (\<exists>payload chunk. carries bytes payload \<and> pe_parse env payload = Some chunk \<and> gives_reason chunk))"

lemma origin_done: "reason_origin env bytes p (on_done_line mode env now p)"
proof -
  have fail: "cv_finish_reason (pu_conv (pump_fail mode f q)) = cv_finish_reason (pu_conv q)" for mode f q
    by (cases mode) simp_all
  have over: "reason_origin env bytes p (end_of_stream mode p)" "reason_origin env bytes p (pump_fail mode f p)"
      "reason_origin env bytes p (pump_complete p)" for f mode
    by (simp_all add: reason_origin_def end_of_stream_def pump_complete_def fail)
  have round: "reason_origin env bytes p (run_server_round mode env now p)"
  proof (cases "pu_generation (run_server_round mode env now p) = pu_generation p")
    case True
    have "cv_finish_reason (pu_conv (run_server_round mode env now p)) \<in> {None, cv_finish_reason (pu_conv p)}"
    proof -
      have search: "cv_finish_reason (fst (emit_web_search_round fresh tcs outcomes c)) = cv_finish_reason c"
        for fresh tcs outcomes c
      proof -
        have "cv_finish_reason (fold (emit_search fresh) os c) = cv_finish_reason c" for os
          by (induction os arbitrary: c) (simp_all add: emit_search_def Let_def)
        then show ?thesis by (simp add: emit_web_search_round_def)
      qed
      have "cv_finish_reason d = cv_finish_reason (pu_conv p)"
        if "emit_web_search_round (pe_fresh env) (server_tool_calls (pu_conv p)) outcomes (pu_conv p) = (d, n)" for outcomes d n
        using search [of "pe_fresh env" "server_tool_calls (pu_conv p)" outcomes "pu_conv p"] that by simp
      then show ?thesis
        by (auto simp: run_server_round_def Let_def begin_new_upstream_round_def fail split: option.splits prod.splits)
    qed
    then show ?thesis using True by (simp add: reason_origin_def)
  next
    case False
    then show ?thesis using reason_round by (simp add: reason_origin_def)
  qed
  show ?thesis using over round by (cases mode) (simp_all del: pump_fail.simps)
qed

lemma origin_same:
  "pu_generation p' = pu_generation p \<Longrightarrow> cv_finish_reason (pu_conv p') = cv_finish_reason (pu_conv p) \<Longrightarrow>
     reason_origin env bytes p' q = reason_origin env bytes p q"
  by (simp only: reason_origin_def)

lemma origin_line:
  assumes "split_line bytes = Some (raw, rest)" and "pump_line mode env later raw p = (b, q)"
  shows "reason_origin env bytes p q \<and> (b \<longrightarrow> pu_generation q = pu_generation p)"
proof -
  note first = carries_first [OF assms(1)]
  have same: "reason_origin env bytes p (p\<lparr>pu_watch := w\<rparr>)" for w by (simp add: reason_origin_def)
  have stop: "reason_origin env bytes p (on_done_line mode env later (p\<lparr>pu_watch := w\<rparr>))" for w
    using origin_done [of env bytes "p\<lparr>pu_watch := w\<rparr>" mode later] origin_same [of "p\<lparr>pu_watch := w\<rparr>" p env bytes] by simp
  have feed: "reason_origin env bytes p (p\<lparr>pu_conv := c, pu_watch := w\<rparr>)"
    if "strip_data (trim_ascii raw) = Some v" "pe_parse env (trim_ascii v) = Some chunk"
      "feed_chunk (pe_fresh env) chunk (pu_conv p) = (semantic, c)" for v chunk semantic c w
  proof (cases "gives_reason chunk")
    case True
    then show ?thesis using that first by (auto simp: reason_origin_def)
  next
    case False
    then show ?thesis using reason_chunk [OF False, of "pe_fresh env" "pu_conv p"] that(3) by (simp add: reason_origin_def)
  qed
  show ?thesis using assms(2) same [of "pu_watch p"] same stop feed
    by (auto simp: pump_line_def Let_def simp del: on_done_line.simps split: if_split_asm option.splits prod.splits)
qed

lemma origin_more: "reason_origin env bytes p q \<Longrightarrow> (\<And>x. carries bytes x \<Longrightarrow> carries longer x) \<Longrightarrow> reason_origin env longer p q"
  by (auto simp: reason_origin_def split: if_split_asm)

lemma origin_trans:
  "reason_origin env bytes p q \<Longrightarrow> pu_generation q = pu_generation p \<Longrightarrow> reason_origin env bytes q r \<Longrightarrow>
     reason_origin env bytes p r"
  by (auto simp: reason_origin_def split: if_split_asm)

lemma origin_lines: "reason_origin env (pu_buffer p) p (pump_lines mode env later p)"
proof (induction "length (pu_buffer p)" arbitrary: p rule: less_induct)
  case less
  show ?case
  proof (cases "split_line (pu_buffer p)")
    case None
    then show ?thesis by (simp add: pump_lines.simps [of mode env later p] reason_origin_def)
  next
    case (Some cut)
    obtain raw rest where cut: "cut = (raw, rest)" by force
    note split = Some [unfolded cut]
    obtain b q where bq: "pump_line mode env later raw (p\<lparr>pu_buffer := rest\<rparr>) = (b, q)" by force
    have q: "reason_origin env (pu_buffer p) p q" "b \<Longrightarrow> pu_generation q = pu_generation p"
      using origin_line [OF split bq] origin_same [of "p\<lparr>pu_buffer := rest\<rparr>" p env "pu_buffer p"] by simp_all
    have lines: "pump_lines mode env later p = (if b then pump_lines mode env later q else q)"
      by (simp add: pump_lines.simps [of mode env later p] split bq split: bool.split)
    show ?thesis
    proof (cases b)
      case True
      then have buffer: "pu_buffer q = rest" using pump_line_buffer bq by fastforce
      then have "length (pu_buffer q) < length (pu_buffer p)" using split_line_length [OF split] by simp
      then have "reason_origin env rest q (pump_lines mode env later q)" using less.hyps buffer by metis
      then have "reason_origin env (pu_buffer p) q (pump_lines mode env later q)"
        by (rule origin_more) (rule carries_rest [OF split])
      then show ?thesis using origin_trans [OF q(1) q(2) [OF True]] lines True by simp
    next
      case False
      then show ?thesis using q(1) lines by simp
    qed
  qed
qed

lemma reason_step:
  assumes "cv_finish_reason (pu_conv (pump_step mode env e p)) \<noteq> None"
  shows "pu_generation (pump_step mode env e p) = pu_generation p \<and>
    (cv_finish_reason (pu_conv p) = None \<longrightarrow> pu_phase p = Running \<and>
      (\<exists>now later bs payload chunk. e = Chunk now later bs \<and> carries (pu_buffer p @ bs) payload
         \<and> pe_parse env payload = Some chunk \<and> gives_reason chunk))"
proof (cases "pu_phase p = Running")
  case True
  have fail: "cv_finish_reason (pu_conv (pump_fail mode f q)) = cv_finish_reason (pu_conv q)" for f q
    by (cases mode) simp_all
  show ?thesis
  proof (cases e)
    case (Chunk now later bs)
    let ?p = "p\<lparr>pu_watch := on_upstream_bytes now (pu_watch p), pu_buffer := pu_buffer p @ bs\<rparr>"
    have "pump_step mode env e p = pump_lines mode env later ?p" using True Chunk by (simp add: pump_step_def)
    then show ?thesis using origin_lines [of env ?p mode later] assms True Chunk
      by (auto simp: reason_origin_def split: if_split_asm)
  qed (use True assms fail in \<open>auto simp: pump_step_def end_of_stream_def pump_complete_def split: option.splits if_split_asm\<close>)
qed (use assms in \<open>simp add: pump_step_def\<close>)

lemma pump_run_snoc: "pump_run mode env (es @ [e]) p = pump_step mode env e (pump_run mode env es p)"
  by (simp add: pump_run_def)

definition reason_given :: "pump_mode \<Rightarrow> pump_env \<Rightarrow> pump \<Rightarrow> pump_event list \<Rightarrow> bool" where
  "reason_given mode env start es \<longleftrightarrow>
     (\<exists>es1 now later bs es2 payload chunk. es = es1 @ Chunk now later bs # es2
        \<and> pu_phase (pump_run mode env es1 start) = Running
        \<and> pu_generation (pump_run mode env es1 start) = pu_generation (pump_run mode env es start)
        \<and> carries (pu_buffer (pump_run mode env es1 start) @ bs) payload
        \<and> pe_parse env payload = Some chunk \<and> gives_reason chunk)"

lemma reason_was_given:
  assumes "cv_finish_reason (pu_conv start) = None"
  shows "cv_finish_reason (pu_conv (pump_run mode env es start)) \<noteq> None \<Longrightarrow> reason_given mode env start es"
proof (induction es rule: rev_induct)
  case Nil
  then show ?case using assms by (simp add: pump_run_def)
next
  case (snoc e es)
  let ?p = "pump_run mode env es start"
  have some: "cv_finish_reason (pu_conv (pump_step mode env e ?p)) \<noteq> None"
    using snoc.prems by (simp add: pump_run_snoc del: not_None_eq)
  note step = reason_step [OF some]
  show ?case
  proof (cases "cv_finish_reason (pu_conv ?p) = None")
    case True
    then obtain now later bs payload chunk where "e = Chunk now later bs" "carries (pu_buffer ?p @ bs) payload"
      "pe_parse env payload = Some chunk" "gives_reason chunk" "pu_phase ?p = Running" using step by blast
    then show ?thesis unfolding reason_given_def using step
      by (intro exI [of _ es] exI [of _ now] exI [of _ later] exI [of _ bs] exI [of _ "[]"] exI [of _ payload] exI [of _ chunk])
        (simp add: pump_run_snoc)
  next
    case False
    then have "reason_given mode env start es" using snoc.IH by simp
    then obtain es1 now later bs es2 payload chunk where "es = es1 @ Chunk now later bs # es2"
      and rest: "pu_phase (pump_run mode env es1 start) = Running"
        "pu_generation (pump_run mode env es1 start) = pu_generation ?p"
        "carries (pu_buffer (pump_run mode env es1 start) @ bs) payload"
        "pe_parse env payload = Some chunk" "gives_reason chunk"
      unfolding reason_given_def by blast
    then have "es @ [e] = es1 @ Chunk now later bs # (es2 @ [e])" by simp
    moreover have "pu_generation ?p = pu_generation (pump_run mode env (es @ [e]) start)"
      using step by (simp add: pump_run_snoc)
    ultimately show ?thesis using rest unfolding reason_given_def by metis
  qed
qed

text \<open>The event that ends a task; a task that an error ends writes \<open>response.failed\<close>.\<close>

lemma finished_step: "pu_phase p = Finished \<Longrightarrow> pump_step mode env e p = p"
  by (simp add: pump_step_def)

lemma failed_frame: "\<exists>r. last (frames (finish (Some message) c)) = ResponseFailed r"
  by (simp add: finish_def Let_def)

lemma fail_finishes:
  "pu_phase (pump_fail mode f p) = Finished \<Longrightarrow> \<exists>r. last (frames (pu_conv (pump_fail mode f p))) = ResponseFailed r"
  by (cases mode) (simp_all add: failed_frame)

lemma step_finishes:
  assumes "pu_phase p = Running" and "pu_phase (pump_step mode env e p) = Finished"
  shows "(\<exists>r. last (frames (pu_conv (pump_step mode env e p))) = ResponseFailed r)
    \<or> e = StreamEnd \<or> (\<exists>now later bs. e = Chunk now later bs)"
  using assms fail_finishes by (cases e) (auto simp: pump_step_def split: option.splits if_split_asm)

lemma finishing_event:
  assumes "pu_phase start = Running"
  shows "pu_phase (pump_run mode env es start) = Finished \<Longrightarrow>
    \<exists>es0 e es1. es = es0 @ e # es1 \<and> pu_phase (pump_run mode env es0 start) = Running
      \<and> pump_run mode env (es0 @ [e]) start = pump_run mode env es start"
proof (induction es rule: rev_induct)
  case Nil
  then show ?case using assms by (simp add: pump_run_def)
next
  case (snoc e es)
  let ?p = "pump_run mode env es start"
  show ?case
  proof (cases "pu_phase ?p = Running")
    case True
    then show ?thesis by (intro exI [of _ es] exI [of _ e] exI [of _ "[]"]) simp
  next
    case False
    then have still: "pump_step mode env e ?p = ?p" by (simp add: pump_step_def)
    then have "pu_phase ?p = Finished" using snoc.prems by (simp add: pump_run_snoc)
    then obtain es0 d es1 where "es = es0 @ d # es1" "pu_phase (pump_run mode env es0 start) = Running"
      "pump_run mode env (es0 @ [d]) start = ?p" using snoc.IH by blast
    moreover from this have "es @ [e] = es0 @ d # (es1 @ [e])" by simp
    ultimately show ?thesis using still by (metis pump_run_snoc)
  qed
qed

text \<open>An answer that looks complete: in the generation the stream is in, some chunk of the upstream carried a
  finish reason, and the task was ended by the upstream, by \<open>[DONE]\<close> or by closing the connection.\<close>

definition looks_complete :: "pump_mode \<Rightarrow> pump_env \<Rightarrow> pump \<Rightarrow> pump_event list \<Rightarrow> bool" where
  "looks_complete mode env start es \<longleftrightarrow>
     reason_given mode env start es
     \<and> (\<exists>es0 e es1. es = es0 @ e # es1 \<and> pu_phase (pump_run mode env es0 start) = Running
          \<and> pump_run mode env (es0 @ [e]) start = pump_run mode env es start
          \<and> (e = StreamEnd \<or> (\<exists>now later bs. e = Chunk now later bs)))"

text \<open>C10. Every Responses stream ends with exactly one terminal frame, and it is its last frame. It is
  written when the task finishes and not before; while the task runs, after a panic and after the
  client is gone there is none. That frame is \<open>response.failed\<close>, or the upstream gave a finish reason in
  the generation that is the last one, in a \<open>data:\<close> line of a chunk that arrived in that generation, and
  the event that ended the task was the end of the upstream's stream or a chunk of it. So the finish
  reason of an earlier generation does not count after a search round, a connection that closes without one
  never looks complete, and an interrupted read or a stall never does, finish reason or not.\<close>

theorem one_terminal_frame:
  "let start = new_pump env rid model expose created body now; p = pump_run mode env es start in
     if pu_phase p = Finished
     then ended_once (pu_conv p)
       \<and> ((\<exists>r. last (frames (pu_conv p)) = ResponseFailed r) \<or> looks_complete mode env start es)
     else unended (pu_conv p)"
proof -
  let ?start = "new_pump env rid model expose created body now"
  let ?p = "pump_run mode env es ?start"
  have running: "pu_phase ?start = Running" and none: "cv_finish_reason (pu_conv ?start) = None"
    by (simp_all add: new_pump_def new_converter_def)
  have "unended (pu_conv ?start)" by (simp add: new_pump_def unended_def new_converter_def frames_def)
  then have "ending.law ?start" by (simp add: ending.law_running new_pump_def)
  then have law: "ending.law ?p" by (rule ending.task.holds_run)
  have "looks_complete mode env ?start es"
    if fin: "pu_phase ?p = Finished" and whole: "\<not> (\<exists>r. last (frames (pu_conv ?p)) = ResponseFailed r)"
  proof -
    have "ended_once (pu_conv ?p)" using law fin by (simp add: ending.law_def)
    then have "cv_finish_reason (pu_conv ?p) \<noteq> None" using whole by (auto simp: ended_once_def)
    then have given: "reason_given mode env ?start es" by (rule reason_was_given [OF none])
    obtain es0 e es1 where e: "es = es0 @ e # es1" "pu_phase (pump_run mode env es0 ?start) = Running"
      "pump_run mode env (es0 @ [e]) ?start = ?p"
      using finishing_event [OF running fin] by blast
    then have "e = StreamEnd \<or> (\<exists>now later bs. e = Chunk now later bs)"
      using step_finishes [OF e(2), of mode env e] fin whole by (auto simp: pump_run_snoc)
    then show ?thesis using given e unfolding looks_complete_def by blast
  qed
  then show ?thesis using law by (auto simp: Let_def ending.law_def)
qed

subsection \<open>No announced call is lost\<close>

text \<open>Every call announced to the client is an output item, and its slot, a client slot, is there.\<close>

definition calls_kept :: "converter \<Rightarrow> bool" where
  "calls_kept c \<longleftrightarrow>
     btree_ok (cv_tools c)
     \<and> (\<forall>oi i call_id name. CallAdded oi i call_id name \<in> set (frames c) \<longrightarrow> FunctionCallItem i \<in> set (cv_items c))
     \<and> (\<forall>i. FunctionCallItem i \<in> set (cv_items c) \<longrightarrow>
          (\<exists>k slot. map_of (cv_tools c) k = Some slot \<and> sl_item_id slot = i \<and> \<not> sl_server slot))"

lemma calls_kept_more:
  assumes "calls_kept c" and "cv_tools d = cv_tools c"
    and "cv_items d = cv_items c @ items" "frames d = frames c @ fs"
    and "\<And>i. FunctionCallItem i \<notin> set items" "\<And>oi i a b. CallAdded oi i a b \<notin> set fs"
  shows "calls_kept d"
  using assms by (auto simp: calls_kept_def)

lemmas calls_kept_frames = calls_kept_more [where items = "[]", simplified]

lemma calls_kept_emit: "calls_kept c \<Longrightarrow> (\<And>oi i a b. f \<noteq> CallAdded oi i a b) \<Longrightarrow> calls_kept (emit f c)"
  by (rule calls_kept_frames [of c _ "[f]"]) auto

lemma calls_kept_start: "calls_kept c \<Longrightarrow> calls_kept (ensure_started c)"
  by (auto simp: ensure_started_def Let_def calls_kept_def)

lemma calls_kept_close:
  "calls_kept c \<Longrightarrow> calls_kept (close_message_item c)" "calls_kept c \<Longrightarrow> calls_kept (close_reasoning_item c)"
  by (auto simp: calls_kept_def close_message_item_def close_reasoning_item_def Let_def split: option.split)

lemma calls_kept_reasoning: "calls_kept c \<Longrightarrow> calls_kept (feed_reasoning fresh s c)"
  by (auto simp: calls_kept_def feed_reasoning_def need_reasoning_def Let_def split: option.split)

lemma calls_kept_text: "calls_kept c \<Longrightarrow> calls_kept (feed_text fresh s c)"
  by (auto simp: calls_kept_def feed_text_def need_message_def Let_def split: option.split)

lemma calls_kept_put:
  assumes "calls_kept c" and "btree_ok (cv_tools c)"
    and slot: "\<And>old. map_of (cv_tools c) k = Some old \<Longrightarrow> sl_item_id slot = sl_item_id old \<and> sl_server slot = sl_server old"
  shows "calls_kept (c\<lparr>cv_tools := btree_insert k slot (cv_tools c)\<rparr>)"
proof -
  have "\<exists>j t. map_of (cv_tools (c\<lparr>cv_tools := btree_insert k slot (cv_tools c)\<rparr>)) j = Some t \<and> sl_item_id t = i \<and> \<not> sl_server t"
    if "FunctionCallItem i \<in> set (cv_items c)" for i
  proof -
    from that assms(1) obtain j t where t: "map_of (cv_tools c) j = Some t" "sl_item_id t = i" "\<not> sl_server t"
      unfolding calls_kept_def by blast
    show ?thesis
    proof (cases "j = k")
      case True
      with t slot [of t] assms(2) show ?thesis by (intro exI [of _ k] exI [of _ slot]) simp
    next
      case False
      with t assms(2) show ?thesis by (intro exI [of _ j] exI [of _ t]) simp
    qed
  qed
  with assms show ?thesis by (simp add: calls_kept_def btree_ok_insert)
qed

lemma calls_kept_tool_item:
  assumes c: "calls_kept c"
  shows "calls_kept (ensure_tool_item_added fresh tool_call c)"
proof (cases "map_of (cv_tools c) (call_index tool_call)")
  case None
  define c1 where "c1 = (if cv_tools c = [] then close_message_item c else c)"
  have tools: "cv_tools c1 = cv_tools c"
    by (simp add: c1_def close_message_item_def Let_def split: option.split)
  have c1: "calls_kept c1" using c by (simp add: c1_def calls_kept_close)
  define slot where "slot = \<lparr>sl_item_id = ''fc_'' @ fresh (cv_fresh c1),
      sl_call_id = str_or [] (get_str tool_call ''id''),
      sl_name = str_or [] (call_field tool_call ''name''), sl_arguments = [],
      sl_index = cv_next_index c1, sl_done = False,
      sl_server = (str_or [] (call_field tool_call ''name'') \<in> set (cv_server_names c))\<rparr>"
  define c2 where "c2 = c1\<lparr>cv_next_index := Suc (cv_next_index c1), cv_fresh := Suc (cv_fresh c1),
      cv_tools := btree_insert (call_index tool_call) slot (cv_tools c1)\<rparr>"
  have "calls_kept (c1\<lparr>cv_next_index := Suc (cv_next_index c1), cv_fresh := Suc (cv_fresh c1)\<rparr>)"
    by (rule calls_kept_frames [OF c1, of _ "[]"]) simp_all
  then have c2: "calls_kept c2"
    using calls_kept_put [of "c1\<lparr>cv_next_index := Suc (cv_next_index c1), cv_fresh := Suc (cv_fresh c1)\<rparr>"
        "call_index tool_call" slot] None tools c
    by (simp add: c2_def calls_kept_def)
  have here: "map_of (cv_tools c2) (call_index tool_call) = Some slot"
    using c1 by (simp add: c2_def calls_kept_def)
  let ?f = "CallAdded (sl_index slot) (sl_item_id slot) (sl_call_id slot) (sl_name slot)"
  have "calls_kept ((emit ?f c2)\<lparr>cv_items := cv_items (emit ?f c2) @ [FunctionCallItem (sl_item_id slot)]\<rparr>)"
    if "\<not> sl_server slot"
    using c2 here that by (auto simp: calls_kept_def)
  moreover have "ensure_tool_item_added fresh tool_call c =
      (if sl_server slot then c2
       else (emit ?f c2)\<lparr>cv_items := cv_items (emit ?f c2) @ [FunctionCallItem (sl_item_id slot)]\<rparr>)"
    using None by (simp add: ensure_tool_item_added_def Let_def c2_def slot_def c1_def)
  ultimately show ?thesis using c2 by simp
qed (use c in \<open>simp add: ensure_tool_item_added_def Let_def\<close>)

lemma calls_kept_arguments: "calls_kept c \<Longrightarrow> calls_kept (feed_tool_call_arguments tool_call c)"
proof (cases "map_of (cv_tools c) (call_index tool_call)")
  case (Some old)
  assume c: "calls_kept c"
  then have "btree_ok (cv_tools c)" by (simp add: calls_kept_def)
  then have "calls_kept (c\<lparr>cv_tools := btree_insert (call_index tool_call) (old\<lparr>sl_call_id := i, sl_name := n, sl_arguments := a\<rparr>) (cv_tools c)\<rparr>)" for i n a
    using Some by (intro calls_kept_put [OF c]) auto
  then show ?thesis using Some by (auto simp: feed_tool_call_arguments_def Let_def intro!: calls_kept_emit)
qed (simp add: feed_tool_call_arguments_def Let_def)

lemma calls_kept_feed_delta: "calls_kept c \<Longrightarrow> calls_kept (snd (feed_delta fresh delta (semantic, c)))"
  by (simp add: feed_delta_def Let_def calls_kept_reasoning calls_kept_text calls_kept_tool_item
      calls_kept_arguments fold_inv [where P = calls_kept] split: option.split)

lemma calls_kept_feed_choice: "calls_kept c \<Longrightarrow> calls_kept (snd (feed_choice fresh v (semantic, c)))"
proof -
  assume "calls_kept c"
  then have "calls_kept (c\<lparr>cv_finish_reason := r\<rparr>)" for r by (rule calls_kept_frames [of c _ "[]"]) simp_all
  then show ?thesis using \<open>calls_kept c\<close>
    by (simp add: feed_choice_def Let_def calls_kept_feed_delta split: option.split)
qed

lemma calls_kept_choices: "calls_kept c \<Longrightarrow> calls_kept (snd (fold (feed_choice fresh) vs (semantic, c)))"
proof (induction vs arbitrary: semantic c)
  case (Cons v vs)
  obtain b d where bd: "feed_choice fresh v (semantic, c) = (b, d)" by force
  then have "calls_kept d" using calls_kept_feed_choice [OF Cons.prems, of fresh v semantic] by simp
  then show ?case using Cons.IH [of d b] bd by simp
qed simp

lemma calls_kept_feed_chunk: "calls_kept c \<Longrightarrow> calls_kept (snd (feed_chunk fresh chunk c))"
proof -
  assume "calls_kept c"
  then have started: "calls_kept (ensure_started c)" by (rule calls_kept_start)
  have "calls_kept (note_chunk chunk (ensure_started c))"
    by (rule calls_kept_frames [OF started, of _ "[]"])
       (simp_all add: note_chunk_def Let_def split: option.split)
  then show ?thesis by (simp add: feed_chunk_def Let_def calls_kept_choices split: option.split)
qed

lemma calls_kept_search_round: "calls_kept c \<Longrightarrow> calls_kept (fst (emit_web_search_round fresh tcs outcomes c))"
proof -
  assume c: "calls_kept c"
  have "calls_kept d \<Longrightarrow> calls_kept (emit_search fresh outcome d)" for outcome d
    by (auto simp: emit_search_def calls_kept_def Let_def)
  with c show ?thesis by (simp add: emit_web_search_round_def fold_inv [where P = calls_kept])
qed

text \<open>Without client tools there is no announced call whose slot the new round could drop.\<close>

lemma calls_kept_new_round: "calls_kept c \<Longrightarrow> \<not> has_client_tools c \<Longrightarrow> calls_kept (begin_new_upstream_round c)"
proof -
  assume kept: "calls_kept c" and none: "\<not> has_client_tools c"
  have items: "FunctionCallItem i \<notin> set (cv_items c)" for i
  proof
    assume "FunctionCallItem i \<in> set (cv_items c)"
    then obtain k slot where slot: "map_of (cv_tools c) k = Some slot" "\<not> sl_server slot"
      using kept unfolding calls_kept_def by blast
    from slot(1) have "slot \<in> set (slots c)" by (force simp: slots_def dest: map_of_SomeD)
    with slot(2) none show False by (auto simp: has_client_tools_def list_ex_iff)
  qed
  with kept have "CallAdded oi i a b \<notin> set (frames c)" for oi i a b unfolding calls_kept_def by blast
  with items show ?thesis by (simp add: calls_kept_def begin_new_upstream_round_def btree_ok_def frames_def)
qed

lemma calls_kept_settle: "calls_kept c \<Longrightarrow> calls_kept (settle_items c)"
proof -
  assume "calls_kept c"
  then have start: "calls_kept (c\<lparr>cv_error := None\<rparr>)" by (rule calls_kept_frames [of c _ "[]"]) simp_all
  have call: "calls_kept d \<Longrightarrow> calls_kept (finish_call slot d)" for slot d
    by (simp add: finish_call_def calls_kept_emit)
  define mark where "mark = map (\<lambda>(i :: int, slot :: tool_slot). (i, slot\<lparr>sl_done := True\<rparr>))"
  have mark_names: "map fst (mark m) = map fst m" and
    mark_map: "map_of (mark m) k = map_option (\<lambda>slot. slot\<lparr>sl_done := True\<rparr>) (map_of m k)" for m k
    unfolding mark_def by (induction m) auto
  have kept: "calls_kept (fold finish_call todo (close_message_item (close_reasoning_item (c\<lparr>cv_error := None\<rparr>))))" for todo
    using start call by (simp add: calls_kept_close fold_inv [where P = calls_kept])
  have "calls_kept (d\<lparr>cv_tools := mark (cv_tools d)\<rparr>)" if d: "calls_kept d" for d
  proof -
    have same: "map_of (mark (cv_tools d)) k = map_option (\<lambda>slot. slot\<lparr>sl_done := True\<rparr>) (map_of (cv_tools d) k)" for k
      by (rule mark_map)
    have "btree_ok (mark (cv_tools d))" using d mark_names [of "cv_tools d"] by (simp add: calls_kept_def btree_ok_def)
    moreover have "\<exists>k slot. map_of (mark (cv_tools d)) k = Some slot \<and> sl_item_id slot = i \<and> \<not> sl_server slot"
      if "FunctionCallItem i \<in> set (cv_items d)" for i
    proof -
      from d that obtain k slot where "map_of (cv_tools d) k = Some slot" "sl_item_id slot = i" "\<not> sl_server slot"
        unfolding calls_kept_def by blast
      then show ?thesis by (intro exI [of _ k] exI [of _ "slot\<lparr>sl_done := True\<rparr>"]) (simp add: same)
    qed
    ultimately show ?thesis using d by (simp add: calls_kept_def)
  qed
  then show ?thesis using kept by (simp add: settle_items_def Let_def mark_def)
qed

lemma calls_kept_finish: "calls_kept c \<Longrightarrow> calls_kept (finish error c)"
proof (cases error)
  case (Some message)
  assume "calls_kept c"
  then have "calls_kept (c\<lparr>cv_error := error\<rparr>)" by (rule calls_kept_frames [of c _ "[]"]) simp_all
  then show ?thesis by (simp add: Some finish_Some calls_kept_emit)
qed (simp add: finish_None Let_def calls_kept_emit calls_kept_settle)

interpretation keeping: pump_law calls_kept calls_kept
  by unfold_locales (simp_all add: calls_kept_feed_chunk calls_kept_search_round calls_kept_new_round calls_kept_finish)

lemma calls_kept_output:
  assumes "calls_kept c" and "CallAdded oi i a b \<in> set (frames c)"
  shows "\<exists>call_id name arguments. call_item i call_id name arguments ''completed'' \<in> set (replayed_output c)"
proof -
  from assms obtain k slot where item: "FunctionCallItem i \<in> set (cv_items c)"
    and slot: "map_of (cv_tools c) k = Some slot" "sl_item_id slot = i"
    unfolding calls_kept_def by blast
  then have "slot \<in> set (slots c)" by (force simp: slots_def dest: map_of_SomeD)
  with slot(2) obtain slot' where found: "find (\<lambda>slot. sl_item_id slot = i) (slots c) = Some slot'"
    by (metis (mono_tags, lifting) find_None_iff not_Some_eq)
  then have "sl_item_id slot' = i" by (auto simp: find_Some_iff)
  with found have "item_json c (FunctionCallItem i)
      = Some (call_item i (sl_call_id slot') (sl_name slot') (sl_arguments slot') ''completed'')"
    by (simp add: item_json_def)
  then show ?thesis using item by (force simp: replayed_output_def List.map_filter_def)
qed

text \<open>C13. No announced tool call is lost, however many search rounds follow: in every state of the task, a
  call that the stream has announced is in the output list, so the terminal response carries it. The
  reset between two generations cannot drop one, because it happens only when the generation had no
  client call.\<close>

theorem announced_calls_in_output:
  assumes "p = pump_run mode env es (new_pump env rid model expose created body now)"
    and "CallAdded oi i call_id name \<in> set (frames (pu_conv p))"
  shows "\<exists>call_id name arguments. call_item i call_id name arguments ''completed'' \<in> set (replayed_output (pu_conv p))"
proof -
  have "calls_kept (pu_conv (new_pump env rid model expose created body now))"
    by (simp add: new_pump_def calls_kept_def new_converter_def frames_def btree_ok_def)
  then have "keeping.law (new_pump env rid model expose created body now)"
    by (simp add: keeping.law_running new_pump_def)
  then have "keeping.law p" unfolding assms(1) by (rule keeping.task.holds_run)
  then have "calls_kept (pu_conv p)" by (simp add: keeping.law_def split: if_split_asm)
  then show ?thesis using assms(2) by (rule calls_kept_output)
qed


subsection \<open>Streaming and aggregating\<close>

text \<open>The aggregating task follows the streaming one step by step until it fails. It fails where the
  streaming one does, and at one more place: at a \<open>[DONE]\<close> without a finish reason for which a round of
  searches is due, where the streaming task runs the round.\<close>

definition parted :: "pump_env \<Rightarrow> pump \<Rightarrow> pump \<Rightarrow> bool" where
  "parted env p q \<longleftrightarrow>
     (\<exists>s now. pu_phase s = Running \<and> cv_finish_reason (pu_conv s) = None \<and> server_round_due s
        \<and> p = run_server_round Streaming env now s \<and> q = pump_fail Aggregating UnexpectedEnd s)"

definition follows :: "pump_env \<Rightarrow> pump \<Rightarrow> pump \<Rightarrow> bool" where
  "follows env p q \<longleftrightarrow>
     p = q \<or> (\<exists>f. pu_phase q = Failed f \<and> pu_phase p = Finished \<and> pu_error p) \<or> parted env p q"

lemma follows_refl [simp]: "follows env p p"
  by (simp add: follows_def)

lemma follows_fail: "follows env (pump_fail Streaming f p) (pump_fail Aggregating f p)"
  by (simp add: follows_def)

lemma follows_end: "follows env (end_of_stream Streaming p) (end_of_stream Aggregating p)"
  by (auto simp: end_of_stream_def follows_def)

lemma follows_round:
  "pe_connected env (pu_generation p) \<Longrightarrow>
     follows env (run_server_round Streaming env now p) (run_server_round Aggregating env now p)"
  by (auto simp: run_server_round_def Let_def follows_def split: option.split prod.split)

lemma follows_done_line:
  assumes "pe_connected env (pu_generation p)" and "pu_phase p = Running"
  shows "follows env (on_done_line Streaming env now p) (on_done_line Aggregating env now p)"
proof (cases "server_round_due p")
  case True
  show ?thesis
  proof (cases "cv_finish_reason (pu_conv p) = None")
    case reason: True
    have "parted env (run_server_round Streaming env now p) (pump_fail Aggregating UnexpectedEnd p)"
      unfolding parted_def by (intro exI conjI) (rule assms(2) reason True refl)+
    then show ?thesis using True reason by (simp add: follows_def)
  next
    case False
    then show ?thesis using True follows_round [OF assms(1)] by auto
  qed
next
  case False
  then show ?thesis using follows_fail by (simp add: end_of_stream_def del: pump_fail.simps)
qed

lemma follows_line:
  assumes "\<And>n. pe_connected env n" and "pu_phase p = Running"
  shows "fst (pump_line Streaming env later raw p) = fst (pump_line Aggregating env later raw p)
   \<and> follows env (snd (pump_line Streaming env later raw p)) (snd (pump_line Aggregating env later raw p))
   \<and> (fst (pump_line Aggregating env later raw p) \<longrightarrow>
        snd (pump_line Streaming env later raw p) = snd (pump_line Aggregating env later raw p)
        \<and> pu_phase (snd (pump_line Aggregating env later raw p)) = Running)"
  using follows_done_line [OF assms(1)] assms(2)
  by (simp add: pump_line_def Let_def del: on_done_line.simps split: option.split prod.split)

lemma follows_lines:
  assumes "\<And>n. pe_connected env n"
  shows "pu_phase p = Running \<Longrightarrow> follows env (pump_lines Streaming env later p) (pump_lines Aggregating env later p)"
proof (induction "length (pu_buffer p)" arbitrary: p rule: less_induct)
  case less
  show ?case
  proof (cases "split_line (pu_buffer p)")
    case None
    then show ?thesis by (simp add: pump_lines.simps [of _ env later p])
  next
    case (Some cut)
    obtain raw rest where cut: "cut = (raw, rest)" by force
    let ?p = "p\<lparr>pu_buffer := rest\<rparr>"
    have run: "pu_phase ?p = Running" using less.prems by simp
    obtain b q where bq: "pump_line Aggregating env later raw ?p = (b, q)" by force
    obtain q' where bq': "pump_line Streaming env later raw ?p = (b, q')" and q': "follows env q' q"
        and on: "b \<Longrightarrow> q' = q" "b \<Longrightarrow> pu_phase q = Running"
      using follows_line [OF assms run, of later raw] bq by (cases "pump_line Streaming env later raw ?p") auto
    have "b \<Longrightarrow> length (pu_buffer q) < length (pu_buffer p)"
      using pump_line_buffer [of Aggregating env later raw ?p q] bq Some cut split_line_length by fastforce
    then have IH: "b \<Longrightarrow> follows env (pump_lines Streaming env later q) (pump_lines Aggregating env later q)"
      using less.hyps on(2) by blast
    have "pump_lines Streaming env later p = (if b then pump_lines Streaming env later q' else q')"
      "pump_lines Aggregating env later p = (if b then pump_lines Aggregating env later q else q)"
      by (simp_all add: pump_lines.simps [of _ env later p] Some cut bq bq' split: bool.split)
    then show ?thesis using q' on IH by (cases b) simp_all
  qed
qed

lemma failed_step: "pu_phase q = Failed f \<Longrightarrow> pump_step mode env e q = q"
  by (simp add: pump_step_def)

lemma follows_step:
  assumes "\<And>n. pe_connected env n" and "e \<noteq> ClientGone"
  shows "follows env (pump_step Streaming env e p) (pump_step Aggregating env e p)"
proof (cases "pu_phase p = Running")
  case True
  show ?thesis
  proof (cases e)
    case (Chunk now later bs)
    then show ?thesis using follows_lines [OF assms(1)] True by (simp add: pump_step_def)
  next
    case (Deadline now)
    then show ?thesis using follows_fail True by (simp add: pump_step_def del: pump_fail.simps split: option.split)
  qed (use assms(2) True follows_fail follows_end in \<open>simp_all add: pump_step_def del: pump_fail.simps\<close>)
qed (simp add: pump_step_def)

lemma failed_run: "pu_phase q = Failed f \<Longrightarrow> pump_run mode env es q = q"
  unfolding pump_run_def by (induction es) (simp_all add: failed_step)

lemma finished_run: "pu_phase p = Finished \<Longrightarrow> pump_run mode env es p = p"
  unfolding pump_run_def by (induction es) (simp_all add: finished_step)

lemma pump_run_Cons: "pump_run mode env (e # es) p = pump_run mode env es (pump_step mode env e p)"
  by (simp add: pump_run_def)

text \<open>Two runs from the same state: they stay together, or fail together, or part at one event.\<close>

lemma runs_follow:
  assumes "\<And>n. pe_connected env n"
  shows "ClientGone \<notin> set es \<Longrightarrow>
    pump_run Streaming env es p = pump_run Aggregating env es p
    \<or> (\<exists>f. pu_phase (pump_run Aggregating env es p) = Failed f
         \<and> pu_phase (pump_run Streaming env es p) = Finished \<and> pu_error (pump_run Streaming env es p))
    \<or> (\<exists>es1 e es2. es = es1 @ e # es2 \<and> pump_run Streaming env es1 p = pump_run Aggregating env es1 p
         \<and> parted env (pump_run Streaming env (es1 @ [e]) p) (pump_run Aggregating env (es1 @ [e]) p))"
proof (induction es arbitrary: p)
  case (Cons e es)
  have "follows env (pump_step Streaming env e p) (pump_step Aggregating env e p)"
    using Cons.prems by (intro follows_step [OF assms]) auto
  then consider (same) "pump_step Streaming env e p = pump_step Aggregating env e p"
    | (failed) f where "pu_phase (pump_step Aggregating env e p) = Failed f"
        "pu_phase (pump_step Streaming env e p) = Finished" "pu_error (pump_step Streaming env e p)"
    | (parted) "parted env (pump_step Streaming env e p) (pump_step Aggregating env e p)"
    unfolding follows_def by blast
  then show ?case
  proof cases
    case same
    have "ClientGone \<notin> set es" using Cons.prems by simp
    from Cons.IH [OF this, of "pump_step Aggregating env e p"] consider
        (a) "pump_run Streaming env es (pump_step Aggregating env e p) = pump_run Aggregating env es (pump_step Aggregating env e p)"
      | (b) f where "pu_phase (pump_run Aggregating env es (pump_step Aggregating env e p)) = Failed f"
          "pu_phase (pump_run Streaming env es (pump_step Aggregating env e p)) = Finished"
          "pu_error (pump_run Streaming env es (pump_step Aggregating env e p))"
      | (c) es1 d es2 where "es = es1 @ d # es2"
          "pump_run Streaming env es1 (pump_step Aggregating env e p) = pump_run Aggregating env es1 (pump_step Aggregating env e p)"
          "parted env (pump_run Streaming env (es1 @ [d]) (pump_step Aggregating env e p))
             (pump_run Aggregating env (es1 @ [d]) (pump_step Aggregating env e p))"
      by blast
    then show ?thesis
    proof cases
      case c
      show ?thesis
        by (rule disjI2, rule disjI2, rule exI [of _ "e # es1"], rule exI [of _ d], rule exI [of _ es2])
          (simp add: c pump_run_Cons same)
    qed (simp_all add: pump_run_Cons same)
  next
    case failed
    then show ?thesis by (simp add: pump_run_Cons failed_run finished_run)
  next
    case parted
    then show ?thesis
      by (intro disjI2, intro exI [of _ "[]"] exI [of _ e] exI [of _ es]) (simp add: pump_run_def)
  qed
qed (simp add: pump_run_def)

text \<open>A finished aggregation was finished without an error.\<close>

definition finished_clean :: "pump \<Rightarrow> bool" where
  "finished_clean p \<longleftrightarrow> (pu_phase p = Finished \<longrightarrow> (\<exists>c. pu_conv p = finish None c))"

lemma clean_round: "finished_clean (run_server_round Aggregating env now p)" if "pu_phase p = Running"
  using that by (simp add: run_server_round_def Let_def finished_clean_def split: option.split prod.split)

lemma clean_complete: "finished_clean (pump_complete p)"
  by (auto simp: finished_clean_def pump_complete_def)

interpretation aggregation: pump_invariant Aggregating env finished_clean for env
proof
  fix p :: pump and now
  assume "pu_phase p = Running"
  then show "finished_clean (on_done_line Aggregating env now p)"
    using clean_round clean_complete by (simp add: finished_clean_def [of "_\<lparr>pu_phase := _\<rparr>"])
next
  fix p :: pump
  show "finished_clean (end_of_stream Aggregating p)"
    using clean_complete by (simp add: end_of_stream_def finished_clean_def [of "_\<lparr>pu_phase := _\<rparr>"])
qed (simp_all add: finished_clean_def)

text \<open>C12. A non-streamed answer is the one the stream would have carried. When the aggregation of a
  request answers with a response object, the streaming task on the same events has finished without
  an error, with the same converter, the same searches sent and the same upstream body, and its last
  frame is \<open>response.completed\<close> or \<open>response.incomplete\<close> with exactly that object. Conversely, a stream
  that finishes without an error has the answer of the aggregation as its result, unless the two parted
  before: that happens in one situation only, at an event up to which they were in the same state and
  in which a \<open>[DONE]\<close> without a finish reason came while a round of searches was due; the stream runs
  that round, the aggregation fails there with an unexpected end.\<close>

theorem aggregate_is_stream:
  assumes "ClientGone \<notin> set es" and "\<And>n. pe_connected env n"
    and "start = new_pump env rid model expose created body now"
    and "p = pump_run Streaming env es start" and "q = pump_run Aggregating env es start"
  shows "(\<forall>r. aggregate_result q = Some (Inr r) \<longrightarrow>
      p = q \<and> last (frames (pu_conv p)) \<in> {ResponseCompleted r, ResponseIncomplete r})
    \<and> (pu_phase p = Finished \<and> \<not> pu_error p \<longrightarrow>
         aggregate_result q = Some (Inr (nonstream_response (pu_conv p)))
         \<or> aggregate_result q = Some (Inl UnexpectedEnd)
           \<and> (\<exists>es1 e es2 s later. es = es1 @ e # es2
                \<and> pump_run Streaming env es1 start = pump_run Aggregating env es1 start
                \<and> pu_phase s = Running \<and> cv_finish_reason (pu_conv s) = None \<and> server_round_due s
                \<and> pump_run Streaming env (es1 @ [e]) start = run_server_round Streaming env later s
                \<and> q = pump_fail Aggregating UnexpectedEnd s))"
proof -
  note cases = runs_follow [OF assms(2,1), of start]
  have stuck: "q = pump_fail Aggregating UnexpectedEnd s"
    if "es = es1 @ e # es2" "pump_run Aggregating env (es1 @ [e]) start = pump_fail Aggregating UnexpectedEnd s" for es1 e es2 s
  proof -
    have "q = pump_run Aggregating env es2 (pump_run Aggregating env (es1 @ [e]) start)"
      using assms(5) that(1) by (simp add: pump_run_def)
    then show ?thesis using that(2) failed_run by simp
  qed
  have "finished_clean start" by (simp add: finished_clean_def new_pump_def assms(3))
  then have clean: "finished_clean q" unfolding assms(5) by (rule aggregation.holds_run)
  have final: "last (frames (finish None c)) \<in> {ResponseCompleted (nonstream_response (finish None c)),
      ResponseIncomplete (nonstream_response (finish None c))}" for c
  proof -
    have "cv_error (settle_items c) = None" by (simp add: settle_items_def Let_def kept_error)
    then show ?thesis by (simp add: finish_None Let_def nonstream_response_def)
  qed
  show ?thesis
  proof (intro conjI allI impI)
    fix r assume "aggregate_result q = Some (Inr r)"
    then have q: "pu_phase q = Finished" and r: "r = nonstream_response (pu_conv q)"
      by (simp_all add: aggregate_result_def split: pump_phase.splits)
    have "\<not> parted env (pump_run Streaming env (es1 @ [e]) start) (pump_run Aggregating env (es1 @ [e]) start)"
      if "es = es1 @ e # es2" for es1 e es2
      using stuck [OF that] q by (auto simp: parted_def)
    then show "p = q" using cases q assms(4,5) by auto
    moreover obtain c where "pu_conv q = finish None c" using clean q by (auto simp: finished_clean_def)
    ultimately show "last (frames (pu_conv p)) \<in> {ResponseCompleted r, ResponseIncomplete r}"
      using final r by simp
  next
    assume p: "pu_phase p = Finished \<and> \<not> pu_error p"
    from cases consider (same) "p = q"
      | (parted) es1 e es2 where "es = es1 @ e # es2"
          "pump_run Streaming env es1 start = pump_run Aggregating env es1 start"
          "parted env (pump_run Streaming env (es1 @ [e]) start) (pump_run Aggregating env (es1 @ [e]) start)"
      using p assms(4,5) by auto
    then show "aggregate_result q = Some (Inr (nonstream_response (pu_conv p)))
         \<or> aggregate_result q = Some (Inl UnexpectedEnd)
           \<and> (\<exists>es1 e es2 s later. es = es1 @ e # es2
                \<and> pump_run Streaming env es1 start = pump_run Aggregating env es1 start
                \<and> pu_phase s = Running \<and> cv_finish_reason (pu_conv s) = None \<and> server_round_due s
                \<and> pump_run Streaming env (es1 @ [e]) start = run_server_round Streaming env later s
                \<and> q = pump_fail Aggregating UnexpectedEnd s)"
    proof cases
      case same
      then show ?thesis using p by (simp add: aggregate_result_def)
    next
      case parted
      then obtain s later where s: "pu_phase s = Running" "cv_finish_reason (pu_conv s) = None" "server_round_due s"
        "pump_run Streaming env (es1 @ [e]) start = run_server_round Streaming env later s"
        "pump_run Aggregating env (es1 @ [e]) start = pump_fail Aggregating UnexpectedEnd s"
        unfolding parted_def by blast
      have q: "q = pump_fail Aggregating UnexpectedEnd s" by (rule stuck [OF parted(1) s(5)])
      then have "aggregate_result q = Some (Inl UnexpectedEnd)" by (simp add: aggregate_result_def)
      then show ?thesis using parted(1,2) s q by blast
    qed
  qed
qed

definition demo_line :: pump_event where "demo_line = Chunk 0 0 (''data:x'' @ [newline])"

lemma demo_split: "split_line (''data:x'' @ [newline]) = Some (''data:x'', [])"
  by code_simp

lemma pump_lines_drained_id: "split_line (pu_buffer p) = None \<Longrightarrow> pump_lines mode env l p = p"
  by (simp add: pump_lines.simps [of mode env l p])

lemma demo_trim: "trim_ascii ''data:x'' = ''data:x''" "trim_ascii ''x'' = ''x''"
  by (simp_all add: trim_ascii_def is_blank_def byte_def)

lemma demo_fed:
  "pu_conv (pump_step mode (demo_pump_env chunk) demo_line (demo_start chunk))
     = snd (feed_chunk show_nat chunk (new_converter ''r'' ''m'' False [] 0))
   \<and> pu_phase (pump_step mode (demo_pump_env chunk) demo_line (demo_start chunk)) = Running"
proof -
  let ?p = "demo_start chunk" and ?env = "demo_pump_env chunk"
  define p1 where "p1 = ?p\<lparr>pu_watch := on_upstream_bytes 0 (pu_watch ?p), pu_buffer := ''data:x'' @ [newline]\<rparr>"
  have start: "pu_conv ?p = new_converter ''r'' ''m'' False [] 0" "pu_phase ?p = Running" "pu_buffer ?p = []"
    by (simp_all add: demo_start_def new_pump_def demo_pump_env_def)
  obtain semantic c where c: "feed_chunk show_nat chunk (pu_conv ?p) = (semantic, c)" by force
  have line: "\<exists>w. pump_line mode ?env 0 ''data:x'' (p1\<lparr>pu_buffer := []\<rparr>)
      = (True, p1\<lparr>pu_buffer := [], pu_conv := c, pu_watch := w\<rparr>)"
    using c by (cases semantic) (auto simp: pump_line_def demo_trim strip_data_def
        MAX_UPSTREAM_SSE_LINE_BYTES_def demo_pump_env_def Let_def p1_def)
  have "pu_buffer p1 = ''data:x'' @ [newline]" "pu_phase p1 = Running" by (simp_all add: p1_def start)
  then have "pu_conv (pump_lines mode ?env 0 p1) = c \<and> pu_phase (pump_lines mode ?env 0 p1) = Running"
    using line unfolding pump_lines.simps [of mode ?env 0 p1]
    by (auto simp: demo_split pump_lines_drained_id simp del: append.simps)
  moreover have "pump_step mode ?env demo_line ?p = pump_lines mode ?env 0 p1"
    by (simp add: pump_step_def demo_line_def start p1_def)
  ultimately show ?thesis using c start by simp
qed

definition call_chunk :: json where
  "call_chunk = delta_chunk [(''tool_calls'', JArr [JObj [(''id'', JStr ''c'')]])]"

definition stop_chunk :: json where
  "stop_chunk = JObj [(''choices'', JArr [JObj [(''finish_reason'', JStr ''stop'')]])]"

lemma demo_call_announced:
  "\<exists>i. CallAdded 0 i ''c'' [] \<in> set (frames (snd (feed_chunk show_nat call_chunk (new_converter ''r'' ''m'' False [] 0))))"
  by (simp add: call_chunk_def delta_chunk_def feed_chunk_def note_chunk_def
      ensure_started_def new_converter_def Let_def get_str_def feed_choice_def feed_delta_def str_or_def
      ensure_tool_item_added_def call_index_def call_field_def pointer2_def feed_tool_call_arguments_def
      close_message_item_def) blast

lemma demo_stop_reason:
  "cv_finish_reason (snd (feed_chunk show_nat stop_chunk (new_converter ''r'' ''m'' False [] 0))) = Some ''stop''"
  by (simp add: stop_chunk_def feed_chunk_def note_chunk_def get_str_def feed_choice_def Let_def)

definition demo_pump :: pump where
  "demo_pump = pump_run Streaming (demo_pump_env call_chunk) [demo_line]
     (new_pump (demo_pump_env call_chunk) ''r'' ''m'' False 0 JNull 0)"

theorem announced_calls_in_output_witness:
  "\<exists>i call_id name arguments. call_item i call_id name arguments ''completed'' \<in> set (replayed_output (pu_conv demo_pump))"
proof -
  have "pu_conv demo_pump = snd (feed_chunk show_nat call_chunk (new_converter ''r'' ''m'' False [] 0))"
    using demo_fed [of Streaming call_chunk] by (simp add: demo_pump_def pump_run_def demo_start_def)
  then obtain i where "CallAdded 0 i ''c'' [] \<in> set (frames (pu_conv demo_pump))"
    using demo_call_announced by auto
  from announced_calls_in_output [OF demo_pump_def this] show ?thesis by blast
qed

theorem aggregate_is_stream_witness:
  "\<exists>r. aggregate_result (pump_run Aggregating (demo_pump_env stop_chunk) [demo_line, StreamEnd]
        (new_pump (demo_pump_env stop_chunk) ''r'' ''m'' False 0 JNull 0)) = Some (Inr r)
     \<and> last (frames (pu_conv (pump_run Streaming (demo_pump_env stop_chunk) [demo_line, StreamEnd]
        (new_pump (demo_pump_env stop_chunk) ''r'' ''m'' False 0 JNull 0)))) \<in> {ResponseCompleted r, ResponseIncomplete r}"
proof -
  let ?run = "\<lambda>mode. pump_run mode (demo_pump_env stop_chunk) [demo_line, StreamEnd]
        (new_pump (demo_pump_env stop_chunk) ''r'' ''m'' False 0 JNull 0)"
  have "?run Aggregating = pump_step Aggregating (demo_pump_env stop_chunk) StreamEnd
      (pump_step Aggregating (demo_pump_env stop_chunk) demo_line (demo_start stop_chunk))"
    by (simp add: pump_run_def demo_start_def)
  then have "pu_phase (?run Aggregating) = Finished"
    using demo_fed [of Aggregating stop_chunk] demo_stop_reason
    by (simp add: pump_step_def [of _ _ StreamEnd] end_of_stream_def pump_complete_def)
  then have r: "aggregate_result (?run Aggregating) = Some (Inr (nonstream_response (pu_conv (?run Aggregating))))"
    by (simp add: aggregate_result_def)
  have "ClientGone \<notin> set [demo_line, StreamEnd]" by (simp add: demo_line_def)
  moreover have "pe_connected (demo_pump_env stop_chunk) n" for n by (simp add: demo_pump_env_def)
  ultimately show ?thesis using aggregate_is_stream [OF _ _ refl refl refl] r by blast
qed

end
