(* ===== verification/Anthropic_Request.thy ===== *)
theory Anthropic_Request
  imports Cache Search_Loop Stream_Watch Rust_Result
begin

text \<open>
  \<open>src/anthropic.rs\<close>, first part: an Anthropic Messages request becomes an OpenAI chat body.
  \<open>protocol_error\<close> carries the messages of the code; \<open>InvalidQuoting\<close> is a message that quotes
  a string in debug format between two fixed parts. \<open>SliceOutOfRange\<close> is the panic of the replay of
  search results. \<open>json_text\<close> prints JSON.
\<close>

datatype protocol_error =
    Invalid string
  | InvalidQuoting string string string
  | BadDeclaration declaration_error
  | SliceOutOfRange
  | UpstreamError string
  | StreamStalled stall_kind

definition required_string :: "jmap \<Rightarrow> string \<Rightarrow> protocol_error + string" where
  "required_string obj name =
     (case obj_str obj name of
        Some s \<Rightarrow> (if s = [] then Inl (Invalid (name @ '' must be a non-empty string'')) else Inr s)
      | None \<Rightarrow> Inl (Invalid (name @ '' must be a non-empty string'')))"

fun as_bool :: "json \<Rightarrow> bool option" where
  "as_bool (JBool b) = Some b"
| "as_bool _ = None"

definition optional_bool :: "jmap \<Rightarrow> string \<Rightarrow> protocol_error + bool option" where
  "optional_bool obj name =
     (case map_of obj name of
        None \<Rightarrow> Inr None
      | Some v \<Rightarrow> and_then (ok_or (Invalid (name @ '' must be a boolean'')) (as_bool v)) (\<lambda>b. Inr (Some b)))"

fun is_number :: "json \<Rightarrow> bool" where
  "is_number (JNum _) = True"
| "is_number _ = False"

definition copy_number :: "jmap \<Rightarrow> string \<Rightarrow> jmap \<Rightarrow> protocol_error + jmap" where
  "copy_number input name output =
     (case map_of input name of
        None \<Rightarrow> Inr output
      | Some v \<Rightarrow> (if is_number v then Inr (obj_insert name v output)
                   else Inl (Invalid (name @ '' must be a number''))))"

definition positive_u64 :: "json \<Rightarrow> nat option" where
  "positive_u64 v = (case as_u64 v of Some n \<Rightarrow> (if 0 < n then Some n else None) | None \<Rightarrow> None)"

definition copy_positive_integer :: "jmap \<Rightarrow> string \<Rightarrow> jmap \<Rightarrow> protocol_error + jmap" where
  "copy_positive_integer input name output =
     (case map_of input name of
        None \<Rightarrow> Inr output
      | Some v \<Rightarrow> (if positive_u64 v = None then Inl (Invalid (name @ '' must be a positive integer''))
                   else Inr (obj_insert name v output)))"

subsection \<open>System prompts\<close>

definition text_json :: "string \<Rightarrow> json" where
  "text_json s = JObj [(''type'', JStr ''text''), (''text'', JStr s)]"

definition convert_text_block :: "jmap \<Rightarrow> protocol_error + json" where
  "convert_text_block obj = and_then (required_string obj ''text'') (\<lambda>s. Inr (text_json s))"

definition convert_system_block :: "nat \<Rightarrow> json \<Rightarrow> protocol_error + json" where
  "convert_system_block index block =
     and_then (ok_or (Invalid (''system['' @ show_nat index @ ''] must be an object'')) (as_object block)) (\<lambda>obj.
     and_then (required_string obj ''type'') (\<lambda>kind.
       if kind \<noteq> ''text'' then Inl (Invalid ''system only supports text blocks'')
       else convert_text_block obj))"

definition convert_system :: "json \<Rightarrow> protocol_error + json" where
  "convert_system value =
     (case as_str value of
        Some _ \<Rightarrow> Inr value
      | None \<Rightarrow>
          and_then (ok_or (Invalid ''system must be a string or content block array'') (as_array value)) (\<lambda>blocks.
          and_then (try_map convert_system_block 0 blocks) (\<lambda>converted. Inr (JArr converted))))"

text \<open>\<open>normalize_system_messages\<close>: the number of bytes removed and the body.\<close>

definition bytes_removed :: "string \<Rightarrow> nat \<Rightarrow> nat" where
  "bytes_removed s removed = sat_add64 removed (length s - length (without_billing_header s))"

fun normalize_blocks :: "json list \<Rightarrow> nat \<Rightarrow> nat \<times> json list" where
  "normalize_blocks [] removed = (removed, [])"
| "normalize_blocks (block # blocks) removed =
     (let (removed', block') =
        (if get_str block ''type'' = Some ''text''
         then case json_get block ''text'' of
                Some (JStr s) \<Rightarrow>
                  (bytes_removed s removed, put_member ''text'' (JStr (without_billing_header s)) block)
              | _ \<Rightarrow> (removed, block)
         else (removed, block));
        (total_removed, rest) = normalize_blocks blocks removed'
      in (total_removed, block' # rest))"

definition normalize_system_message :: "json \<Rightarrow> nat \<Rightarrow> nat \<times> json" where
  "normalize_system_message message removed =
     (if get_str message ''role'' \<noteq> Some ''system'' then (removed, message)
      else case json_get message ''content'' of
          Some (JStr s) \<Rightarrow>
            (bytes_removed s removed, put_member ''content'' (JStr (without_billing_header s)) message)
        | Some (JArr blocks) \<Rightarrow>
            (case normalize_blocks blocks removed of
               (removed', blocks') \<Rightarrow> (removed', put_member ''content'' (JArr blocks') message))
        | _ \<Rightarrow> (removed, message))"

fun normalize_messages :: "json list \<Rightarrow> nat \<Rightarrow> nat \<times> json list" where
  "normalize_messages [] removed = (removed, [])"
| "normalize_messages (m # ms) removed =
     (case normalize_system_message m removed of (removed', m') \<Rightarrow>
        case normalize_messages ms removed' of (all_removed, ms') \<Rightarrow> (all_removed, m' # ms'))"

definition normalize_system_messages :: "json \<Rightarrow> nat \<times> json" where
  "normalize_system_messages body =
     (case Option.bind (json_get body ''messages'') as_array of
        None \<Rightarrow> (0, body)
      | Some ms \<Rightarrow>
          (case normalize_messages ms 0 of (removed, ms') \<Rightarrow> (removed, put_member ''messages'' (JArr ms') body)))"

subsection \<open>Wire messages\<close>

datatype wire_message =
    WireSystem json
  | WireUser string json
  | WireAssistant "json list" "json list" string
  | WireTool string json "bool option"

fun into_wire :: "wire_message \<Rightarrow> json" where
  "into_wire (WireSystem content) = JObj [(''role'', JStr ''system''), (''content'', content)]"
| "into_wire (WireUser role content) = JObj [(''role'', JStr role), (''content'', content)]"
| "into_wire (WireAssistant content tool_calls reasoning) =
     JObj ([(''role'', JStr ''assistant''), (''content'', JArr content)]
       @ (if tool_calls = [] then [] else [(''tool_calls'', JArr tool_calls)])
       @ (if reasoning = [] then [] else [(''reasoning_content'', JStr reasoning)]))"
| "into_wire (WireTool tool_call_id content is_error) =
     JObj ([(''role'', JStr ''tool''), (''tool_call_id'', JStr tool_call_id), (''content'', content)]
       @ (case is_error of None \<Rightarrow> [] | Some b \<Rightarrow> [(''is_error'', JBool b)]))"

subsection \<open>Content blocks\<close>

definition convert_image_block :: "jmap \<Rightarrow> protocol_error + json" where
  "convert_image_block obj =
     and_then (ok_or (Invalid ''image source must be an object'')
       (Option.bind (map_of obj ''source'') as_object)) (\<lambda>source.
     and_then (required_string source ''type'') (\<lambda>kind.
     and_then
       (if kind = ''base64'' then
          and_then (required_string source ''media_type'') (\<lambda>media.
          and_then (required_string source ''data'') (\<lambda>bytes.
            Inr (''data:'' @ media @ '';base64,'' @ bytes)))
        else if kind = ''url'' then required_string source ''url''
        else Inl (InvalidQuoting ''unsupported image source '' kind []))
       (\<lambda>url. Inr (JObj [(''type'', JStr ''image_url''), (''image_url'', JObj [(''url'', JStr url)])]))))"

definition file_json :: "jmap \<Rightarrow> json" where
  "file_json members = JObj [(''type'', JStr ''file''), (''file'', JObj members)]"

definition convert_document_block :: "jmap \<Rightarrow> protocol_error + json" where
  "convert_document_block obj =
     and_then (ok_or (Invalid ''document source must be an object'')
       (Option.bind (map_of obj ''source'') as_object)) (\<lambda>source.
     and_then (required_string source ''type'') (\<lambda>kind.
       if kind = ''text'' then and_then (required_string source ''data'') (\<lambda>s. Inr (text_json s))
       else if kind = ''url'' then
         and_then (required_string source ''url'') (\<lambda>url. Inr (file_json [(''file_url'', JStr url)]))
       else if kind = ''base64'' then
         and_then (required_string source ''media_type'') (\<lambda>media.
         and_then (required_string source ''data'') (\<lambda>bytes.
           Inr (file_json [(''filename'', JStr (str_or ''document'' (obj_str obj ''title''))),
                           (''file_data'', JStr (''data:'' @ media @ '';base64,'' @ bytes))])))
       else Inl (InvalidQuoting ''unsupported document source '' kind [])))"

definition search_result_text :: "jmap \<Rightarrow> string" where
  "search_result_text obj =
     str_or [] (obj_str obj ''title'') @ [newline] @ str_or [] (obj_str obj ''url'')
     @ (case obj_str obj ''content'' of Some quoted \<Rightarrow> newline # quoted | None \<Rightarrow> [])"

definition convert_tool_result_content_block :: "nat \<Rightarrow> json \<Rightarrow> protocol_error + json" where
  "convert_tool_result_content_block index block =
     and_then (ok_or (Invalid ''tool_result content block must be an object'') (as_object block)) (\<lambda>obj.
     and_then (required_string obj ''type'') (\<lambda>kind.
       if kind = ''text'' then convert_text_block obj
       else if kind = ''image'' then convert_image_block obj
       else if kind = ''document'' then convert_document_block obj
       else if kind = ''tool_reference'' then
         Inr (text_json (''[tool reference: '' @ str_or ''?'' (obj_str obj ''tool_name'') @ '']''))
       else if kind = ''search_result'' then Inr (text_json (search_result_text obj))
       else Inl (InvalidQuoting ''unsupported tool_result content type '' kind [])))"

definition tool_result_content :: "jmap \<Rightarrow> protocol_error + json" where
  "tool_result_content obj =
     (case map_of obj ''content'' of
        None \<Rightarrow> Inr (JStr [])
      | Some (JArr blocks) \<Rightarrow>
          and_then (try_map convert_tool_result_content_block 0 blocks) (\<lambda>converted. Inr (JArr converted))
      | Some (JStr s) \<Rightarrow> Inr (JStr s)
      | Some _ \<Rightarrow> Inl (Invalid ''tool_result content must be a string or array''))"

definition convert_tool_result :: "jmap \<Rightarrow> string set \<Rightarrow> protocol_error + wire_message" where
  "convert_tool_result obj pending_tool_ids =
     and_then (tool_result_content obj) (\<lambda>content.
     and_then (required_string obj ''tool_use_id'') (\<lambda>tool_call_id.
       if tool_call_id \<notin> pending_tool_ids
       then Inl (InvalidQuoting ''tool_result references tool_use id '' tool_call_id
                   '' which the immediately preceding assistant message did not declare'')
       else case map_of obj ''is_error'' of
           None \<Rightarrow> Inr (WireTool tool_call_id content None)
         | Some v \<Rightarrow>
             and_then (ok_or (Invalid ''tool_result is_error must be boolean'') (as_bool v)) (\<lambda>b.
               Inr (WireTool tool_call_id content (Some b)))))"

subsection \<open>Assistant turns\<close>

record assistant_turn =
  at_output :: "wire_message list"
  at_content :: "json list"
  at_calls :: "json list"
  at_reasoning :: string
  at_server_calls :: "json list"
  at_server_ids :: "string list"
  at_seen :: "string list"
  at_tool_ids :: "string set"

text \<open>The closures \<open>flush\<close> and \<open>flush_server_calls\<close>.\<close>

definition flush_segment :: "assistant_turn \<Rightarrow> assistant_turn" where
  "flush_segment st =
     (if at_content st = [] \<and> at_calls st = [] \<and> at_reasoning st = [] then st
      else st\<lparr>at_output := at_output st @ [WireAssistant (at_content st) (at_calls st) (at_reasoning st)],
              at_content := [], at_calls := [], at_reasoning := []\<rparr>)"

definition flush_server_calls :: "assistant_turn \<Rightarrow> assistant_turn" where
  "flush_server_calls st =
     (if at_server_calls st = [] then st
      else st\<lparr>at_output := at_output st @ [WireAssistant [] (at_server_calls st) []], at_server_calls := []\<rparr>)"

definition results_missing :: "assistant_turn \<Rightarrow> bool" where
  "results_missing st \<longleftrightarrow> length (at_server_ids st) \<noteq> length (at_seen st)"

definition without_result :: protocol_error where
  "without_result = Invalid ''server_tool_use without its web_search_tool_result''"

definition function_call_json :: "string \<Rightarrow> string \<Rightarrow> string \<Rightarrow> json" where
  "function_call_json call_id name arguments =
     JObj [(''id'', JStr call_id), (''type'', JStr ''function''),
           (''function'', JObj [(''name'', JStr name), (''arguments'', JStr arguments)])]"

definition tool_input :: "jmap \<Rightarrow> json" where
  "tool_input obj = (case map_of obj ''input'' of Some v \<Rightarrow> v | None \<Rightarrow> JObj [])"

text \<open>One constructor per kind of block.\<close>

definition tool_use_block ::
  "(json \<Rightarrow> string) \<Rightarrow> jmap \<Rightarrow> assistant_turn \<Rightarrow> protocol_error + assistant_turn" where
  "tool_use_block json_text obj st =
     (if results_missing st then Inl without_result
      else
        and_then (required_string obj ''id'') (\<lambda>call_id.
        and_then (required_string obj ''name'') (\<lambda>name.
          Inr (st\<lparr>at_tool_ids := insert call_id (at_tool_ids st),
                  at_calls := at_calls st
                    @ [function_call_json call_id name (json_text (tool_input obj))]\<rparr>))))"

definition server_tool_use_block ::
  "(json \<Rightarrow> string) \<Rightarrow> jmap \<Rightarrow> assistant_turn \<Rightarrow> protocol_error + assistant_turn" where
  "server_tool_use_block json_text obj st0 =
     (let st = flush_segment st0 in
      and_then (required_string obj ''id'') (\<lambda>call_id.
        if call_id \<in> set (at_server_ids st)
        then Inl (InvalidQuoting ''duplicate server_tool_use id '' call_id [])
        else if \<not> is_object (tool_input obj)
        then Inl (Invalid ''server_tool_use input must be an object'')
        else
          and_then (required_string obj ''name'') (\<lambda>name.
            Inr (st\<lparr>at_server_ids := call_id # at_server_ids st,
                    at_server_calls := at_server_calls st
                      @ [function_call_json call_id name (json_text (tool_input obj))]\<rparr>))))"

definition web_search_result_block ::
  "json \<Rightarrow> jmap \<Rightarrow> assistant_turn \<Rightarrow> protocol_error + assistant_turn" where
  "web_search_result_block block obj st =
     and_then (required_string obj ''tool_use_id'') (\<lambda>call_id.
       if call_id \<notin> set (at_server_ids st)
       then Inl (InvalidQuoting ''web_search_tool_result references unknown server_tool_use id '' call_id [])
       else if call_id \<in> set (at_seen st)
       then Inl (InvalidQuoting ''duplicate web_search_tool_result for id '' call_id [])
       else
         (let st1 = flush_server_calls (st\<lparr>at_seen := call_id # at_seen st\<rparr>) in
          and_then (ok_or SliceOutOfRange (replayed_result_text block)) (\<lambda>s.
            Inr (st1\<lparr>at_output := at_output st1 @ [WireTool call_id (JStr s) None]\<rparr>))))"

definition assistant_block ::
  "(json \<Rightarrow> string) \<Rightarrow> json \<Rightarrow> assistant_turn \<Rightarrow> protocol_error + assistant_turn" where
  "assistant_block json_text block st =
     and_then (ok_or (Invalid ''assistant content block must be an object'') (as_object block)) (\<lambda>obj.
     and_then (required_string obj ''type'') (\<lambda>kind.
       if kind = ''text'' then
         (if results_missing st then Inl without_result
          else and_then (convert_text_block obj) (\<lambda>b. Inr (st\<lparr>at_content := at_content st @ [b]\<rparr>)))
       else if kind = ''thinking'' then
         Inr (case obj_str obj ''thinking'' of
                Some s \<Rightarrow> st\<lparr>at_reasoning := at_reasoning st @ s\<rparr> | None \<Rightarrow> st)
       else if kind = ''redacted_thinking'' then Inr st
       else if kind = ''tool_use'' then tool_use_block json_text obj st
       else if kind = ''server_tool_use'' then server_tool_use_block json_text obj st
       else if kind = ''web_search_tool_result'' then web_search_result_block block obj st
       else Inl (InvalidQuoting ''unsupported assistant content block type '' kind [])))"

definition start_turn :: "wire_message list \<Rightarrow> assistant_turn" where
  "start_turn output =
     \<lparr>at_output = output, at_content = [], at_calls = [], at_reasoning = [], at_server_calls = [],
      at_server_ids = [], at_seen = [], at_tool_ids = {}\<rparr>"

text \<open>The new messages and the ids the next user message may answer.\<close>

definition convert_assistant_blocks ::
  "(json \<Rightarrow> string) \<Rightarrow> json list \<Rightarrow> wire_message list \<Rightarrow> protocol_error + (wire_message list \<times> string set)" where
  "convert_assistant_blocks json_text blocks output =
     and_then (try_fold (assistant_block json_text) blocks (start_turn output)) (\<lambda>st.
       if at_server_calls st \<noteq> [] \<or> results_missing st then Inl without_result
       else
         (let st1 = flush_segment st in
          Inr (if length (at_output st1) = length output
               then at_output st1 @ [WireAssistant [] [] []] else at_output st1,
               at_tool_ids st1)))"

subsection \<open>User turns and messages\<close>

record user_turn =
  ut_output :: "wire_message list"
  ut_ordinary :: "json list"
  ut_saw_ordinary :: bool
  ut_seen :: "string list"

definition ordinary_block ::
  "(jmap \<Rightarrow> protocol_error + json) \<Rightarrow> jmap \<Rightarrow> user_turn \<Rightarrow> protocol_error + user_turn" where
  "ordinary_block convert obj st =
     and_then (convert obj) (\<lambda>b. Inr (st\<lparr>ut_saw_ordinary := True, ut_ordinary := ut_ordinary st @ [b]\<rparr>))"

definition user_block :: "string set \<Rightarrow> json \<Rightarrow> user_turn \<Rightarrow> protocol_error + user_turn" where
  "user_block pending_tool_ids block st =
     and_then (ok_or (Invalid ''user content block must be an object'') (as_object block)) (\<lambda>obj.
     and_then (required_string obj ''type'') (\<lambda>kind.
       if kind = ''text'' then ordinary_block convert_text_block obj st
       else if kind = ''image'' then ordinary_block convert_image_block obj st
       else if kind = ''document'' then ordinary_block convert_document_block obj st
       else if kind = ''tool_result'' then
         (if ut_saw_ordinary st
          then Inl (Invalid (''tool_result blocks must appear before text/image/document content ''
                 @ ''in the same user message''))
          else
            and_then (required_string obj ''tool_use_id'') (\<lambda>call_id.
              if call_id \<in> set (ut_seen st)
              then Inl (InvalidQuoting ''duplicate tool_result for tool_use id '' call_id [])
              else
                and_then (convert_tool_result obj pending_tool_ids) (\<lambda>m.
                  Inr (st\<lparr>ut_seen := call_id # ut_seen st, ut_output := ut_output st @ [m]\<rparr>))))
       else Inl (InvalidQuoting ''unsupported user content block type '' kind [])))"

definition convert_user_blocks ::
  "json list \<Rightarrow> wire_message list \<Rightarrow> string set \<Rightarrow> protocol_error + wire_message list" where
  "convert_user_blocks blocks output pending_tool_ids =
     and_then
       (try_fold (user_block pending_tool_ids) blocks
          \<lparr>ut_output = output, ut_ordinary = [], ut_saw_ordinary = False, ut_seen = []\<rparr>) (\<lambda>st.
       Inr (ut_output st
         @ (if ut_ordinary st = [] then [] else [WireUser ''user'' (JArr (ut_ordinary st))])
         @ (if blocks = [] then [WireUser ''user'' (JArr [])] else [])))"

definition convert_message ::
  "(json \<Rightarrow> string) \<Rightarrow> nat \<times> json \<Rightarrow> wire_message list \<times> string set
   \<Rightarrow> protocol_error + (wire_message list \<times> string set)" where
  "convert_message json_text = (\<lambda>(message_index, value) (output, pending_tool_ids).
     and_then (ok_or (Invalid (''messages['' @ show_nat message_index @ ''] must be an object''))
       (as_object value)) (\<lambda>obj.
     and_then (required_string obj ''role'') (\<lambda>role.
       if role \<notin> {''user'', ''assistant'', ''system''}
       then Inl (Invalid (''messages['' @ show_nat message_index
              @ ''].role must be user, assistant, or system''))
       else
         and_then (ok_or (Invalid ''message content is required'') (map_of obj ''content'')) (\<lambda>content.
           if role = ''system''
           then and_then (convert_system content) (\<lambda>c. Inr (output @ [WireSystem c], {}))
           else if as_str content \<noteq> None
           then Inr (output @ [WireUser (if role = ''assistant'' then ''assistant'' else ''user'') content], {})
           else
             and_then (ok_or (Invalid ''message content must be a string or array'') (as_array content))
               (\<lambda>blocks.
                 if role = ''assistant'' then convert_assistant_blocks json_text blocks output
                 else and_then (convert_user_blocks blocks output pending_tool_ids) (\<lambda>ms. Inr (ms, {})))))))"

definition convert_messages ::
  "(json \<Rightarrow> string) \<Rightarrow> json list \<Rightarrow> wire_message list \<Rightarrow> protocol_error + wire_message list" where
  "convert_messages json_text input_messages start =
     and_then (try_fold (convert_message json_text) (List.enumerate 0 input_messages) (start, {})) (\<lambda>st. Inr (fst st))"

subsection \<open>Tools and formats\<close>

definition checked_member ::
  "jmap \<Rightarrow> string \<Rightarrow> (json \<Rightarrow> bool) \<Rightarrow> string \<Rightarrow> jmap \<Rightarrow> protocol_error + jmap" where
  "checked_member input name ok message output =
     (case map_of input name of
        None \<Rightarrow> Inr output
      | Some v \<Rightarrow> (if ok v then Inr (obj_insert name v output) else Inl (Invalid message)))"

definition is_string :: "json \<Rightarrow> bool" where "is_string v \<longleftrightarrow> as_str v \<noteq> None"

definition is_boolean :: "json \<Rightarrow> bool" where "is_boolean v \<longleftrightarrow> as_bool v \<noteq> None"

text \<open>A tool that is not the search declaration.\<close>

definition custom_tool :: "jmap \<Rightarrow> protocol_error + json" where
  "custom_tool obj =
     (let kind = str_or ''custom'' (obj_str obj ''type'') in
      if kind \<noteq> ''custom'' \<and> map_of obj ''input_schema'' = None
      then Inl (InvalidQuoting ''tool type '' kind '' is not supported'')
      else
        and_then (ok_or (Invalid ''tool input_schema must be an object'')
          (case map_of obj ''input_schema'' of
             Some v \<Rightarrow> (if is_object v then Some v else None) | None \<Rightarrow> None)) (\<lambda>schema.
        and_then (required_string obj ''name'') (\<lambda>name.
        and_then (checked_member obj ''description'' is_string ''tool description must be a string''
            [(''name'', JStr name), (''parameters'', schema)]) (\<lambda>f.
        and_then (checked_member obj ''strict'' is_boolean ''tool strict must be a boolean'' f) (\<lambda>g.
          Inr (JObj [(''type'', JStr ''function''), (''function'', JObj g)]))))))"

definition declared_search :: "json \<Rightarrow> protocol_error + web_search_config" where
  "declared_search tool =
     (case parse_declaration tool of Inl e \<Rightarrow> Inl (BadDeclaration e) | Inr config \<Rightarrow> Inr config)"

definition convert_anthropic_tool ::
  "json \<Rightarrow> json list \<times> web_search_config option \<Rightarrow> protocol_error + (json list \<times> web_search_config option)" where
  "convert_anthropic_tool tool = (\<lambda>(converted, server).
     and_then (ok_or (Invalid ''tool must be an object'') (as_object tool)) (\<lambda>obj.
       if is_web_search_type tool then
         (if server \<noteq> None
          then Inl (Invalid ''at most one web_search server tool may be declared'')
          else
            and_then (declared_search tool) (\<lambda>config. Inr (converted @ [upstream_function], Some config)))
       else and_then (custom_tool obj) (\<lambda>t. Inr (converted @ [t], server))))"

definition convert_anthropic_tools :: "json \<Rightarrow> protocol_error + (json list \<times> web_search_config option)" where
  "convert_anthropic_tools value =
     and_then (ok_or (Invalid ''tools must be an array'') (as_array value)) (\<lambda>tools.
       try_fold convert_anthropic_tool tools ([], None))"

definition convert_anthropic_choice :: "json \<Rightarrow> protocol_error + (json \<times> bool option)" where
  "convert_anthropic_choice value =
     and_then (ok_or (Invalid ''tool_choice must be an object'') (as_object value)) (\<lambda>obj.
     and_then (required_string obj ''type'') (\<lambda>kind.
     and_then
       (if kind = ''auto'' then Inr (JStr ''auto'')
        else if kind = ''any'' then Inr (JStr ''required'')
        else if kind = ''none'' then Inr (JStr ''none'')
        else if kind = ''tool'' then
          and_then (required_string obj ''name'') (\<lambda>name.
            Inr (JObj [(''type'', JStr ''function''), (''function'', JObj [(''name'', JStr name)])]))
        else Inl (InvalidQuoting ''unsupported tool_choice type '' kind [])) (\<lambda>choice.
     and_then
       (case map_of obj ''disable_parallel_tool_use'' of
          None \<Rightarrow> Inr None
        | Some v \<Rightarrow>
            and_then (ok_or (Invalid ''disable_parallel_tool_use must be boolean'') (as_bool v)) (\<lambda>disabled.
              Inr (Some (\<not> disabled)))) (\<lambda>parallel. Inr (choice, parallel)))))"

definition convert_output_format :: "json \<Rightarrow> protocol_error + json" where
  "convert_output_format value =
     and_then (ok_or (Invalid ''output format must be an object'') (as_object value)) (\<lambda>obj.
     and_then (required_string obj ''type'') (\<lambda>kind.
       if kind = ''json_object'' then Inr (JObj [(''type'', JStr ''json_object'')])
       else if kind = ''json_schema'' then
         and_then (ok_or (Invalid ''output schema must be an object'')
           (case map_of obj ''schema'' of
              Some v \<Rightarrow> (if is_object v then Some v else None) | None \<Rightarrow> None)) (\<lambda>schema.
           Inr (JObj [(''type'', JStr ''json_schema''), (''json_schema'', JObj
             [(''name'', JStr (str_or ''response'' (obj_str obj ''name''))),
              (''schema'', schema),
              (''strict'', JBool (case Option.bind (map_of obj ''strict'') as_bool of
                 Some b \<Rightarrow> b | None \<Rightarrow> True))])]))
       else Inl (InvalidQuoting ''unsupported output format type '' kind [])))"

subsection \<open>The request\<close>

record anthropic_request =
  ar_body :: json
  ar_model :: string
  ar_stream :: bool
  ar_web_search :: "web_search_config option"
  ar_thinking :: "json option"
  ar_effort :: "string option"
  ar_expose_thinking :: bool

definition stop_member :: "jmap \<Rightarrow> jmap \<Rightarrow> protocol_error + jmap" where
  "stop_member obj output =
     (case map_of obj ''stop_sequences'' of
        None \<Rightarrow> Inr output
      | Some stop \<Rightarrow>
          and_then (ok_or (Invalid ''stop_sequences must be an array'') (as_array stop)) (\<lambda>sequences.
            if list_ex (\<lambda>v. as_str v = None) sequences
            then Inl (Invalid ''stop_sequences entries must be strings'')
            else Inr (obj_insert ''stop'' stop output)))"

definition metadata_member :: "jmap \<Rightarrow> jmap \<Rightarrow> protocol_error + jmap" where
  "metadata_member obj output =
     checked_member obj ''metadata'' is_object ''metadata must be an object'' output"

definition anthropic_tools_member ::
  "jmap \<Rightarrow> jmap \<Rightarrow> protocol_error + (jmap \<times> web_search_config option)" where
  "anthropic_tools_member obj output =
     (case map_of obj ''tools'' of
        None \<Rightarrow> Inr (output, None)
      | Some tools \<Rightarrow>
          and_then (convert_anthropic_tools tools) (\<lambda>(converted, server).
            Inr (if converted = [] then output else obj_insert ''tools'' (JArr converted) output, server)))"

definition anthropic_choice_member :: "jmap \<Rightarrow> jmap \<Rightarrow> protocol_error + jmap" where
  "anthropic_choice_member obj output =
     (case map_of obj ''tool_choice'' of
        None \<Rightarrow> Inr output
      | Some wanted \<Rightarrow>
          and_then (convert_anthropic_choice wanted) (\<lambda>(converted, parallel).
            let output' = obj_insert ''tool_choice'' converted output
            in Inr (case parallel of
                 Some b \<Rightarrow> obj_insert ''parallel_tool_calls'' (JBool b) output' | None \<Rightarrow> output')))"

definition format_member :: "json option \<Rightarrow> jmap \<Rightarrow> protocol_error + jmap" where
  "format_member format output =
     (case format of
        None \<Rightarrow> Inr output
      | Some v \<Rightarrow> and_then (convert_output_format v) (\<lambda>f. Inr (obj_insert ''response_format'' f output)))"

definition output_config_member :: "jmap \<Rightarrow> jmap \<Rightarrow> protocol_error + jmap" where
  "output_config_member obj output =
     (case map_of obj ''output_config'' of
        None \<Rightarrow> Inr output
      | Some config \<Rightarrow>
          (if is_object config then format_member (json_get config ''format'') output
           else Inl (Invalid ''output_config must be an object'')))"

text \<open>The messages, the system prompt first.\<close>

definition wire_messages :: "(json \<Rightarrow> string) \<Rightarrow> jmap \<Rightarrow> protocol_error + wire_message list" where
  "wire_messages json_text obj =
     and_then
       (case map_of obj ''system'' of
          None \<Rightarrow> Inr []
        | Some system \<Rightarrow> and_then (convert_system system) (\<lambda>c. Inr [WireSystem c])) (\<lambda>start.
     and_then (ok_or (Invalid ''messages must be an array'')
       (Option.bind (map_of obj ''messages'') as_array)) (\<lambda>input_messages.
       convert_messages json_text input_messages start))"

text \<open>The optional members, in the order of the code.\<close>

definition request_members ::
  "jmap \<Rightarrow> bool \<Rightarrow> jmap \<Rightarrow> protocol_error + (jmap \<times> web_search_config option)" where
  "request_members obj stream o0 =
     and_then (copy_number obj ''temperature'' o0) (\<lambda>o1.
     and_then (copy_number obj ''top_p'' o1) (\<lambda>o2.
     and_then (copy_positive_integer obj ''top_k'' o2) (\<lambda>o3.
     and_then (stop_member obj o3) (\<lambda>o4.
     and_then (metadata_member obj o4) (\<lambda>o5.
     and_then (anthropic_tools_member obj o5) (\<lambda>(o6, server).
     and_then (anthropic_choice_member obj o6) (\<lambda>o7.
     and_then (output_config_member obj o7) (\<lambda>o8.
     and_then (format_member (map_of obj ''output_format'') o8) (\<lambda>o9.
       Inr (if stream
            then obj_insert ''stream_options'' (JObj [(''include_usage'', JBool True)]) o9 else o9,
            server))))))))))"

definition convert_request_value :: "(json \<Rightarrow> string) \<Rightarrow> json \<Rightarrow> protocol_error + anthropic_request" where
  "convert_request_value json_text input =
     and_then (ok_or (Invalid ''request body must be a JSON object'') (as_object input)) (\<lambda>obj.
     and_then (required_string obj ''model'') (\<lambda>model.
     and_then (ok_or (Invalid ''max_tokens must be a positive integer'')
       (Option.bind (map_of obj ''max_tokens'') positive_u64)) (\<lambda>max_tokens.
     and_then (optional_bool obj ''stream'') (\<lambda>wanted.
     let stream = (case wanted of Some b \<Rightarrow> b | None \<Rightarrow> False) in
     and_then (wire_messages json_text obj) (\<lambda>ms.
     and_then (request_members obj stream
       [(''model'', JStr model), (''max_tokens'', JNum (PosInt max_tokens)), (''stream'', JBool stream),
        (''messages'', JArr (map into_wire ms))]) (\<lambda>(output, server).
       Inr \<lparr>ar_body = JObj output, ar_model = model, ar_stream = stream, ar_web_search = server,
            ar_thinking = map_of obj ''thinking'',
            ar_effort = Option.bind (map_of obj ''output_config'') (\<lambda>config. get_str config ''effort''),
            ar_expose_thinking = False\<rparr>))))))"

definition apply_model :: "string \<Rightarrow> anthropic_request \<Rightarrow> anthropic_request" where
  "apply_model model converted =
     converted\<lparr>ar_model := model, ar_body := put_member ''model'' (JStr model) (ar_body converted)\<rparr>"

subsection \<open>What reaches the upstream\<close>

lemma adds_only_step: "adds_only ks a b \<Longrightarrow> k \<in> ks \<Longrightarrow> adds_only ks a (obj_insert k v b)"
  by (auto simp: adds_only_def)

lemma copy_number_adds: "copy_number input name o1 = Inr o2 \<Longrightarrow> adds_only {name} o1 o2"
  by (auto simp: copy_number_def split: option.splits if_split_asm)

lemma copy_positive_adds: "copy_positive_integer input name o1 = Inr o2 \<Longrightarrow> adds_only {name} o1 o2"
  by (auto simp: copy_positive_integer_def split: option.splits if_split_asm)

lemma stop_member_adds: "stop_member obj o1 = Inr o2 \<Longrightarrow> adds_only {''stop''} o1 o2"
  by (auto simp: stop_member_def and_then_Inr split: option.splits if_split_asm)

lemma metadata_member_adds: "metadata_member obj o1 = Inr o2 \<Longrightarrow> adds_only {''metadata''} o1 o2"
  by (auto simp: metadata_member_def checked_member_def split: option.splits if_split_asm)

lemma anthropic_tools_adds: "anthropic_tools_member obj o1 = Inr (o2, server) \<Longrightarrow> adds_only {''tools''} o1 o2"
  by (auto simp: anthropic_tools_member_def and_then_Inr split: option.splits)

lemma anthropic_choice_adds:
  assumes "anthropic_choice_member obj o1 = Inr o2"
  shows "adds_only {''tool_choice'', ''parallel_tool_calls''} o1 o2"
proof (cases "map_of obj ''tool_choice''")
  case (Some wanted)
  then obtain c parallel where o2: "o2 = (case parallel of
      Some b \<Rightarrow> obj_insert ''parallel_tool_calls'' (JBool b) (obj_insert ''tool_choice'' c o1)
    | None \<Rightarrow> obj_insert ''tool_choice'' c o1)"
    using assms unfolding anthropic_choice_member_def by (auto simp: and_then_Inr Let_def)
  show ?thesis by (cases parallel) (simp_all add: o2 adds_only_step)
qed (use assms in \<open>simp add: anthropic_choice_member_def\<close>)

lemma format_member_adds: "format_member f o1 = Inr o2 \<Longrightarrow> adds_only {''response_format''} o1 o2"
  by (auto simp: format_member_def and_then_Inr split: option.splits)

lemma config_member_adds: "output_config_member obj o1 = Inr o2 \<Longrightarrow> adds_only {''response_format''} o1 o2"
  by (auto simp: output_config_member_def dest: format_member_adds split: option.splits if_split_asm)

text \<open>How one tool of the client is offered: a search declaration as the search function, any other as a
  function with its own name, parameters, description and strictness.\<close>

definition offered_as :: "json \<Rightarrow> json \<Rightarrow> bool" where
  "offered_as tool t \<longleftrightarrow>
     get_str t ''type'' = Some ''function''
     \<and> (if is_web_search_type tool then t = upstream_function
        else (\<exists>f. json_get t ''function'' = Some f \<and> json_get f ''name'' = json_get tool ''name''
               \<and> json_get f ''parameters'' = json_get tool ''input_schema''
               \<and> json_get f ''description'' = json_get tool ''description''
               \<and> json_get f ''strict'' = json_get tool ''strict''))"

text \<open>The search the gateway serves is the one declared among the tools; there is at most one.\<close>

definition serves_declared :: "json list \<Rightarrow> web_search_config option \<Rightarrow> bool" where
  "serves_declared tools server \<longleftrightarrow>
     (case filter is_web_search_type tools of
        [] \<Rightarrow> server = None
      | [tool] \<Rightarrow> (\<exists>config. parse_declaration tool = Inr config \<and> server = Some config)
      | _ \<Rightarrow> False)"

lemma str_member: "Option.bind (map_of obj k) as_str = Some s \<longleftrightarrow> map_of obj k = Some (JStr s)"
  by (cases "map_of obj k") (auto elim: as_str.elims)

lemma required_string_member:
  "required_string obj name = Inr s \<Longrightarrow> map_of obj name = Some (JStr s) \<and> s \<noteq> []"
  by (auto simp: required_string_def obj_str_def str_member split: option.splits if_split_asm)

lemma checked_member_Inr:
  "checked_member input name ok message obj = Inr obj' \<Longrightarrow> map_of obj name = None \<Longrightarrow>
     map_of obj' name = map_of input name \<and> (\<forall>k. k \<noteq> name \<longrightarrow> map_of obj' k = map_of obj k)"
  by (auto simp: checked_member_def split: option.splits if_split_asm)

lemma custom_tool_offered:
  assumes "custom_tool obj = Inr t" and "\<not> is_web_search_type (JObj obj)"
  shows "offered_as (JObj obj) t"
proof -
  obtain schema name f g where schema: "map_of obj ''input_schema'' = Some schema"
    and name: "required_string obj ''name'' = Inr name"
    and f: "checked_member obj ''description'' is_string ''tool description must be a string''
            [(''name'', JStr name), (''parameters'', schema)] = Inr f"
    and g: "checked_member obj ''strict'' is_boolean ''tool strict must be a boolean'' f = Inr g"
    and t: "t = JObj [(''type'', JStr ''function''), (''function'', JObj g)]"
    using assms(1) by (auto simp: custom_tool_def and_then_Inr Let_def split: if_split_asm option.splits)
  have "map_of f ''description'' = map_of obj ''description''" and f_others: "\<And>k. k \<noteq> ''description'' \<Longrightarrow>
      map_of f k = map_of [(''name'', JStr name), (''parameters'', schema)] k"
    using checked_member_Inr [OF f] by simp_all
  moreover from f_others have "map_of g ''strict'' = map_of obj ''strict''"
    and "\<And>k. k \<noteq> ''strict'' \<Longrightarrow> map_of g k = map_of f k"
    using checked_member_Inr [OF g] by simp_all
  moreover have "map_of obj ''name'' = Some (JStr name)"
    using required_string_member [OF name] by simp
  ultimately show ?thesis using schema assms(2) by (simp add: offered_as_def t get_str_def)
qed

lemma convert_tools_offered:
  "try_fold convert_anthropic_tool tools (before, server) = Inr (converted, server') \<Longrightarrow>
     (\<exists>new. converted = before @ new \<and> list_all2 offered_as tools new)
     \<and> (if server = None then serves_declared tools server'
        else filter is_web_search_type tools = [] \<and> server' = server)"
proof (induction tools arbitrary: before server)
  case (Cons tool tools)
  obtain c1 s1 where one: "convert_anthropic_tool tool (before, server) = Inr (c1, s1)"
    and rest: "try_fold convert_anthropic_tool tools (c1, s1) = Inr (converted, server')"
    using Cons.prems by (auto simp: and_then_Inr)
  obtain obj where obj: "tool = JObj obj" using one by (cases tool) (auto simp: convert_anthropic_tool_def)
  note IH = Cons.IH [OF rest]
  show ?case
  proof (cases "is_web_search_type tool")
    case True
    then obtain config where "server = None" "parse_declaration tool = Inr config" "c1 = before @ [upstream_function]" "s1 = Some config"
      using one by (auto simp: convert_anthropic_tool_def obj and_then_Inr declared_search_def split: if_split_asm sum.splits)
    moreover have "offered_as tool upstream_function" using True by (simp add: offered_as_def upstream_function_type)
    ultimately show ?thesis using IH True by (auto simp: serves_declared_def)
  next
    case False
    then obtain t where "custom_tool obj = Inr t" "c1 = before @ [t]" "s1 = server"
      using one by (auto simp: convert_anthropic_tool_def obj and_then_Inr)
    moreover from this have "offered_as tool t" using custom_tool_offered False obj by blast
    ultimately show ?thesis using IH False by (auto simp: serves_declared_def)
  qed
qed (simp add: serves_declared_def)

definition optional_members :: "string set" where
  "optional_members = {''temperature'', ''top_p'', ''top_k'', ''stop'', ''metadata'', ''tools'', ''tool_choice'',
     ''parallel_tool_calls'', ''response_format'', ''stream_options''}"

lemma request_members_adds:
  assumes "request_members obj stream o0 = Inr (final, server)" and "map_of o0 ''tools'' = None"
  shows "adds_only optional_members o0 final"
    and "list_all2 offered_as (offered_tools (JObj obj)) (offered_tools (JObj final))"
    and "serves_declared (offered_tools (JObj obj)) server"
proof -
  from assms(1) obtain o1 o2 o3 o4 o5 o6 o7 o8 o9 where
    o1: "copy_number obj ''temperature'' o0 = Inr o1" and o2: "copy_number obj ''top_p'' o1 = Inr o2" and
    o3: "copy_positive_integer obj ''top_k'' o2 = Inr o3" and o4: "stop_member obj o3 = Inr o4" and
    o5: "metadata_member obj o4 = Inr o5" and o6: "anthropic_tools_member obj o5 = Inr (o6, server)" and
    o7: "anthropic_choice_member obj o6 = Inr o7" and o8: "output_config_member obj o7 = Inr o8" and
    o9: "format_member (map_of obj ''output_format'') o8 = Inr o9" and
    final: "final = (if stream
        then obj_insert ''stream_options'' (JObj [(''include_usage'', JBool True)]) o9 else o9)"
    by (auto simp: request_members_def and_then_Inr)
  have before: "adds_only {''temperature'', ''top_p'', ''top_k'', ''stop'', ''metadata''} o0 o5"
    using adds_only_trans [OF copy_number_adds [OF o1] adds_only_trans [OF copy_number_adds [OF o2]
          adds_only_trans [OF copy_positive_adds [OF o3] adds_only_trans [OF stop_member_adds [OF o4]
          metadata_member_adds [OF o5]]]]]
    by (rule adds_only_mono) auto
  have "adds_only {''tool_choice'', ''parallel_tool_calls'', ''response_format'', ''stream_options''} o6 o9"
    using adds_only_trans [OF anthropic_choice_adds [OF o7] adds_only_trans [OF config_member_adds [OF o8]
          format_member_adds [OF o9]]]
    by (rule adds_only_mono) auto
  then have after: "adds_only {''tool_choice'', ''parallel_tool_calls'', ''response_format'', ''stream_options''} o6 final"
    by (simp add: final adds_only_step)
  have "adds_only ({''temperature'', ''top_p'', ''top_k'', ''stop'', ''metadata''}
      \<union> ({''tools''} \<union> {''tool_choice'', ''parallel_tool_calls'', ''response_format'', ''stream_options''})) o0 final"
    using adds_only_trans [OF before adds_only_trans [OF anthropic_tools_adds [OF o6] after]] .
  then show "adds_only optional_members o0 final"
    by (rule adds_only_mono) (auto simp: optional_members_def)
  have "map_of final ''tools'' = map_of o6 ''tools''" using adds_only_D [OF after, of "''tools''"] by simp
  moreover have "map_of o5 ''tools'' = None" using adds_only_D [OF before, of "''tools''"] assms(2) by simp
  ultimately have tools: "offered_tools (JObj final) = (case map_of o6 ''tools'' of Some (JArr ts) \<Rightarrow> ts | _ \<Rightarrow> [])"
    and none: "map_of o5 ''tools'' = None"
    by (auto simp: offered_tools_def split: option.splits json.splits)
  have "list_all2 offered_as (offered_tools (JObj obj)) (offered_tools (JObj final)) \<and> serves_declared (offered_tools (JObj obj)) server"
  proof (cases "map_of obj ''tools''")
    case None
    then show ?thesis using o6 none tools by (simp add: anthropic_tools_member_def offered_tools_def serves_declared_def)
  next
    case (Some v)
    then obtain ts converted where "v = JArr ts" and fold: "try_fold convert_anthropic_tool ts ([], None) = Inr (converted, server)"
      and o6': "o6 = (if converted = [] then o5 else obj_insert ''tools'' (JArr converted) o5)"
      using o6 by (auto simp: anthropic_tools_member_def convert_anthropic_tools_def and_then_Inr dest: as_array_SomeD)
    moreover from this have "offered_tools (JObj obj) = ts" using Some by (simp add: offered_tools_def)
    ultimately show ?thesis using convert_tools_offered [OF fold] tools none by (cases ts) auto
  qed
  then show "list_all2 offered_as (offered_tools (JObj obj)) (offered_tools (JObj final))"
    "serves_declared (offered_tools (JObj obj)) server" by simp_all
qed

text \<open>Every step of the conversion only appends to the messages.\<close>

definition extends :: "'a list \<Rightarrow> 'a list \<Rightarrow> bool" where
  "extends xs ys \<longleftrightarrow> (\<exists>zs. ys = xs @ zs)"

lemma extends_refl [simp]: "extends xs xs" by (simp add: extends_def)

lemma extends_append [simp]: "extends xs (xs @ ys)" by (simp add: extends_def)

lemma extends_trans: "extends xs ys \<Longrightarrow> extends ys zs \<Longrightarrow> extends xs zs"
  by (auto simp: extends_def)

lemma extends_snoc [simp]: "extends xs ys \<Longrightarrow> extends xs (ys @ zs)"
  by (auto simp: extends_def)

lemma try_fold_extends:
  assumes "\<And>x st st'. f x st = Inr st' \<Longrightarrow> extends (out st) (out st')"
  shows "try_fold f xs st = Inr st' \<Longrightarrow> extends (out st) (out st')"
proof (induction xs arbitrary: st)
  case (Cons x xs)
  then obtain st1 where "f x st = Inr st1" and "try_fold f xs st1 = Inr st'"
    by (auto simp: and_then_Inr)
  then show ?case using Cons.IH assms extends_trans by metis
qed simp

lemma flush_segment_extends [simp]: "extends (at_output st) (at_output (flush_segment st))"
  by (simp add: flush_segment_def)

lemma tool_use_extends: "tool_use_block json_text obj st = Inr st' \<Longrightarrow> at_output st' = at_output st"
  by (auto simp: tool_use_block_def and_then_Inr split: if_split_asm)

lemma server_tool_use_extends:
  "server_tool_use_block json_text obj st = Inr st' \<Longrightarrow> at_output st' = at_output (flush_segment st)"
  by (auto simp: server_tool_use_block_def and_then_Inr Let_def split: if_split_asm)

lemma web_search_result_extends:
  "web_search_result_block block obj st = Inr st' \<Longrightarrow> extends (at_output st) (at_output st')"
  by (auto simp: web_search_result_block_def and_then_Inr flush_server_calls_def Let_def split: if_split_asm)

lemma assistant_block_extends:
  assumes "assistant_block json_text block st = Inr st'"
  shows "extends (at_output st) (at_output st')"
proof -
  obtain obj kind where step: "(if kind = ''text'' then
         (if results_missing st then Inl without_result
          else and_then (convert_text_block obj) (\<lambda>b. Inr (st\<lparr>at_content := at_content st @ [b]\<rparr>)))
       else if kind = ''thinking'' then
         Inr (case obj_str obj ''thinking'' of
                Some s \<Rightarrow> st\<lparr>at_reasoning := at_reasoning st @ s\<rparr> | None \<Rightarrow> st)
       else if kind = ''redacted_thinking'' then Inr st
       else if kind = ''tool_use'' then tool_use_block json_text obj st
       else if kind = ''server_tool_use'' then server_tool_use_block json_text obj st
       else if kind = ''web_search_tool_result'' then web_search_result_block block obj st
       else Inl (InvalidQuoting ''unsupported assistant content block type '' kind [])) = Inr st'"
    using assms by (auto simp only: assistant_block_def and_then_Inr)
  then consider (same) "at_output st' = at_output st" | (tool) "tool_use_block json_text obj st = Inr st'"
    | (server) "server_tool_use_block json_text obj st = Inr st'"
    | (answer) "web_search_result_block block obj st = Inr st'"
    by (auto simp: and_then_Inr split: if_split_asm option.splits)
  then show ?thesis
    by cases (simp_all add: tool_use_extends server_tool_use_extends web_search_result_extends)
qed

lemma user_block_extends:
  assumes "user_block pending block st = Inr st'"
  shows "extends (ut_output st) (ut_output st')"
proof -
  have ordinary: "ut_output st' = ut_output st" if "ordinary_block convert obj st = Inr st'" for convert obj
    using that by (auto simp: ordinary_block_def and_then_Inr)
  obtain obj kind where step: "(if kind = ''text'' then ordinary_block convert_text_block obj st
       else if kind = ''image'' then ordinary_block convert_image_block obj st
       else if kind = ''document'' then ordinary_block convert_document_block obj st
       else if kind = ''tool_result'' then
         (if ut_saw_ordinary st
          then Inl (Invalid (''tool_result blocks must appear before text/image/document content ''
                 @ ''in the same user message''))
          else
            and_then (required_string obj ''tool_use_id'') (\<lambda>call_id.
              if call_id \<in> set (ut_seen st)
              then Inl (InvalidQuoting ''duplicate tool_result for tool_use id '' call_id [])
              else
                and_then (convert_tool_result obj pending) (\<lambda>m.
                  Inr (st\<lparr>ut_seen := call_id # ut_seen st, ut_output := ut_output st @ [m]\<rparr>))))
       else Inl (InvalidQuoting ''unsupported user content block type '' kind [])) = Inr st'"
    using assms by (auto simp only: user_block_def and_then_Inr)
  then show ?thesis
    by (auto simp: and_then_Inr ordinary split: if_split_asm)
qed

lemma user_blocks_extend:
  assumes "convert_user_blocks blocks outs pending = Inr ms"
  shows "extends outs ms"
proof -
  obtain st where fold: "try_fold (user_block pending) blocks
      \<lparr>ut_output = outs, ut_ordinary = [], ut_saw_ordinary = False, ut_seen = []\<rparr> = Inr st"
    and ms: "ms = ut_output st @ (if ut_ordinary st = [] then [] else [WireUser ''user'' (JArr (ut_ordinary st))])
         @ (if blocks = [] then [WireUser ''user'' (JArr [])] else [])"
    using assms by (auto simp only: convert_user_blocks_def and_then_Inr sum.inject)
  show ?thesis
    using try_fold_extends [where out = ut_output, OF user_block_extends fold] by (simp add: ms)
qed

lemma assistant_blocks_extend:
  assumes "convert_assistant_blocks json_text blocks outs = Inr (ms, ids)"
  shows "extends outs ms"
proof -
  obtain st where fold: "try_fold (assistant_block json_text) blocks (start_turn outs) = Inr st"
    and ms: "ms = at_output (flush_segment st) @ [WireAssistant [] [] []] \<or> ms = at_output (flush_segment st)"
    using assms by (auto simp: convert_assistant_blocks_def and_then_Inr Let_def split: if_split_asm)
  have "extends outs (at_output st)"
    using try_fold_extends [where out = at_output, OF assistant_block_extends fold] by (simp add: start_turn_def)
  then have "extends outs (at_output (flush_segment st))" using extends_trans flush_segment_extends by blast
  then show ?thesis using ms by auto
qed

lemma if_Inl_Inr: "(if c then Inl e else x) = Inr y \<longleftrightarrow> \<not> c \<and> x = Inr y" by simp

lemma message_extends:
  assumes "convert_message json_text v st = Inr st'"
  shows "extends (fst st) (fst st')"
proof -
  obtain index message where v: "v = (index, message)" by (cases v)
  obtain outs pending where st: "st = (outs, pending)" by (cases st)
  obtain role content where "(if role = ''system''
           then and_then (convert_system content) (\<lambda>c. Inr (outs @ [WireSystem c], {}))
           else if as_str content \<noteq> None
           then Inr (outs @ [WireUser (if role = ''assistant'' then ''assistant'' else ''user'') content], {})
           else
             and_then (ok_or (Invalid ''message content must be a string or array'') (as_array content))
               (\<lambda>blocks.
                 if role = ''assistant'' then convert_assistant_blocks json_text blocks outs
                 else and_then (convert_user_blocks blocks outs pending) (\<lambda>ms. Inr (ms, {})))) = Inr st'"
    using assms unfolding v st convert_message_def prod.case and_then_Inr if_Inl_Inr by blast
  then show ?thesis
    by (cases st') (auto simp: st and_then_Inr dest: assistant_blocks_extend user_blocks_extend split: if_split_asm)
qed

lemma wire_messages_system:
  assumes "wire_messages json_text obj = Inr ms"
  shows "case map_of obj ''system'' of None \<Rightarrow> True
    | Some system \<Rightarrow> (\<exists>c rest. convert_system system = Inr c \<and> ms = WireSystem c # rest)"
proof (cases "map_of obj ''system''")
  case (Some system)
  then obtain c vs where c: "convert_system system = Inr c"
    and "convert_messages json_text vs [WireSystem c] = Inr ms"
    using assms by (auto simp: wire_messages_def and_then_Inr)
  then obtain st where ms: "ms = fst st"
    and fold: "try_fold (convert_message json_text) (List.enumerate 0 vs) ([WireSystem c], {}) = Inr st"
    by (auto simp: convert_messages_def and_then_Inr)
  have "extends [WireSystem c] ms"
    using try_fold_extends [where out = fst, OF message_extends fold] by (simp add: ms)
  then show ?thesis using Some c by (auto simp: extends_def)
qed simp

text \<open>C18. What of an Anthropic request reaches the upstream: the model, the wire messages, and only the listed
  members; the controls the gateway resolves itself (thinking, effort) have no member. The system
  prompt is no member either: it goes first among the messages, converted. The tools are offered one for
  one, in the client's order, each as a function: the declaration of the search as the gateway's search
  function, every other with its own name, schema, description and strictness; and the gateway serves
  searches exactly under the declaration that is among the client's tools, none without one. The converted
  request starts with thinking hidden.\<close>

theorem anthropic_body_contained:
  assumes "convert_request_value json_text input = Inr r"
  shows "json_get (ar_body r) ''model'' = Some (JStr (ar_model r)) \<and> ar_model r \<noteq> []
    \<and> json_get input ''model'' = Some (JStr (ar_model r))
    \<and> (\<exists>obj ms. as_object input = Some obj \<and> wire_messages json_text obj = Inr ms
         \<and> json_get (ar_body r) ''messages'' = Some (JArr (map into_wire ms))
         \<and> (case map_of obj ''system'' of
               None \<Rightarrow> True
             | Some system \<Rightarrow> (\<exists>c rest. convert_system system = Inr c \<and> ms = WireSystem c # rest)))
    \<and> list_all2 offered_as (offered_tools input) (offered_tools (ar_body r))
    \<and> serves_declared (offered_tools input) (ar_web_search r)
    \<and> (\<forall>k. k \<notin> {''model'', ''max_tokens'', ''stream'', ''messages''} \<union> optional_members \<longrightarrow>
         json_get (ar_body r) k = None)
    \<and> \<not> ar_expose_thinking r"
proof -
  from assms obtain obj n ms final where obj: "as_object input = Some obj"
    and model: "required_string obj ''model'' = Inr (ar_model r)" and ms: "wire_messages json_text obj = Inr ms"
    and members: "request_members obj (ar_stream r)
       [(''model'', JStr (ar_model r)), (''max_tokens'', JNum (PosInt n)), (''stream'', JBool (ar_stream r)),
        (''messages'', JArr (map into_wire ms))] = Inr (final, ar_web_search r)"
    and r: "ar_body r = JObj final" "\<not> ar_expose_thinking r"
    by (auto simp: convert_request_value_def and_then_Inr Let_def)
  have "map_of final k = map_of [(''model'', JStr (ar_model r)), (''max_tokens'', JNum (PosInt n)),
      (''stream'', JBool (ar_stream r)), (''messages'', JArr (map into_wire ms))] k" if "k \<notin> optional_members" for k
    using adds_only_D [OF request_members_adds(1) [OF members]] that by simp
  then have base: "map_of final ''model'' = Some (JStr (ar_model r))"
      "map_of final ''messages'' = Some (JArr (map into_wire ms))"
      "\<And>k. k \<notin> {''model'', ''max_tokens'', ''stream'', ''messages''} \<union> optional_members \<Longrightarrow> map_of final k = None"
    by (simp_all add: optional_members_def)
  have input: "input = JObj obj" using obj by (cases input) simp_all
  have "list_all2 offered_as (offered_tools input) (offered_tools (ar_body r))"
    "serves_declared (offered_tools input) (ar_web_search r)"
    using request_members_adds(2,3) [OF members] input r(1) by simp_all
  moreover have "map_of obj ''model'' = Some (JStr (ar_model r)) \<and> ar_model r \<noteq> []"
    using required_string_member [OF model] by simp
  moreover have "case map_of obj ''system'' of None \<Rightarrow> True
      | Some system \<Rightarrow> (\<exists>c rest. convert_system system = Inr c \<and> ms = WireSystem c # rest)"
    using wire_messages_system [OF ms] by simp
  ultimately show ?thesis using base obj ms r input by auto
qed

definition demo_anthropic_request :: json where
  "demo_anthropic_request =
     JObj [(''model'', JStr ''m''), (''max_tokens'', JNum (PosInt 9)), (''messages'', JArr []),
       (''thinking'', JObj []),
       (''tools'', JArr [JObj [(''type'', JStr ''web_search_20250305''), (''name'', JStr ''web_search'')]])]"

lemma demo_anthropic_request_converts:
  "\<exists>r. convert_request_value (\<lambda>_. []) demo_anthropic_request = Inr r \<and> ar_web_search r \<noteq> None"
  by (simp add: demo_anthropic_request_def convert_request_value_def required_string_def obj_str_def positive_u64_def
      optional_bool_def wire_messages_def convert_messages_def request_members_def copy_number_def
      copy_positive_integer_def stop_member_def metadata_member_def checked_member_def anthropic_tools_member_def
      convert_anthropic_tools_def convert_anthropic_tool_def is_web_search_type_def get_str_def declared_search_def
      parse_declaration_def version_of_type_def FUNCTION_NAME_def validate_supported_semantics_def
      parse_max_uses_def parse_domain_filter_def parse_domain_list_def require_direct_only_callers_def
      anthropic_choice_member_def output_config_member_def format_member_def)

theorem anthropic_body_contained_witness:
  "\<exists>r. convert_request_value (\<lambda>_. []) demo_anthropic_request = Inr r
     \<and> upstream_function \<in> set (offered_tools (ar_body r)) \<and> json_get (ar_body r) ''thinking'' = None"
proof -
  obtain r where r: "convert_request_value (\<lambda>_. []) demo_anthropic_request = Inr r" "ar_web_search r \<noteq> None"
    using demo_anthropic_request_converts by blast
  have "''thinking'' \<notin> {''model'', ''max_tokens'', ''stream'', ''messages''} \<union> optional_members"
    by (simp add: optional_members_def)
  then have "json_get (ar_body r) ''thinking'' = None" using anthropic_body_contained [OF r(1)] by simp
  moreover have "list_all2 offered_as (offered_tools demo_anthropic_request) (offered_tools (ar_body r))"
    using anthropic_body_contained [OF r(1)] by simp
  then have "upstream_function \<in> set (offered_tools (ar_body r))"
    by (auto simp: demo_anthropic_request_def offered_tools_def list_all2_Cons1 offered_as_def is_web_search_type_def
        get_str_def version_of_type_def)
  ultimately show ?thesis using r(1) by blast
qed

end
