(* ===== verification/Anthropic_History.thy ===== *)
theory Anthropic_History
  imports Anthropic_Request
begin

text \<open>
  Tool calls and their answers in a converted Anthropic history (\<open>src/anthropic.rs\<close>).
\<close>

definition call_id :: "json \<Rightarrow> string" where
  "call_id call = str_or [] (get_str call ''id'')"

abbreviation call_ids :: "json list \<Rightarrow> string set" where
  "call_ids tool_calls \<equiv> call_id ` set tool_calls"

text \<open>Adjacency: a tool message answers, once, a call of the assistant message before it; between the
  two there are only answers.\<close>

fun answered :: "string set \<Rightarrow> wire_message list \<Rightarrow> bool" where
  "answered waiting [] = True"
| "answered waiting (WireTool i c e # ms) = (i \<in> waiting \<and> answered (waiting - {i}) ms)"
| "answered waiting (WireAssistant c tool_calls r # ms) = answered (call_ids tool_calls) ms"
| "answered waiting (WireUser role c # ms) = answered {} ms"
| "answered waiting (WireSystem c # ms) = answered {} ms"

text \<open>The calls a tool message may still answer after \<open>ms\<close>.\<close>

fun waiting_after :: "string set \<Rightarrow> wire_message list \<Rightarrow> string set" where
  "waiting_after waiting [] = waiting"
| "waiting_after waiting (WireTool i c e # ms) = waiting_after (waiting - {i}) ms"
| "waiting_after waiting (WireAssistant c tool_calls r # ms) = waiting_after (call_ids tool_calls) ms"
| "waiting_after waiting (WireUser role c # ms) = waiting_after {} ms"
| "waiting_after waiting (WireSystem c # ms) = waiting_after {} ms"

text \<open>The weaker order: a tool message answers a call of some earlier assistant message.\<close>

fun declared_earlier :: "string set \<Rightarrow> wire_message list \<Rightarrow> bool" where
  "declared_earlier known [] = True"
| "declared_earlier known (WireTool i c e # ms) = (i \<in> known \<and> declared_earlier known ms)"
| "declared_earlier known (WireAssistant c tool_calls r # ms) =
     declared_earlier (known \<union> call_ids tool_calls) ms"
| "declared_earlier known (WireUser role c # ms) = declared_earlier known ms"
| "declared_earlier known (WireSystem c # ms) = declared_earlier known ms"

definition wire_calls :: "wire_message list \<Rightarrow> string set" where
  "wire_calls ms = (\<Union>m \<in> set ms. case m of WireAssistant c tool_calls r \<Rightarrow> call_ids tool_calls | _ \<Rightarrow> {})"

lemma answered_append: "answered w (xs @ ys) \<longleftrightarrow> answered w xs \<and> answered (waiting_after w xs) ys"
  by (induction w xs rule: answered.induct) auto

lemma waiting_after_append: "waiting_after w (xs @ ys) = waiting_after (waiting_after w xs) ys"
  by (induction w xs rule: waiting_after.induct) auto

lemma wire_calls_simps [simp]:
  "wire_calls [] = {}" "wire_calls (xs @ ys) = wire_calls xs \<union> wire_calls ys"
  "wire_calls (WireTool i c e # ms) = wire_calls ms"
  "wire_calls (WireUser role c # ms) = wire_calls ms"
  "wire_calls (WireSystem c # ms) = wire_calls ms"
  "wire_calls (WireAssistant cs tool_calls r # ms) = call_ids tool_calls \<union> wire_calls ms"
  by (simp_all add: wire_calls_def)

lemma declared_earlier_append:
  "declared_earlier known (xs @ ys) \<longleftrightarrow> declared_earlier known xs \<and> declared_earlier (known \<union> wire_calls xs) ys"
  by (induction known xs rule: declared_earlier.induct) (auto simp: Un_assoc Un_left_commute)

lemma call_id_function [simp]: "call_id (function_call_json i name arguments) = i"
  by (simp add: call_id_def function_call_json_def str_or_def get_str_def)

text \<open>The kind of a content block, and the turns the gateway itself can have produced: no server call
  after a client call, and none between the answers of an earlier batch of server calls. Counted are
  the server calls without an answer; \<open>answering\<close> says that one of the batch was answered.\<close>

definition block_kind :: "json \<Rightarrow> string" where
  "block_kind block = str_or [] (get_str block ''type'')"

fun orderly :: "bool \<Rightarrow> nat \<Rightarrow> bool \<Rightarrow> json list \<Rightarrow> bool" where
  "orderly called open_calls answering [] = True"
| "orderly called open_calls answering (b # bs) =
     (if block_kind b = ''tool_use'' then orderly True open_calls answering bs
      else if block_kind b = ''server_tool_use''
        then \<not> called \<and> \<not> answering \<and> orderly called (Suc open_calls) False bs
      else if block_kind b = ''web_search_tool_result''
        then orderly called (open_calls - 1) (1 < open_calls) bs
      else orderly called open_calls answering bs)"

definition orderly_message :: "json \<Rightarrow> bool" where
  "orderly_message m =
     (case Option.bind (json_get m ''content'') as_array of
        Some blocks \<Rightarrow> get_str m ''role'' = Some ''assistant'' \<longrightarrow> orderly False 0 False blocks
      | None \<Rightarrow> True)"

subsection \<open>One assistant turn\<close>

text \<open>Server ids are distinct, and only announced ids are answered.\<close>

definition ids_ok :: "assistant_turn \<Rightarrow> bool" where
  "ids_ok st \<longleftrightarrow> distinct (at_server_ids st) \<and> distinct (at_seen st) \<and> set (at_seen st) \<subseteq> set (at_server_ids st)"

definition unanswered :: "assistant_turn \<Rightarrow> string set" where
  "unanswered st = set (at_server_ids st) - set (at_seen st)"

lemma results_missing_iff: "ids_ok st \<Longrightarrow> results_missing st \<longleftrightarrow> unanswered st \<noteq> {}"
  by (auto simp: results_missing_def unanswered_def ids_ok_def)
     (metis List.finite_set card_subset_eq distinct_card subsetD)+

lemma card_unanswered:
  "ids_ok st \<Longrightarrow> card (unanswered st) = length (at_server_ids st) - length (at_seen st)"
  by (simp add: ids_ok_def unanswered_def card_Diff_subset distinct_card)

lemma required_string_Inr: "required_string obj k = Inr s \<longleftrightarrow> obj_str obj k = Some s \<and> s \<noteq> []"
  by (auto simp: required_string_def split: option.split if_split_asm)

lemma assistant_block_cases:
  assumes "assistant_block json_text b st = Inr st'"
  obtains (content) c r where "block_kind b \<notin> {''tool_use'', ''server_tool_use'', ''web_search_tool_result''}"
      "st' = st\<lparr>at_content := c, at_reasoning := r\<rparr>"
  | (tool) i name arguments where "block_kind b = ''tool_use''"
      "st' = st\<lparr>at_tool_ids := insert i (at_tool_ids st),
                at_calls := at_calls st @ [function_call_json i name arguments]\<rparr>"
  | (server) i name arguments where "block_kind b = ''server_tool_use''" "i \<notin> set (at_server_ids st)"
      "st' = (flush_segment st)\<lparr>at_server_ids := i # at_server_ids st,
         at_server_calls := at_server_calls st @ [function_call_json i name arguments]\<rparr>"
  | (answer) i s where "block_kind b = ''web_search_tool_result''" "i \<in> set (at_server_ids st)" "i \<notin> set (at_seen st)"
      "st' = (flush_server_calls (st\<lparr>at_seen := i # at_seen st\<rparr>))\<lparr>at_output :=
          at_output (flush_server_calls (st\<lparr>at_seen := i # at_seen st\<rparr>)) @ [WireTool i (JStr s) None]\<rparr>"
proof -
  from assms obtain obj kind where obj: "as_object b = Some obj" and kind: "obj_str obj ''type'' = Some kind"
    by (auto simp: assistant_block_def and_then_Inr required_string_Inr)
  then have k: "block_kind b = kind" by (simp add: block_kind_def get_str_object str_or_def)
  consider "kind = ''tool_use''" | "kind = ''server_tool_use''" | "kind = ''web_search_tool_result''"
    | "kind \<notin> {''tool_use'', ''server_tool_use'', ''web_search_tool_result''}" by blast
  then show ?thesis
  proof cases
    case 1
    then show ?thesis using assms obj kind k
      by (auto simp: assistant_block_def and_then_Inr required_string_Inr tool_use_block_def
          split: if_split_asm intro: tool)
  next
    case 2
    have f: "at_server_ids (flush_segment st) = at_server_ids st"
      "at_server_calls (flush_segment st) = at_server_calls st" by (simp_all add: flush_segment_def)
    from 2 show ?thesis using assms obj kind k
      by (auto simp: assistant_block_def and_then_Inr required_string_Inr server_tool_use_block_def Let_def f
          split: if_split_asm intro: server)
  next
    case 3
    then show ?thesis using assms obj kind k
      by (auto simp: assistant_block_def and_then_Inr required_string_Inr web_search_result_block_def Let_def
          split: if_split_asm intro: answer)
  next
    case 4
    have "\<exists>c r. st' = st\<lparr>at_content := c, at_reasoning := r\<rparr>"
    proof -
      consider "st' = st" | c where "st' = st\<lparr>at_content := c\<rparr>" | r where "st' = st\<lparr>at_reasoning := r\<rparr>"
        using assms obj kind 4
        by (auto simp: assistant_block_def and_then_Inr required_string_Inr
            split: if_split_asm option.splits)
      then show ?thesis
      proof cases
        case 1
        then have "st' = st\<lparr>at_content := at_content st, at_reasoning := at_reasoning st\<rparr>" by simp
        then show ?thesis by blast
      next
        case 2
        then have "st' = st\<lparr>at_content := c, at_reasoning := at_reasoning st\<rparr>" by simp
        then show ?thesis by blast
      next
        case 3
        then have "st' = st\<lparr>at_content := at_content st, at_reasoning := r\<rparr>" by simp
        then show ?thesis by blast
      qed
    qed
    then show ?thesis using 4 k content by blast
  qed
qed

text \<open>What a turn keeps: each id is that of a call already written or about to be written.\<close>

definition turn_known :: "assistant_turn \<Rightarrow> bool" where
  "turn_known st \<longleftrightarrow>
     declared_earlier {} (at_output st)
     \<and> at_tool_ids st \<subseteq> wire_calls (at_output st) \<union> call_ids (at_calls st)
     \<and> set (at_server_ids st) \<subseteq> wire_calls (at_output st) \<union> call_ids (at_server_calls st)"

lemma flush_segment_fields [simp]:
  "at_server_calls (flush_segment st) = at_server_calls st" "at_server_ids (flush_segment st) = at_server_ids st"
  "at_seen (flush_segment st) = at_seen st" "at_tool_ids (flush_segment st) = at_tool_ids st"
  "at_calls (flush_segment st) = []" 
  by (simp_all add: flush_segment_def)

lemma turn_known_flush: "turn_known st \<Longrightarrow> turn_known (flush_segment st)"
  by (auto simp: turn_known_def flush_segment_def declared_earlier_append)

lemma turn_known_flush_server: "turn_known st \<Longrightarrow> turn_known (flush_server_calls st)"
  by (auto simp: turn_known_def flush_server_calls_def declared_earlier_append)

lemma flush_server_fields [simp]:
  "at_server_calls (flush_server_calls st) = []" "at_server_ids (flush_server_calls st) = at_server_ids st"
  "at_seen (flush_server_calls st) = at_seen st" "at_tool_ids (flush_server_calls st) = at_tool_ids st"
  "at_calls (flush_server_calls st) = at_calls st"
  by (simp_all add: flush_server_calls_def)

lemma turn_known_block:
  assumes "assistant_block json_text b st = Inr st'" and "turn_known st"
  shows "turn_known st'"
  using assms(1)
proof (cases rule: assistant_block_cases)
  case (content c r)
  then show ?thesis using assms(2) by (simp add: turn_known_def)
next
  case (tool i name arguments)
  then show ?thesis using assms(2) by (auto simp: turn_known_def)
next
  case (server i name arguments)
  then show ?thesis using turn_known_flush [OF assms(2)] by (auto simp: turn_known_def)
next
  case (answer i s)
  let ?st = "flush_server_calls (st\<lparr>at_seen := i # at_seen st\<rparr>)"
  have "turn_known (st\<lparr>at_seen := i # at_seen st\<rparr>)" using assms(2) by (simp add: turn_known_def)
  then have "turn_known ?st" by (rule turn_known_flush_server)
  then show ?thesis using answer by (auto simp: turn_known_def declared_earlier_append)
qed

lemma ids_ok_block: "assistant_block json_text b st = Inr st' \<Longrightarrow> ids_ok st \<Longrightarrow> ids_ok st'"
  by (erule assistant_block_cases) (auto simp: ids_ok_def)

text \<open>In an orderly turn the open calls are exactly those the next answers may name.\<close>

definition turn_paired :: "bool \<Rightarrow> nat \<Rightarrow> bool \<Rightarrow> assistant_turn \<Rightarrow> bool" where
  "turn_paired called open_calls answering st \<longleftrightarrow>
     ids_ok st \<and> answered {} (at_output st) \<and> (\<not> called \<longrightarrow> at_calls st = [])
     \<and> at_tool_ids st = call_ids (at_calls st) \<and> open_calls = card (unanswered st)
     \<and> (if answering then at_server_calls st = [] \<and> unanswered st \<subseteq> waiting_after {} (at_output st)
        else unanswered st = call_ids (at_server_calls st))"

lemma unanswered_simps [simp]:
  "unanswered (st\<lparr>at_content := c\<rparr>) = unanswered st" "unanswered (st\<lparr>at_reasoning := r\<rparr>) = unanswered st"
  "unanswered (st\<lparr>at_calls := cs\<rparr>) = unanswered st" "unanswered (st\<lparr>at_tool_ids := ids\<rparr>) = unanswered st"
  "unanswered (st\<lparr>at_output := out\<rparr>) = unanswered st"
  "unanswered (st\<lparr>at_server_calls := cs\<rparr>) = unanswered st"
  "unanswered (flush_segment st) = unanswered st" "unanswered (flush_server_calls st) = unanswered st"
  "unanswered (st\<lparr>at_seen := i # at_seen st\<rparr>) = unanswered st - {i}"
  by (auto simp: unanswered_def)

lemma finite_unanswered [simp]: "finite (unanswered st)"
  by (simp add: unanswered_def)

lemma turn_paired_block:
  assumes step: "assistant_block json_text b st = Inr st'"
    and paired: "turn_paired called open_calls answering st"
    and orderly: "orderly called open_calls answering (b # bs)"
  shows "\<exists>called' open_calls' answering'. turn_paired called' open_calls' answering' st'
           \<and> orderly called' open_calls' answering' bs"
proof -
  have ok: "ids_ok st'" using step paired by (auto simp: turn_paired_def intro: ids_ok_block)
  from step show ?thesis
  proof (cases rule: assistant_block_cases)
    case (content c r)
    then have "turn_paired called open_calls answering st'"
      using paired ok by (simp add: turn_paired_def)
    moreover have "orderly called open_calls answering bs" using orderly content(1) by (simp split: if_split_asm)
    ultimately show ?thesis by blast
  next
    case (tool i name arguments)
    then have "turn_paired True open_calls answering st'"
      using paired ok by (auto simp: turn_paired_def)
    moreover have "orderly True open_calls answering bs" using orderly tool(1) by simp
    ultimately show ?thesis by blast
  next
    case (server i name arguments)
    then have free: "\<not> called" "\<not> answering" and rest: "orderly called (Suc open_calls) False bs"
      using orderly by auto
    then have "unanswered st = call_ids (at_server_calls st)" "at_calls st = []"
      using paired by (simp_all add: turn_paired_def)
    moreover have "i \<notin> set (at_seen st)" using server(2) paired by (auto simp: turn_paired_def ids_ok_def)
    then have new: "unanswered st' = insert i (unanswered st)" "i \<notin> unanswered st"
      using server by (auto simp: unanswered_def)
    moreover have "answered {} (at_output (flush_segment st))"
      using paired by (auto simp: turn_paired_def flush_segment_def answered_append)
    ultimately have "turn_paired called (Suc open_calls) False st'"
      using paired ok server(3) free by (auto simp: turn_paired_def)
    then show ?thesis using rest by blast
  next
    case (answer i s)
    let ?st = "flush_server_calls (st\<lparr>at_seen := i # at_seen st\<rparr>)"
    have i: "i \<in> unanswered st" using answer by (simp add: unanswered_def)
    have un: "unanswered st' = unanswered st - {i}" using answer(4) by simp
    have ready: "unanswered st \<subseteq> waiting_after {} (at_output ?st)" and out: "answered {} (at_output ?st)"
      using paired
      by (auto simp: turn_paired_def flush_server_calls_def answered_append waiting_after_append split: if_split_asm)
    have "answered {} (at_output st')"
      using answer(4) out ready i by (auto simp: answered_append)
    moreover have "unanswered st' \<subseteq> waiting_after {} (at_output st')"
      using answer(4) ready un by (auto simp: waiting_after_append)
    moreover have "open_calls - 1 = card (unanswered st')"
      using paired i un by (simp add: turn_paired_def)
    moreover have "\<not> 1 < open_calls \<longrightarrow> unanswered st' = {}"
      using calculation(3) by (metis card_0_eq diff_is_0_eq finite_unanswered not_less)
    ultimately have "turn_paired called (open_calls - 1) (1 < open_calls) st'"
      using paired ok answer(4) by (auto simp: turn_paired_def)
    moreover have "orderly called (open_calls - 1) (1 < open_calls) bs"
      using orderly answer(1) by simp
    ultimately show ?thesis by blast
  qed
qed

lemma turn_grows:
  assumes "try_fold (assistant_block json_text) bs (start_turn out) = Inr st"
  shows "length out \<le> length (at_output st)"
proof -
  have "length out \<le> length (at_output (start_turn out))" by (simp add: start_turn_def)
  with assms show ?thesis
    by (rule try_fold_invariant [where P = "\<lambda>st. length out \<le> length (at_output st)"])
      (erule assistant_block_cases; simp add: flush_segment_def flush_server_calls_def)
qed

lemma turn_paired_fold:
  "try_fold (assistant_block json_text) bs st = Inr st' \<Longrightarrow> turn_paired called open_calls answering st \<Longrightarrow>
   orderly called open_calls answering bs \<Longrightarrow>
   \<exists>called' open_calls' answering'. turn_paired called' open_calls' answering' st'"
proof (induction bs arbitrary: st called open_calls answering)
  case (Cons b bs)
  then obtain st1 where st1: "assistant_block json_text b st = Inr st1"
    "try_fold (assistant_block json_text) bs st1 = Inr st'"
    by (auto simp: and_then_Inr)
  from turn_paired_block [OF st1(1) Cons.prems(2,3)] obtain called' open' answering' where
    "turn_paired called' open' answering' st1" "orderly called' open' answering' bs" by blast
  with Cons.IH [OF st1(2)] show ?case by blast
qed auto

lemma assistant_blocks_known:
  assumes "convert_assistant_blocks json_text bs output = Inr (ms, ids)" and "declared_earlier {} output"
  shows "declared_earlier {} ms \<and> ids \<subseteq> wire_calls ms"
proof -
  from assms(1) obtain st where st: "try_fold (assistant_block json_text) bs (start_turn output) = Inr st"
    and ms: "ms = (if length (at_output (flush_segment st)) = length output
        then at_output (flush_segment st) @ [WireAssistant [] [] []] else at_output (flush_segment st))"
    and ids: "ids = at_tool_ids st"
    by (auto simp: convert_assistant_blocks_def and_then_Inr Let_def split: if_split_asm)
  have "turn_known (start_turn output)" using assms(2) by (simp add: turn_known_def start_turn_def)
  with st have "turn_known st" by (rule try_fold_invariant [where P = turn_known]) (blast intro: turn_known_block)
  then have "turn_known (flush_segment st)" by (rule turn_known_flush)
  then show ?thesis using ms ids by (auto simp: turn_known_def declared_earlier_append)
qed

lemma assistant_blocks_paired:
  assumes "convert_assistant_blocks json_text bs output = Inr (ms, ids)" and "answered {} output"
    and "orderly False 0 False bs"
  shows "answered {} ms \<and> ids \<subseteq> waiting_after {} ms"
proof -
  from assms(1) obtain st where st: "try_fold (assistant_block json_text) bs (start_turn output) = Inr st"
    and ms: "ms = (if length (at_output (flush_segment st)) = length output
        then at_output (flush_segment st) @ [WireAssistant [] [] []] else at_output (flush_segment st))"
    and ids: "ids = at_tool_ids st"
    by (auto simp: convert_assistant_blocks_def and_then_Inr Let_def split: if_split_asm)
  have "turn_paired False 0 False (start_turn output)"
    using assms(2) by (simp add: turn_paired_def start_turn_def ids_ok_def unanswered_def)
  from turn_paired_fold [OF st this assms(3)] have out: "answered {} (at_output st)"
    and ids': "ids = call_ids (at_calls st)" by (auto simp: turn_paired_def ids)
  show ?thesis
  proof (cases "at_content st = [] \<and> at_calls st = [] \<and> at_reasoning st = []")
    case True
    then show ?thesis using out ids' ms by (auto simp: flush_segment_def answered_append)
  next
    case False
    then have "ms = at_output st @ [WireAssistant (at_content st) (at_calls st) (at_reasoning st)]"
      using ms turn_grows [OF st] by (auto simp: flush_segment_def)
    then show ?thesis using out ids' by (simp add: answered_append waiting_after_append)
  qed
qed

subsection \<open>User turns\<close>

lemma convert_tool_result_id:
  "convert_tool_result obj pending = Inr m \<Longrightarrow>
   \<exists>i c e. m = WireTool i c e \<and> i \<in> pending \<and> obj_str obj ''tool_use_id'' = Some i"
  by (auto simp: convert_tool_result_def and_then_Inr required_string_Inr split: if_split_asm option.split_asm)

lemma user_block_cases:
  assumes "user_block pending b st = Inr st'"
  obtains (ordinary) c where "st' = st\<lparr>ut_saw_ordinary := True, ut_ordinary := c\<rparr>"
  | (result) i c e where "i \<in> pending" "i \<notin> set (ut_seen st)"
      "st' = st\<lparr>ut_seen := i # ut_seen st, ut_output := ut_output st @ [WireTool i c e]\<rparr>"
proof -
  from assms obtain obj kind where obj: "as_object b = Some obj" and kind: "obj_str obj ''type'' = Some kind"
    by (auto simp: user_block_def and_then_Inr required_string_Inr)
  show ?thesis
  proof (cases "kind = ''tool_result''")
    case True
    then obtain m i where "obj_str obj ''tool_use_id'' = Some i" "i \<notin> set (ut_seen st)"
      and m: "convert_tool_result obj pending = Inr m"
      and st': "st' = st\<lparr>ut_seen := i # ut_seen st, ut_output := ut_output st @ [m]\<rparr>"
      using assms obj kind
      by (auto simp: user_block_def and_then_Inr required_string_Inr split: if_split_asm)
    with convert_tool_result_id [OF m] show ?thesis using result by auto
  next
    case False
    then have "\<exists>c. st' = st\<lparr>ut_saw_ordinary := True, ut_ordinary := c\<rparr>"
      using assms obj kind
      by (auto simp: user_block_def and_then_Inr required_string_Inr ordinary_block_def split: if_split_asm)
    then show ?thesis using ordinary by blast
  qed
qed

definition user_known :: "string set \<Rightarrow> user_turn \<Rightarrow> bool" where
  "user_known pending st \<longleftrightarrow> declared_earlier {} (ut_output st) \<and> pending \<subseteq> wire_calls (ut_output st)"

definition user_paired :: "string set \<Rightarrow> user_turn \<Rightarrow> bool" where
  "user_paired pending st \<longleftrightarrow>
     answered {} (ut_output st) \<and> pending - set (ut_seen st) \<subseteq> waiting_after {} (ut_output st)"

lemma user_known_block: "user_block pending b st = Inr st' \<Longrightarrow> user_known pending st \<Longrightarrow> user_known pending st'"
  by (erule user_block_cases) (auto simp: user_known_def declared_earlier_append)

lemma user_paired_block: "user_block pending b st = Inr st' \<Longrightarrow> user_paired pending st \<Longrightarrow> user_paired pending st'"
  by (erule user_block_cases) (auto simp: user_paired_def answered_append waiting_after_append)

lemma user_blocks_known:
  assumes "convert_user_blocks bs output pending = Inr ms" and "declared_earlier {} output"
    and "pending \<subseteq> wire_calls output"
  shows "declared_earlier {} ms"
proof -
  from assms(1) obtain st where "try_fold (user_block pending) bs
      \<lparr>ut_output = output, ut_ordinary = [], ut_saw_ordinary = False, ut_seen = []\<rparr> = Inr st"
    and ms: "ms = ut_output st @ (if ut_ordinary st = [] then [] else [WireUser ''user'' (JArr (ut_ordinary st))])
         @ (if bs = [] then [WireUser ''user'' (JArr [])] else [])"
    by (auto simp: convert_user_blocks_def and_then_Inr)
  then have "user_known pending st"
    using assms(2,3) user_known_block
    by (elim try_fold_invariant [where P = "user_known pending"]) (auto simp: user_known_def)
  then show ?thesis by (simp add: ms user_known_def declared_earlier_append)
qed

lemma user_blocks_paired:
  assumes "convert_user_blocks bs output pending = Inr ms" and "answered {} output"
    and "pending \<subseteq> waiting_after {} output"
  shows "answered {} ms"
proof -
  from assms(1) obtain st where "try_fold (user_block pending) bs
      \<lparr>ut_output = output, ut_ordinary = [], ut_saw_ordinary = False, ut_seen = []\<rparr> = Inr st"
    and ms: "ms = ut_output st @ (if ut_ordinary st = [] then [] else [WireUser ''user'' (JArr (ut_ordinary st))])
         @ (if bs = [] then [WireUser ''user'' (JArr [])] else [])"
    by (auto simp: convert_user_blocks_def and_then_Inr)
  then have "user_paired pending st"
    using assms(2,3) user_paired_block
    by (elim try_fold_invariant [where P = "user_paired pending"]) (auto simp: user_paired_def)
  then show ?thesis by (simp add: ms user_paired_def answered_append)
qed

subsection \<open>The history\<close>

definition history_known :: "wire_message list \<times> string set \<Rightarrow> bool" where
  "history_known = (\<lambda>(output, pending). declared_earlier {} output \<and> pending \<subseteq> wire_calls output)"

definition history_paired :: "wire_message list \<times> string set \<Rightarrow> bool" where
  "history_paired = (\<lambda>(output, pending). answered {} output \<and> pending \<subseteq> waiting_after {} output)"

lemma convert_message_cases:
  assumes "convert_message json_text (index, m) (output, pending) = Inr st'"
  obtains (plain) w where "st' = (output @ [w], {})" "\<And>i c e. w \<noteq> WireTool i c e"
      "\<And>c tool_calls r. w \<noteq> WireAssistant c tool_calls r"
  | (assistant) bs where "Option.bind (json_get m ''content'') as_array = Some bs" "get_str m ''role'' = Some ''assistant''"
      "convert_assistant_blocks json_text bs output = Inr st'"
  | (user) bs ms where "convert_user_blocks bs output pending = Inr ms" "st' = (ms, {})"
proof -
  obtain obj where obj: "as_object m = Some obj"
    using assms by (cases "as_object m") (simp_all add: convert_message_def)
  obtain role where role: "required_string obj ''role'' = Inr role"
    using assms by (cases "required_string obj ''role''") (simp_all add: convert_message_def obj)
  have named: "role \<in> {''user'', ''assistant'', ''system''}"
    using assms by (rule contrapos_pp) (simp add: convert_message_def obj role del: insert_iff)
  obtain content where content: "map_of obj ''content'' = Some content"
    using assms named by (cases "map_of obj ''content''") (simp_all add: convert_message_def obj role del: insert_iff)
  have step: "convert_message json_text (index, m) (output, pending) =
    (if role = ''system'' then and_then (convert_system content) (\<lambda>c. Inr (output @ [WireSystem c], {}))
     else if as_str content \<noteq> None
     then Inr (output @ [WireUser (if role = ''assistant'' then ''assistant'' else ''user'') content], {})
     else and_then (ok_or (Invalid ''message content must be a string or array'') (as_array content))
        (\<lambda>blocks. if role = ''assistant'' then convert_assistant_blocks json_text blocks output
                  else and_then (convert_user_blocks blocks output pending) (\<lambda>ms. Inr (ms, {}))))"
    using named by (simp add: convert_message_def obj role content del: insert_iff)
  consider (system) "role = ''system''" | (words) "role \<noteq> ''system''" "as_str content \<noteq> None"
    | (blocks) "role \<noteq> ''system''" "as_str content = None" by blast
  then show ?thesis
  proof cases
    case system
    then obtain c where "st' = (output @ [WireSystem c], {})" using assms step by (auto simp: and_then_Inr)
    then show ?thesis by (rule plain) simp_all
  next
    case words
    then have "st' = (output @ [WireUser (if role = ''assistant'' then ''assistant'' else ''user'') content], {})"
      using assms step by simp
    then show ?thesis by (rule plain) simp_all
  next
    case blocks
    then obtain bs where bs: "as_array content = Some bs"
      and conv: "(if role = ''assistant'' then convert_assistant_blocks json_text bs output
                 else and_then (convert_user_blocks bs output pending) (\<lambda>ms. Inr (ms, {}))) = Inr st'"
      using assms step by (auto simp: and_then_Inr)
    show ?thesis
    proof (cases "role = ''assistant''")
      case True
      with bs conv obj role content show ?thesis
        by (intro assistant) (auto simp: json_get_object get_str_object required_string_Inr)
    next
      case False
      with conv show ?thesis using user by (auto simp: and_then_Inr)
    qed
  qed
qed

lemma history_known_message:
  assumes "convert_message json_text (index, m) (output, pending) = Inr st'" and "history_known (output, pending)"
  shows "history_known st'"
  using assms(1)
proof (cases rule: convert_message_cases)
  case (plain w)
  then show ?thesis using assms(2) by (cases w) (auto simp: history_known_def declared_earlier_append)
next
  case (assistant bs)
  then show ?thesis using assms(2) assistant_blocks_known [of json_text bs "output" "fst st'" "snd st'"]
    by (auto simp: history_known_def)
next
  case (user bs ms)
  then show ?thesis using assms(2) user_blocks_known by (auto simp: history_known_def)
qed

lemma history_paired_message:
  assumes "convert_message json_text (index, m) (output, pending) = Inr st'" and "history_paired (output, pending)"
    and "orderly_message m"
  shows "history_paired st'"
  using assms(1)
proof (cases rule: convert_message_cases)
  case (plain w)
  then show ?thesis using assms(2) by (cases w) (auto simp: history_paired_def answered_append)
next
  case (assistant bs)
  then have "orderly False 0 False bs" using assms(3) by (simp add: orderly_message_def)
  then show ?thesis using assistant assms(2) assistant_blocks_paired [of json_text bs "output" "fst st'" "snd st'"]
    by (auto simp: history_paired_def)
next
  case (user bs ms)
  then show ?thesis using assms(2) user_blocks_paired by (auto simp: history_paired_def)
qed

lemma set_enumerate: "(i, m) \<in> set (List.enumerate n ms) \<Longrightarrow> m \<in> set ms"
  by (metis in_set_enumerate_eq nth_mem le_add_diff_inverse add.commute less_diff_conv2 fst_conv snd_conv)

text \<open>C14. Every tool message of a converted history answers a call of an earlier assistant message, however the
  turns mix client and server tools. If no server call follows a client call in its turn, or stands
  between the answers of a batch, then each answer follows its call directly, with nothing but other
  answers between, and no call is answered twice: the adjacency the upstream demands.\<close>

theorem tool_answers_follow_calls:
  assumes "Option.bind (map_of obj ''messages'') as_array = Some input_messages"
    and "wire_messages json_text obj = Inr ms"
  shows "declared_earlier {} ms \<and> (list_all orderly_message input_messages \<longrightarrow> answered {} ms)"
proof -
  from assms obtain start ids where
    start: "start = [] \<or> (\<exists>c. start = [WireSystem c])" and
    run: "try_fold (convert_message json_text) (List.enumerate 0 input_messages) (start, {}) = Inr (ms, ids)"
    unfolding wire_messages_def convert_messages_def
    by (auto simp: and_then_Inr split: option.split_asm)
  have "history_known (start, {})" "history_paired (start, {})"
    using start by (auto simp: history_known_def history_paired_def)
  moreover have "history_known (ms, ids)"
    using run \<open>history_known (start, {})\<close>
    by (rule try_fold_invariant [where P = history_known]) (metis history_known_message prod.exhaust)
  moreover have "history_paired (ms, ids)" if "list_all orderly_message input_messages"
    using run \<open>history_paired (start, {})\<close>
  proof (rule try_fold_invariant [where P = history_paired], goal_cases)
    case (1 x s s')
    obtain i m out pending where x: "x = (i, m)" and s: "s = (out, pending)" by (metis prod.exhaust)
    with 1 that have "orderly_message m" by (auto simp: list_all_iff dest: set_enumerate)
    with 1 x s show ?case using history_paired_message by blast
  qed
  ultimately show ?thesis by (auto simp: history_known_def history_paired_def)
qed

subsection \<open>Concrete histories\<close>

definition turn_json :: "string \<Rightarrow> json list \<Rightarrow> json" where
  "turn_json role blocks = JObj [(''role'', JStr role), (''content'', JArr blocks)]"

definition tool_use_json :: "string \<Rightarrow> string \<Rightarrow> json" where
  "tool_use_json kind i = JObj [(''type'', JStr kind), (''id'', JStr i), (''name'', JStr ''f'')]"

definition tool_result_json :: "string \<Rightarrow> string \<Rightarrow> json" where
  "tool_result_json kind i = JObj [(''type'', JStr kind), (''tool_use_id'', JStr i)]"

definition one_call_history :: "json list" where
  "one_call_history = [JObj [(''role'', JStr ''user''), (''content'', JStr ''hi'')],
     turn_json ''assistant'' [tool_use_json ''tool_use'' ''a''], turn_json ''user'' [tool_result_json ''tool_result'' ''a'']]"

definition mixed_history :: "json list" where
  "mixed_history = [turn_json ''assistant'' [tool_use_json ''tool_use'' ''a'', tool_use_json ''server_tool_use'' ''s'',
       tool_result_json ''web_search_tool_result'' ''s''],
     turn_json ''user'' [tool_result_json ''tool_result'' ''a'']]"

definition brief_text :: "json \<Rightarrow> string" where "brief_text v = ''{}''"

lemmas history_eval = wire_messages_def convert_messages_def convert_message_def convert_assistant_blocks_def
  assistant_block_def required_string_def obj_str_def tool_use_block_def server_tool_use_block_def
  web_search_result_block_def replayed_result_text_def results_missing_def start_turn_def flush_segment_def
  flush_server_calls_def convert_user_blocks_def user_block_def convert_tool_result_def tool_result_content_def
  turn_json_def tool_use_json_def tool_result_json_def Let_def tool_input_def is_object_def ok_or_def

lemma one_call_history_converts:
  "wire_messages brief_text [(''messages'', JArr one_call_history)] =
     Inr [WireUser ''user'' (JStr ''hi''), WireAssistant [] [function_call_json ''a'' ''f'' ''{}''] [],
          WireTool ''a'' (JStr []) None]"
  by (simp add: history_eval one_call_history_def brief_text_def enumerate_eq_zip)

theorem tool_answers_follow_calls_witness:
  "answered {} [WireUser ''user'' (JStr ''hi''), WireAssistant [] [function_call_json ''a'' ''f'' ''{}''] [],
          WireTool ''a'' (JStr []) None]"
proof -
  have "list_all orderly_message one_call_history" by code_simp
  then show ?thesis
    using tool_answers_follow_calls [OF _ one_call_history_converts] by simp
qed

text \<open>A server call behind a client call in one turn is accepted, and the answer to the client call then
  follows the answer of the server call.\<close>

lemma server_call_behind_client_call_splits:
  "wire_messages brief_text [(''messages'', JArr mixed_history)] =
     Inr [WireAssistant [] [function_call_json ''a'' ''f'' ''{}''] [],
          WireAssistant [] [function_call_json ''s'' ''f'' ''{}''] [],
          WireTool ''s'' (JStr ''Web search returned no results.'') None, WireTool ''a'' (JStr []) None]"
  by (simp add: history_eval mixed_history_def brief_text_def enumerate_eq_zip)

lemma mixed_history_not_answered:
  "\<not> answered {} [WireAssistant [] [function_call_json ''a'' ''f'' ''{}''] [],
          WireAssistant [] [function_call_json ''s'' ''f'' ''{}''] [],
          WireTool ''s'' (JStr ''Web search returned no results.'') None, WireTool ''a'' (JStr []) None]"
  by simp

end
