(* ===== verification/Anthropic_Response.thy ===== *)
theory Anthropic_Response
  imports Anthropic_History
begin

text \<open>
  \<open>src/anthropic.rs\<close>, second part: a complete OpenAI answer becomes an Anthropic message, and the
  classification of answer bodies before that. \<open>parse\<close> reads JSON, \<open>sign\<close> is the text of the
  hash in a signature.
\<close>

subsection \<open>Reasoning and text of a message\<close>

definition text_or_content :: "json \<Rightarrow> json option" where
  "text_or_content v = (case json_get v ''text'' of Some t \<Rightarrow> Some t | None \<Rightarrow> json_get v ''content'')"

definition detail_text :: "json \<Rightarrow> string option" where
  "detail_text item =
     (case as_str item of Some s \<Rightarrow> Some s | None \<Rightarrow> Option.bind (text_or_content item) as_str)"

definition reasoning_text_of :: "jmap \<Rightarrow> string" where
  "reasoning_text_of obj =
     (case find_map (obj_str obj) [''reasoning_content'', ''reasoning''] of
        Some s \<Rightarrow> s
      | None \<Rightarrow>
          (case map_of obj ''reasoning_details'' of
             Some (JStr s) \<Rightarrow> s
           | Some (JArr items) \<Rightarrow> concat (List.map_filter detail_text items)
           | _ \<Rightarrow> []))"

definition reasoning_delta :: "jmap \<Rightarrow> string option" where
  "reasoning_delta obj =
     (let named = (case map_of obj ''reasoning_content'' of
                     Some v \<Rightarrow> Some v | None \<Rightarrow> map_of obj ''reasoning'')
      in case Option.bind named as_str of
           Some s \<Rightarrow> Some s
         | None \<Rightarrow>
             (case Option.bind (map_of obj ''reasoning_details'') as_array of
                Some (item # items) \<Rightarrow> Option.bind (text_or_content item) as_str
              | _ \<Rightarrow> None))"

definition block_text_json :: "json \<Rightarrow> json list" where
  "block_text_json block =
     (case Option.bind (text_or_content block) as_str of
        Some s \<Rightarrow> (if s = [] then [] else [text_json s]) | None \<Rightarrow> [])"

definition answer_text :: "json option \<Rightarrow> json list" where
  "answer_text content =
     (case content of
        Some (JStr s) \<Rightarrow> (if s = [] then [] else [text_json s])
      | Some (JArr blocks) \<Rightarrow> concat (map block_text_json blocks)
      | _ \<Rightarrow> [])"

definition thinking_signature :: "(string \<Rightarrow> string \<Rightarrow> string) \<Rightarrow> string \<Rightarrow> string \<Rightarrow> string" where
  "thinking_signature sign reasoning request_id = ''cline-proxy-v1-'' @ sign reasoning request_id"

subsection \<open>Usage and stop reasons\<close>

definition usage_u64 :: "json option \<Rightarrow> string \<Rightarrow> nat option" where
  "usage_u64 usage name = Option.bind (Option.bind usage (\<lambda>u. json_get u name)) as_u64"

fun first_u64 :: "nat option list \<Rightarrow> nat" where
  "first_u64 [] = 0"
| "first_u64 (Some n # ns) = n"
| "first_u64 (None # ns) = first_u64 ns"

definition cached_details :: "json option \<Rightarrow> nat option" where
  "cached_details usage =
     Option.bind (Option.bind (Option.bind usage (\<lambda>u. json_get u ''prompt_tokens_details''))
       (\<lambda>d. json_get d ''cached_tokens'')) as_u64"

definition json_count :: "nat \<Rightarrow> json" where "json_count n = JNum (PosInt n)"

definition convert_usage_with :: "json option \<Rightarrow> nat \<Rightarrow> json" where
  "convert_usage_with usage web_search_requests =
     (let generated = first_u64 [usage_u64 usage ''completion_tokens'', usage_u64 usage ''output_tokens''];
          cached = first_u64 [cached_details usage, usage_u64 usage ''cache_read_input_tokens''];
          total_input = first_u64 [usage_u64 usage ''prompt_tokens'', usage_u64 usage ''input_tokens''];
          cache_creation = first_u64 [usage_u64 usage ''cache_creation_input_tokens'']
      in JObj ([(''input_tokens'', json_count (total_input - cached - cache_creation)),
                (''output_tokens'', json_count generated),
                (''cache_creation_input_tokens'', json_count cache_creation),
                (''cache_read_input_tokens'', json_count cached)]
           @ (if 0 < web_search_requests
              then [(''server_tool_use'', JObj [(''web_search_requests'', json_count web_search_requests)])]
              else [])))"

definition map_stop_reason :: "string option \<Rightarrow> json" where
  "map_stop_reason reason =
     (case reason of
        None \<Rightarrow> JNull
      | Some r \<Rightarrow>
          (if r \<in> {''length'', ''max_tokens''} then JStr ''max_tokens''
           else if r \<in> {''tool_calls'', ''function_call''} then JStr ''tool_use''
           else if r \<in> {''content_filter'', ''refusal''} then JStr ''refusal''
           else if r = ''pause_turn'' then JStr ''pause_turn''
           else JStr ''end_turn''))"

definition error_envelope :: "string \<Rightarrow> string \<Rightarrow> string \<Rightarrow> json" where
  "error_envelope error_type message request_id =
     JObj [(''type'', JStr ''error''),
           (''error'', JObj [(''type'', JStr error_type), (''message'', JStr message)]),
           (''request_id'', JStr request_id)]"

subsection \<open>The message\<close>

record response_options =
  ro_extra_prefix :: "json list"
  ro_skip_tool_names :: "string list"
  ro_web_search_requests :: nat
  ro_stop_reason_override :: "string option"

definition tool_use_of :: "string \<Rightarrow> string \<Rightarrow> json \<Rightarrow> json" where
  "tool_use_of i name input =
     JObj [(''type'', JStr ''tool_use''), (''id'', JStr i), (''name'', JStr name), (''input'', input)]"

text \<open>The block of one call; none for a call the gateway answers itself.\<close>

definition response_call :: "(string \<Rightarrow> json option) \<Rightarrow> string list \<Rightarrow> nat \<Rightarrow> json \<Rightarrow> protocol_error + json list" where
  "response_call parse skip index call =
     and_then (ok_or (UpstreamError ''upstream returned a malformed tool call'')
       (Option.bind (json_get call ''function'') as_object)) (\<lambda>function.
       let name = str_or ''unknown'' (obj_str function ''name'');
           arguments = str_or [] (obj_str function ''arguments'')
       in if name \<in> set skip then Inr []
          else
            and_then (if trim arguments = [] then Inr (JObj [])
                      else ok_or (UpstreamError ''upstream returned malformed tool arguments'') (parse arguments))
              (\<lambda>input. Inr [tool_use_of (str_or ''toolu_unknown'' (get_str call ''id'')) name input]))"

definition thinking_block :: "(string \<Rightarrow> string \<Rightarrow> string) \<Rightarrow> string \<Rightarrow> string \<Rightarrow> json list" where
  "thinking_block sign reasoning request_id =
     (if reasoning = [] then []
      else [JObj [(''type'', JStr ''thinking''), (''thinking'', JStr reasoning),
                  (''signature'', JStr (thinking_signature sign reasoning request_id))]])"

definition response_choice :: "json \<Rightarrow> protocol_error + json \<times> jmap" where
  "response_choice upstream =
     and_then (ok_or (UpstreamError ''upstream response did not contain a choice'')
       (case Option.bind (json_get upstream ''choices'') as_array of
          Some (first # rest) \<Rightarrow> Some first | _ \<Rightarrow> None)) (\<lambda>choice.
     and_then (ok_or (UpstreamError ''upstream choice did not contain a message'')
       (Option.bind (json_get choice ''message'') as_object)) (\<lambda>message. Inr (choice, message)))"

definition response_content ::
  "(string \<Rightarrow> json option) \<Rightarrow> (string \<Rightarrow> string \<Rightarrow> string) \<Rightarrow> string \<Rightarrow> bool \<Rightarrow> response_options \<Rightarrow> jmap
   \<Rightarrow> protocol_error + json list" where
  "response_content parse sign request_id expose_thinking options message =
     and_then (case Option.bind (map_of message ''tool_calls'') as_array of
         None \<Rightarrow> Inr []
       | Some tcs \<Rightarrow>
           and_then (try_map (response_call parse (ro_skip_tool_names options)) 0 tcs) (\<lambda>bs. Inr (concat bs))) (\<lambda>tool_blocks.
       Inr (ro_extra_prefix options
         @ thinking_block sign (if expose_thinking then reasoning_text_of message else []) request_id
         @ answer_text (map_of message ''content'') @ tool_blocks))"

definition convert_response_with ::
  "(string \<Rightarrow> json option) \<Rightarrow> (string \<Rightarrow> string \<Rightarrow> string) \<Rightarrow> json \<Rightarrow> string \<Rightarrow> string \<Rightarrow> bool \<Rightarrow> response_options
   \<Rightarrow> protocol_error + json" where
  "convert_response_with parse sign upstream request_id fallback_model expose_thinking options =
     and_then (response_choice upstream) (\<lambda>(choice, message).
     and_then (response_content parse sign request_id expose_thinking options message) (\<lambda>content.
       Inr (JObj
         [(''id'', JStr (str_or request_id (get_str upstream ''id''))),
          (''type'', JStr ''message''), (''role'', JStr ''assistant''), (''content'', JArr content),
          (''model'', JStr (str_or fallback_model (get_str upstream ''model''))),
          (''stop_reason'',
             (case ro_stop_reason_override options of
                Some reason \<Rightarrow> JStr reason
              | None \<Rightarrow> map_stop_reason (get_str choice ''finish_reason''))),
          (''stop_sequence'', value_or_null (json_get choice ''stop_sequence'')),
          (''usage'', convert_usage_with (json_get upstream ''usage'') (ro_web_search_requests options))])))"

definition plain_options :: response_options where
  "plain_options =
     \<lparr>ro_extra_prefix = [], ro_skip_tool_names = [], ro_web_search_requests = 0,
      ro_stop_reason_override = None\<rparr>"

definition convert_response ::
  "(string \<Rightarrow> json option) \<Rightarrow> (string \<Rightarrow> string \<Rightarrow> string) \<Rightarrow> json \<Rightarrow> string \<Rightarrow> string \<Rightarrow> bool \<Rightarrow> protocol_error + json" where
  "convert_response parse sign upstream request_id fallback_model expose_thinking =
     convert_response_with parse sign upstream request_id fallback_model expose_thinking plain_options"

subsection \<open>Envelopes\<close>

datatype upstream_body_shape =
    StandardOpenAi
  | ClineDataEnvelope
  | ApplicationError
  | MissingChoices
  | EmptyChoices
  | UnrecognizedEnvelope

fun shape_str :: "upstream_body_shape \<Rightarrow> string" where
  "shape_str StandardOpenAi = ''openai''"
| "shape_str ClineDataEnvelope = ''cline_data_envelope''"
| "shape_str ApplicationError = ''upstream_application_error''"
| "shape_str MissingChoices = ''missing_choices''"
| "shape_str EmptyChoices = ''empty_choices''"
| "shape_str UnrecognizedEnvelope = ''unrecognized_envelope''"

definition choices_usable :: "jmap \<Rightarrow> bool" where
  "choices_usable obj =
     (case Option.bind (map_of obj ''choices'') as_array of Some cs \<Rightarrow> cs \<noteq> [] | None \<Rightarrow> False)"

definition classify_nonstream_body :: "json \<Rightarrow> upstream_body_shape" where
  "classify_nonstream_body value =
     (case as_object value of
        None \<Rightarrow> MissingChoices
      | Some obj \<Rightarrow>
          (if map_of obj ''choices'' \<noteq> None
           then (if choices_usable obj then StandardOpenAi else EmptyChoices)
           else case Option.bind (map_of obj ''success'') as_bool of
               Some True \<Rightarrow>
                 (case Option.bind (map_of obj ''data'') as_object of
                    Some payload \<Rightarrow> (if choices_usable payload then ClineDataEnvelope else UnrecognizedEnvelope)
                  | None \<Rightarrow> UnrecognizedEnvelope)
             | Some False \<Rightarrow> ApplicationError
             | None \<Rightarrow> MissingChoices))"

definition normalize_nonstream_body :: "json \<Rightarrow> protocol_error + json \<times> upstream_body_shape" where
  "normalize_nonstream_body value =
     (case classify_nonstream_body value of
        StandardOpenAi \<Rightarrow> Inr (value, StandardOpenAi)
      | ClineDataEnvelope \<Rightarrow> Inr (value_or_null (json_get value ''data''), ClineDataEnvelope)
      | ApplicationError \<Rightarrow> Inl (UpstreamError ''upstream reported an application error for this request'')
      | MissingChoices \<Rightarrow> Inl (UpstreamError ''upstream response did not contain the choices field'')
      | EmptyChoices \<Rightarrow> Inl (UpstreamError ''upstream response contained an empty choices array'')
      | UnrecognizedEnvelope \<Rightarrow> Inl (UpstreamError ''upstream response envelope was not recognized''))"

definition MAX_UPSTREAM_JSON_BYTES :: nat where "MAX_UPSTREAM_JSON_BYTES = 16 * 1024 * 1024"

text \<open>\<open>parse_json_response\<close>: the announced length if any, the bytes if they arrive.\<close>

definition parse_json_response ::
  "(string \<Rightarrow> json option) \<Rightarrow> nat option \<Rightarrow> string option \<Rightarrow> protocol_error + json" where
  "parse_json_response parse content_length received =
     (if (case content_length of Some n \<Rightarrow> MAX_UPSTREAM_JSON_BYTES < n | None \<Rightarrow> False)
      then Inl (UpstreamError ''upstream JSON response was too large'')
      else
        and_then (ok_or (UpstreamError ''failed to read upstream response'') received) (\<lambda>bytes.
          if MAX_UPSTREAM_JSON_BYTES < length bytes then Inl (UpstreamError ''upstream JSON response was too large'')
          else ok_or (UpstreamError ''upstream returned invalid JSON'') (parse bytes)))"

subsection \<open>Sending an answer back\<close>

text \<open>A turn that can go on: nothing is open, and only ids below \<open>n\<close> have been used for searches.\<close>

definition settled_turn :: "(nat \<Rightarrow> string) \<Rightarrow> nat \<Rightarrow> assistant_turn \<Rightarrow> bool" where
  "settled_turn new_id n st \<longleftrightarrow>
     \<not> results_missing st \<and> at_server_calls st = [] \<and> set (at_server_ids st) \<subseteq> new_id ` {..<n}
     \<and> set (at_seen st) \<subseteq> set (at_server_ids st)"

text \<open>The replay of a search listing may cut a text inside a character, which panics.\<close>

definition accepted :: "('s \<Rightarrow> bool) \<Rightarrow> protocol_error + 's \<Rightarrow> bool" where
  "accepted P r \<longleftrightarrow> r = Inl SliceOutOfRange \<or> (\<exists>s. r = Inr s \<and> P s)"

lemma accepted_and_then:
  assumes "accepted P r" and "\<And>s. P s \<Longrightarrow> accepted Q (f s)"
  shows "accepted Q (and_then r f)"
proof (cases r)
  case (Inr s)
  then show ?thesis using assms by (simp add: accepted_def)
qed (use assms(1) in \<open>simp add: accepted_def\<close>)

lemma accepted_fold:
  "P s \<Longrightarrow> (\<And>b t. b \<in> set bs \<Longrightarrow> P t \<Longrightarrow> accepted P (f b t)) \<Longrightarrow> accepted P (try_fold f bs s)"
proof (induction bs arbitrary: s)
  case (Cons b bs)
  have "accepted P (try_fold f bs t)" if "P t" for t using Cons.IH [OF that] Cons.prems(2) by simp
  moreover have "accepted P (f b s)" using Cons.prems by simp
  ultimately show ?case by (simp add: accepted_and_then)
qed (simp add: accepted_def)

lemma search_pair_accepted:
  assumes "settled_turn new_id n st" and "inj new_id" and "new_id n \<noteq> []"
    and blocks: "client_blocks (new_id n) outcome = (u, r)"
  shows "accepted (settled_turn new_id (Suc n)) (try_fold (assistant_block json_text) [u, r] st)"
proof -
  let ?i = "new_id n"
  have fresh: "?i \<notin> set (at_server_ids st)" "?i \<notin> set (at_seen st)"
    using assms(1,2) by (auto simp: settled_turn_def dest!: subsetD dest: injD)
  have u: "u = JObj [(''type'', JStr ''server_tool_use''), (''id'', JStr ?i), (''name'', JStr FUNCTION_NAME),
      (''input'', JObj [(''query'', JStr (so_query outcome))])]"
    and r: "\<exists>content. r = JObj [(''type'', JStr ''web_search_tool_result''), (''tool_use_id'', JStr ?i),
      (''content'', content)]"
    using blocks by (auto simp: client_blocks_def)
  define cs where "cs = function_call_json ?i FUNCTION_NAME (json_text (JObj [(''query'', JStr (so_query outcome))]))"
  define st1 where "st1 = (flush_segment st)\<lparr>at_server_ids := ?i # at_server_ids st,
      at_server_calls := at_server_calls st @ [cs]\<rparr>"
  have one: "assistant_block json_text u st = Inr st1"
    using fresh assms(3)
    by (simp add: u assistant_block_def required_string_def obj_str_def server_tool_use_block_def tool_input_def
        is_object_def FUNCTION_NAME_def Let_def st1_def cs_def)
  have two: "assistant_block json_text r st1 = web_search_result_block r [(''type'', JStr ''web_search_tool_result''),
      (''tool_use_id'', JStr ?i), (''content'', content)] st1"
    if "r = JObj [(''type'', JStr ''web_search_tool_result''), (''tool_use_id'', JStr ?i), (''content'', content)]"
    for content
    by (simp add: assistant_block_def required_string_def obj_str_def that)
  have "settled_turn new_id (Suc n) ((flush_server_calls (st1\<lparr>at_seen := ?i # at_seen st1\<rparr>))\<lparr>at_output := out\<rparr>)" for out
    using assms(1) by (auto simp: settled_turn_def results_missing_def st1_def lessThan_Suc)
  then have "accepted (settled_turn new_id (Suc n)) (web_search_result_block r [(''type'', JStr ''web_search_tool_result''),
      (''tool_use_id'', JStr ?i), (''content'', content)] st1)" for content
    using fresh assms(3)
    by (cases "replayed_result_text r")
      (simp_all add: web_search_result_block_def required_string_def obj_str_def Let_def accepted_def st1_def)
  with r two have "accepted (settled_turn new_id (Suc n)) (assistant_block json_text r st1)" by auto
  then show ?thesis by (auto simp: one accepted_def)
qed

lemma search_blocks_accepted:
  assumes "inj new_id" and "\<And>i. new_id i \<noteq> []"
  shows "settled_turn new_id n st \<Longrightarrow>
    accepted (\<lambda>st'. \<exists>m. settled_turn new_id m st')
      (try_fold (assistant_block json_text) (blocks_of new_id n outcomes) st)"
proof (induction outcomes arbitrary: n st)
  case Nil
  then show ?case by (auto simp: blocks_of_def accepted_def)
next
  case (Cons outcome outcomes)
  obtain u r where blocks: "client_blocks (new_id n) outcome = (u, r)" by fastforce
  have split: "blocks_of new_id n (outcome # outcomes) = [u, r] @ blocks_of new_id (Suc n) outcomes"
    by (simp add: blocks_of_def blocks)
  have "accepted (settled_turn new_id (Suc n)) (try_fold (assistant_block json_text) [u, r] st)"
    using Cons.prems assms blocks by (rule search_pair_accepted)
  then show ?case unfolding split try_fold_append
    by (rule accepted_and_then) (rule Cons.IH)
qed

text \<open>The blocks behind the searches: thinking, texts and client calls.\<close>

definition plain_block :: "json \<Rightarrow> bool" where
  "plain_block b \<longleftrightarrow>
     (\<exists>s. s \<noteq> [] \<and> b = text_json s)
     \<or> (\<exists>s t. b = JObj [(''type'', JStr ''thinking''), (''thinking'', JStr s), (''signature'', t)])
     \<or> (\<exists>i name input. i \<noteq> [] \<and> name \<noteq> [] \<and> b = tool_use_of i name input)"

lemma plain_block_accepted:
  "plain_block b \<Longrightarrow> settled_turn new_id n st \<Longrightarrow> accepted (settled_turn new_id n) (assistant_block json_text b st)"
  by (auto simp: plain_block_def text_json_def tool_use_of_def assistant_block_def required_string_def obj_str_def
      convert_text_block_def tool_use_block_def accepted_def settled_turn_def results_missing_def)

lemma plain_block_kind:
  "plain_block b \<Longrightarrow> block_kind b \<notin> {''server_tool_use'', ''web_search_tool_result''}"
  by (auto simp: plain_block_def text_json_def tool_use_of_def block_kind_def get_str_def str_or_def)

lemma orderly_plain: "(\<And>b. b \<in> set bs \<Longrightarrow> plain_block b) \<Longrightarrow> orderly called k answering bs"
  by (induction bs arbitrary: called) (use plain_block_kind in auto)

lemma orderly_searches:
  "orderly False 0 False rest \<Longrightarrow> orderly False 0 False (blocks_of new_id n outcomes @ rest)"
  by (induction outcomes arbitrary: n)
    (simp_all add: blocks_of_def client_blocks_def block_kind_def get_str_def str_or_def)

definition call_named :: "json \<Rightarrow> bool" where
  "call_named call \<longleftrightarrow> get_str call ''id'' \<noteq> Some []
     \<and> Option.bind (Option.bind (json_get call ''function'') as_object) (\<lambda>f. obj_str f ''name'') \<noteq> Some []"

lemma response_call_plain:
  assumes "response_call parse skip index call = Inr bs" and "call_named call" and "b \<in> set bs"
  shows "plain_block b"
proof -
  from assms obtain fn inp where f: "Option.bind (json_get call ''function'') as_object = Some fn"
    and b: "b = tool_use_of (str_or ''toolu_unknown'' (get_str call ''id''))
              (str_or ''unknown'' (obj_str fn ''name'')) inp"
    by (auto simp: response_call_def and_then_Inr Let_def split: if_split_asm)
  have "str_or ''toolu_unknown'' (get_str call ''id'') \<noteq> []" "str_or ''unknown'' (obj_str fn ''name'') \<noteq> []"
    using assms(2) f by (auto simp: call_named_def str_or_def split: option.split)
  then show ?thesis unfolding plain_block_def b by blast
qed

lemma block_text_plain: "b \<in> set (block_text_json block) \<Longrightarrow> plain_block b"
  by (auto simp: block_text_json_def plain_block_def split: option.split_asm if_split_asm)

lemma answer_text_plain: "b \<in> set (answer_text content) \<Longrightarrow> plain_block b"
proof (cases content)
  case (Some v)
  assume "b \<in> set (answer_text content)"
  with Some show ?thesis
    by (cases v) (auto simp: answer_text_def dest: block_text_plain split: if_split_asm, auto simp: plain_block_def)
qed (simp add: answer_text_def)

lemma thinking_block_plain: "b \<in> set (thinking_block sign s request_id) \<Longrightarrow> plain_block b"
  by (auto simp: thinking_block_def plain_block_def split: if_split_asm)

text \<open>C17. A client can send the answers of the gateway back: the content of a converted answer, the
  searches done for it in front, is an orderly turn (so the adjacency of calls and answers holds in
  the history that contains it), and its conversion fails on no check, provided the upstream named
  its calls; the one failure left is the panic of the search listing.\<close>

theorem own_answer_replayable:
  assumes "response_content parse sign request_id expose options message = Inr content"
    and "ro_extra_prefix options = blocks_of new_id n outcomes" and "inj new_id" and "\<forall>i. new_id i \<noteq> []"
    and "\<forall>tcs. Option.bind (map_of message ''tool_calls'') as_array = Some tcs \<longrightarrow> list_all call_named tcs"
  shows "orderly False 0 False content
    \<and> accepted (\<lambda>_. True) (convert_assistant_blocks json_text content history)"
proof -
  obtain tool_blocks rest where content: "content = blocks_of new_id n outcomes @ rest"
    and rest: "rest = thinking_block sign (if expose then reasoning_text_of message else []) request_id
      @ answer_text (map_of message ''content'') @ tool_blocks"
    and tools: "case Option.bind (map_of message ''tool_calls'') as_array of
         None \<Rightarrow> tool_blocks = []
       | Some tcs \<Rightarrow> \<exists>bss. try_map (response_call parse (ro_skip_tool_names options)) 0 tcs = Inr bss
                       \<and> tool_blocks = concat bss"
    using assms(1,2) by (auto simp: response_content_def and_then_Inr split: option.splits)
  have "plain_block b" if b: "b \<in> set tool_blocks" for b
  proof (cases "Option.bind (map_of message ''tool_calls'') as_array")
    case None
    then show ?thesis using tools b by simp
  next
    case (Some tcs)
    then obtain bss where bss: "try_map (response_call parse (ro_skip_tool_names options)) 0 tcs = Inr bss"
      "tool_blocks = concat bss" using tools by auto
    then obtain bs where "bs \<in> set bss" "b \<in> set bs" using b by auto
    then obtain k where k: "k < length tcs" "response_call parse (ro_skip_tool_names options) k (tcs ! k) = Inr (bss ! k)"
      "b \<in> set (bss ! k)" using bss(1) unfolding try_map_Inr by (metis add_0 in_set_conv_nth)
    moreover have "call_named (tcs ! k)" using assms(5) Some k(1) by (auto simp: list_all_length)
    ultimately show ?thesis by (blast intro: response_call_plain)
  qed
  then have plain: "plain_block b" if "b \<in> set rest" for b
    using that answer_text_plain thinking_block_plain unfolding rest by fastforce
  have "settled_turn new_id n (start_turn history)" by (simp add: settled_turn_def start_turn_def results_missing_def)
  then have "accepted (\<lambda>st. \<exists>m. settled_turn new_id m st)
      (try_fold (assistant_block json_text) (blocks_of new_id n outcomes) (start_turn history))"
    using search_blocks_accepted assms(3,4) by blast
  then have "accepted (\<lambda>st. \<exists>m. settled_turn new_id m st) (try_fold (assistant_block json_text) content (start_turn history))"
    unfolding content try_fold_append
  proof (rule accepted_and_then, elim exE)
    fix st m assume "settled_turn new_id m st"
    then have "accepted (settled_turn new_id m) (try_fold (assistant_block json_text) rest st)"
      using plain by (blast intro: accepted_fold plain_block_accepted)
    then show "accepted (\<lambda>st. \<exists>m. settled_turn new_id m st) (try_fold (assistant_block json_text) rest st)"
      unfolding accepted_def by blast
  qed
  then have "accepted (\<lambda>_. True) (convert_assistant_blocks json_text content history)"
    unfolding convert_assistant_blocks_def
    by (rule accepted_and_then) (auto simp: settled_turn_def accepted_def Let_def)
  moreover have "orderly False 0 False content"
    unfolding content by (rule orderly_searches, rule orderly_plain, rule plain)
  ultimately show ?thesis by blast
qed

definition demo_completion :: jmap where
  "demo_completion = [(''content'', JStr ''hi''),
     (''tool_calls'', JArr [JObj [(''id'', JStr ''c''), (''function'', JObj [(''name'', JStr ''f'')])]])]"

definition demo_id :: "nat \<Rightarrow> string" where "demo_id n = replicate (Suc n) (CHR ''s'')"

definition demo_options :: response_options where
  "demo_options = plain_options\<lparr>ro_extra_prefix := blocks_of demo_id 0 [search_failed ''q'' Unavailable]\<rparr>"

lemma trim_Nil: "trim [] = []"
  by (simp add: trim_def trim_end_def trim_start.simps [of "[]"] trim_start_rev.simps [of "[]"])

lemma demo_completion_converts:
  "response_content (\<lambda>_. None) (\<lambda>_ _. []) [] False demo_options demo_completion
     = Inr (ro_extra_prefix demo_options @ [text_json ''hi'', tool_use_of ''c'' ''f'' (JObj [])])"
  by (simp add: response_content_def demo_completion_def response_call_def obj_str_def str_or_def Let_def trim_Nil
      demo_options_def plain_options_def thinking_block_def answer_text_def get_str_def)

theorem own_answer_replayable_witness:
  "orderly False 0 False (ro_extra_prefix demo_options @ [text_json ''hi'', tool_use_of ''c'' ''f'' (JObj [])])"
proof -
  have "inj demo_id" by (auto simp: inj_def demo_id_def dest: arg_cong [where f = length])
  moreover have "\<forall>i. demo_id i \<noteq> []" by (simp add: demo_id_def)
  moreover have "ro_extra_prefix demo_options = blocks_of demo_id 0 [search_failed ''q'' Unavailable]"
    by (simp add: demo_options_def)
  moreover have "\<forall>tcs. Option.bind (map_of demo_completion ''tool_calls'') as_array = Some tcs \<longrightarrow> list_all call_named tcs"
    by (simp add: demo_completion_def call_named_def get_str_def obj_str_def)
  ultimately show ?thesis
    using own_answer_replayable [OF demo_completion_converts] by blast
qed

subsection \<open>Envelopes and usage\<close>

text \<open>A body that passes the normalization has a first choice, and is the body itself or its \<open>data\<close>
  member: there is no deeper search.\<close>

lemma normalized_body_has_choice:
  assumes "normalize_nonstream_body v = Inr (b, shape)"
  shows "\<exists>c cs. json_get b ''choices'' = Some (JArr (c # cs))"
    and "b = v \<or> json_get v ''data'' = Some b"
proof -
  have usable: "\<exists>c cs. map_of obj ''choices'' = Some (JArr (c # cs))" if "choices_usable obj" for obj
    using that by (cases "map_of obj ''choices''")
      (auto simp: choices_usable_def neq_Nil_conv dest!: as_array_SomeD split: option.split_asm)
  have "shape = StandardOpenAi \<or> shape = ClineDataEnvelope"
    using assms by (auto simp: normalize_nonstream_body_def split: upstream_body_shape.splits)
  then have "(\<exists>c cs. json_get b ''choices'' = Some (JArr (c # cs))) \<and> (b = v \<or> json_get v ''data'' = Some b)"
  proof
    assume "shape = StandardOpenAi"
    then have b: "b = v" "classify_nonstream_body v = StandardOpenAi"
      using assms by (auto simp: normalize_nonstream_body_def split: upstream_body_shape.splits)
    then obtain obj where "as_object v = Some obj" "choices_usable obj"
      by (auto simp: classify_nonstream_body_def split: option.splits bool.splits if_split_asm)
    with b usable show ?thesis by (simp add: json_get_object)
  next
    assume "shape = ClineDataEnvelope"
    then have b: "b = value_or_null (json_get v ''data'')" "classify_nonstream_body v = ClineDataEnvelope"
      using assms by (auto simp: normalize_nonstream_body_def split: upstream_body_shape.splits)
    then obtain obj payload where obj: "as_object v = Some obj" "map_of obj ''data'' = Some (JObj payload)"
      "choices_usable payload"
      by (auto simp: classify_nonstream_body_def bind_eq_Some_conv split: option.splits bool.splits if_split_asm)
        (metis as_object.elims option.discI option.inject)
    then have "json_get v ''data'' = Some (JObj payload)" by (simp add: json_get_object)
    with b usable [OF obj(3)] show ?thesis by (simp add: value_or_null_def)
  qed
  then show "\<exists>c cs. json_get b ''choices'' = Some (JArr (c # cs))" and "b = v \<or> json_get v ''data'' = Some b"
    by simp_all
qed

text \<open>A reasoning delta under the second name is lost when the first is present and empty-valued,
  although a complete message with the same members shows it.\<close>

lemma null_reasoning_hides_alternative:
  "reasoning_delta [(''reasoning_content'', JNull), (''reasoning'', JStr s)] = None"
  "reasoning_text_of [(''reasoning_content'', JNull), (''reasoning'', JStr s)] = s"
  by (simp_all add: reasoning_delta_def reasoning_text_of_def obj_str_def)

end
