(* ===== verification/Sse_Decoder.thy ===== *)
theory Sse_Decoder
  imports Rust_Result Rust_Prelude
begin

text \<open>
  The \<open>SseDecoder\<close> of \<open>src/anthropic.rs\<close>: chunks of bytes become server-sent events. A line ends
  at a line feed, an event at an empty line; only \<open>data:\<close> and \<open>event:\<close> fields matter. The decoder
  fails when it would have to hold more than the limit. Beside it stands the reference \<open>events_of\<close>,
  which knows no chunks and no limit.
\<close>

definition MAX_UPSTREAM_SSE_EVENT_BYTES :: nat where
  "MAX_UPSTREAM_SSE_EVENT_BYTES = 8 * 1024 * 1024"

definition line_feed :: char where "line_feed = CHR 0x0A"

record decoded_event =
  ev_event :: "string option"
  ev_data :: string

record sse_decoder =
  sd_buffer :: string
  sd_event :: "string option"
  sd_lines :: "string list"
  sd_bytes :: nat

definition new_decoder :: sse_decoder where
  "new_decoder = \<lparr>sd_buffer = [], sd_event = None, sd_lines = [], sd_bytes = 0\<rparr>"

fun join_lines :: "string list \<Rightarrow> string" where
  "join_lines [] = []"
| "join_lines [line] = line"
| "join_lines (line # lines) = line @ line_feed # join_lines lines"

text \<open>\<open>dispatch\<close>: the event, if any, and the state.\<close>

definition dispatch :: "sse_decoder \<Rightarrow> decoded_event list \<times> sse_decoder" where
  "dispatch d =
     (if sd_lines d = [] then ([], d\<lparr>sd_event := None\<rparr>)
      else ([\<lparr>ev_event = sd_event d, ev_data = join_lines (sd_lines d)\<rparr>],
            d\<lparr>sd_event := None, sd_lines := [], sd_bytes := 0\<rparr>))"

definition strip_prefix :: "string \<Rightarrow> string \<Rightarrow> string option" where
  "strip_prefix prefix s = (if starts_with s prefix then Some (drop (length prefix) s) else None)"

definition strip_space :: "string \<Rightarrow> string" where
  "strip_space s = (case s of [] \<Rightarrow> [] | c # cs \<Rightarrow> if c = CHR '' '' then cs else s)"

definition process_line :: "string \<Rightarrow> sse_decoder \<Rightarrow> decoded_event list \<times> sse_decoder" where
  "process_line line d =
     (if line = [] then dispatch d
      else if hd line = CHR '':'' then ([], d)
      else case strip_prefix ''data:'' line of
          Some value \<Rightarrow>
            ([], d\<lparr>sd_bytes := sat_add64 (sd_bytes d) (length (strip_space value)),
                   sd_lines := sd_lines d @ [strip_space value]\<rparr>)
        | None \<Rightarrow>
            (case strip_prefix ''event:'' line of
               Some value \<Rightarrow> ([], d\<lparr>sd_event := Some (strip_space value)\<rparr>)
             | None \<Rightarrow> ([], d)))"

text \<open>The buffer up to the first line feed, without a carriage return before it, and the rest.\<close>

fun next_line :: "string \<Rightarrow> (string \<times> string) option" where
  "next_line [] = None"
| "next_line (c # s) =
     (if c = line_feed then Some ([], s) else map_option (\<lambda>(line, rest). (c # line, rest)) (next_line s))"

definition drop_cr :: "string \<Rightarrow> string" where
  "drop_cr line = (if line \<noteq> [] \<and> last line = CHR 0x0D then butlast line else line)"

lemma next_line_length: "next_line s = Some (line, rest) \<Longrightarrow> length rest < length s"
  by (induction s arbitrary: line) (auto split: if_split_asm)

text \<open>The loop of \<open>push\<close>; \<open>None\<close> is the failure, after which the decoder is cleared.\<close>

function push_lines :: "sse_decoder \<Rightarrow> decoded_event list \<Rightarrow> (decoded_event list \<times> sse_decoder) option" where
  "push_lines d events =
     (case next_line (sd_buffer d) of
        None \<Rightarrow> Some (events, d)
      | Some (line, rest) \<Rightarrow>
          (case process_line (from_utf8_lossy (drop_cr line)) (d\<lparr>sd_buffer := rest\<rparr>) of
             (new, d') \<Rightarrow>
               (if MAX_UPSTREAM_SSE_EVENT_BYTES < sd_bytes d' then None
                else push_lines d' (events @ new))))"
  by pat_completeness auto

lemma dispatch_buffer [simp]: "sd_buffer (snd (dispatch d)) = sd_buffer d"
  by (simp add: dispatch_def)

lemma process_line_buffer: "process_line line d = (new, d') \<Longrightarrow> sd_buffer d' = sd_buffer d"
  using dispatch_buffer [of d]
  by (auto simp: process_line_def simp del: dispatch_buffer split: if_split_asm option.splits)

termination push_lines
proof (relation "measure (\<lambda>(d, events). length (sd_buffer d))")
qed (auto dest!: next_line_length process_line_buffer [OF sym])

declare push_lines.simps [simp del]

definition push :: "string \<Rightarrow> sse_decoder \<Rightarrow> (decoded_event list \<times> sse_decoder) option" where
  "push bytes d =
     (if MAX_UPSTREAM_SSE_EVENT_BYTES < length (sd_buffer d) + length bytes then None
      else push_lines (d\<lparr>sd_buffer := sd_buffer d @ bytes\<rparr>) [])"

definition decoder_finish :: "sse_decoder \<Rightarrow> decoded_event list option" where
  "decoder_finish d =
     (let (events, d1) = (if sd_buffer d = [] then ([], d)
                          else process_line (from_utf8_lossy (sd_buffer d)) (d\<lparr>sd_buffer := []\<rparr>))
      in if MAX_UPSTREAM_SSE_EVENT_BYTES < sd_bytes d1 then None
         else Some (events @ fst (dispatch d1)))"

text \<open>A whole response: its chunks, then its end.\<close>

fun decode_from :: "sse_decoder \<Rightarrow> string list \<Rightarrow> decoded_event list option" where
  "decode_from d [] = decoder_finish d"
| "decode_from d (bytes # chunks) =
     (case push bytes d of
        None \<Rightarrow> None
      | Some (events, d') \<Rightarrow> map_option (\<lambda>later. events @ later) (decode_from d' chunks))"

definition decode :: "string list \<Rightarrow> decoded_event list option" where
  "decode chunks = decode_from new_decoder chunks"

subsection \<open>The reference\<close>

text \<open>The lines of a text, the last without a line feed when it is not empty.\<close>

function lines_of :: "string \<Rightarrow> string list" where
  "lines_of s =
     (case next_line s of
        Some (line, rest) \<Rightarrow> drop_cr line # lines_of rest
      | None \<Rightarrow> (if s = [] then [] else [s]))"
  by pat_completeness auto
termination by (relation "measure length") (auto dest: next_line_length)

declare lines_of.simps [simp del]

text \<open>The events of a list of lines, from an event name and the data lines before them.\<close>

fun events_from :: "string option \<Rightarrow> string list \<Rightarrow> string list \<Rightarrow> decoded_event list" where
  "events_from name held [] =
     (if held = [] then [] else [\<lparr>ev_event = name, ev_data = join_lines held\<rparr>])"
| "events_from name held (line # lines) =
     (if line = [] then
        (if held = [] then events_from None [] lines
         else \<lparr>ev_event = name, ev_data = join_lines held\<rparr> # events_from None [] lines)
      else if hd line = CHR '':'' then events_from name held lines
      else case strip_prefix ''data:'' line of
          Some value \<Rightarrow> events_from name (held @ [strip_space value]) lines
        | None \<Rightarrow>
            (case strip_prefix ''event:'' line of
               Some value \<Rightarrow> events_from (Some (strip_space value)) held lines
             | None \<Rightarrow> events_from name held lines))"

definition events_of :: "string \<Rightarrow> decoded_event list" where
  "events_of s = events_from None [] (map from_utf8_lossy (lines_of s))"

subsection \<open>The decoder implements the reference\<close>

lemma next_line_append: "next_line s = Some (line, rest) \<Longrightarrow> next_line (s @ t) = Some (line, rest @ t)"
  by (induction s arbitrary: line) (auto split: if_split_asm)

lemma lines_of_next: "next_line s = Some (line, rest) \<Longrightarrow> lines_of s = drop_cr line # lines_of rest"
  by (simp add: lines_of.simps [of s])

lemma process_line_events:
  "process_line line d = (new, d') \<Longrightarrow>
   events_from (sd_event d) (sd_lines d) (line # lines) = new @ events_from (sd_event d') (sd_lines d') lines"
  by (auto simp: process_line_def dispatch_def split: if_split_asm option.splits)

text \<open>What is still to come when the decoder is in a state and the bytes \<open>t\<close> are left.\<close>

definition pending_events :: "sse_decoder \<Rightarrow> string \<Rightarrow> decoded_event list" where
  "pending_events d t = events_from (sd_event d) (sd_lines d) (map from_utf8_lossy (lines_of (sd_buffer d @ t)))"

lemma push_lines_events:
  "push_lines d events = Some (events', d') \<Longrightarrow>
   next_line (sd_buffer d') = None
   \<and> (\<exists>new. events' = events @ new \<and> (\<forall>t. pending_events d t = new @ pending_events d' t))"
proof (induction d events rule: push_lines.induct)
  case (1 d events)
  show ?case
  proof (cases "next_line (sd_buffer d)")
    case None
    then show ?thesis using "1.prems" by (auto simp: push_lines.simps [of d events])
  next
    case (Some lr)
    obtain line rest where lr: "lr = (line, rest)" by fastforce
    obtain new d1 where step: "process_line (from_utf8_lossy (drop_cr line)) (d\<lparr>sd_buffer := rest\<rparr>) = (new, d1)"
      by fastforce
    have ok: "\<not> MAX_UPSTREAM_SSE_EVENT_BYTES < sd_bytes d1" and later: "push_lines d1 (events @ new) = Some (events', d')"
      using "1.prems" Some lr step by (auto simp: push_lines.simps [of d events] split: if_split_asm)
    from "1.IH" [OF Some lr [symmetric] step [symmetric] ok later]
    obtain more where "next_line (sd_buffer d') = None" "events' = (events @ new) @ more"
      and more: "\<And>t. pending_events d1 t = more @ pending_events d' t" by auto
    moreover have "pending_events d t = new @ pending_events d1 t" for t
    proof -
      have "sd_buffer d1 = rest" using process_line_buffer [OF step] by simp
      moreover have "lines_of (sd_buffer d @ t) = drop_cr line # lines_of (rest @ t)"
        using Some lr by (intro lines_of_next next_line_append) simp
      ultimately show ?thesis using process_line_events [OF step]
        by (simp add: pending_events_def)
    qed
    ultimately show ?thesis by simp
  qed
qed

lemma push_events:
  assumes "push bytes d = Some (events, d')"
  shows "next_line (sd_buffer d') = None"
    and "pending_events d (bytes @ t) = events @ pending_events d' t"
proof -
  have "push_lines (d\<lparr>sd_buffer := sd_buffer d @ bytes\<rparr>) [] = Some (events, d')"
    using assms by (simp add: push_def split: if_split_asm)
  from push_lines_events [OF this] show "next_line (sd_buffer d') = None"
    and "pending_events d (bytes @ t) = events @ pending_events d' t"
    by (auto simp: pending_events_def)
qed

lemma finish_events:
  assumes "decoder_finish d = Some events" and "next_line (sd_buffer d) = None"
  shows "events = pending_events d []"
proof (cases "sd_buffer d = []")
  case True
  then show ?thesis using assms
    by (auto simp: decoder_finish_def pending_events_def lines_of.simps [of "[]"] dispatch_def split: if_split_asm)
next
  case False
  obtain new d1 where step: "process_line (from_utf8_lossy (sd_buffer d)) (d\<lparr>sd_buffer := []\<rparr>) = (new, d1)"
    by fastforce
  have "events = new @ fst (dispatch d1)"
    using assms(1) False step by (simp add: decoder_finish_def split: if_split_asm)
  moreover have "lines_of (sd_buffer d) = [sd_buffer d]" using assms(2) False by (simp add: lines_of.simps [of "sd_buffer d"])
  ultimately show ?thesis using process_line_events [OF step, of "[]"]
    by (simp add: pending_events_def dispatch_def)
qed

lemma decode_from_events:
  "decode_from d chunks = Some events \<Longrightarrow> next_line (sd_buffer d) = None \<Longrightarrow>
   events = pending_events d (concat chunks)"
proof (induction chunks arbitrary: d events)
  case (Cons bytes chunks)
  then obtain new d' later where push: "push bytes d = Some (new, d')"
    and later: "decode_from d' chunks = Some later" and events: "events = new @ later"
    by (auto split: option.splits)
  from Cons.IH [OF later push_events(1) [OF push]] show ?case
    using push_events(2) [OF push] events by simp
qed (simp add: finish_events)

subsection \<open>Below the limit nothing fails\<close>

lemma sat_add64_sum: "sat_add64 a b \<le> a + b"
  by (simp add: sat_add64_def)

lemma length_from_utf8_lossy: "length (from_utf8_lossy s) \<le> 3 * length s"
proof (induction s rule: from_utf8_lossy.induct)
  case (1 s)
  show ?case
  proof (cases "s = []")
    case False
    let ?n = "snd (utf8_chunk s)"
    have "0 < ?n" by (rule utf8_chunk_pos)
    moreover have "length (from_utf8_lossy (drop ?n s)) \<le> 3 * (length s - ?n)" using 1 False by simp
    moreover have "0 < length s" using False by simp
    ultimately have "min (length s) ?n + length (from_utf8_lossy (drop ?n s)) \<le> 3 * length s"
      "3 + length (from_utf8_lossy (drop ?n s)) \<le> 3 * length s"
      by linarith+
    then show ?thesis using False
      by (simp add: from_utf8_lossy.simps [of s] replacement_char_def)
  qed (simp add: from_utf8_lossy.simps [of "[]"])
qed

lemma length_drop_cr: "length (drop_cr line) \<le> length line"
  by (simp add: drop_cr_def)

lemma length_strip_space: "length (strip_space s) \<le> length s"
  by (cases s) (simp_all add: strip_space_def)

lemma process_line_bytes:
  assumes "process_line line d = (new, d')"
  shows "sd_bytes d' \<le> sd_bytes d + length line"
proof -
  have "length (strip_space v) \<le> length line" if "strip_prefix p line = Some v" for p v
    using that length_strip_space [of v] by (auto simp: strip_prefix_def split: if_split_asm)
  then have "sat_add64 (sd_bytes d) (length (strip_space v)) \<le> sd_bytes d + length line"
    if "strip_prefix p line = Some v" for p v
    using that sat_add64_sum [of "sd_bytes d" "length (strip_space v)"] by (meson add_left_mono le_trans)
  then show ?thesis
    using assms by (auto simp: process_line_def dispatch_def split: if_split_asm option.splits)
qed

lemma next_line_split: "next_line s = Some (line, rest) \<Longrightarrow> length s = Suc (length line + length rest)"
  by (induction s arbitrary: line) (auto split: if_split_asm)

text \<open>What the decoder holds, each undecoded byte counted with the three it may become.\<close>

definition held_bytes :: "sse_decoder \<Rightarrow> nat" where
  "held_bytes d = 3 * length (sd_buffer d) + sd_bytes d"

lemma push_lines_total:
  "held_bytes d \<le> MAX_UPSTREAM_SSE_EVENT_BYTES \<Longrightarrow>
   \<exists>es d'. push_lines d events = Some (es, d') \<and> held_bytes d' \<le> held_bytes d"
proof (induction d events rule: push_lines.induct)
  case (1 d events)
  show ?case
  proof (cases "next_line (sd_buffer d)")
    case None
    then show ?thesis by (simp add: push_lines.simps [of d events])
  next
    case (Some lr)
    obtain line rest where lr: "lr = (line, rest)" by fastforce
    obtain new d1 where step: "process_line (from_utf8_lossy (drop_cr line)) (d\<lparr>sd_buffer := rest\<rparr>) = (new, d1)"
      by fastforce
    have "sd_bytes d1 \<le> sd_bytes d + 3 * length line"
      using process_line_bytes [OF step] length_from_utf8_lossy [of "drop_cr line"] length_drop_cr [of line] by simp
    moreover have "sd_buffer d1 = rest" using process_line_buffer [OF step] by simp
    ultimately have less: "held_bytes d1 \<le> held_bytes d"
      using next_line_split Some lr by (fastforce simp: held_bytes_def)
    then have ok: "\<not> MAX_UPSTREAM_SSE_EVENT_BYTES < sd_bytes d1"
      using "1.prems" by (simp add: held_bytes_def)
    have "held_bytes d1 \<le> MAX_UPSTREAM_SSE_EVENT_BYTES" using less "1.prems" by simp
    from "1.IH" [OF Some lr [symmetric] step [symmetric] ok this] less show ?thesis
      using Some lr step ok by (auto simp: push_lines.simps [of d events])
  qed
qed

lemma decode_from_total:
  "held_bytes d + 3 * length (concat chunks) \<le> MAX_UPSTREAM_SSE_EVENT_BYTES \<Longrightarrow>
   \<exists>es. decode_from d chunks = Some es"
proof (induction chunks arbitrary: d)
  case Nil
  obtain new d1 where step: "process_line (from_utf8_lossy (sd_buffer d)) (d\<lparr>sd_buffer := []\<rparr>) = (new, d1)"
    by fastforce
  have "sd_bytes d1 \<le> sd_bytes d + 3 * length (sd_buffer d)"
    using process_line_bytes [OF step] length_from_utf8_lossy [of "sd_buffer d"] by simp
  with Nil step show ?case by (simp add: decoder_finish_def held_bytes_def Let_def)
next
  case (Cons bytes chunks)
  let ?d = "d\<lparr>sd_buffer := sd_buffer d @ bytes\<rparr>"
  have held: "held_bytes ?d = held_bytes d + 3 * length bytes" by (simp add: held_bytes_def)
  then obtain es d' where d': "push_lines ?d [] = Some (es, d')" "held_bytes d' \<le> held_bytes ?d"
    using push_lines_total [of ?d "[]"] Cons.prems by auto
  have "push bytes d = Some (es, d')"
    using d'(1) Cons.prems by (simp add: push_def held_bytes_def)
  moreover have "held_bytes d' + 3 * length (concat chunks) \<le> MAX_UPSTREAM_SSE_EVENT_BYTES"
    using Cons.prems d'(2) held by simp
  from Cons.IH [OF this] obtain later where "decode_from d' chunks = Some later" by blast
  ultimately show ?case by simp
qed

text \<open>C15. The incremental decoder of upstream events implements the reference that sees the whole
  response at once: however the network cuts the bytes into chunks, a response that decodes gives the
  events of the concatenation, and one of at most a third of the limit (an invalid byte decodes to
  three) always decodes.\<close>

theorem decoder_refines_reference:
  "(decode chunks = None \<or> decode chunks = Some (events_of (concat chunks)))
   \<and> (3 * length (concat chunks) \<le> MAX_UPSTREAM_SSE_EVENT_BYTES \<longrightarrow> decode chunks \<noteq> None)"
proof -
  have "decode chunks = None \<or> decode chunks = Some (events_of (concat chunks))"
    using decode_from_events [of new_decoder chunks]
    by (cases "decode chunks") (auto simp: decode_def events_of_def pending_events_def new_decoder_def)
  moreover have "decode chunks \<noteq> None" if "3 * length (concat chunks) \<le> MAX_UPSTREAM_SSE_EVENT_BYTES"
    using decode_from_total [of new_decoder chunks] that
    by (auto simp: decode_def held_bytes_def new_decoder_def)
  ultimately show ?thesis by blast
qed

theorem decoder_refines_reference_witness:
  "decode [''data: h'', ''i'' @ [line_feed], [line_feed]] = Some (events_of (''data: hi'' @ [line_feed, line_feed]))"
  using decoder_refines_reference [of "[''data: h'', ''i'' @ [line_feed], [line_feed]]"]
  by (auto simp: MAX_UPSTREAM_SSE_EVENT_BYTES_def)

text \<open>Beyond the limit the chunks matter: bytes that arrive at once are refused although each of
  their lines is short, and accepted in two parts.\<close>

lemma one_large_chunk_refused:
  "MAX_UPSTREAM_SSE_EVENT_BYTES < length bytes \<Longrightarrow> decode [bytes] = None"
  by (simp add: decode_def push_def new_decoder_def)

end
