(* ===== verification/Anthropic_Aggregate.thy ===== *)
theory Anthropic_Aggregate
  imports Anthropic_Response Sse_Decoder
begin

text \<open>
  \<open>src/anthropic.rs\<close>, third part: a stream of the upstream aggregated into one OpenAI answer
  for a client that does not stream. Of the accumulator the fields that only feed log lines (times,
  byte and event counts) are left out; \<open>na_last_semantic\<close> stays, the watch reads it. \<open>at\<close> is the
  elapsed time in milliseconds.
\<close>

definition MAX_AGGREGATED_RESPONSE_BYTES :: nat where
  "MAX_AGGREGATED_RESPONSE_BYTES = 16 * 1024 * 1024"

record tool_acc =
  ta_id :: "string option"
  ta_name :: "string option"
  ta_arguments :: string

record nonstream_acc =
  na_id :: "string option"
  na_model :: "string option"
  na_reasoning :: string
  na_text :: string
  na_tools :: "(nat \<times> tool_acc) list"
  na_order :: "nat list"
  na_finish_reason :: "string option"
  na_usage :: json
  na_bytes :: nat
  na_saw_event :: bool
  na_last_semantic :: "nat option"

definition new_accumulator :: nonstream_acc where
  "new_accumulator =
     \<lparr>na_id = None, na_model = None, na_reasoning = [], na_text = [], na_tools = [], na_order = [],
      na_finish_reason = None, na_usage = JObj [], na_bytes = 0, na_saw_event = False, na_last_semantic = None\<rparr>"

text \<open>\<open>get_or_insert_with\<close>, and a string that is not empty.\<close>

definition first_value :: "'a option \<Rightarrow> 'a option \<Rightarrow> 'a option" where
  "first_value old new = (case old of Some v \<Rightarrow> Some v | None \<Rightarrow> new)"

definition nonempty :: "string option \<Rightarrow> string option" where
  "nonempty s = (case s of Some t \<Rightarrow> (if t = [] then None else Some t) | None \<Rightarrow> None)"

definition delta_function :: "json \<Rightarrow> jmap option" where
  "delta_function call = Option.bind (json_get call ''function'') as_object"

definition delta_index :: "json \<Rightarrow> nat" where
  "delta_index call = (case Option.bind (json_get call ''index'') as_u64 of Some i \<Rightarrow> i | None \<Rightarrow> 0)"

definition delta_name :: "json \<Rightarrow> string option" where
  "delta_name call = nonempty (Option.bind (delta_function call) (\<lambda>f. obj_str f ''name''))"

definition delta_arguments :: "json \<Rightarrow> string" where
  "delta_arguments call = str_or [] (Option.bind (delta_function call) (\<lambda>f. obj_str f ''arguments''))"

definition empty_tool :: tool_acc where
  "empty_tool = \<lparr>ta_id = None, ta_name = None, ta_arguments = []\<rparr>"

definition accumulate_call :: "json \<Rightarrow> nonstream_acc \<Rightarrow> nonstream_acc" where
  "accumulate_call call acc =
     (let index = delta_index call;
          tool = (case map_of (na_tools acc) index of Some t \<Rightarrow> t | None \<Rightarrow> empty_tool);
          tool' = \<lparr>ta_id = first_value (ta_id tool) (nonempty (get_str call ''id'')),
                   ta_name = first_value (ta_name tool) (delta_name call),
                   ta_arguments = ta_arguments tool @ delta_arguments call\<rparr>
      in acc\<lparr>na_tools := btree_insert index tool' (na_tools acc),
             na_order := (if index \<in> set (na_order acc) then na_order acc else na_order acc @ [index])\<rparr>)"

definition first_choice :: "json \<Rightarrow> json option" where
  "first_choice value =
     (case Option.bind (json_get value ''choices'') as_array of Some (c # cs) \<Rightarrow> Some c | _ \<Rightarrow> None)"

definition accumulate_delta :: "nat \<Rightarrow> jmap \<Rightarrow> nonstream_acc \<Rightarrow> nonstream_acc" where
  "accumulate_delta at delta acc0 =
     (let acc1 = (case nonempty (reasoning_delta delta) of
                    Some s \<Rightarrow> acc0\<lparr>na_reasoning := na_reasoning acc0 @ s, na_last_semantic := Some at\<rparr>
                  | None \<Rightarrow> acc0);
          acc2 = (case nonempty (obj_str delta ''content'') of
                    Some s \<Rightarrow> acc1\<lparr>na_text := na_text acc1 @ s, na_last_semantic := Some at\<rparr>
                  | None \<Rightarrow> acc1)
      in case Option.bind (map_of delta ''tool_calls'') as_array of
           Some tcs \<Rightarrow> fold accumulate_call tcs (acc2\<lparr>na_last_semantic := Some at\<rparr>)
         | None \<Rightarrow> acc2)"

definition nonempty_object :: "json \<Rightarrow> bool" where
  "nonempty_object v \<longleftrightarrow> (case as_object v of Some obj \<Rightarrow> obj \<noteq> [] | None \<Rightarrow> False)"

text \<open>The members of a chunk outside its choices.\<close>

definition accumulate_head :: "json \<Rightarrow> nonstream_acc \<Rightarrow> nonstream_acc" where
  "accumulate_head value acc =
     acc\<lparr>na_saw_event := True,
         na_id := first_value (na_id acc) (get_str value ''id''),
         na_model := first_value (na_model acc) (get_str value ''model''),
         na_usage := (case json_get value ''usage'' of
                        Some u \<Rightarrow> (if nonempty_object u then u else na_usage acc) | None \<Rightarrow> na_usage acc)\<rparr>"

definition accumulate_choice :: "nat \<Rightarrow> json \<Rightarrow> nonstream_acc \<Rightarrow> nonstream_acc" where
  "accumulate_choice at picked acc =
     (let acc1 = (case get_str picked ''finish_reason'' of
                    Some r \<Rightarrow> acc\<lparr>na_finish_reason := Some r\<rparr> | None \<Rightarrow> acc)
      in case Option.bind (json_get picked ''delta'') as_object of
           Some delta \<Rightarrow> accumulate_delta at delta acc1
         | None \<Rightarrow> acc1)"

definition accumulate_value :: "nat \<Rightarrow> json \<Rightarrow> nonstream_acc \<Rightarrow> nonstream_acc" where
  "accumulate_value at value acc =
     (case first_choice value of
        None \<Rightarrow> accumulate_head value acc
      | Some c \<Rightarrow> accumulate_choice at c (accumulate_head value acc))"

definition accumulate ::
  "(string \<Rightarrow> json option) \<Rightarrow> nat \<Rightarrow> string \<Rightarrow> nonstream_acc \<Rightarrow> protocol_error + nonstream_acc" where
  "accumulate parse at payload acc =
     (if trim payload = ''[DONE]'' then Inr acc
      else
        and_then (ok_or (UpstreamError ''upstream sent invalid SSE JSON'') (parse payload)) (\<lambda>value.
          if json_get value ''error'' \<noteq> None then Inl (UpstreamError ''upstream stream error'')
          else Inr (accumulate_value at value acc)))"

subsection \<open>The answer\<close>

definition aggregated_call :: "nonstream_acc \<Rightarrow> nat \<Rightarrow> json option" where
  "aggregated_call acc index =
     Option.bind (map_of (na_tools acc) index) (\<lambda>tool.
       if ta_name tool = None \<and> ta_arguments tool = [] then None
       else Some (function_call_json (str_or (''toolu_'' @ show_nat index) (ta_id tool))
                    (str_or ''unknown'' (ta_name tool)) (ta_arguments tool)))"

definition into_response :: "string \<Rightarrow> nonstream_acc \<Rightarrow> protocol_error + json" where
  "into_response request_id acc =
     (if \<not> na_saw_event acc
         \<or> na_text acc = [] \<and> na_reasoning acc = [] \<and> na_tools acc = [] \<and> na_finish_reason acc = None
      then Inl (UpstreamError ''upstream stream ended without any response content'')
      else
        (let tcs = List.map_filter (aggregated_call acc) (na_order acc);
             message = [(''role'', JStr ''assistant''), (''content'', JStr (na_text acc))]
               @ (if na_reasoning acc = [] then [] else [(''reasoning_content'', JStr (na_reasoning acc))])
               @ (if tcs = [] then [] else [(''tool_calls'', JArr tcs)])
         in Inr (JObj
              [(''id'', JStr (str_or request_id (na_id acc))),
               (''model'', JStr (str_or [] (na_model acc))),
               (''choices'', JArr [JObj
                  [(''index'', json_count 0), (''message'', JObj message),
                   (''finish_reason'', JStr (str_or ''stop'' (na_finish_reason acc)))]]),
               (''usage'', na_usage acc)])))"

subsection \<open>Receiving the stream\<close>

text \<open>What the network does next: bytes at a time (and elapsed milliseconds), a failure (a time-out or
  not), the end, or the stall timer fires. A ping is due in a stream to a client.\<close>

datatype net_event =
    NetBytes instant nat string
  | NetError bool
  | NetEnd instant
  | NetDeadline instant
  | NetPing

datatype aggregation =
    Receiving nonstream_acc sse_decoder stream_watch
  | Aggregated json
  | NotAggregated protocol_error

definition too_large_event :: protocol_error where
  "too_large_event = UpstreamError ''upstream SSE event exceeded the gateway limit''"

definition aggregate_event ::
  "(string \<Rightarrow> json option) \<Rightarrow> nat \<Rightarrow> instant \<Rightarrow> decoded_event \<Rightarrow> nonstream_acc \<times> stream_watch
   \<Rightarrow> protocol_error + (nonstream_acc \<times> stream_watch)" where
  "aggregate_event parse at now event = (\<lambda>(acc, watch).
     and_then (accumulate parse at (ev_data event) acc) (\<lambda>acc'.
       Inr (acc', if na_last_semantic acc' \<noteq> na_last_semantic acc
                  then on_semantic now (on_sse_event watch) else on_sse_event watch)))"

definition aggregate_bytes ::
  "(string \<Rightarrow> json option) \<Rightarrow> instant \<Rightarrow> nat \<Rightarrow> string \<Rightarrow> nonstream_acc \<Rightarrow> sse_decoder \<Rightarrow> stream_watch
   \<Rightarrow> protocol_error + aggregation" where
  "aggregate_bytes parse now at bytes acc decoder watch =
     (let counted = na_bytes acc + length bytes in
      if MAX_AGGREGATED_RESPONSE_BYTES < counted
      then Inl (UpstreamError ''upstream response exceeded the safe aggregation limit'')
      else
        and_then (ok_or too_large_event (push bytes decoder)) (\<lambda>(events, decoder').
        and_then (try_fold (aggregate_event parse at now) events
            (acc\<lparr>na_bytes := counted\<rparr>, on_upstream_bytes now watch)) (\<lambda>(acc', watch').
          Inr (Receiving acc' decoder' watch'))))"

definition aggregate_end ::
  "(string \<Rightarrow> json option) \<Rightarrow> nat \<Rightarrow> string \<Rightarrow> nonstream_acc \<Rightarrow> sse_decoder \<Rightarrow> protocol_error + aggregation" where
  "aggregate_end parse at request_id acc decoder =
     and_then (ok_or too_large_event (decoder_finish decoder)) (\<lambda>events.
     and_then (try_fold (\<lambda>event. accumulate parse at (ev_data event)) events acc) (\<lambda>acc'.
     and_then (into_response request_id acc') (\<lambda>body. Inr (Aggregated body))))"

definition failed_or :: "protocol_error + aggregation \<Rightarrow> aggregation" where
  "failed_or r = (case r of Inl e \<Rightarrow> NotAggregated e | Inr s \<Rightarrow> s)"

fun aggregate_step ::
  "(string \<Rightarrow> json option) \<Rightarrow> nat \<Rightarrow> string \<Rightarrow> net_event \<Rightarrow> aggregation \<Rightarrow> aggregation" where
  "aggregate_step parse end_at request_id e (Aggregated body) = Aggregated body"
| "aggregate_step parse end_at request_id e (NotAggregated err) = NotAggregated err"
| "aggregate_step parse end_at request_id (NetBytes now at bytes) (Receiving acc decoder watch) =
     failed_or (aggregate_bytes parse now at bytes acc decoder watch)"
| "aggregate_step parse end_at request_id (NetError timed_out) (Receiving acc decoder watch) =
     NotAggregated (UpstreamError ''upstream stream was interrupted'')"
| "aggregate_step parse end_at request_id (NetEnd now) (Receiving acc decoder watch) =
     failed_or (aggregate_end parse end_at request_id acc decoder)"
| "aggregate_step parse end_at request_id (NetDeadline now) (Receiving acc decoder watch) =
     (case check watch now of
        Some kind \<Rightarrow> NotAggregated (StreamStalled kind)
      | None \<Rightarrow> Receiving acc decoder watch)"
| "aggregate_step parse end_at request_id NetPing (Receiving acc decoder watch) = Receiving acc decoder watch"

definition start_aggregation :: "stream_timeouts \<Rightarrow> instant \<Rightarrow> aggregation" where
  "start_aggregation limits now = Receiving new_accumulator new_decoder (new_watch limits now)"

text \<open>A plain JSON answer despite the stream request is normalised instead.\<close>

definition aggregate_json ::
  "(string \<Rightarrow> json option) \<Rightarrow> nat option \<Rightarrow> string option \<Rightarrow> protocol_error + json \<times> upstream_body_shape" where
  "aggregate_json parse content_length received =
     and_then (parse_json_response parse content_length received) normalize_nonstream_body"

definition aggregate_stream_response ::
  "(string \<Rightarrow> json option) \<Rightarrow> stream_timeouts \<Rightarrow> nat \<Rightarrow> string \<Rightarrow> instant \<Rightarrow> net_event list \<Rightarrow> aggregation" where
  "aggregate_stream_response parse limits end_at request_id now es =
     fold (aggregate_step parse end_at request_id) es (start_aggregation limits now)"

end
