(* ===== verification/Anthropic_Stream.thy ===== *)
theory Anthropic_Stream
  imports Anthropic_Aggregate
begin

text \<open>
  The \<open>StreamState\<close> of \<open>src/anthropic.rs\<close>: chunks of an OpenAI stream become the events of an
  Anthropic stream. \<open>ss_out\<close> lists the frames handed to the client so far, in order; \<open>frame_body\<close>
  is what a frame carries. Hash maps are association lists; where the code iterates over one, the
  order is the parameter \<open>order\<close>. \<open>sign\<close>, \<open>fresh\<close> and \<open>json_text\<close> stand for the hash, the random ids
  and the printer; a server call gets the id of its block index. Times and byte counts that only
  reach log lines are left out.
\<close>

subsection \<open>Frames\<close>

datatype block_delta =
    TextDelta string
  | ThinkingDelta string
  | SignatureDelta string
  | InputDelta string

datatype anthropic_frame =
    MessageStart string string
  | BlockStart nat json
  | BlockDelta nat block_delta
  | BlockStop nat
  | MessageDelta json json json
  | MessageStop
  | ErrorFrame string string
  | PingFrame

fun frame_event :: "anthropic_frame \<Rightarrow> string" where
  "frame_event (MessageStart i m) = ''message_start''"
| "frame_event (BlockStart i b) = ''content_block_start''"
| "frame_event (BlockDelta i d) = ''content_block_delta''"
| "frame_event (BlockStop i) = ''content_block_stop''"
| "frame_event (MessageDelta r q u) = ''message_delta''"
| "frame_event MessageStop = ''message_stop''"
| "frame_event (ErrorFrame message request_id) = ''error''"
| "frame_event PingFrame = ''ping''"

fun delta_json :: "block_delta \<Rightarrow> json" where
  "delta_json (TextDelta s) = JObj [(''type'', JStr ''text_delta''), (''text'', JStr s)]"
| "delta_json (ThinkingDelta s) = JObj [(''type'', JStr ''thinking_delta''), (''thinking'', JStr s)]"
| "delta_json (SignatureDelta s) = JObj [(''type'', JStr ''signature_delta''), (''signature'', JStr s)]"
| "delta_json (InputDelta s) = JObj [(''type'', JStr ''input_json_delta''), (''partial_json'', JStr s)]"

definition block_frame :: "string \<Rightarrow> nat \<Rightarrow> jmap \<Rightarrow> json" where
  "block_frame kind i members = JObj ([(''type'', JStr kind), (''index'', json_count i)] @ members)"

fun frame_body :: "anthropic_frame \<Rightarrow> json" where
  "frame_body (MessageStart i m) =
     JObj [(''type'', JStr ''message_start''), (''message'', JObj
       [(''id'', JStr i), (''type'', JStr ''message''), (''role'', JStr ''assistant''), (''content'', JArr []),
        (''model'', JStr m), (''stop_reason'', JNull), (''stop_sequence'', JNull),
        (''usage'', JObj [(''input_tokens'', json_count 0), (''output_tokens'', json_count 0),
           (''cache_creation_input_tokens'', json_count 0), (''cache_read_input_tokens'', json_count 0)])])]"
| "frame_body (BlockStart i b) = block_frame ''content_block_start'' i [(''content_block'', b)]"
| "frame_body (BlockDelta i d) = block_frame ''content_block_delta'' i [(''delta'', delta_json d)]"
| "frame_body (BlockStop i) = block_frame ''content_block_stop'' i []"
| "frame_body (MessageDelta reason sequence u) =
     JObj [(''type'', JStr ''message_delta''),
           (''delta'', JObj [(''stop_reason'', reason), (''stop_sequence'', sequence)]), (''usage'', u)]"
| "frame_body MessageStop = JObj [(''type'', JStr ''message_stop'')]"
| "frame_body (ErrorFrame message request_id) = error_envelope ''api_error'' message request_id"
| "frame_body PingFrame = JObj [(''type'', JStr ''ping'')]"

definition sse_frame :: "(json \<Rightarrow> string) \<Rightarrow> anthropic_frame \<Rightarrow> string" where
  "sse_frame json_text f =
     ''event: '' @ frame_event f @ [newline] @ ''data: '' @ json_text (frame_body f) @ [newline, newline]"

subsection \<open>State\<close>

datatype block_state = TextBlock | ThinkingBlock | ToolBlock | ClosedBlock

record tool_stream =
  ts_block :: "nat option"
  ts_id :: "string option"
  ts_name :: "string option"
  ts_pending :: string
  ts_server :: bool

definition empty_tool_stream :: tool_stream where
  "empty_tool_stream = \<lparr>ts_block = None, ts_id = None, ts_name = None, ts_pending = [], ts_server = False\<rparr>"

record stream_state =
  ss_request_id :: string
  ss_fallback_model :: string
  ss_started :: bool
  ss_terminal :: bool
  ss_round_complete :: bool
  ss_expose :: bool
  ss_blocks :: "block_state list"
  ss_text_index :: "nat option"
  ss_thinking_index :: "nat option"
  ss_tools :: "(nat \<times> tool_stream) list"
  ss_finish_reason :: "string option"
  ss_stop_sequence :: json
  ss_usage :: json
  ss_reasoning_events :: nat
  ss_text_events :: nat
  ss_call_events :: nat
  ss_shadow :: string
  ss_server_names :: "string list"
  ss_buffer_client :: bool
  ss_server_blocks :: "json list"
  ss_requests :: nat
  ss_pending_ids :: "string list"
  ss_out :: "anthropic_frame list"

definition new_stream :: "string \<Rightarrow> string \<Rightarrow> bool \<Rightarrow> string list \<Rightarrow> stream_state" where
  "new_stream request_id fallback_model expose server_names =
     \<lparr>ss_request_id = request_id, ss_fallback_model = fallback_model, ss_started = False, ss_terminal = False,
      ss_round_complete = False, ss_expose = expose, ss_blocks = [], ss_text_index = None,
      ss_thinking_index = None, ss_tools = [], ss_finish_reason = None, ss_stop_sequence = JNull,
      ss_usage = JObj [], ss_reasoning_events = 0, ss_text_events = 0, ss_call_events = 0, ss_shadow = [],
      ss_server_names = server_names, ss_buffer_client = (server_names \<noteq> []), ss_server_blocks = [],
      ss_requests = 0, ss_pending_ids = [], ss_out = []\<rparr>"

definition show_frame :: "anthropic_frame \<Rightarrow> stream_state \<Rightarrow> stream_state" where
  "show_frame f st = st\<lparr>ss_out := ss_out st @ [f]\<rparr>"

definition show_error :: "string \<Rightarrow> stream_state \<Rightarrow> stream_state" where
  "show_error message st = show_frame (ErrorFrame message (ss_request_id st)) st"

subsection \<open>Blocks\<close>

text \<open>A new block of a kind, announced with its content.\<close>

definition open_block :: "block_state \<Rightarrow> json \<Rightarrow> stream_state \<Rightarrow> stream_state" where
  "open_block kind content st =
     show_frame (BlockStart (length (ss_blocks st)) content) (st\<lparr>ss_blocks := ss_blocks st @ [kind]\<rparr>)"

definition ensure_text :: "stream_state \<Rightarrow> nat \<times> stream_state" where
  "ensure_text st =
     (case ss_text_index st of
        Some i \<Rightarrow> (i, st)
      | None \<Rightarrow>
          (let i = length (ss_blocks st)
           in (i, (open_block TextBlock (JObj [(''type'', JStr ''text''), (''text'', JStr [])]) st)\<lparr>ss_text_index := Some i\<rparr>)))"

definition ensure_thinking :: "stream_state \<Rightarrow> nat \<times> stream_state" where
  "ensure_thinking st =
     (case ss_thinking_index st of
        Some i \<Rightarrow> (i, st)
      | None \<Rightarrow>
          (let i = length (ss_blocks st)
           in (i, (open_block ThinkingBlock (JObj [(''type'', JStr ''thinking''), (''thinking'', JStr [])]) st)
                    \<lparr>ss_thinking_index := Some i\<rparr>)))"

definition put_tool :: "nat \<Rightarrow> tool_stream \<Rightarrow> stream_state \<Rightarrow> stream_state" where
  "put_tool index tool st = st\<lparr>ss_tools := btree_insert index tool (ss_tools st)\<rparr>"

text \<open>The first frames of a client call, in \<open>handle_tool\<close> and \<open>finalize\<close>.\<close>

definition start_tool :: "nat \<Rightarrow> tool_stream \<Rightarrow> stream_state \<Rightarrow> stream_state" where
  "start_tool index tool st =
     (let i = length (ss_blocks st);
          st1 = open_block ToolBlock
            (tool_use_of (str_or (''toolu_'' @ show_nat index) (ts_id tool)) (str_or ''unknown'' (ts_name tool))
               (JObj [])) st;
          st2 = (if ts_pending tool = [] then st1
                 else show_frame (BlockDelta i (InputDelta (ts_pending tool))) st1)
      in put_tool index (tool\<lparr>ts_block := Some i, ts_pending := []\<rparr>) st2)"

definition noted_tool :: "json \<Rightarrow> stream_state \<Rightarrow> tool_stream" where
  "noted_tool call st =
     (let old = (case map_of (ss_tools st) (delta_index call) of Some t \<Rightarrow> t | None \<Rightarrow> empty_tool_stream);
          named = old\<lparr>ts_id := first_value (nonempty (get_str call ''id'')) (ts_id old),
                      ts_name := first_value (delta_name call) (ts_name old)\<rparr>
      in named\<lparr>ts_server := ts_server old
                 \<or> (case ts_name named of Some name \<Rightarrow> name \<in> set (ss_server_names st) | None \<Rightarrow> False)\<rparr>)"

definition ready_to_start :: "json \<Rightarrow> tool_stream \<Rightarrow> stream_state \<Rightarrow> bool" where
  "ready_to_start call tool st \<longleftrightarrow>
     ts_block tool = None \<and> (ts_name tool \<noteq> None \<or> delta_arguments call \<noteq> [])
     \<and> \<not> (ss_server_names st \<noteq> [] \<and> ts_name tool = None)"

definition note_arguments :: "json \<Rightarrow> tool_stream \<Rightarrow> stream_state \<Rightarrow> stream_state" where
  "note_arguments call tool st =
     (if delta_arguments call = [] then st
      else case ts_block tool of
          Some i \<Rightarrow> show_frame (BlockDelta i (InputDelta (delta_arguments call))) st
        | None \<Rightarrow> put_tool (delta_index call) (tool\<lparr>ts_pending := ts_pending tool @ delta_arguments call\<rparr>) st)"

definition handle_tool :: "json \<Rightarrow> stream_state \<Rightarrow> stream_state" where
  "handle_tool call st =
     (let index = delta_index call;
          tool = noted_tool call st
      in if ready_to_start call tool st \<and> \<not> ts_server tool \<and> \<not> ss_buffer_client st
         then note_arguments call
                (tool\<lparr>ts_block := Some (length (ss_blocks st)), ts_pending := []\<rparr>) (start_tool index tool st)
         else note_arguments call tool (put_tool index tool st))"

subsection \<open>A chunk\<close>

definition start_message :: "json \<Rightarrow> stream_state \<Rightarrow> stream_state" where
  "start_message value st =
     (if ss_started st then st
      else show_frame (MessageStart (str_or (ss_request_id st) (get_str value ''id''))
                         (str_or (ss_fallback_model st) (get_str value ''model'')))
             (st\<lparr>ss_started := True\<rparr>))"

definition handle_reasoning :: "string \<Rightarrow> stream_state \<Rightarrow> stream_state" where
  "handle_reasoning reasoning st =
     (let st1 = st\<lparr>ss_reasoning_events := sat_add64 (ss_reasoning_events st) 1\<rparr> in
      if ss_expose st1
      then (case ensure_thinking st1 of (i, st2) \<Rightarrow> show_frame (BlockDelta i (ThinkingDelta reasoning)) st2)
      else st1\<lparr>ss_shadow := ss_shadow st1 @ reasoning\<rparr>)"

definition handle_text :: "string \<Rightarrow> stream_state \<Rightarrow> stream_state" where
  "handle_text words st =
     (case ensure_text (st\<lparr>ss_text_events := sat_add64 (ss_text_events st) 1\<rparr>) of
        (i, st1) \<Rightarrow> show_frame (BlockDelta i (TextDelta words)) st1)"

definition handle_call :: "json \<Rightarrow> stream_state \<Rightarrow> stream_state" where
  "handle_call call st = handle_tool call (st\<lparr>ss_call_events := sat_add64 (ss_call_events st) 1\<rparr>)"

definition handle_delta :: "jmap \<Rightarrow> stream_state \<Rightarrow> stream_state" where
  "handle_delta delta st =
     (let st1 = (case nonempty (reasoning_delta delta) of Some s \<Rightarrow> handle_reasoning s st | None \<Rightarrow> st);
          st2 = (case nonempty (obj_str delta ''content'') of Some s \<Rightarrow> handle_text s st1 | None \<Rightarrow> st1)
      in case Option.bind (map_of delta ''tool_calls'') as_array of
           Some tcs \<Rightarrow> fold handle_call tcs st2
         | None \<Rightarrow> st2)"

definition note_choice :: "json \<Rightarrow> stream_state \<Rightarrow> stream_state" where
  "note_choice picked st =
     (let st1 = (case get_str picked ''finish_reason'' of Some r \<Rightarrow> st\<lparr>ss_finish_reason := Some r\<rparr> | None \<Rightarrow> st)
      in case json_get picked ''stop_sequence'' of Some q \<Rightarrow> st1\<lparr>ss_stop_sequence := q\<rparr> | None \<Rightarrow> st1)"

definition handle_choice :: "json \<Rightarrow> stream_state \<Rightarrow> stream_state" where
  "handle_choice picked st =
     (case Option.bind (json_get picked ''delta'') as_object of
        Some delta \<Rightarrow> handle_delta delta (note_choice picked st)
      | None \<Rightarrow> note_choice picked st)"

definition note_usage :: "json \<Rightarrow> stream_state \<Rightarrow> stream_state" where
  "note_usage value st =
     (case json_get value ''usage'' of Some u \<Rightarrow> st\<lparr>ss_usage := u\<rparr> | None \<Rightarrow> st)"

definition handle_value :: "json \<Rightarrow> stream_state \<Rightarrow> stream_state" where
  "handle_value value st =
     (let st1 = note_usage value (start_message value st)
      in case first_choice value of Some c \<Rightarrow> handle_choice c st1 | None \<Rightarrow> st1)"

subsection \<open>The end of a message\<close>

definition close_block :: "(string \<Rightarrow> string \<Rightarrow> string) \<Rightarrow> nat \<Rightarrow> block_state \<Rightarrow> stream_state \<Rightarrow> stream_state" where
  "close_block sign i kind st =
     (case kind of
        ClosedBlock \<Rightarrow> st
      | ThinkingBlock \<Rightarrow>
          show_frame (BlockStop i)
            (show_frame (BlockDelta i (SignatureDelta (thinking_signature sign ''streamed'' (ss_request_id st)))) st)
      | _ \<Rightarrow> show_frame (BlockStop i) st)"

fun close_blocks :: "(string \<Rightarrow> string \<Rightarrow> string) \<Rightarrow> nat \<Rightarrow> block_state list \<Rightarrow> stream_state \<Rightarrow> stream_state" where
  "close_blocks sign i [] st = st"
| "close_blocks sign i (kind # kinds) st = close_blocks sign (Suc i) kinds (close_block sign i kind st)"

definition finish_with_stop ::
  "(string \<Rightarrow> string \<Rightarrow> string) \<Rightarrow> string option \<Rightarrow> stream_state \<Rightarrow> stream_state" where
  "finish_with_stop sign stop_override st =
     (let st1 = close_blocks sign 0 (ss_blocks st) (st\<lparr>ss_terminal := True\<rparr>);
          reason = (case stop_override of Some r \<Rightarrow> JStr r | None \<Rightarrow> map_stop_reason (ss_finish_reason st1))
      in show_frame MessageStop
           (show_frame (MessageDelta reason (ss_stop_sequence st1)
              (convert_usage_with (Some (ss_usage st1)) (ss_requests st1))) st1))"

definition unstarted_tools :: "stream_state \<Rightarrow> nat list" where
  "unstarted_tools st = map fst (filter (\<lambda>(i, t). ts_block t = None \<and> \<not> ts_server t) (ss_tools st))"

definition start_pending :: "nat \<Rightarrow> stream_state \<Rightarrow> stream_state" where
  "start_pending index st =
     (case map_of (ss_tools st) index of Some tool \<Rightarrow> start_tool index tool st | None \<Rightarrow> st)"

definition finalize ::
  "(string \<Rightarrow> string \<Rightarrow> string) \<Rightarrow> (nat list \<Rightarrow> nat list) \<Rightarrow> stream_state \<Rightarrow> stream_state" where
  "finalize sign order st =
     (if ss_terminal st then st
      else finish_with_stop sign None (fold start_pending (order (unstarted_tools st)) st))"

definition finalize_as_paused :: "(string \<Rightarrow> string \<Rightarrow> string) \<Rightarrow> stream_state \<Rightarrow> stream_state" where
  "finalize_as_paused sign st = finish_with_stop sign (Some ''pause_turn'') st"

definition end_with_error :: "string \<Rightarrow> stream_state \<Rightarrow> stream_state" where
  "end_with_error message st = show_error message (st\<lparr>ss_terminal := True\<rparr>)"

text \<open>\<open>handle\<close>: the payload of one event.\<close>

definition handle_payload ::
  "(string \<Rightarrow> json option) \<Rightarrow> (string \<Rightarrow> string \<Rightarrow> string) \<Rightarrow> (nat list \<Rightarrow> nat list) \<Rightarrow> string
   \<Rightarrow> stream_state \<Rightarrow> stream_state" where
  "handle_payload parse sign order payload st =
     (if trim payload = ''[DONE]'' then
        (if ss_finish_reason st \<noteq> None then
           (if ss_server_names st \<noteq> [] then st\<lparr>ss_round_complete := True\<rparr> else finalize sign order st)
         else end_with_error ''upstream stream ended without a stop reason'' st)
      else case parse payload of
          None \<Rightarrow> end_with_error ''upstream sent invalid SSE JSON'' st
        | Some value \<Rightarrow>
            (if json_get value ''error'' \<noteq> None then end_with_error ''upstream stream error'' st
             else handle_value value st))"

subsection \<open>Server tools\<close>

definition close_at ::
  "(string \<Rightarrow> string \<Rightarrow> string) \<Rightarrow> block_state \<Rightarrow> nat \<Rightarrow> stream_state \<Rightarrow> stream_state" where
  "close_at sign kind i st =
     (if i < length (ss_blocks st) \<and> ss_blocks st ! i = kind
      then (close_block sign i kind st)\<lparr>ss_blocks := (ss_blocks st)[i := ClosedBlock]\<rparr> else st)"

definition close_thinking :: "(string \<Rightarrow> string \<Rightarrow> string) \<Rightarrow> stream_state \<Rightarrow> stream_state" where
  "close_thinking sign st =
     (case ss_thinking_index st of
        Some i \<Rightarrow> (close_at sign ThinkingBlock i st)\<lparr>ss_thinking_index := None\<rparr> | None \<Rightarrow> st)"

definition close_text :: "(string \<Rightarrow> string \<Rightarrow> string) \<Rightarrow> stream_state \<Rightarrow> stream_state" where
  "close_text sign st =
     (case ss_text_index st of
        Some i \<Rightarrow> (close_at sign TextBlock i st)\<lparr>ss_text_index := None\<rparr> | None \<Rightarrow> st)"

definition close_open_content_blocks :: "(string \<Rightarrow> string \<Rightarrow> string) \<Rightarrow> stream_state \<Rightarrow> stream_state" where
  "close_open_content_blocks sign st = close_text sign (close_thinking sign st)"

definition stream_tool_call :: "nat \<times> tool_stream \<Rightarrow> tool_call" where
  "stream_tool_call = (\<lambda>(index, tool).
     \<lparr>tc_id = str_or (''toolu_'' @ show_nat index) (ts_id tool),
      tc_name = str_or ''unknown'' (ts_name tool), tc_arguments = ts_pending tool\<rparr>)"

definition openai_tool_calls :: "stream_state \<Rightarrow> tool_call list" where
  "openai_tool_calls st = map stream_tool_call (sort_key fst (ss_tools st))"

definition server_block :: "string \<Rightarrow> json \<Rightarrow> json" where
  "server_block i input =
     JObj [(''type'', JStr ''server_tool_use''), (''id'', JStr i), (''name'', JStr FUNCTION_NAME), (''input'', input)]"

definition server_input :: "(string \<Rightarrow> json option) \<Rightarrow> tool_call \<Rightarrow> json" where
  "server_input parse call =
     (case parse (tc_arguments call) of Some v \<Rightarrow> (if is_object v then v else JObj []) | None \<Rightarrow> JObj [])"

definition emit_server_call ::
  "(string \<Rightarrow> json option) \<Rightarrow> (json \<Rightarrow> string) \<Rightarrow> (nat \<Rightarrow> string) \<Rightarrow> tool_call \<Rightarrow> stream_state \<Rightarrow> stream_state" where
  "emit_server_call parse json_text fresh call st =
     (let i = length (ss_blocks st);
          tool_use_id = fresh i;
          input = server_input parse call;
          st1 = show_frame (BlockStop i) (show_frame (BlockDelta i (InputDelta (json_text input)))
                  (open_block ClosedBlock (server_block tool_use_id (JObj [])) st))
      in st1\<lparr>ss_pending_ids := ss_pending_ids st1 @ [tool_use_id],
             ss_server_blocks := ss_server_blocks st1 @ [server_block tool_use_id input]\<rparr>)"

definition emit_server_tool_use ::
  "(string \<Rightarrow> json option) \<Rightarrow> (json \<Rightarrow> string) \<Rightarrow> (string \<Rightarrow> string \<Rightarrow> string) \<Rightarrow> (nat \<Rightarrow> string) \<Rightarrow> tool_call list
   \<Rightarrow> stream_state \<Rightarrow> stream_state" where
  "emit_server_tool_use parse json_text sign fresh tcs st =
     fold (emit_server_call parse json_text fresh) tcs ((close_open_content_blocks sign st)\<lparr>ss_pending_ids := []\<rparr>)"

definition emit_server_result :: "string \<times> search_outcome \<Rightarrow> stream_state \<Rightarrow> stream_state" where
  "emit_server_result = (\<lambda>(tool_use_id, outcome) st.
     let i = length (ss_blocks st);
         result_block = snd (client_blocks tool_use_id outcome);
         st1 = show_frame (BlockStop i) (open_block ClosedBlock result_block st)
     in st1\<lparr>ss_server_blocks := ss_server_blocks st1 @ [result_block], ss_requests := sat_add64 (ss_requests st1) 1\<rparr>)"

definition finish_server_tool_round :: "search_outcome list \<Rightarrow> stream_state \<Rightarrow> stream_state" where
  "finish_server_tool_round outcomes st =
     fold emit_server_result (zip (ss_pending_ids st) outcomes) (st\<lparr>ss_pending_ids := []\<rparr>)"

definition begin_new_round :: "stream_state \<Rightarrow> stream_state" where
  "begin_new_round st =
     st\<lparr>ss_tools := [], ss_finish_reason := None, ss_round_complete := False, ss_stop_sequence := JNull\<rparr>"

text \<open>\<open>commit_shadow\<close>: what happens to the session's shadow, and the state.\<close>

datatype shadow_effect = ShadowUntouched | ShadowCleared | ShadowStored "string list" string

definition commit_stream_shadow :: "(nat list \<Rightarrow> nat list) \<Rightarrow> stream_state \<Rightarrow> shadow_effect \<times> stream_state" where
  "commit_stream_shadow order st =
     (if ss_tools st = [] then (ShadowCleared, st)
      else if ss_shadow st = [] then (ShadowUntouched, st)
      else
        (let ids = List.map_filter (\<lambda>i. Option.bind (map_of (ss_tools st) i) ts_id) (order (map fst (ss_tools st)))
         in (if ids = [] then ShadowUntouched else ShadowStored ids (ss_shadow st), st\<lparr>ss_shadow := []\<rparr>)))"

end
