(* ===== verification/Anthropic_Pump.thy ===== *)
theory Anthropic_Pump
  imports Anthropic_Stream
begin

text \<open>
  \<open>stream_body\<close> of \<open>src/anthropic.rs\<close>: one streamed Anthropic request, from the first upstream
  response to the last frame, with the rounds of server searches between. An event is one arm of the
  \<open>select!\<close>; the arm that logs progress has no effect. The record ends with the label the summary
  gets; a stream dropped without one is labelled by the destructor of the telemetry.
\<close>

datatype continuation = Continued | ContinuationRefused | ContinuationFailed

record stream_env =
  se_parse :: "string \<Rightarrow> json option"
  se_text :: "json \<Rightarrow> string"
  se_sign :: "string \<Rightarrow> string \<Rightarrow> string"
  se_fresh :: "nat \<Rightarrow> string"
  se_order :: "nat list \<Rightarrow> nat list"
  se_search :: "nat \<Rightarrow> string \<Rightarrow> search_outcome"
  se_continue :: "nat \<Rightarrow> json \<Rightarrow> continuation"
  se_config :: "web_search_config option"
  se_limits :: stream_timeouts

datatype chat_stage = Streaming | StreamEnded string | StreamPanicked

record chat_stream =
  ch_state :: stream_state
  ch_decoder :: sse_decoder
  ch_watch :: stream_watch
  ch_body :: json
  ch_uses_left :: nat
  ch_rounds :: nat
  ch_sent :: nat
  ch_generation :: nat
  ch_shadow :: "shadow_effect option"
  ch_phase :: chat_stage

definition new_chat_stream ::
  "stream_env \<Rightarrow> string \<Rightarrow> string \<Rightarrow> bool \<Rightarrow> json \<Rightarrow> instant \<Rightarrow> chat_stream" where
  "new_chat_stream env request_id fallback_model expose chat_body now =
     \<lparr>ch_state = new_stream request_id fallback_model expose (server_function_names (se_config env)),
      ch_decoder = new_decoder, ch_watch = new_watch (se_limits env) now, ch_body = chat_body,
      ch_uses_left = (case se_config env of None \<Rightarrow> 0 | Some config \<Rightarrow> wc_max_uses config),
      ch_rounds = 1, ch_sent = 0, ch_generation = 0, ch_shadow = None, ch_phase = Streaming\<rparr>"

definition stream_ends :: "string \<Rightarrow> chat_stream \<Rightarrow> chat_stream" where
  "stream_ends label s = s\<lparr>ch_phase := StreamEnded label\<rparr>"

text \<open>An error frame of the pump itself, and the end.\<close>

definition stream_breaks :: "string \<Rightarrow> string \<Rightarrow> chat_stream \<Rightarrow> chat_stream" where
  "stream_breaks message label s = stream_ends label (s\<lparr>ch_state := show_error message (ch_state s)\<rparr>)"

definition commits :: "stream_env \<Rightarrow> chat_stream \<Rightarrow> chat_stream" where
  "commits env s =
     (case commit_stream_shadow (se_order env) (ch_state s) of
        (effect, st) \<Rightarrow> s\<lparr>ch_shadow := Some effect, ch_state := st\<rparr>)"

definition finalizes :: "stream_env \<Rightarrow> chat_stream \<Rightarrow> chat_stream" where
  "finalizes env s =
     stream_ends ''complete'' (commits env (s\<lparr>ch_state := finalize (se_sign env) (se_order env) (ch_state s)\<rparr>))"

subsection \<open>Bytes\<close>

definition handle_event :: "stream_env \<Rightarrow> decoded_event \<Rightarrow> stream_state \<Rightarrow> stream_state" where
  "handle_event env event st = handle_payload (se_parse env) (se_sign env) (se_order env) (ev_data event) st"

definition semantic_counts :: "stream_state \<Rightarrow> nat \<times> nat \<times> nat" where
  "semantic_counts st = (ss_reasoning_events st, ss_text_events st, ss_call_events st)"

text \<open>The events of one chunk: a terminal event ends the stream, a complete round drops the rest.\<close>

fun chunk_events :: "stream_env \<Rightarrow> instant \<Rightarrow> decoded_event list \<Rightarrow> chat_stream \<Rightarrow> chat_stream" where
  "chunk_events env now [] s = s"
| "chunk_events env now (event # events) s =
     (let st = handle_event env event (ch_state s);
          watch = on_sse_event (ch_watch s);
          s1 = s\<lparr>ch_state := st,
                 ch_watch := (if semantic_counts st \<noteq> semantic_counts (ch_state s)
                              then on_semantic now watch else watch)\<rparr>
      in if ss_terminal st
         then stream_ends (if ss_finish_reason st \<noteq> None then ''complete'' else ''protocol_error'') (commits env s1)
         else if ss_round_complete st then s1
         else chunk_events env now events s1)"

definition limit_message :: string where
  "limit_message = ''upstream SSE event exceeded the gateway limit''"

definition on_bytes :: "stream_env \<Rightarrow> instant \<Rightarrow> string \<Rightarrow> chat_stream \<Rightarrow> chat_stream" where
  "on_bytes env now bytes s =
     (let s1 = s\<lparr>ch_watch := on_upstream_bytes now (ch_watch s)\<rparr> in
      case push bytes (ch_decoder s) of
        None \<Rightarrow> stream_breaks limit_message ''decode_error'' s1
      | Some (events, decoder) \<Rightarrow> chunk_events env now events (s1\<lparr>ch_decoder := decoder\<rparr>))"

subsection \<open>The end of a round\<close>

definition run_searches ::
  "stream_env \<Rightarrow> tool_call list \<Rightarrow> chat_stream \<Rightarrow> search_outcome list \<times> chat_stream" where
  "run_searches env tcs s =
     (case execute_web_search_round (se_parse env) (se_search env) tcs (ch_uses_left s) (ch_sent s) of
        (outcomes, uses, sent) \<Rightarrow> (outcomes, s\<lparr>ch_uses_left := uses, ch_sent := sent\<rparr>))"

definition announce_searches :: "stream_env \<Rightarrow> tool_call list \<Rightarrow> chat_stream \<Rightarrow> chat_stream" where
  "announce_searches env tcs s =
     s\<lparr>ch_state := emit_server_tool_use (se_parse env) (se_text env) (se_sign env) (se_fresh env) tcs (ch_state s)\<rparr>"

definition show_results :: "search_outcome list \<Rightarrow> chat_stream \<Rightarrow> chat_stream" where
  "show_results outcomes s = s\<lparr>ch_state := finish_server_tool_round outcomes (ch_state s)\<rparr>"

definition next_round :: "stream_env \<Rightarrow> instant \<Rightarrow> chat_stream \<Rightarrow> chat_stream" where
  "next_round env now s =
     s\<lparr>ch_state := begin_new_round (ch_state s), ch_decoder := new_decoder,
       ch_watch := new_watch (se_limits env) now, ch_rounds := min (Suc (ch_rounds s)) u32_max,
       ch_generation := Suc (ch_generation s)\<rparr>"

definition continue_round ::
  "stream_env \<Rightarrow> instant \<Rightarrow> tool_call list \<Rightarrow> search_outcome list \<Rightarrow> chat_stream \<Rightarrow> chat_stream" where
  "continue_round env now tcs outcomes s =
     (case append_server_round (ch_body s) tcs outcomes of
        None \<Rightarrow> s\<lparr>ch_phase := StreamPanicked\<rparr>
      | Some body \<Rightarrow>
          (let s1 = s\<lparr>ch_body := body\<rparr> in
           case se_continue env (ch_generation s) body of
             Continued \<Rightarrow> next_round env now s1
           | ContinuationRefused \<Rightarrow> stream_breaks ''search continuation failed'' ''upstream_protocol_error'' s1
           | ContinuationFailed \<Rightarrow> stream_breaks ''search continuation failed'' ''upstream_error'' s1))"

definition server_only_round :: "stream_env \<Rightarrow> instant \<Rightarrow> tool_call list \<Rightarrow> chat_stream \<Rightarrow> chat_stream" where
  "server_only_round env now tcs s =
     (let s1 = announce_searches env tcs s in
      if ch_uses_left s = 0 \<or> MAX_INTERNAL_GENERATION_ROUNDS \<le> ch_rounds s
      then
        (let s2 = show_results (map (exhausted_outcome (se_parse env)) tcs) s1
         in stream_ends ''complete'' (commits env (s2\<lparr>ch_state := finalize_as_paused (se_sign env) (ch_state s2)\<rparr>)))
      else
        (case run_searches env tcs s1 of
           (outcomes, s2) \<Rightarrow> continue_round env now tcs outcomes (show_results outcomes s2)))"

definition server_round_ends :: "stream_env \<Rightarrow> instant \<Rightarrow> chat_stream \<Rightarrow> chat_stream" where
  "server_round_ends env now s =
     (let server_names = server_function_names (se_config env);
          all_calls = openai_tool_calls (ch_state s);
          server_calls = filter (\<lambda>c. tc_name c \<in> set server_names) all_calls
      in case classify_round all_calls server_names of
           ServerOnly \<Rightarrow> server_only_round env now server_calls s
         | Mixed \<Rightarrow>
             (case run_searches env server_calls (announce_searches env server_calls s) of
                (outcomes, s1) \<Rightarrow> finalizes env (show_results outcomes s1))
         | _ \<Rightarrow> finalizes env s)"

definition unexpected_end :: "chat_stream \<Rightarrow> chat_stream" where
  "unexpected_end s = stream_breaks ''upstream stream ended unexpectedly'' ''unexpected_eof'' s"

definition on_end :: "stream_env \<Rightarrow> instant \<Rightarrow> chat_stream \<Rightarrow> chat_stream" where
  "on_end env now s =
     (case decoder_finish (ch_decoder s) of
        None \<Rightarrow> stream_breaks limit_message ''decode_error'' s
      | Some events \<Rightarrow>
          (let s1 = s\<lparr>ch_state := fold (handle_event env) events (ch_state s)\<rparr>;
               st = ch_state s1
           in if ss_terminal st then stream_ends ''client_disconnected'' s1
              else if se_config env = None
                then (if ss_finish_reason st \<noteq> None then finalizes env s1 else unexpected_end s1)
              else if ss_finish_reason st = None \<and> \<not> ss_round_complete st then unexpected_end s1
              else server_round_ends env now s1))"

subsection \<open>Events\<close>

fun on_net_event :: "stream_env \<Rightarrow> net_event \<Rightarrow> chat_stream \<Rightarrow> chat_stream" where
  "on_net_event env (NetBytes now at bytes) s = on_bytes env now bytes s"
| "on_net_event env (NetError timed_out) s =
     stream_breaks ''upstream stream was interrupted'' (if timed_out then ''timeout'' else ''stream_transport'') s"
| "on_net_event env (NetEnd now) s = on_end env now s"
| "on_net_event env (NetDeadline now) s =
     (case check (ch_watch s) now of
        Some kind \<Rightarrow> stream_breaks (stall_message kind) (stall_kind_as_str kind) s
      | None \<Rightarrow> s)"
| "on_net_event env NetPing s = s\<lparr>ch_state := show_frame PingFrame (ch_state s)\<rparr>"

definition stream_step :: "stream_env \<Rightarrow> net_event \<Rightarrow> chat_stream \<Rightarrow> chat_stream" where
  "stream_step env e s = (if ch_phase s = Streaming then on_net_event env e s else s)"

definition stream_run :: "stream_env \<Rightarrow> net_event list \<Rightarrow> chat_stream \<Rightarrow> chat_stream" where
  "stream_run env es s = fold (stream_step env) es s"

end
