(* ===== verification/Anthropic_Lifecycle.thy ===== *)
theory Anthropic_Lifecycle
  imports Anthropic_Pump
begin

text \<open>
  What a client of a streamed Anthropic answer may rely on (\<open>src/anthropic.rs\<close>). \<open>client\<close> is a reader
  of the protocol that accepts or rejects each frame; \<open>stream_law\<close> collects what a property of the
  converter must satisfy to hold for the whole pump.
\<close>

subsection \<open>The protocol\<close>

datatype client = NotStarted | Reading nat "nat set" | Closing | ClientDone

text \<open>\<open>Reading n open\<close>: the next block is number \<open>n\<close>, those in \<open>open\<close> can still grow.\<close>

fun client_step :: "anthropic_frame \<Rightarrow> client \<Rightarrow> client option" where
  "client_step f ClientDone = None"
| "client_step PingFrame c = Some c"
| "client_step (ErrorFrame m r) c = Some ClientDone"
| "client_step (MessageStart i m) NotStarted = Some (Reading 0 {})"
| "client_step (BlockStart i b) (Reading n open) = (if i = n then Some (Reading (Suc n) (insert i open)) else None)"
| "client_step (BlockDelta i d) (Reading n open) = (if i \<in> open then Some (Reading n open) else None)"
| "client_step (BlockStop i) (Reading n open) = (if i \<in> open then Some (Reading n (open - {i})) else None)"
| "client_step (MessageDelta r q u) (Reading n open) = (if open = {} then Some Closing else None)"
| "client_step MessageStop Closing = Some ClientDone"
| "client_step f c = None"

fun client_run :: "anthropic_frame list \<Rightarrow> client \<Rightarrow> client option" where
  "client_run [] c = Some c"
| "client_run (f # fs) c = Option.bind (client_step f c) (client_run fs)"

lemma client_run_append [simp]: "client_run (fs @ gs) c = Option.bind (client_run fs c) (client_run gs)"
proof (induction fs arbitrary: c)
  case (Cons f fs)
  then show ?case by (cases "client_step f c") simp_all
qed simp

lemma client_step_ping [simp]: "c \<noteq> ClientDone \<Longrightarrow> client_step PingFrame c = Some c"
  by (cases c) simp_all

lemma client_step_error [simp]: "c \<noteq> ClientDone \<Longrightarrow> client_step (ErrorFrame m r) c = Some ClientDone"
  by (cases c) simp_all

subsection \<open>A law of the whole stream\<close>

definition due :: "stream_state \<Rightarrow> bool" where
  "due st \<longleftrightarrow> ss_finish_reason st \<noteq> None \<or> ss_round_complete st"

locale stream_law =
  fixes running :: "stream_state \<Rightarrow> bool" and over :: "stream_state \<Rightarrow> bool"
  assumes unfinished: "running st \<Longrightarrow> \<not> ss_terminal st"
    and handled: "running st \<Longrightarrow> \<not> ss_terminal (handle_payload parse sign order p st) \<Longrightarrow>
          running (handle_payload parse sign order p st)"
    and handled_last: "running st \<Longrightarrow> ss_terminal (handle_payload parse sign order p st) \<Longrightarrow>
          over (handle_payload parse sign order p st)"
    and finalized: "running st \<Longrightarrow> due st \<Longrightarrow> over (finalize sign order st)"
    and paused: "running st \<Longrightarrow> due st \<Longrightarrow> over (finalize_as_paused sign st)"
    and announced: "running st \<Longrightarrow> due st \<Longrightarrow> running (emit_server_tool_use parse json_text sign fresh tcs st)"
    and answered: "running st \<Longrightarrow> due st \<Longrightarrow> running (finish_server_tool_round outcomes st)"
    and again: "running st \<Longrightarrow> due st \<Longrightarrow> running (begin_new_round st)"
    and broken: "running st \<Longrightarrow> over (show_error message st)"
    and pinged: "running st \<Longrightarrow> running (show_frame PingFrame st)"
    and shadowed: "over st \<Longrightarrow> over (st\<lparr>ss_shadow := s\<rparr>)"

lemma due_update [simp]:
  "due (show_frame f st) = due st" "due (st\<lparr>ss_pending_ids := ids\<rparr>) = due st"
  "due (st\<lparr>ss_server_blocks := bs\<rparr>) = due st" "due (st\<lparr>ss_requests := n\<rparr>) = due st"
  "due (st\<lparr>ss_blocks := blocks\<rparr>) = due st" "due (st\<lparr>ss_text_index := k\<rparr>) = due st"
  "due (st\<lparr>ss_thinking_index := k\<rparr>) = due st" "due (open_block kind content st) = due st"
  "due (close_block sign i kind st) = due st"
  by (auto simp: due_def show_frame_def open_block_def close_block_def split: block_state.split)

lemma fold_keeps: "(\<And>x s. P (f x s) = P s) \<Longrightarrow> P (fold f xs s) = P s"
  by (induction xs arbitrary: s) simp_all

lemma due_announced [simp]: "due (emit_server_tool_use parse json_text sign fresh tcs st) = due st"
  by (simp add: emit_server_tool_use_def emit_server_call_def close_open_content_blocks_def close_text_def
      close_thinking_def close_at_def Let_def fold_keeps split: option.split)

lemma due_answered [simp]: "due (finish_server_tool_round outcomes st) = due st"
  by (simp add: finish_server_tool_round_def emit_server_result_def Let_def fold_keeps split: prod.split)

lemma from_utf8_lossy_nonempty: "s \<noteq> [] \<Longrightarrow> from_utf8_lossy s \<noteq> []"
  using utf8_chunk_pos [of s]
  by (simp add: from_utf8_lossy.simps [of s] replacement_char_def)

text \<open>The end of the bytes completes at most one event.\<close>

lemma finish_one_event: "decoder_finish d = Some events \<Longrightarrow> events = [] \<or> (\<exists>e. events = [e])"
proof -
  have "fst (process_line line e) = []" if "line \<noteq> []" for line e
    using that by (auto simp: process_line_def split: option.split)
  moreover have "fst (dispatch e) = [] \<or> (\<exists>f. fst (dispatch e) = [f])" for e
    by (simp add: dispatch_def)
  moreover assume "decoder_finish d = Some events"
  ultimately show ?thesis
    by (cases "sd_buffer d = []")
      (auto simp: decoder_finish_def Let_def from_utf8_lossy_nonempty split: if_split_asm prod.splits,
       (metis append_Nil from_utf8_lossy_nonempty fst_conv)+)
qed

context stream_law
begin

text \<open>What holds of a stream between two events.\<close>

definition lawful :: "chat_stream \<Rightarrow> bool" where
  "lawful s \<longleftrightarrow>
     (case ch_phase s of StreamEnded label \<Rightarrow> over (ch_state s) | _ \<Rightarrow> running (ch_state s))"

lemma lawful_breaks: "running (ch_state s) \<Longrightarrow> lawful (stream_breaks message label s)"
  by (simp add: lawful_def stream_breaks_def stream_ends_def broken)

lemma over_commits: "over (ch_state s) \<Longrightarrow> over (ch_state (commits env s))"
  by (auto simp: commits_def commit_stream_shadow_def Let_def shadowed split: prod.split)

lemma lawful_finalizes: "running (ch_state s) \<Longrightarrow> due (ch_state s) \<Longrightarrow> lawful (finalizes env s)"
  by (simp add: lawful_def finalizes_def stream_ends_def over_commits finalized)

lemma lawful_events: "running (ch_state s) \<Longrightarrow> ch_phase s = Streaming \<Longrightarrow> lawful (chunk_events env now events s)"
proof (induction env now events s rule: chunk_events.induct)
  case (2 env now event events s)
  let ?st = "handle_event env event (ch_state s)"
  show ?case
  proof (cases "ss_terminal ?st")
    case True
    then have "over ?st" using handled_last [OF 2(2)] by (simp add: handle_event_def)
    then show ?thesis using True by (simp add: Let_def lawful_def stream_ends_def over_commits)
  next
    case False
    then have "running ?st" using handled [OF 2(2)] by (simp add: handle_event_def)
    then show ?thesis using False 2(1) 2(3) by (auto simp: Let_def lawful_def)
  qed
qed (simp add: lawful_def)

lemma lawful_continue:
  "running (ch_state s) \<Longrightarrow> due (ch_state s) \<Longrightarrow> ch_phase s = Streaming \<Longrightarrow> lawful (continue_round env now tcs outcomes s)"
  by (auto simp: continue_round_def Let_def next_round_def again intro!: lawful_breaks split: option.split continuation.split)
    (simp_all add: lawful_def again)

lemma lawful_server_round:
  assumes "running (ch_state s)" and "due (ch_state s)" and "ch_phase s = Streaming"
  shows "lawful (server_only_round env now tcs s)"
proof -
  let ?s = "announce_searches env tcs s"
  have s: "running (ch_state ?s)" "due (ch_state ?s)" "ch_phase ?s = Streaming"
    using assms by (simp_all add: announce_searches_def announced)
  have shown: "running (ch_state (show_results outcomes t)) \<and> due (ch_state (show_results outcomes t))"
    if "ch_state t = ch_state ?s" for outcomes t
    using that s by (simp add: show_results_def answered)
  show ?thesis
  proof (cases "ch_uses_left s = 0 \<or> MAX_INTERNAL_GENERATION_ROUNDS \<le> ch_rounds s")
    case True
    then show ?thesis using shown [of ?s "map (exhausted_outcome (se_parse env)) tcs"]
      by (simp add: server_only_round_def Let_def lawful_def stream_ends_def over_commits paused)
  next
    case False
    obtain outcomes t where t: "run_searches env tcs ?s = (outcomes, t)" by fastforce
    then have "ch_state t = ch_state ?s" "ch_phase t = Streaming"
      using s by (auto simp: run_searches_def split: prod.splits)
    then show ?thesis using False shown [of t outcomes] t
      by (simp add: server_only_round_def Let_def lawful_continue) (simp add: lawful_continue show_results_def)
  qed
qed

lemma lawful_round:
  assumes "running (ch_state s)" and "due (ch_state s)" and "ch_phase s = Streaming"
  shows "lawful (server_round_ends env now s)"
proof -
  have "lawful (case run_searches env tcs (announce_searches env tcs s) of
      (outcomes, s1) \<Rightarrow> finalizes env (show_results outcomes s1))" for tcs
  proof -
    obtain outcomes t where t: "run_searches env tcs (announce_searches env tcs s) = (outcomes, t)" by fastforce
    then have "ch_state t = ch_state (announce_searches env tcs s)"
      by (auto simp: run_searches_def split: prod.splits)
    then show ?thesis using t assms
      by (auto simp: show_results_def announce_searches_def announced answered intro!: lawful_finalizes)
  qed
  then show ?thesis
    using assms by (auto simp: server_round_ends_def Let_def lawful_server_round lawful_finalizes split: tool_round_kind.split)
qed

lemma lawful_end:
  assumes "running (ch_state s)" and "ch_phase s = Streaming"
  shows "lawful (on_end env now s)"
proof (cases "decoder_finish (ch_decoder s)")
  case None
  then show ?thesis using assms by (simp add: on_end_def lawful_breaks)
next
  case (Some events)
  let ?st = "fold (handle_event env) events (ch_state s)"
  let ?s = "s\<lparr>ch_state := ?st\<rparr>"
  have one: "if ss_terminal (handle_event env e (ch_state s)) then over (handle_event env e (ch_state s))
      else running (handle_event env e (ch_state s))" for e
    using handled [OF assms(1)] handled_last [OF assms(1)] by (simp add: handle_event_def)
  have both: "if ss_terminal ?st then over ?st else running ?st"
    using finish_one_event [OF Some]
  proof (elim disjE exE)
    assume "events = []"
    then show ?thesis using assms(1) unfinished by simp
  qed (use one in simp)
  show ?thesis
  proof (cases "ss_terminal ?st")
    case True
    then show ?thesis using Some both by (simp add: on_end_def Let_def stream_ends_def lawful_def)
  next
    case False
    then have running: "running (ch_state ?s)" using both by simp
    show ?thesis
    proof (cases "due ?st")
      case True
      then have "lawful (finalizes env ?s)" "lawful (server_round_ends env now ?s)"
        using running assms(2) by (simp_all add: lawful_finalizes lawful_round)
      moreover have "lawful (unexpected_end ?s)"
        unfolding unexpected_end_def by (rule lawful_breaks) (rule running)
      ultimately show ?thesis using Some False by (simp add: on_end_def Let_def)
    next
      case due: False
      have "lawful (unexpected_end ?s)"
        unfolding unexpected_end_def by (rule lawful_breaks) (rule running)
      then show ?thesis using Some False due by (simp add: on_end_def Let_def due_def)
    qed
  qed
qed

theorem lawful_step: "lawful s \<Longrightarrow> lawful (stream_step env e s)"
proof (cases "ch_phase s = Streaming")
  case True
  assume law: "lawful s"
  then have s: "running (ch_state s)" using True by (simp add: lawful_def)
  show ?thesis
  proof (cases e)
    case (NetBytes now at bytes)
    then show ?thesis using s True
      by (auto simp: stream_step_def on_bytes_def Let_def intro!: lawful_breaks lawful_events split: option.split)
  qed (use s law True in \<open>auto simp: stream_step_def lawful_end pinged lawful_def [of "_\<lparr>ch_state := _\<rparr>"]
        intro!: lawful_breaks split: option.split\<close>)
qed (simp add: stream_step_def)

theorem lawful_run: "lawful s \<Longrightarrow> lawful (stream_run env es s)"
  by (induction es arbitrary: s) (simp_all add: stream_run_def lawful_step)

end

end
