(* ===== verification/Anthropic_Frames.thy ===== *)
theory Anthropic_Frames
  imports Anthropic_Lifecycle
begin

text \<open>
  The converter of \<open>src/anthropic.rs\<close> obeys the protocol of Anthropic streams: the law of
  \<open>Anthropic_Lifecycle\<close> interpreted on the reader, and on the exposure of reasoning.
\<close>

subsection \<open>The reader and the converter\<close>

definition block_at :: "stream_state \<Rightarrow> nat \<Rightarrow> block_state \<Rightarrow> bool" where
  "block_at st i kind \<longleftrightarrow> i < length (ss_blocks st) \<and> ss_blocks st ! i = kind"

definition open_blocks :: "block_state list \<Rightarrow> nat set" where
  "open_blocks bs = {i. i < length bs \<and> bs ! i \<noteq> ClosedBlock}"

definition reader_at :: "stream_state \<Rightarrow> client option" where
  "reader_at st = client_run (ss_out st) NotStarted"

text \<open>The reader is in the message, has seen all blocks, and sees the open ones open; the indices the
  converter writes to are open blocks of their kind.\<close>

definition indices_ok :: "stream_state \<Rightarrow> bool" where
  "indices_ok st \<longleftrightarrow>
     (\<forall>i. ss_text_index st = Some i \<longrightarrow> block_at st i TextBlock)
     \<and> (\<forall>i. ss_thinking_index st = Some i \<longrightarrow> block_at st i ThinkingBlock)
     \<and> (\<forall>k t i. (k, t) \<in> set (ss_tools st) \<longrightarrow> ts_block t = Some i \<longrightarrow> block_at st i ToolBlock)"

definition reading :: "stream_state \<Rightarrow> bool" where
  "reading st \<longleftrightarrow>
     ss_started st
     \<and> reader_at st = Some (Reading (length (ss_blocks st)) (open_blocks (ss_blocks st))) \<and> indices_ok st"

definition unstarted :: "stream_state \<Rightarrow> bool" where
  "unstarted st \<longleftrightarrow>
     \<not> ss_started st \<and> reader_at st = Some NotStarted \<and> ss_blocks st = [] \<and> ss_tools st = []
     \<and> ss_text_index st = None \<and> ss_thinking_index st = None \<and> \<not> due st"

definition alive :: "stream_state \<Rightarrow> bool" where
  "alive st \<longleftrightarrow> \<not> ss_terminal st \<and> (reading st \<or> unstarted st)"

definition ended :: "stream_state \<Rightarrow> bool" where
  "ended st \<longleftrightarrow> reader_at st = Some ClientDone"

lemma reader_show: "reader_at (show_frame f st) = Option.bind (reader_at st) (client_step f)"
proof -
  have one: "Option.bind c (client_run [f]) = Option.bind c (client_step f)" for c
  proof (cases c)
    case (Some a)
    then show ?thesis by (cases "client_step f a") simp_all
  qed simp
  show ?thesis using one by (simp add: reader_at_def show_frame_def)
qed

lemma open_blocks_snoc:
  "open_blocks (bs @ [kind]) = (if kind = ClosedBlock then open_blocks bs else insert (length bs) (open_blocks bs))"
  by (auto simp: open_blocks_def nth_append less_Suc_eq)

lemma open_blocks_close: "open_blocks (bs[i := ClosedBlock]) = open_blocks bs - {i}"
  by (cases "i < length bs") (auto simp: open_blocks_def nth_list_update list_update_beyond)

lemma open_blocks_bound: "i \<in> open_blocks bs \<Longrightarrow> i < length bs"
  by (simp add: open_blocks_def)

lemma block_at_open: "block_at st i kind \<Longrightarrow> kind \<noteq> ClosedBlock \<Longrightarrow> i \<in> open_blocks (ss_blocks st)"
  by (simp add: block_at_def open_blocks_def)

lemma block_at_mono: "block_at st i kind \<Longrightarrow> ss_blocks st' = ss_blocks st @ bs \<Longrightarrow> block_at st' i kind"
  by (simp add: block_at_def nth_append)

lemma indices_ok_mono:
  assumes "indices_ok st" and "ss_blocks st' = ss_blocks st @ bs" and "ss_text_index st' = ss_text_index st"
    and "ss_thinking_index st' = ss_thinking_index st" and "ss_tools st' = ss_tools st"
  shows "indices_ok st'"
  using assms block_at_mono [OF _ assms(2)] by (fastforce simp: indices_ok_def)

text \<open>Updates that neither the reader nor the indices see.\<close>

lemma reading_cong:
  assumes "reading st" and "ss_out st' = ss_out st" and "ss_blocks st' = ss_blocks st"
    and "ss_started st'" and "ss_text_index st' = ss_text_index st"
    and "ss_thinking_index st' = ss_thinking_index st" and "ss_tools st' = ss_tools st"
  shows "reading st'"
  using assms indices_ok_mono [of st st' "[]"] by (simp add: reading_def reader_at_def)

lemma reading_delta:
  assumes "reading st" and "block_at st i kind" and "kind \<noteq> ClosedBlock"
  shows "reading (show_frame (BlockDelta i d) st)"
  using assms block_at_open [OF assms(2,3)] indices_ok_mono [of st "show_frame (BlockDelta i d) st" "[]"]
  by (simp add: reading_def reader_show) (simp add: show_frame_def)

lemma open_block_fields [simp]:
  "ss_blocks (open_block kind content st) = ss_blocks st @ [kind]"
  "ss_text_index (open_block kind content st) = ss_text_index st"
  "ss_thinking_index (open_block kind content st) = ss_thinking_index st"
  "ss_tools (open_block kind content st) = ss_tools st"
  "ss_started (open_block kind content st) = ss_started st"
  "ss_terminal (open_block kind content st) = ss_terminal st"
  by (simp_all add: open_block_def show_frame_def)

lemma show_frame_fields [simp]:
  "ss_blocks (show_frame f st) = ss_blocks st" "ss_text_index (show_frame f st) = ss_text_index st"
  "ss_thinking_index (show_frame f st) = ss_thinking_index st" "ss_tools (show_frame f st) = ss_tools st"
  "ss_started (show_frame f st) = ss_started st" "ss_terminal (show_frame f st) = ss_terminal st"
  by (simp_all add: show_frame_def)

lemma reader_open:
  assumes "reading st"
  shows "reader_at (open_block kind content st)
     = Some (Reading (Suc (length (ss_blocks st))) (insert (length (ss_blocks st)) (open_blocks (ss_blocks st))))"
proof -
  have "reader_at (st\<lparr>ss_blocks := bs\<rparr>) = reader_at st" for bs by (simp add: reader_at_def)
  then show ?thesis using assms by (simp add: open_block_def reader_show reading_def)
qed

lemma reading_open:
  assumes "reading st" and "kind \<noteq> ClosedBlock"
  shows "reading (open_block kind content st)"
  using assms reader_open [OF assms(1)] indices_ok_mono [of st "open_block kind content st" "[kind]"]
  by (simp add: reading_def open_blocks_snoc)

lemma set_btree_insert: "set (btree_insert k v m) \<subseteq> insert (k, v) (set m)"
  by (induction k v m rule: btree_insert.induct) auto

lemma reading_put_tool:
  assumes "reading st" and "\<And>i. ts_block tool = Some i \<Longrightarrow> block_at st i ToolBlock"
  shows "reading (put_tool index tool st)"
proof -
  have "reader_at (put_tool index tool st) = reader_at st" by (simp add: reader_at_def put_tool_def)
  moreover have "block_at (put_tool index tool st) i kind = block_at st i kind" for i kind
    by (simp add: block_at_def put_tool_def)
  moreover have "indices_ok (put_tool index tool st)"
    using assms set_btree_insert [of index tool "ss_tools st"] calculation(2)
    unfolding indices_ok_def reading_def by (auto simp: put_tool_def dest!: subsetD)
  ultimately show ?thesis using assms(1) by (simp add: reading_def) (simp add: put_tool_def)
qed

lemma block_at_last: "block_at (open_block kind content st) (length (ss_blocks st)) kind"
  by (simp add: block_at_def)

lemma reading_start_tool:
  assumes "reading st"
  shows "reading (start_tool index tool st)"
    and "block_at (start_tool index tool st) (length (ss_blocks st)) ToolBlock"
proof -
  let ?i = "length (ss_blocks st)"
  define st1 where "st1 = open_block ToolBlock
      (tool_use_of (str_or (''toolu_'' @ show_nat index) (ts_id tool)) (str_or ''unknown'' (ts_name tool)) (JObj [])) st"
  define st2 where "st2 = (if ts_pending tool = [] then st1
                 else show_frame (BlockDelta ?i (InputDelta (ts_pending tool))) st1)"
  have "reading st1" using reading_open [OF assms] by (simp add: st1_def)
  moreover have at: "block_at st1 ?i ToolBlock" by (simp add: st1_def block_at_last)
  ultimately have "reading st2" by (simp add: st2_def reading_delta [where kind = ToolBlock])
  moreover have at2: "block_at st2 ?i ToolBlock" using at by (simp add: st2_def block_at_def)
  ultimately have "reading (put_tool index (tool\<lparr>ts_block := Some ?i, ts_pending := []\<rparr>) st2)"
    by (intro reading_put_tool) auto
  moreover have "start_tool index tool st = put_tool index (tool\<lparr>ts_block := Some ?i, ts_pending := []\<rparr>) st2"
    by (simp add: start_tool_def Let_def st1_def st2_def)
  ultimately show "reading (start_tool index tool st)"
    and "block_at (start_tool index tool st) ?i ToolBlock"
    using at2 by (simp_all add: put_tool_def block_at_def)
qed

subsection \<open>A chunk keeps the reader in the message\<close>

lemma noted_tool_block:
  assumes "reading st" and "ts_block (noted_tool call st) = Some i"
  shows "block_at st i ToolBlock"
proof -
  obtain t where "map_of (ss_tools st) (delta_index call) = Some t" "ts_block t = Some i"
    using assms(2) by (auto simp: noted_tool_def Let_def empty_tool_stream_def split: option.splits)
  then show ?thesis using assms(1) map_of_SomeD unfolding reading_def indices_ok_def by fast
qed

lemma reading_note_arguments:
  assumes "reading st" and "\<And>i. ts_block tool = Some i \<Longrightarrow> block_at st i ToolBlock"
  shows "reading (note_arguments call tool st)"
  using assms by (auto simp: note_arguments_def reading_delta [where kind = ToolBlock] intro!: reading_put_tool
      split: option.split)

lemma reading_handle_tool:
  assumes "reading st"
  shows "reading (handle_tool call st)"
proof (cases "ready_to_start call (noted_tool call st) st \<and> \<not> ts_server (noted_tool call st) \<and> \<not> ss_buffer_client st")
  case True
  then show ?thesis using reading_start_tool [OF assms] by (auto simp: handle_tool_def Let_def intro!: reading_note_arguments)
next
  case False
  let ?tool = "noted_tool call st"
  have at: "block_at st i ToolBlock" if "ts_block ?tool = Some i" for i
    using that by (rule noted_tool_block [OF assms])
  then have "reading (put_tool (delta_index call) ?tool st)" by (rule reading_put_tool [OF assms])
  then have "reading (note_arguments call ?tool (put_tool (delta_index call) ?tool st))"
    using at by (intro reading_note_arguments) (simp_all add: put_tool_def block_at_def)
  then show ?thesis using False by (auto simp: handle_tool_def Let_def)
qed

lemma reading_text_index:
  assumes "reading st" and "block_at st i TextBlock"
  shows "reading (st\<lparr>ss_text_index := Some i\<rparr>)"
  using assms unfolding reading_def indices_ok_def by (simp add: reader_at_def block_at_def)

lemma reading_thinking_index:
  assumes "reading st" and "block_at st i ThinkingBlock"
  shows "reading (st\<lparr>ss_thinking_index := Some i\<rparr>)"
  using assms unfolding reading_def indices_ok_def by (simp add: reader_at_def block_at_def)

lemma ensure_text_reading:
  assumes "reading st" and "ensure_text st = (i, st')"
  shows "reading st' \<and> block_at st' i TextBlock"
proof (cases "ss_text_index st")
  case None
  then show ?thesis
    using assms(2) reading_text_index [OF reading_open [OF assms(1)] block_at_last] block_at_last
    by (auto simp: ensure_text_def Let_def block_at_def)
next
  case (Some k)
  then show ?thesis using assms by (auto simp: ensure_text_def reading_def indices_ok_def)
qed

lemma ensure_thinking_reading:
  assumes "reading st" and "ensure_thinking st = (i, st')"
  shows "reading st' \<and> block_at st' i ThinkingBlock"
proof (cases "ss_thinking_index st")
  case None
  then show ?thesis
    using assms(2) reading_thinking_index [OF reading_open [OF assms(1)] block_at_last] block_at_last
    by (auto simp: ensure_thinking_def Let_def block_at_def)
next
  case (Some k)
  then show ?thesis using assms by (auto simp: ensure_thinking_def reading_def indices_ok_def)
qed

lemma reading_counters [simp]:
  "reading (st\<lparr>ss_reasoning_events := n\<rparr>) = reading st" "reading (st\<lparr>ss_text_events := n\<rparr>) = reading st"
  "reading (st\<lparr>ss_call_events := n\<rparr>) = reading st" "reading (st\<lparr>ss_shadow := s\<rparr>) = reading st"
  "reading (st\<lparr>ss_finish_reason := r\<rparr>) = reading st" "reading (st\<lparr>ss_stop_sequence := q\<rparr>) = reading st"
  "reading (st\<lparr>ss_usage := u\<rparr>) = reading st" "reading (st\<lparr>ss_round_complete := b\<rparr>) = reading st"
  "reading (st\<lparr>ss_terminal := b\<rparr>) = reading st" "reading (st\<lparr>ss_pending_ids := ids\<rparr>) = reading st"
  "reading (st\<lparr>ss_server_blocks := bs\<rparr>) = reading st" "reading (st\<lparr>ss_requests := n\<rparr>) = reading st"
  by (simp_all add: reading_def reader_at_def indices_ok_def block_at_def)

lemma reading_handle_text: "reading st \<Longrightarrow> reading (handle_text s st)"
  using ensure_text_reading [of "st\<lparr>ss_text_events := sat_add64 (ss_text_events st) 1\<rparr>"]
  by (auto simp: handle_text_def intro: reading_delta [where kind = TextBlock] split: prod.split)

lemma reading_handle_reasoning: "reading st \<Longrightarrow> reading (handle_reasoning s st)"
  using ensure_thinking_reading [of "st\<lparr>ss_reasoning_events := sat_add64 (ss_reasoning_events st) 1\<rparr>"]
  by (auto simp: handle_reasoning_def Let_def intro: reading_delta [where kind = ThinkingBlock] split: prod.split)

lemma fold_reading: "reading s \<Longrightarrow> (\<And>x s. reading s \<Longrightarrow> reading (f x s)) \<Longrightarrow> reading (fold f xs s)"
  by (induction xs arbitrary: s) simp_all

lemma reading_handle_delta: "reading st \<Longrightarrow> reading (handle_delta delta st)"
  by (auto simp: handle_delta_def Let_def handle_call_def reading_handle_reasoning reading_handle_text
      intro!: fold_reading reading_handle_tool split: option.split)

lemma reading_handle_choice: "reading st \<Longrightarrow> reading (handle_choice c st)"
  by (auto simp: handle_choice_def note_choice_def Let_def reading_handle_delta split: option.split)

lemma reading_start_message:
  assumes "\<not> ss_terminal st" and "reading st \<or> unstarted st"
  shows "reading (start_message value st)"
proof (cases "ss_started st")
  case True
  then show ?thesis using assms by (auto simp: start_message_def unstarted_def)
next
  case False
  then have "unstarted st" using assms by (auto simp: reading_def)
  moreover have "reader_at (st\<lparr>ss_started := True\<rparr>) = reader_at st" by (simp add: reader_at_def)
  ultimately show ?thesis using False
    by (simp add: start_message_def reading_def reader_show unstarted_def open_blocks_def indices_ok_def)
qed

lemma reading_handle_value:
  "\<not> ss_terminal st \<Longrightarrow> reading st \<or> unstarted st \<Longrightarrow> reading (handle_value value st)"
  using reading_start_message [of st "value"]
  by (auto simp: handle_value_def note_usage_def Let_def reading_handle_choice split: option.split)

subsection \<open>The end of the message\<close>

lemma open_blocks_Cons:
  "open_blocks (kind # kinds) = (if kind = ClosedBlock then {} else {0}) \<union> Suc ` open_blocks kinds"
proof (rule set_eqI)
  fix i
  show "i \<in> open_blocks (kind # kinds) \<longleftrightarrow>
      i \<in> (if kind = ClosedBlock then {} else {0}) \<union> Suc ` open_blocks kinds"
    by (cases i) (auto simp: open_blocks_def)
qed

lemma reader_close_block:
  assumes "reader_at st = Some (Reading n opened)" and "kind \<noteq> ClosedBlock \<longrightarrow> i \<in> opened"
  shows "reader_at (close_block sign i kind st) = Some (Reading n (opened - (if kind = ClosedBlock then {} else {i})))"
  using assms by (cases kind) (simp_all add: close_block_def reader_show)

lemma reader_close_blocks:
  "reader_at st = Some (Reading n opened) \<Longrightarrow> (+) i ` open_blocks kinds \<subseteq> opened \<Longrightarrow>
   reader_at (close_blocks sign i kinds st) = Some (Reading n (opened - (+) i ` open_blocks kinds))"
proof (induction kinds arbitrary: i st opened)
  case (Cons kind kinds)
  have split: "(+) i ` open_blocks (kind # kinds)
      = (if kind = ClosedBlock then {} else {i}) \<union> (+) (Suc i) ` open_blocks kinds"
    by (auto simp: open_blocks_Cons image_iff)
  have "reader_at (close_block sign i kind st) = Some (Reading n (opened - (if kind = ClosedBlock then {} else {i})))"
    using Cons.prems split by (intro reader_close_block) auto
  moreover have "(+) (Suc i) ` open_blocks kinds \<subseteq> opened - (if kind = ClosedBlock then {} else {i})"
    using Cons.prems(2) split by auto
  ultimately have "reader_at (close_blocks sign (Suc i) kinds (close_block sign i kind st))
      = Some (Reading n (opened - (if kind = ClosedBlock then {} else {i}) - (+) (Suc i) ` open_blocks kinds))"
    by (rule Cons.IH)
  then show ?case unfolding split by (simp add: Diff_Un [symmetric] set_diff_eq)
qed (simp add: open_blocks_def)

lemma ended_finish:
  assumes "reading st"
  shows "ended (finish_with_stop sign stop_override st)"
proof -
  have "reader_at (st\<lparr>ss_terminal := True\<rparr>) = Some (Reading (length (ss_blocks st)) (open_blocks (ss_blocks st)))"
    using assms by (simp add: reading_def reader_at_def)
  then have "reader_at (close_blocks sign 0 (ss_blocks st) (st\<lparr>ss_terminal := True\<rparr>)) = Some (Reading (length (ss_blocks st)) {})"
    using reader_close_blocks [of _ _ _ 0 "ss_blocks st"] by simp
  then show ?thesis by (simp add: finish_with_stop_def Let_def ended_def reader_show)
qed

lemma reading_start_pending: "reading st \<Longrightarrow> reading (start_pending index st)"
  by (auto simp: start_pending_def reading_start_tool split: option.split)

lemma ended_finalize: "reading st \<Longrightarrow> \<not> ss_terminal st \<Longrightarrow> ended (finalize sign order st)"
  by (auto simp: finalize_def intro!: ended_finish fold_reading reading_start_pending)

lemma alive_reader: "alive st \<Longrightarrow> \<exists>c. reader_at st = Some c \<and> c \<noteq> ClientDone"
  by (auto simp: alive_def reading_def unstarted_def)

lemma ended_show_error: "alive st \<Longrightarrow> ended (show_error message st)"
  using alive_reader [of st] by (auto simp: show_error_def ended_def reader_show)

lemma alive_terminal: "alive st \<Longrightarrow> ended (end_with_error message st)"
proof -
  assume "alive st"
  moreover have "reader_at (st\<lparr>ss_terminal := True\<rparr>) = reader_at st" by (simp add: reader_at_def)
  ultimately show ?thesis using alive_reader [of st]
    by (auto simp: end_with_error_def show_error_def ended_def reader_show)
qed

subsection \<open>Server rounds\<close>

lemma fresh_block_closed: "length bs \<notin> open_blocks bs"
  by (simp add: open_blocks_def)

lemma reading_emit_call: "reading st \<Longrightarrow> reading (emit_server_call parse json_text fresh call st)"
proof -
  assume r: "reading st"
  let ?st = "show_frame (BlockStop (length (ss_blocks st)))
     (show_frame (BlockDelta (length (ss_blocks st)) (InputDelta (json_text (server_input parse call))))
       (open_block ClosedBlock (server_block (fresh (length (ss_blocks st))) (JObj [])) st))"
  have "reader_at ?st = Some (Reading (Suc (length (ss_blocks st))) (open_blocks (ss_blocks st)))"
    using reader_open [OF r] fresh_block_closed by (simp add: reader_show)
  then have "reading ?st"
    using r indices_ok_mono [of st ?st "[ClosedBlock]"] by (simp add: reading_def open_blocks_snoc)
  then show ?thesis by (simp add: emit_server_call_def Let_def)
qed

lemma reading_emit_result: "reading st \<Longrightarrow> reading (emit_server_result p st)"
proof -
  assume r: "reading st"
  obtain i outcome where p: "p = (i, outcome)" by fastforce
  let ?st = "show_frame (BlockStop (length (ss_blocks st))) (open_block ClosedBlock (snd (client_blocks i outcome)) st)"
  have "reader_at ?st = Some (Reading (Suc (length (ss_blocks st))) (open_blocks (ss_blocks st)))"
    using reader_open [OF r] fresh_block_closed by (simp add: reader_show)
  then have "reading ?st"
    using r indices_ok_mono [of st ?st "[ClosedBlock]"] by (simp add: reading_def open_blocks_snoc)
  then show ?thesis by (simp add: emit_server_result_def p Let_def)
qed

lemma close_block_fields [simp]:
  "ss_blocks (close_block sign i kind st) = ss_blocks st" "ss_started (close_block sign i kind st) = ss_started st"
  "ss_tools (close_block sign i kind st) = ss_tools st" "ss_terminal (close_block sign i kind st) = ss_terminal st"
  "ss_text_index (close_block sign i kind st) = ss_text_index st"
  "ss_thinking_index (close_block sign i kind st) = ss_thinking_index st"
  by (simp_all add: close_block_def split: block_state.split)

lemma reader_close_at:
  assumes "reading st" and "block_at st i kind" and "kind \<noteq> ClosedBlock"
  shows "reader_at (close_at sign kind i st)
     = Some (Reading (length (ss_blocks st)) (open_blocks ((ss_blocks st)[i := ClosedBlock])))"
proof -
  have "reader_at (close_block sign i kind st)
      = Some (Reading (length (ss_blocks st)) (open_blocks (ss_blocks st) - (if kind = ClosedBlock then {} else {i})))"
    using assms block_at_open [OF assms(2,3)] by (intro reader_close_block) (simp_all add: reading_def)
  moreover have "reader_at (s\<lparr>ss_blocks := bs\<rparr>) = reader_at s" for s bs by (simp add: reader_at_def)
  ultimately show ?thesis using assms by (simp add: close_at_def block_at_def open_blocks_close)
qed

lemma block_at_close:
  "block_at st j kind' \<Longrightarrow> block_at st i kind \<Longrightarrow> kind' \<noteq> kind \<Longrightarrow>
   ss_blocks st' = (ss_blocks st)[i := ClosedBlock] \<Longrightarrow> block_at st' j kind'"
  by (auto simp: block_at_def nth_list_update)

lemma close_at_fields [simp]:
  "ss_started (close_at sign kind i st) = ss_started st" "ss_tools (close_at sign kind i st) = ss_tools st"
  "ss_terminal (close_at sign kind i st) = ss_terminal st"
  "ss_text_index (close_at sign kind i st) = ss_text_index st"
  "ss_thinking_index (close_at sign kind i st) = ss_thinking_index st"
  "block_at st i kind \<Longrightarrow> ss_blocks (close_at sign kind i st) = (ss_blocks st)[i := ClosedBlock]"
  by (simp_all add: close_at_def block_at_def)

lemma reading_close_thinking: "reading st \<Longrightarrow> reading (close_thinking sign st)"
proof (cases "ss_thinking_index st")
  case (Some i)
  assume r: "reading st"
  then have at: "block_at st i ThinkingBlock" using Some by (simp add: reading_def indices_ok_def)
  let ?st = "(close_at sign ThinkingBlock i st)\<lparr>ss_thinking_index := None\<rparr>"
  have "reader_at ?st = reader_at (close_at sign ThinkingBlock i st)" by (simp add: reader_at_def)
  moreover have "indices_ok ?st"
    using r block_at_close [OF _ at, of _ _ ?st] at unfolding reading_def indices_ok_def by auto
  ultimately show ?thesis using r Some at reader_close_at [OF r at]
    by (simp add: close_thinking_def reading_def)
qed (simp add: close_thinking_def)

lemma reading_close_text: "reading st \<Longrightarrow> reading (close_text sign st)"
proof (cases "ss_text_index st")
  case (Some i)
  assume r: "reading st"
  then have at: "block_at st i TextBlock" using Some by (simp add: reading_def indices_ok_def)
  let ?st = "(close_at sign TextBlock i st)\<lparr>ss_text_index := None\<rparr>"
  have "reader_at ?st = reader_at (close_at sign TextBlock i st)" by (simp add: reader_at_def)
  moreover have "indices_ok ?st"
    using r block_at_close [OF _ at, of _ _ ?st] at unfolding reading_def indices_ok_def by auto
  ultimately show ?thesis using r Some at reader_close_at [OF r at]
    by (simp add: close_text_def reading_def)
qed (simp add: close_text_def)

lemma reading_announced: "reading st \<Longrightarrow> reading (emit_server_tool_use parse json_text sign fresh tcs st)"
  by (auto simp: emit_server_tool_use_def close_open_content_blocks_def
      intro!: fold_reading reading_emit_call reading_close_text reading_close_thinking)

lemma reading_answered: "reading st \<Longrightarrow> reading (finish_server_tool_round outcomes st)"
  by (auto simp: finish_server_tool_round_def intro!: fold_reading reading_emit_result)

lemma reading_begin_round: "reading st \<Longrightarrow> reading (begin_new_round st)"
  by (simp add: begin_new_round_def reading_def reader_at_def indices_ok_def block_at_def)

subsection \<open>The law holds\<close>

lemma terminal_simps [simp]:
  "ss_terminal (put_tool index tool st) = ss_terminal st"
  "ss_terminal (start_tool index tool st) = ss_terminal st"
  "ss_terminal (note_arguments call tool st) = ss_terminal st"
  "ss_terminal (start_message v st) = ss_terminal st"
  "ss_terminal (note_usage v st) = ss_terminal st"
  "ss_terminal (note_choice v st) = ss_terminal st"
  "ss_terminal (handle_text s st) = ss_terminal st"
  "ss_terminal (handle_reasoning s st) = ss_terminal st"
  by (auto simp: put_tool_def start_tool_def note_arguments_def start_message_def note_usage_def note_choice_def
      handle_text_def handle_reasoning_def ensure_text_def ensure_thinking_def Let_def
      split: option.split prod.split)

lemma terminal_handle_tool [simp]: "ss_terminal (handle_tool call st) = ss_terminal st"
  by (simp add: handle_tool_def Let_def)

lemma terminal_fold: "(\<And>x s. ss_terminal (f x s) = ss_terminal s) \<Longrightarrow> ss_terminal (fold f xs s) = ss_terminal s"
  by (rule fold_keeps)

lemma terminal_handle_delta [simp]: "ss_terminal (handle_delta delta st) = ss_terminal st"
  by (simp add: handle_delta_def handle_call_def Let_def terminal_fold split: option.split)

lemma terminal_handle_value [simp]: "ss_terminal (handle_value v st) = ss_terminal st"
  by (simp add: handle_value_def handle_choice_def Let_def split: option.split)

lemma terminal_server [simp]:
  "ss_terminal (emit_server_tool_use parse json_text sign fresh tcs st) = ss_terminal st"
  "ss_terminal (finish_server_tool_round outcomes st) = ss_terminal st"
  "ss_terminal (begin_new_round st) = ss_terminal st"
proof -
  have "ss_terminal (emit_server_call parse json_text fresh call s) = ss_terminal s" for call s
    by (simp add: emit_server_call_def Let_def)
  then show "ss_terminal (emit_server_tool_use parse json_text sign fresh tcs st) = ss_terminal st"
    by (simp add: emit_server_tool_use_def close_open_content_blocks_def close_text_def close_thinking_def
        terminal_fold split: option.split)
  have "ss_terminal (emit_server_result p s) = ss_terminal s" for p s
    by (simp add: emit_server_result_def Let_def split: prod.split)
  then show "ss_terminal (finish_server_tool_round outcomes st) = ss_terminal st"
    by (simp add: finish_server_tool_round_def terminal_fold)
  show "ss_terminal (begin_new_round st) = ss_terminal st" by (simp add: begin_new_round_def)
qed

lemma due_reading: "alive st \<Longrightarrow> due st \<Longrightarrow> reading st \<and> \<not> ss_terminal st"
  by (auto simp: alive_def unstarted_def)

lemma terminal_close_blocks [simp]: "ss_terminal (close_blocks sign i kinds st) = ss_terminal st"
  by (induction kinds arbitrary: i st) simp_all

lemma terminal_finalize: "ss_terminal (finalize sign order st)"
  by (simp add: finalize_def finish_with_stop_def Let_def)

lemma terminal_end_with_error: "ss_terminal (end_with_error message st)"
  by (simp add: end_with_error_def show_error_def)

text \<open>An event leads to an open message, or to one the reader has seen to its end.\<close>

lemma alive_payload:
  assumes "alive st"
  shows "if ss_terminal (handle_payload parse sign order p st) then ended (handle_payload parse sign order p st)
    else alive (handle_payload parse sign order p st)"
proof (cases "trim p = ''[DONE]''")
  case True
  show ?thesis
  proof (cases "ss_finish_reason st = None")
    case False
    then have r: "reading st" "\<not> ss_terminal st" using due_reading [OF assms] by (simp_all add: due_def)
    then have "alive (st\<lparr>ss_round_complete := True\<rparr>)" by (simp add: alive_def)
    moreover have "ended (finalize sign order st)" using r by (rule ended_finalize)
    ultimately show ?thesis using True False r terminal_finalize by (simp add: handle_payload_def)
  qed (simp add: True handle_payload_def terminal_end_with_error alive_terminal [OF assms])
next
  case payload: False
  show ?thesis
  proof (cases "parse p")
    case (Some v)
    have "\<not> ss_terminal st" "reading (handle_value v st)"
      using assms reading_handle_value by (auto simp: alive_def)
    then show ?thesis using payload Some terminal_end_with_error alive_terminal [OF assms]
      by (simp add: handle_payload_def alive_def)
  qed (simp add: payload handle_payload_def terminal_end_with_error alive_terminal [OF assms])
qed

lemma alive_ping: "alive st \<Longrightarrow> alive (show_frame PingFrame st)"
proof -
  assume alive: "alive st"
  then have r: "reader_at (show_frame PingFrame st) = reader_at st"
    using alive_reader [OF alive] by (auto simp: reader_show)
  have "indices_ok (show_frame PingFrame st) = indices_ok st" "due (show_frame PingFrame st) = due st"
    by (simp_all add: indices_ok_def block_at_def)
  then show ?thesis using alive r by (simp add: alive_def reading_def unstarted_def)
qed

lemma ended_shadow: "ended st \<Longrightarrow> ended (st\<lparr>ss_shadow := s\<rparr>)"
  by (simp add: ended_def reader_at_def)

lemma alive_reading: "reading st \<Longrightarrow> \<not> ss_terminal st \<Longrightarrow> alive st"
  by (simp add: alive_def)

interpretation lifecycle: stream_law alive ended
proof
  fix st assume alive: "alive st"
  show "\<not> ss_terminal st" using alive by (simp add: alive_def)
  fix parse sign order p
  show "\<not> ss_terminal (handle_payload parse sign order p st) \<Longrightarrow> alive (handle_payload parse sign order p st)"
    using alive_payload [OF alive, of parse sign order p] by simp
  show "ss_terminal (handle_payload parse sign order p st) \<Longrightarrow> ended (handle_payload parse sign order p st)"
    using alive_payload [OF alive, of parse sign order p] by simp
next
  fix st assume "alive st" "due st"
  then have r: "reading st" "\<not> ss_terminal st" using due_reading by auto
  show "ended (finalize sign order st)" for sign order using r by (rule ended_finalize)
  show "ended (finalize_as_paused sign st)" for sign
    unfolding finalize_as_paused_def using r(1) by (rule ended_finish)
  show "alive (emit_server_tool_use parse json_text sign fresh tcs st)" for parse json_text sign fresh tcs
    by (rule alive_reading [OF reading_announced [OF r(1)]]) (simp add: r(2))
  show "alive (finish_server_tool_round outcomes st)" for outcomes
    by (rule alive_reading [OF reading_answered [OF r(1)]]) (simp add: r(2))
  show "alive (begin_new_round st)"
    by (rule alive_reading [OF reading_begin_round [OF r(1)]]) (simp add: r(2))
qed (rule ended_show_error alive_ping ended_shadow; assumption)+

lemma lawful_client:
  assumes "lifecycle.lawful s"
  shows "case ch_phase s of
     StreamEnded label \<Rightarrow> client_run (ss_out (ch_state s)) NotStarted = Some ClientDone
   | _ \<Rightarrow> \<exists>c. c \<noteq> ClientDone \<and> client_run (ss_out (ch_state s)) NotStarted = Some c"
proof (cases "ch_phase s")
  case (StreamEnded label)
  then show ?thesis using assms by (simp add: lifecycle.lawful_def ended_def reader_at_def)
qed (use assms alive_reader [of "ch_state s"] in \<open>auto simp: lifecycle.lawful_def reader_at_def\<close>)

text \<open>C8. A client that follows the protocol of Anthropic streams accepts every frame of every streamed
  answer: one \<open>message_start\<close> first, the blocks numbered from zero without a gap, each opened once,
  grown only while open and closed once, all closed before \<open>message_delta\<close>, and one \<open>message_stop\<close> or
  one error as the last frame, also across rounds of server searches. When the stream has ended the
  client knows; before that it does not.\<close>

theorem client_follows_stream:
  "case ch_phase (stream_run env es (new_chat_stream env request_id fallback_model expose body now)) of
     StreamEnded label \<Rightarrow>
       client_run (ss_out (ch_state (stream_run env es (new_chat_stream env request_id fallback_model expose body now))))
         NotStarted = Some ClientDone
   | _ \<Rightarrow>
       \<exists>c. c \<noteq> ClientDone
         \<and> client_run (ss_out (ch_state (stream_run env es (new_chat_stream env request_id fallback_model expose body now))))
             NotStarted = Some c"
proof -
  have "alive (ch_state (new_chat_stream env request_id fallback_model expose body now))"
    by (simp add: new_chat_stream_def new_stream_def alive_def unstarted_def reader_at_def due_def)
  then have "lifecycle.lawful (new_chat_stream env request_id fallback_model expose body now)"
    by (simp add: lifecycle.lawful_def new_chat_stream_def)
  then have "lifecycle.lawful (stream_run env es (new_chat_stream env request_id fallback_model expose body now))"
    by (rule lifecycle.lawful_run)
  then show ?thesis by (rule lawful_client)
qed

end
