(* ===== verification/Anthropic_Agreement.thy ===== *)
theory Anthropic_Agreement
  imports Anthropic_Frames
begin

text \<open>
  The two ways out of \<open>src/anthropic.rs\<close> agree: a client that streams is shown the text, the reasoning
  and the tool arguments that the aggregation puts into the answer of a client that does not.
\<close>

subsection \<open>What a stream has shown\<close>

fun text_part :: "anthropic_frame \<Rightarrow> string" where
  "text_part (BlockDelta i (TextDelta s)) = s"
| "text_part f = []"

fun thinking_part :: "anthropic_frame \<Rightarrow> string" where
  "thinking_part (BlockDelta i (ThinkingDelta s)) = s"
| "thinking_part f = []"

fun input_part :: "nat \<Rightarrow> anthropic_frame \<Rightarrow> string" where
  "input_part j (BlockDelta i (InputDelta s)) = (if i = j then s else [])"
| "input_part j f = []"

definition shown_text :: "stream_state \<Rightarrow> string" where
  "shown_text st = concat (map text_part (ss_out st))"

definition shown_thinking :: "stream_state \<Rightarrow> string" where
  "shown_thinking st = concat (map thinking_part (ss_out st))"

definition shown_input :: "stream_state \<Rightarrow> nat \<Rightarrow> string" where
  "shown_input st i = concat (map (input_part i) (ss_out st))"

text \<open>The arguments received for a call: shown in its block, or held back until it starts.\<close>

definition received_input :: "stream_state \<Rightarrow> nat \<Rightarrow> string" where
  "received_input st k =
     (case map_of (ss_tools st) k of
        None \<Rightarrow> []
      | Some t \<Rightarrow> (case ts_block t of Some i \<Rightarrow> shown_input st i | None \<Rightarrow> []) @ ts_pending t)"

definition aggregated_input :: "nonstream_acc \<Rightarrow> nat \<Rightarrow> string" where
  "aggregated_input acc k = (case map_of (na_tools acc) k of None \<Rightarrow> [] | Some t \<Rightarrow> ta_arguments t)"

lemma shown_simps [simp]:
  "shown_text (show_frame f st) = shown_text st @ text_part f"
  "shown_thinking (show_frame f st) = shown_thinking st @ thinking_part f"
  "shown_input (show_frame f st) i = shown_input st i @ input_part i f"
  by (simp_all add: shown_text_def shown_thinking_def shown_input_def show_frame_def)

lemma shown_same:
  assumes "ss_out st' = ss_out st"
  shows "shown_text st' = shown_text st" "shown_thinking st' = shown_thinking st" "shown_input st' i = shown_input st i"
  using assms by (simp_all add: shown_text_def shown_thinking_def shown_input_def)

subsection \<open>Calls and their blocks\<close>

text \<open>Every call with a block has one of its own and holds nothing back; no input has been shown in a
  block that does not exist yet.\<close>

definition calls_ok :: "stream_state \<Rightarrow> bool" where
  "calls_ok st \<longleftrightarrow>
     btree_ok (ss_tools st)
     \<and> (\<forall>k t i. map_of (ss_tools st) k = Some t \<longrightarrow> ts_block t = Some i \<longrightarrow> i < length (ss_blocks st) \<and> ts_pending t = [])
     \<and> (\<forall>k t l u i. map_of (ss_tools st) k = Some t \<longrightarrow> map_of (ss_tools st) l = Some u \<longrightarrow>
          ts_block t = Some i \<longrightarrow> ts_block u = Some i \<longrightarrow> k = l)
     \<and> (\<forall>i. length (ss_blocks st) \<le> i \<longrightarrow> shown_input st i = [])"

text \<open>Changes that leave the calls alone: more blocks, and frames that show no input.\<close>

lemma calls_ok_kept:
  assumes "calls_ok st" and "ss_tools st' = ss_tools st" and "length (ss_blocks st) \<le> length (ss_blocks st')"
    and "\<And>i. shown_input st' i = shown_input st i"
  shows "calls_ok st'" and "received_input st' = received_input st"
proof -
  have "i < length (ss_blocks st') \<and> ts_pending t = []"
    if "map_of (ss_tools st) k = Some t" "ts_block t = Some i" for k t i
    using assms(1,3) that unfolding calls_ok_def by (meson order_less_le_trans)
  then show "calls_ok st'"
    using assms(1,3) unfolding calls_ok_def assms(2,4) by (intro conjI) (blast, blast, blast, simp)
  show "received_input st' = received_input st"
    using assms by (auto simp: received_input_def fun_eq_iff split: option.split)
qed

lemma map_of_put_tool [simp]:
  "calls_ok st \<Longrightarrow> map_of (ss_tools (put_tool k t st)) = (map_of (ss_tools st))(k \<mapsto> t)"
  by (simp add: put_tool_def calls_ok_def)

lemma put_tool_fields [simp]:
  "ss_blocks (put_tool k t st) = ss_blocks st" "ss_out (put_tool k t st) = ss_out st"
  "shown_input (put_tool k t st) i = shown_input st i" "shown_text (put_tool k t st) = shown_text st"
  "shown_thinking (put_tool k t st) = shown_thinking st"
  by (simp_all add: put_tool_def shown_input_def shown_text_def shown_thinking_def)

text \<open>A call whose block, if any, is its own keeps the rest as it was.\<close>

lemma calls_ok_put:
  assumes "calls_ok st"
    and "\<And>i. ts_block t = Some i \<Longrightarrow> i < length (ss_blocks st) \<and> ts_pending t = []"
    and "\<And>l u i. ts_block t = Some i \<Longrightarrow> map_of (ss_tools st) l = Some u \<Longrightarrow> ts_block u = Some i \<Longrightarrow> l = k"
  shows "calls_ok (put_tool k t st)"
    and "l \<noteq> k \<Longrightarrow> received_input (put_tool k t st) l = received_input st l"
    and "received_input (put_tool k t st) k = (case ts_block t of Some i \<Rightarrow> shown_input st i | None \<Rightarrow> []) @ ts_pending t"
proof -
  have m: "map_of (ss_tools (put_tool k t st)) = (map_of (ss_tools st))(k \<mapsto> t)"
    using assms(1) by simp
  have "btree_ok (ss_tools (put_tool k t st))"
    using assms(1) by (simp add: put_tool_def calls_ok_def btree_ok_insert)
  moreover have "\<forall>l u i. map_of (ss_tools (put_tool k t st)) l = Some u \<longrightarrow> ts_block u = Some i \<longrightarrow>
      i < length (ss_blocks (put_tool k t st)) \<and> ts_pending u = []"
    using assms(1,2) unfolding m calls_ok_def by (auto split: if_split_asm)
  moreover have "\<forall>l u l' u' i. map_of (ss_tools (put_tool k t st)) l = Some u \<longrightarrow>
      map_of (ss_tools (put_tool k t st)) l' = Some u' \<longrightarrow> ts_block u = Some i \<longrightarrow> ts_block u' = Some i \<longrightarrow> l = l'"
    using assms(1,3) unfolding m calls_ok_def by (auto split: if_split_asm)
  ultimately show "calls_ok (put_tool k t st)" using assms(1) unfolding calls_ok_def by simp
  show "l \<noteq> k \<Longrightarrow> received_input (put_tool k t st) l = received_input st l"
    unfolding received_input_def m by (simp split: option.split)
  show "received_input (put_tool k t st) k = (case ts_block t of Some i \<Rightarrow> shown_input st i | None \<Rightarrow> []) @ ts_pending t"
    unfolding received_input_def m by (simp split: option.split)
qed

lemma calls_ok_show_input:
  assumes "calls_ok st" and "i < length (ss_blocks st)"
  shows "calls_ok (show_frame (BlockDelta i (InputDelta s)) st)"
  using assms unfolding calls_ok_def by simp

text \<open>Input shown in the block of one call is input of that call only.\<close>

lemma received_show_input:
  assumes "calls_ok st" and "map_of (ss_tools st) k = Some t" and "ts_block t = Some i"
  shows "received_input (show_frame (BlockDelta i (InputDelta s)) st) l
     = received_input st l @ (if l = k then s else [])"
proof (cases "map_of (ss_tools st) l")
  case (Some u)
  have "ts_block u = Some i \<longrightarrow> l = k" "l = k \<longrightarrow> u = t" "ts_pending t = []"
    using assms Some unfolding calls_ok_def by auto
  then show ?thesis using Some assms(2,3)
    by (auto simp: received_input_def split: option.split)
qed (use assms(2) in \<open>auto simp: received_input_def\<close>)

subsection \<open>One fragment of a call\<close>

lemma received_start_tool:
  assumes ok: "calls_ok st" and none: "ts_block tool = None"
  shows "calls_ok (start_tool k tool st)"
    and "received_input (start_tool k tool st) l = (if l = k then ts_pending tool else received_input st l)"
    and "map_of (ss_tools (start_tool k tool st)) k = Some (tool\<lparr>ts_block := Some (length (ss_blocks st)), ts_pending := []\<rparr>)"
proof -
  let ?i = "length (ss_blocks st)"
  let ?tool = "tool\<lparr>ts_block := Some ?i, ts_pending := []\<rparr>"
  define st1 where "st1 = open_block ToolBlock
      (tool_use_of (str_or (''toolu_'' @ show_nat k) (ts_id tool)) (str_or ''unknown'' (ts_name tool)) (JObj [])) st"
  define st2 where "st2 = (if ts_pending tool = [] then st1
                 else show_frame (BlockDelta ?i (InputDelta (ts_pending tool))) st1)"
  have start: "start_tool k tool st = put_tool k ?tool st2"
    by (simp add: start_tool_def Let_def st1_def st2_def)
  have in1: "shown_input st1 j = shown_input st j" for j
    by (simp add: st1_def open_block_def shown_input_def show_frame_def)
  have ok1: "calls_ok st1" and rec1: "received_input st1 = received_input st"
    using calls_ok_kept [OF ok, of st1] in1 by (simp_all add: st1_def)
  have new: "map_of (ss_tools st) l = Some u \<Longrightarrow> ts_block u \<noteq> Some ?i" for l u
    using ok unfolding calls_ok_def by fastforce
  have in2: "shown_input st2 ?i = ts_pending tool"
    using ok in1 by (simp add: st2_def calls_ok_def)
  have rec2: "received_input st2 = received_input st1"
  proof
    fix l
    show "received_input st2 l = received_input st1 l"
      using new [of l] by (auto simp: st2_def received_input_def st1_def split: option.split)
  qed
  have ok2: "calls_ok st2" using ok1 by (simp add: st2_def st1_def calls_ok_show_input)
  have own: "j < length (ss_blocks st2) \<and> ts_pending ?tool = []" if "ts_block ?tool = Some j" for j
    using that by (auto simp: st2_def st1_def)
  have only: "l = k" if "ts_block ?tool = Some j" "map_of (ss_tools st2) l = Some u" "ts_block u = Some j" for j l u
    using that new [of l u] by (auto simp: st2_def st1_def split: if_split_asm)
  have put: "calls_ok (put_tool k ?tool st2)"
    "\<And>l. l \<noteq> k \<Longrightarrow> received_input (put_tool k ?tool st2) l = received_input st2 l"
    "received_input (put_tool k ?tool st2) k = shown_input st2 ?i"
    using calls_ok_put [OF ok2 own only] by simp_all
  then show "calls_ok (start_tool k tool st)" using start by simp
  show "received_input (start_tool k tool st) l = (if l = k then ts_pending tool else received_input st l)"
    using put(2,3) rec1 rec2 in2 start by simp
  show "map_of (ss_tools (start_tool k tool st)) k = Some ?tool" using ok2 start by simp
qed

lemma noted_tool_same:
  "map_of (ss_tools st) (delta_index call) = Some t \<Longrightarrow>
     ts_block (noted_tool call st) = ts_block t \<and> ts_pending (noted_tool call st) = ts_pending t"
  "map_of (ss_tools st) (delta_index call) = None \<Longrightarrow>
     ts_block (noted_tool call st) = None \<and> ts_pending (noted_tool call st) = []"
  by (simp_all add: noted_tool_def Let_def empty_tool_stream_def)

lemma handle_tool_input:
  assumes ok: "calls_ok st"
  shows "calls_ok (handle_tool call st)"
    and "received_input (handle_tool call st) l
       = received_input st l @ (if l = delta_index call then delta_arguments call else [])"
    and "dom (map_of (ss_tools (handle_tool call st))) = insert (delta_index call) (dom (map_of (ss_tools st)))"
proof -
  let ?k = "delta_index call" and ?a = "delta_arguments call"
  let ?tool = "noted_tool call st"
  have before: "received_input st ?k = (case ts_block ?tool of Some i \<Rightarrow> shown_input st i | None \<Rightarrow> []) @ ts_pending ?tool"
    using noted_tool_same [of st call] by (cases "map_of (ss_tools st) ?k") (simp_all add: received_input_def)
  define st1 where "st1 = (if ready_to_start call ?tool st \<and> \<not> ts_server ?tool \<and> \<not> ss_buffer_client st
      then start_tool ?k ?tool st else put_tool ?k ?tool st)"
  define tool1 where "tool1 = (if ready_to_start call ?tool st \<and> \<not> ts_server ?tool \<and> \<not> ss_buffer_client st
      then ?tool\<lparr>ts_block := Some (length (ss_blocks st)), ts_pending := []\<rparr> else ?tool)"
  have step: "handle_tool call st = note_arguments call tool1 st1"
    by (simp add: handle_tool_def Let_def st1_def tool1_def)
  have "calls_ok st1 \<and> received_input st1 l = received_input st l \<and> map_of (ss_tools st1) ?k = Some tool1
      \<and> dom (map_of (ss_tools st1)) = insert ?k (dom (map_of (ss_tools st)))" for l
  proof (cases "ready_to_start call ?tool st \<and> \<not> ts_server ?tool \<and> \<not> ss_buffer_client st")
    case True
    then have none: "ts_block ?tool = None" by (simp add: ready_to_start_def)
    have "dom (map_of (ss_tools (start_tool ?k ?tool st))) = insert ?k (dom (map_of (ss_tools st)))"
      by (auto simp: start_tool_def Let_def put_tool_def dom_map_of_conv_image_fst fst_btree_insert)
    then show ?thesis using True received_start_tool [OF ok none] before none
      by (simp add: st1_def tool1_def)
  next
    case False
    have own: "i < length (ss_blocks st) \<and> ts_pending ?tool = []" if "ts_block ?tool = Some i" for i
      using that noted_tool_same [of st call] ok unfolding calls_ok_def
      by (cases "map_of (ss_tools st) ?k") auto
    have only: "l = ?k" if "ts_block ?tool = Some i" "map_of (ss_tools st) l = Some u" "ts_block u = Some i" for i l u
      using that noted_tool_same [of st call] ok unfolding calls_ok_def
      by (cases "map_of (ss_tools st) ?k") auto
    have eq: "st1 = put_tool ?k ?tool st" "tool1 = ?tool" using False by (auto simp: st1_def tool1_def)
    have "received_input (put_tool ?k ?tool st) l = received_input st l"
      using calls_ok_put(2,3) [OF ok own only] before by (cases "l = ?k") simp_all
    then show ?thesis using calls_ok_put(1) [OF ok own only] ok unfolding eq by simp
  qed
  then have ok1: "calls_ok st1" and rec1: "\<And>l. received_input st1 l = received_input st l"
    and tool: "map_of (ss_tools st1) ?k = Some tool1"
    and dom1: "dom (map_of (ss_tools st1)) = insert ?k (dom (map_of (ss_tools st)))" by auto
  have "calls_ok (note_arguments call tool1 st1)
    \<and> received_input (note_arguments call tool1 st1) l = received_input st1 l @ (if l = ?k then ?a else [])
    \<and> dom (map_of (ss_tools (note_arguments call tool1 st1))) = dom (map_of (ss_tools st1))" for l
  proof (cases "?a = []")
    case True
    then show ?thesis using ok1 by (simp add: note_arguments_def)
  next
    case False
    show ?thesis
    proof (cases "ts_block tool1")
      case None
      let ?more = "tool1\<lparr>ts_pending := ts_pending tool1 @ ?a\<rparr>"
      have "note_arguments call tool1 st1 = put_tool ?k ?more st1" using False None by (simp add: note_arguments_def)
      moreover have "received_input st1 ?k = ts_pending tool1" using tool None by (simp add: received_input_def)
      ultimately show ?thesis using calls_ok_put [OF ok1, of ?more ?k] None ok1 tool
        by (cases "l = ?k") auto
    next
      case (Some i)
      then have "note_arguments call tool1 st1 = show_frame (BlockDelta i (InputDelta ?a)) st1"
        using False by (simp add: note_arguments_def)
      moreover have "i < length (ss_blocks st1)" using ok1 tool Some unfolding calls_ok_def by blast
      ultimately show ?thesis using calls_ok_show_input [OF ok1] received_show_input [OF ok1 tool Some] by simp
    qed
  qed
  then show "calls_ok (handle_tool call st)"
    and "received_input (handle_tool call st) l = received_input st l @ (if l = ?k then ?a else [])"
    and "dom (map_of (ss_tools (handle_tool call st))) = insert ?k (dom (map_of (ss_tools st)))"
    using rec1 dom1 step by simp_all
qed

subsection \<open>The two receivers side by side\<close>

definition agrees :: "stream_state \<Rightarrow> nonstream_acc \<Rightarrow> bool" where
  "agrees st acc \<longleftrightarrow>
     calls_ok st \<and> btree_ok (na_tools acc)
     \<and> shown_text st = na_text acc
     \<and> (if ss_expose st then shown_thinking st = na_reasoning acc
        else shown_thinking st = [] \<and> ss_shadow st = na_reasoning acc)
     \<and> received_input st = aggregated_input acc
     \<and> dom (map_of (ss_tools st)) = dom (map_of (na_tools acc))
     \<and> ss_finish_reason st = na_finish_reason acc"

text \<open>What a step may change without touching the calls.\<close>

lemma agrees_update:
  assumes "agrees st acc" and "ss_tools st' = ss_tools st" and "length (ss_blocks st) \<le> length (ss_blocks st')"
    and "\<And>i. shown_input st' i = shown_input st i" and "na_tools acc' = na_tools acc"
    and "shown_text st' = na_text acc'" and "ss_expose st' = ss_expose st"
    and "if ss_expose st then shown_thinking st' = na_reasoning acc'
         else shown_thinking st' = [] \<and> ss_shadow st' = na_reasoning acc'"
    and "ss_finish_reason st' = na_finish_reason acc'"
  shows "agrees st' acc'"
proof -
  have "calls_ok st" "received_input st = aggregated_input acc" using assms(1) by (simp_all add: agrees_def)
  moreover have "aggregated_input acc' = aggregated_input acc"
    using assms(5) by (simp add: aggregated_input_def fun_eq_iff)
  ultimately show ?thesis
    using assms calls_ok_kept [OF _ assms(2,3,4)] by (simp add: agrees_def)
qed

lemma shown_open_block [simp]:
  "shown_text (open_block kind c st) = shown_text st" "shown_thinking (open_block kind c st) = shown_thinking st"
  "shown_input (open_block kind c st) i = shown_input st i"
  "ss_expose (open_block kind c st) = ss_expose st" "ss_shadow (open_block kind c st) = ss_shadow st"
  "ss_finish_reason (open_block kind c st) = ss_finish_reason st"
  by (simp_all add: open_block_def shown_text_def shown_thinking_def shown_input_def show_frame_def)

lemma shown_update [simp]:
  "shown_text (st\<lparr>ss_text_index := k\<rparr>) = shown_text st" "shown_thinking (st\<lparr>ss_text_index := k\<rparr>) = shown_thinking st"
  "shown_input (st\<lparr>ss_text_index := k\<rparr>) i = shown_input st i"
  "shown_text (st\<lparr>ss_thinking_index := k\<rparr>) = shown_text st"
  "shown_thinking (st\<lparr>ss_thinking_index := k\<rparr>) = shown_thinking st"
  "shown_input (st\<lparr>ss_thinking_index := k\<rparr>) i = shown_input st i"
  "shown_text (st\<lparr>ss_text_events := n\<rparr>) = shown_text st" "shown_thinking (st\<lparr>ss_text_events := n\<rparr>) = shown_thinking st"
  "shown_input (st\<lparr>ss_text_events := n\<rparr>) i = shown_input st i"
  "shown_text (st\<lparr>ss_reasoning_events := n\<rparr>) = shown_text st"
  "shown_thinking (st\<lparr>ss_reasoning_events := n\<rparr>) = shown_thinking st"
  "shown_input (st\<lparr>ss_reasoning_events := n\<rparr>) i = shown_input st i"
  "shown_text (st\<lparr>ss_call_events := n\<rparr>) = shown_text st" "shown_thinking (st\<lparr>ss_call_events := n\<rparr>) = shown_thinking st"
  "shown_input (st\<lparr>ss_call_events := n\<rparr>) i = shown_input st i"
  "shown_text (st\<lparr>ss_shadow := s\<rparr>) = shown_text st" "shown_thinking (st\<lparr>ss_shadow := s\<rparr>) = shown_thinking st"
  "shown_input (st\<lparr>ss_shadow := s\<rparr>) i = shown_input st i"
  by (simp_all add: shown_text_def shown_thinking_def shown_input_def)

lemma show_frame_other [simp]:
  "ss_expose (show_frame f st) = ss_expose st" "ss_shadow (show_frame f st) = ss_shadow st"
  "ss_finish_reason (show_frame f st) = ss_finish_reason st"
  by (simp_all add: show_frame_def)

lemma handle_text_fields:
  "shown_text (handle_text s st) = shown_text st @ s" "shown_thinking (handle_text s st) = shown_thinking st"
  "shown_input (handle_text s st) i = shown_input st i" "ss_tools (handle_text s st) = ss_tools st"
  "length (ss_blocks st) \<le> length (ss_blocks (handle_text s st))" "ss_expose (handle_text s st) = ss_expose st"
  "ss_shadow (handle_text s st) = ss_shadow st" "ss_finish_reason (handle_text s st) = ss_finish_reason st"
  by (cases "ss_text_index st"; simp add: handle_text_def ensure_text_def Let_def)+

lemma handle_reasoning_exposed:
  assumes "ss_expose st"
  shows "shown_thinking (handle_reasoning s st) = shown_thinking st @ s"
    "shown_text (handle_reasoning s st) = shown_text st"
    "shown_input (handle_reasoning s st) i = shown_input st i" "ss_tools (handle_reasoning s st) = ss_tools st"
    "length (ss_blocks st) \<le> length (ss_blocks (handle_reasoning s st))"
    "ss_expose (handle_reasoning s st) = ss_expose st"
    "ss_finish_reason (handle_reasoning s st) = ss_finish_reason st"
  using assms by (cases "ss_thinking_index st"; simp add: handle_reasoning_def ensure_thinking_def Let_def)+

lemma agrees_text:
  assumes "agrees st acc"
  shows "agrees (handle_text s st) (acc\<lparr>na_text := na_text acc @ s, na_last_semantic := t\<rparr>)"
  using assms by (intro agrees_update [OF assms]) (simp_all add: handle_text_fields agrees_def)

lemma agrees_reasoning:
  assumes "agrees st acc"
  shows "agrees (handle_reasoning s st) (acc\<lparr>na_reasoning := na_reasoning acc @ s, na_last_semantic := t\<rparr>)"
proof (cases "ss_expose st")
  case True
  then show ?thesis using assms
    by (intro agrees_update [OF assms]) (simp_all add: handle_reasoning_exposed agrees_def)
next
  case False
  then have "handle_reasoning s st
      = st\<lparr>ss_reasoning_events := sat_add64 (ss_reasoning_events st) 1, ss_shadow := ss_shadow st @ s\<rparr>"
    by (simp add: handle_reasoning_def Let_def)
  then show ?thesis using assms False
    by (intro agrees_update [OF assms]) (simp_all add: agrees_def)
qed

text \<open>A fragment of a call: only the calls change, and the same way.\<close>

definition quiet :: "stream_state \<Rightarrow> stream_state \<Rightarrow> bool" where
  "quiet st st' \<longleftrightarrow> shown_text st' = shown_text st \<and> shown_thinking st' = shown_thinking st \<and> ss_expose st' = ss_expose st
     \<and> ss_shadow st' = ss_shadow st \<and> ss_finish_reason st' = ss_finish_reason st"

lemma quiet_refl [simp]: "quiet st st" by (simp add: quiet_def)

lemma quiet_put_tool [simp]: "quiet st (put_tool k t st') = quiet st st'"
  by (simp add: quiet_def) (simp add: put_tool_def)

lemma quiet_show_input [simp]: "quiet st (show_frame (BlockDelta i (InputDelta s)) st') = quiet st st'"
  by (simp add: quiet_def)

lemma quiet_open_block [simp]: "quiet st (open_block kind c st') = quiet st st'"
  by (simp add: quiet_def)

lemma quiet_note_arguments [simp]: "quiet st (note_arguments call t st') = quiet st st'"
  by (simp add: note_arguments_def split: option.split)

lemma quiet_start_tool [simp]: "quiet st (start_tool k t st') = quiet st st'"
  by (simp add: start_tool_def Let_def)

lemma handle_tool_quiet: "quiet st (handle_tool call st)"
  by (simp add: handle_tool_def Let_def)

lemma accumulate_call_input:
  assumes "btree_ok (na_tools acc)"
  shows "aggregated_input (accumulate_call call acc) l
     = aggregated_input acc l @ (if l = delta_index call then delta_arguments call else [])"
    and "dom (map_of (na_tools (accumulate_call call acc))) = insert (delta_index call) (dom (map_of (na_tools acc)))"
    and "btree_ok (na_tools (accumulate_call call acc))"
  using assms
  by (auto simp: accumulate_call_def Let_def aggregated_input_def empty_tool_def btree_ok_insert split: option.split)

lemma agrees_call:
  assumes "agrees st acc"
  shows "agrees (handle_call call st) (accumulate_call call acc)"
proof -
  let ?st = "st\<lparr>ss_call_events := sat_add64 (ss_call_events st) 1\<rparr>"
  have st: "calls_ok ?st" "received_input ?st = aggregated_input acc" "btree_ok (na_tools acc)"
    using assms calls_ok_kept [of st ?st] by (simp_all add: agrees_def)
  have "received_input (handle_tool call ?st) = aggregated_input (accumulate_call call acc)"
    using handle_tool_input(2) [OF st(1)] accumulate_call_input(1) [OF st(3)] st(2) by (simp add: fun_eq_iff)
  moreover have "na_text (accumulate_call call acc) = na_text acc"
    "na_reasoning (accumulate_call call acc) = na_reasoning acc"
    "na_finish_reason (accumulate_call call acc) = na_finish_reason acc"
    by (simp_all add: accumulate_call_def Let_def)
  ultimately show ?thesis
    using assms handle_tool_input(1,3) [OF st(1), of call] accumulate_call_input(2,3) [OF st(3), of call]
    using handle_tool_quiet [of ?st call] by (simp add: agrees_def handle_call_def quiet_def)
qed

lemma agrees_calls: "agrees st acc \<Longrightarrow> agrees (fold handle_call tcs st) (fold accumulate_call tcs acc)"
  by (induction tcs arbitrary: st acc) (simp_all add: agrees_call)

lemma agrees_semantic: "agrees st (acc\<lparr>na_last_semantic := t\<rparr>) = agrees st acc"
  by (simp add: agrees_def aggregated_input_def fun_eq_iff)

lemma agrees_delta:
  assumes "agrees st acc"
  shows "agrees (handle_delta delta st) (accumulate_delta at delta acc)"
proof -
  define st1 where "st1 = (case nonempty (reasoning_delta delta) of Some s \<Rightarrow> handle_reasoning s st | None \<Rightarrow> st)"
  define acc1 where "acc1 = (case nonempty (reasoning_delta delta) of
      Some s \<Rightarrow> acc\<lparr>na_reasoning := na_reasoning acc @ s, na_last_semantic := Some at\<rparr> | None \<Rightarrow> acc)"
  define st2 where "st2 = (case nonempty (obj_str delta ''content'') of Some s \<Rightarrow> handle_text s st1 | None \<Rightarrow> st1)"
  define acc2 where "acc2 = (case nonempty (obj_str delta ''content'') of
      Some s \<Rightarrow> acc1\<lparr>na_text := na_text acc1 @ s, na_last_semantic := Some at\<rparr> | None \<Rightarrow> acc1)"
  have "agrees st1 acc1" using assms agrees_reasoning by (simp add: st1_def acc1_def split: option.split)
  then have two: "agrees st2 acc2" using agrees_text by (simp add: st2_def acc2_def split: option.split)
  then have "agrees (fold handle_call tcs st2) (fold accumulate_call tcs (acc2\<lparr>na_last_semantic := Some at\<rparr>))" for tcs
    by (simp add: agrees_calls agrees_semantic)
  then show ?thesis using two
    by (simp add: handle_delta_def accumulate_delta_def Let_def st1_def [symmetric] acc1_def [symmetric]
        st2_def [symmetric] acc2_def [symmetric] split: option.split)
qed

lemma start_message_fields:
  "shown_text (start_message v st) = shown_text st" "shown_thinking (start_message v st) = shown_thinking st"
  "shown_input (start_message v st) i = shown_input st i" "ss_tools (start_message v st) = ss_tools st"
  "ss_blocks (start_message v st) = ss_blocks st" "ss_expose (start_message v st) = ss_expose st"
  "ss_shadow (start_message v st) = ss_shadow st" "ss_finish_reason (start_message v st) = ss_finish_reason st"
  by (simp_all add: start_message_def shown_text_def shown_thinking_def shown_input_def show_frame_def)

lemma note_usage_fields:
  "ss_out (note_usage v st) = ss_out st" "ss_tools (note_usage v st) = ss_tools st"
  "ss_blocks (note_usage v st) = ss_blocks st" "ss_expose (note_usage v st) = ss_expose st"
  "ss_shadow (note_usage v st) = ss_shadow st" "ss_finish_reason (note_usage v st) = ss_finish_reason st"
  by (cases "json_get v ''usage''"; simp add: note_usage_def)+

lemma note_choice_fields:
  "ss_out (note_choice c st) = ss_out st" "ss_tools (note_choice c st) = ss_tools st"
  "ss_blocks (note_choice c st) = ss_blocks st" "ss_expose (note_choice c st) = ss_expose st"
  "ss_shadow (note_choice c st) = ss_shadow st"
  "ss_finish_reason (note_choice c st) = (case get_str c ''finish_reason'' of Some r \<Rightarrow> Some r | None \<Rightarrow> ss_finish_reason st)"
  by (cases "json_get c ''stop_sequence''"; cases "get_str c ''finish_reason''"; simp add: note_choice_def Let_def)+

lemma agrees_head:
  assumes "agrees st acc"
  shows "agrees (note_usage v (start_message v st)) (accumulate_head v acc)"
  using assms
  by (intro agrees_update [OF assms])
    (simp_all add: note_usage_fields start_message_fields shown_same [OF note_usage_fields(1)] agrees_def accumulate_head_def)

lemma agrees_choice:
  assumes "agrees st acc"
  shows "agrees (note_choice c st) (case get_str c ''finish_reason'' of
      Some r \<Rightarrow> acc\<lparr>na_finish_reason := Some r\<rparr> | None \<Rightarrow> acc)"
  using assms
  by (intro agrees_update [OF assms]; cases "get_str c ''finish_reason''")
    (simp_all add: note_choice_fields shown_same [OF note_choice_fields(1)] agrees_def)

lemma agrees_value:
  assumes "agrees st acc"
  shows "agrees (handle_value v st) (accumulate_value at v acc)"
proof (cases "first_choice v")
  case None
  then show ?thesis using agrees_head [OF assms] by (simp add: handle_value_def accumulate_value_def Let_def)
next
  case (Some c)
  note noted = agrees_choice [OF agrees_head [OF assms], of c v]
  show ?thesis
  proof (cases "Option.bind (json_get c ''delta'') as_object")
    case None
    then show ?thesis using noted Some
      by (simp add: handle_value_def accumulate_value_def handle_choice_def accumulate_choice_def Let_def)
  next
    case (Some delta)
    then show ?thesis using agrees_delta [OF noted, of delta at] \<open>first_choice v = Some c\<close>
      by (simp add: handle_value_def accumulate_value_def handle_choice_def accumulate_choice_def Let_def)
  qed
qed

lemma accumulate_accepts:
  assumes "accumulate parse at p acc = Inr acc'" and "trim p \<noteq> ''[DONE]''"
  obtains v where "parse p = Some v" "json_get v ''error'' = None" "acc' = accumulate_value at v acc"
  using assms
  by (cases "parse p") (auto simp: accumulate_def and_then_def ok_or_def split: if_split_asm)

lemma agrees_payloads:
  "try_fold (accumulate parse at) ps acc = Inr acc' \<Longrightarrow> \<forall>p \<in> set ps. trim p \<noteq> ''[DONE]'' \<Longrightarrow> agrees st acc \<Longrightarrow>
   agrees (fold (handle_payload parse sign order) ps st) acc'"
proof (induction ps arbitrary: st acc)
  case (Cons p ps)
  obtain acc1 where one: "accumulate parse at p acc = Inr acc1" and rest: "try_fold (accumulate parse at) ps acc1 = Inr acc'"
    using Cons.prems(1) by (auto simp: and_then_Inr)
  obtain v where v: "parse p = Some v" "json_get v ''error'' = None" "acc1 = accumulate_value at v acc"
    using one Cons.prems(2) by (auto elim!: accumulate_accepts)
  have "handle_payload parse sign order p st = handle_value v st" using Cons.prems(2) v by (simp add: handle_payload_def)
  then show ?case using Cons.IH [OF rest _ agrees_value [OF Cons.prems(3), of v at, folded v(3)]] Cons.prems(2) by simp
qed simp

text \<open>C9. Streaming and aggregating receive the same answer: after any events before \<open>[DONE]\<close> that
  the aggregation accepts, the text shown to a streaming client is the text of the aggregated answer,
  the reasoning is shown when the request exposes it and kept for the shadow otherwise, and for every
  call the arguments shown in its block, with those still held back, are the aggregated ones.\<close>

theorem streaming_matches_aggregation:
  assumes "try_fold (accumulate parse at) payloads new_accumulator = Inr acc"
    and "\<forall>p \<in> set payloads. trim p \<noteq> ''[DONE]''"
    and "st = fold (handle_payload parse sign order) payloads (new_stream request_id model expose server_names)"
  shows "shown_text st = na_text acc
    \<and> (if ss_expose st then shown_thinking st = na_reasoning acc
       else shown_thinking st = [] \<and> ss_shadow st = na_reasoning acc)
    \<and> (\<forall>k. received_input st k = aggregated_input acc k)
    \<and> dom (map_of (ss_tools st)) = dom (map_of (na_tools acc))
    \<and> ss_finish_reason st = na_finish_reason acc"
proof -
  have "agrees (new_stream request_id model expose server_names) new_accumulator"
    by (simp add: agrees_def new_stream_def new_accumulator_def calls_ok_def btree_ok_def shown_text_def
        shown_thinking_def shown_input_def received_input_def aggregated_input_def fun_eq_iff)
  then have "agrees st acc" unfolding assms(3) using assms(1,2) by (intro agrees_payloads)
  then show ?thesis by (simp add: agrees_def)
qed

definition sample_chunk :: json where
  "sample_chunk = JObj [(''choices'', JArr [JObj [(''delta'', JObj
     [(''reasoning_content'', JStr ''why''), (''content'', JStr ''hi''),
      (''tool_calls'', JArr [JObj [(''function'', JObj [(''name'', JStr ''f''), (''arguments'', JStr ''7'')])]])])]])]"

text \<open>One chunk with reasoning, text and a call, for a client that is not shown the reasoning.\<close>

lemma streaming_matches_aggregation_witness:
  "try_fold (accumulate (\<lambda>p. Some sample_chunk) 3) [''x''] new_accumulator
     = Inr (accumulate_value 3 sample_chunk new_accumulator)
   \<and> shown_text (fold (handle_payload (\<lambda>p. Some sample_chunk) (\<lambda>a b. []) (\<lambda>xs. xs)) [''x''] (new_stream [] [] False []))
     = ''hi''"
proof -
  have "accumulate (\<lambda>p. Some sample_chunk) 3 ''x'' new_accumulator = Inr (accumulate_value 3 sample_chunk new_accumulator)"
    by code_simp
  then have folded: "try_fold (accumulate (\<lambda>p. Some sample_chunk) 3) [''x''] new_accumulator
     = Inr (accumulate_value 3 sample_chunk new_accumulator)" by (simp add: and_then_def)
  have open_payload: "\<forall>p \<in> set [''x'']. trim p \<noteq> ''[DONE]''" by code_simp
  have words: "na_text (accumulate_value 3 sample_chunk new_accumulator) = ''hi''" by code_simp
  show ?thesis
    using streaming_matches_aggregation [OF folded open_payload refl, of "\<lambda>a b. []" "\<lambda>xs. xs" "[]" "[]" False "[]"] folded words
    by simp
qed

end
