(* ===== verification/Log_Writer.thy ===== *)
theory Log_Writer
  imports Web_Search Rust_Result
begin

text \<open>
  The bounded parts of \<open>src/obs.rs\<close>: the flight recorder of one request, the search counters, the log
  queue, and the rolling file writer with its quota. A directory is a map from file names to contents;
  what the file system answers (a file cannot be created, a write breaks off, a removal fails) is an
  argument. The buffer of the writer is not modelled: contents are what was handed to it. The summaries
  that are written, the console lines and the thread around the writer are not modelled.
\<close>

subsection \<open>Bounded records of one request\<close>

datatype flight_event_kind =
    EvAccepted | EvSystemNormalized | EvShadowRestored | EvOptimized | EvExactCountSkippedBusy
  | EvUpstreamSelected | EvUpstreamHeaders | EvAggregationStarted | EvFirstUpstreamEvent | EvFirstReasoning
  | EvFirstText | EvFirstToolCall | EvUsageObserved | EvStreamCommitted | EvUpstreamInterrupted
  | EvProtocolError | EvFailover | EvClientDisconnected

record flight_event =
  fe_at_ms :: nat
  fe_kind :: flight_event_kind

record flight_recorder =
  fr_events :: "flight_event list"
  fr_dropped :: nat

definition new_recorder :: flight_recorder where
  "new_recorder = \<lparr>fr_events = [], fr_dropped = 0\<rparr>"

definition record_event :: "nat \<Rightarrow> flight_event_kind \<Rightarrow> flight_recorder \<Rightarrow> flight_recorder" where
  "record_event at_ms kind r =
     (if 32 \<le> length (fr_events r) then r\<lparr>fr_dropped := min (fr_dropped r + 1) 255\<rparr>
      else r\<lparr>fr_events := fr_events r @ [\<lparr>fe_at_ms = min at_ms u32_max, fe_kind = kind\<rparr>]\<rparr>)"

definition into_parts :: "flight_recorder \<Rightarrow> flight_event list option \<times> nat" where
  "into_parts r = (if fr_events r = [] then None else Some (fr_events r), fr_dropped r)"

record web_search_stats =
  ws_searches :: nat
  ws_errors :: nat
  ws_results :: nat
  ws_ms :: nat

definition note_outcome :: "search_outcome \<Rightarrow> web_search_stats \<Rightarrow> web_search_stats" where
  "note_outcome outcome stats =
     (if so_error outcome \<noteq> None then stats\<lparr>ws_errors := sat_add64 (ws_errors stats) 1\<rparr>
      else stats\<lparr>ws_results := sat_add64 (ws_results stats) (length (so_results outcome))\<rparr>)"

definition record_outcomes :: "search_outcome list \<Rightarrow> nat \<Rightarrow> web_search_stats \<Rightarrow> web_search_stats" where
  "record_outcomes outcomes elapsed_ms stats =
     fold note_outcome outcomes
       (stats\<lparr>ws_searches := sat_add64 (ws_searches stats) (length outcomes),
              ws_ms := sat_add64 (ws_ms stats) elapsed_ms\<rparr>)"

text \<open>The queue between the requests and the writer: a full or closed queue drops the record.\<close>

definition QUEUE_CAPACITY :: nat where "QUEUE_CAPACITY = 8192"

record 'r log_sink =
  ls_queue :: "'r list"
  ls_open :: bool
  ls_emitted :: nat
  ls_dropped :: nat

definition emit_record :: "'r \<Rightarrow> 'r log_sink \<Rightarrow> 'r log_sink" where
  "emit_record r sink =
     (if ls_open sink \<and> length (ls_queue sink) < QUEUE_CAPACITY
      then sink\<lparr>ls_queue := ls_queue sink @ [r], ls_emitted := ls_emitted sink + 1\<rparr>
      else sink\<lparr>ls_dropped := ls_dropped sink + 1\<rparr>)"

subsection \<open>Segments\<close>

type_synonym directory = "string \<Rightarrow> string option"

record segment_meta =
  sm_name :: string
  sm_bytes :: nat

record file_writer =
  fw_max_file :: nat
  fw_max_total :: nat
  fw_cleanup_target :: nat
  fw_segments :: "segment_meta list"
  fw_total :: nat
  fw_open :: bool
  fw_active :: "string option"
  fw_degraded :: bool

datatype io_error = IndexOverflow | CreateFailed | WriterClosed | WriteFailed

text \<open>What the file system answers: which files can be created and removed, and after how many bytes a
  write breaks off.\<close>

record file_io =
  io_create :: "string \<Rightarrow> bool"
  io_remove :: "string \<Rightarrow> bool"
  io_breaks :: "nat option"

definition is_segment :: "string \<Rightarrow> bool" where
  "is_segment name \<longleftrightarrow> file_extension name = Some ''jsonl''"

definition segment_index :: "string \<Rightarrow> nat option" where
  "segment_index name =
     (if starts_with (file_stem name) ''events-''
      then parse_uint u32_max (drop (length ''events-'') (file_stem name)) else None)"

definition segment_name :: "nat \<Rightarrow> string" where
  "segment_name n =
     ''events-'' @ replicate (6 - length (show_nat n)) (CHR ''0'') @ show_nat n @ ''.jsonl''"

text \<open>\<open>scan\<close>: the segments in the order of their names; the limits are set by the caller. A listing
  names each file with its length.\<close>

definition scan_writer :: "(string \<times> nat) list \<Rightarrow> nat \<Rightarrow> file_writer" where
  "scan_writer listing max_file =
     (let segments = map (\<lambda>(name, bytes). \<lparr>sm_name = name, sm_bytes = bytes\<rparr>)
                       (sort_key fst (filter (\<lambda>(name, bytes). is_segment name) listing))
      in \<lparr>fw_max_file = max_file, fw_max_total = 0, fw_cleanup_target = 0, fw_segments = segments,
          fw_total = sum_list (map sm_bytes segments), fw_open = False, fw_active = None,
          fw_degraded = False\<rparr>)"

definition next_segment_index :: "segment_meta list \<Rightarrow> nat" where
  "next_segment_index segments =
     (case List.map_filter (\<lambda>s. segment_index (sm_name s)) segments of
        [] \<Rightarrow> 1
      | i # is \<Rightarrow> max (min (fold max is i + 1) u32_max) 1)"

text \<open>The loop of \<open>open_fresh_segment\<close>: None when it does not return.\<close>

partial_function (option) find_free ::
  "(string \<Rightarrow> bool) \<Rightarrow> directory \<Rightarrow> nat \<Rightarrow> (io_error + string) option" where
  "find_free can_create dir n =
     (if dir (segment_name n) = None
      then Some (if can_create (segment_name n) then Inr (segment_name n) else Inl CreateFailed)
      else if min (n + 1) u32_max = 0 then Some (Inl IndexOverflow)
      else find_free can_create dir (min (n + 1) u32_max))"

declare find_free.simps [code]

definition open_fresh_segment ::
  "file_io \<Rightarrow> file_writer \<times> directory \<Rightarrow> (io_error + file_writer \<times> directory) option" where
  "open_fresh_segment io = (\<lambda>(w, dir).
     (case find_free (io_create io) dir (next_segment_index (fw_segments w)) of
        None \<Rightarrow> None
      | Some (Inl e) \<Rightarrow> Some (Inl e)
      | Some (Inr name) \<Rightarrow>
          Some (Inr (w\<lparr>fw_segments := fw_segments w @ [\<lparr>sm_name = name, sm_bytes = 0\<rparr>], fw_open := True,
                       fw_active := Some name\<rparr>, dir(name := Some [])))))"

definition active_full :: "file_writer \<Rightarrow> bool" where
  "active_full w =
     (case fw_active w of
        None \<Rightarrow> False
      | Some name \<Rightarrow>
          (case find (\<lambda>s. sm_name s = name) (fw_segments w) of
             None \<Rightarrow> False | Some s \<Rightarrow> fw_max_file w \<le> sm_bytes s))"

text \<open>A rotation that fails leaves the writer closed; the state is returned beside the error.\<close>

definition rotate_if_needed ::
  "file_io \<Rightarrow> file_writer \<times> directory \<Rightarrow> (io_error option \<times> file_writer \<times> directory) option" where
  "rotate_if_needed io = (\<lambda>(w, dir).
     (if \<not> fw_open w \<or> active_full w
      then (let w1 = w\<lparr>fw_open := False, fw_active := None\<rparr> in
            case open_fresh_segment io (w1, dir) of
              None \<Rightarrow> None
            | Some (Inl e) \<Rightarrow> Some (Some e, w1, dir)
            | Some (Inr (w2, dir2)) \<Rightarrow> Some (None, w2, dir2))
      else Some (None, w, dir)))"

fun enforce_loop ::
  "(string \<Rightarrow> bool) \<Rightarrow> nat \<Rightarrow> nat \<Rightarrow> string option \<Rightarrow> segment_meta list \<Rightarrow> nat \<Rightarrow> directory
   \<Rightarrow> segment_meta list \<times> nat \<times> directory" where
  "enforce_loop can_remove max_total target current [] used dir = ([], used, dir)"
| "enforce_loop can_remove max_total target current (oldest # segments) used dir =
     (if used \<le> max_total \<or> current = Some (sm_name oldest) then (oldest # segments, used, dir)
      else
        (let used' = used - sm_bytes oldest;
             dir' = (if can_remove (sm_name oldest) then dir(sm_name oldest := None) else dir)
         in if used' \<le> target then (segments, used', dir')
            else enforce_loop can_remove max_total target current segments used' dir'))"

definition enforce_quota :: "file_io \<Rightarrow> file_writer \<times> directory \<Rightarrow> file_writer \<times> directory" where
  "enforce_quota io = (\<lambda>(w, dir).
     (case enforce_loop (io_remove io) (fw_max_total w) (fw_cleanup_target w) (fw_active w)
             (fw_segments w) (fw_total w) dir of
        (segments, used, dir') \<Rightarrow> (w\<lparr>fw_segments := segments, fw_total := used\<rparr>, dir')))"

text \<open>\<open>segments.back_mut()\<close>\<close>

definition grow_last :: "nat \<Rightarrow> segment_meta list \<Rightarrow> segment_meta list" where
  "grow_last n segments =
     (case rev segments of
        [] \<Rightarrow> []
      | s # older \<Rightarrow> rev older @ [s\<lparr>sm_bytes := sat_add64 (sm_bytes s) n\<rparr>])"

text \<open>The bytes reach the file behind the open writer, the active one.\<close>

definition append_active :: "string \<Rightarrow> file_writer \<Rightarrow> directory \<Rightarrow> directory" where
  "append_active bytes w dir =
     (case fw_active w of
        None \<Rightarrow> dir
      | Some name \<Rightarrow> (case dir name of None \<Rightarrow> dir | Some old \<Rightarrow> dir(name := Some (old @ bytes))))"

definition write_line :: "file_io \<Rightarrow> string \<Rightarrow> file_writer \<times> directory \<Rightarrow> (file_writer \<times> directory) option" where
  "write_line io bytes = (\<lambda>(w, dir).
     (if fw_degraded w then Some (w, dir)
      else case rotate_if_needed io (w, dir) of
          None \<Rightarrow> None
        | Some (Some e, w1, dir1) \<Rightarrow> Some (w1\<lparr>fw_degraded := True\<rparr>, dir1)
        | Some (None, w1, dir1) \<Rightarrow>
            (if \<not> fw_open w1 then Some (w1\<lparr>fw_degraded := True\<rparr>, dir1)
             else case io_breaks io of
                 Some n \<Rightarrow> Some (w1\<lparr>fw_degraded := True\<rparr>, append_active (take n (bytes @ [newline])) w1 dir1)
               | None \<Rightarrow>
                   Some (enforce_quota io
                     (w1\<lparr>fw_segments := grow_last (length bytes + 1) (fw_segments w1),
                         fw_total := sat_add64 (fw_total w1) (length bytes + 1)\<rparr>,
                      append_active (bytes @ [newline]) w1 dir1)))))"

record writer_config =
  wr_max_file_mb :: nat
  wr_max_total_mb :: nat
  wr_cleanup_percent :: nat

text \<open>\<open>spawn_writer\<close> up to the start of the thread.\<close>

definition open_writer ::
  "file_io \<Rightarrow> writer_config \<Rightarrow> (string \<times> nat) list \<Rightarrow> directory \<Rightarrow> (io_error + file_writer \<times> directory) option" where
  "open_writer io config listing dir =
     (case open_fresh_segment io (scan_writer listing (sat_mul64 (wr_max_file_mb config) (1024 * 1024)), dir) of
        None \<Rightarrow> None
      | Some (Inl e) \<Rightarrow> Some (Inl e)
      | Some (Inr (w, dir1)) \<Rightarrow>
          (let max_total = sat_mul64 (wr_max_total_mb config) (1024 * 1024);
               w1 = w\<lparr>fw_max_total := max_total,
                      fw_cleanup_target := sat_mul64 max_total (min (wr_cleanup_percent config) 100) div 100\<rparr>
           in Some (Inr (if fw_max_total w1 < fw_total w1 then enforce_quota io (w1, dir1) else (w1, dir1)))))"

text \<open>The lines a thread writes, each with the answers of the file system.\<close>

fun write_lines :: "(file_io \<times> string) list \<Rightarrow> file_writer \<times> directory \<Rightarrow> (file_writer \<times> directory) option" where
  "write_lines [] s = Some s"
| "write_lines ((io, bytes) # ops) s =
     (case write_line io bytes s of None \<Rightarrow> None | Some s' \<Rightarrow> write_lines ops s')"

subsection \<open>Names\<close>

lemma rposition_append:
  "\<forall>x \<in> set ys. \<not> P x \<Longrightarrow> P x \<Longrightarrow> rposition P (xs @ x # ys) = Some (length xs)"
proof (induction xs)
  case Nil
  then have "rposition P ys = None" by (simp add: rposition_None)
  with Nil show ?case by simp
qed simp

lemma digits_no_dot: "list_all is_digit s \<Longrightarrow> CHR ''.'' \<notin> set s"
  by (auto simp: list_all_iff is_digit_def byte_def)

text \<open>The number of a segment behind its zeros.\<close>

definition padded :: "nat \<Rightarrow> string" where
  "padded n = replicate (6 - length (show_nat n)) (CHR ''0'') @ show_nat n"

lemma padded_digits: "list_all is_digit (padded n) \<and> padded n \<noteq> []"
  using show_nat_digits [of n] by (auto simp: padded_def list_all_iff is_digit_def byte_def)

lemma digits_val_zeros: "digits_val 0 (replicate k (CHR ''0'') @ s) = digits_val 0 s"
  by (induction k) (simp_all add: digit_val_def byte_def)

lemma parse_padded: "n \<le> u32_max \<Longrightarrow> parse_uint u32_max (padded n) = Some n"
  using padded_digits [of n] parse_uint_digits [of "padded n" u32_max]
  by (simp add: padded_def digits_val_zeros digits_val_show_nat)

lemma segment_name_dot: "last_dot (segment_name n) = Some (7 + length (padded n))"
proof -
  have "segment_name n = (''events-'' @ padded n) @ CHR ''.'' # ''jsonl''"
    by (simp add: segment_name_def padded_def)
  then have "rposition (\<lambda>c. c = CHR ''.'') (segment_name n) = Some (length (''events-'' @ padded n))"
    by (simp only:) (rule rposition_append; simp)
  then show ?thesis by (simp add: last_dot_def)
qed

lemma segment_name_fields:
  "is_segment (segment_name n)" "n \<le> u32_max \<Longrightarrow> segment_index (segment_name n) = Some n"
proof -
  have eq: "segment_name n = (''events-'' @ padded n) @ ''.jsonl''"
    by (simp add: segment_name_def padded_def)
  show "is_segment (segment_name n)"
    unfolding is_segment_def file_extension_def segment_name_dot unfolding eq
    by (simp add: eval_nat_numeral)
  have "file_stem (segment_name n) = ''events-'' @ padded n"
    unfolding file_stem_def segment_name_dot unfolding eq by (simp add: eval_nat_numeral)
  then show "n \<le> u32_max \<Longrightarrow> segment_index (segment_name n) = Some n"
    by (simp add: segment_index_def starts_with_append parse_padded)
qed

lemma segment_index_le: "segment_index name = Some i \<Longrightarrow> i \<le> u32_max"
  by (auto simp: segment_index_def parse_uint_le split: if_split_asm)

lemma fold_max_ge: "j \<in> set (k # ks) \<Longrightarrow> j \<le> fold max ks (k :: nat)"
  by (simp only: Max.set_eq_fold [symmetric]) simp

lemma next_index_above:
  assumes "s \<in> set segments" and "segment_index (sm_name s) = Some i"
  shows "min (i + 1) u32_max \<le> next_segment_index segments"
proof -
  have i: "i \<in> set (List.map_filter (\<lambda>s. segment_index (sm_name s)) segments)"
    using assms by (force simp: List.map_filter_def)
  show ?thesis
  proof (cases "List.map_filter (\<lambda>s. segment_index (sm_name s)) segments")
    case (Cons k ks)
    then have "i \<le> fold max ks k" using i fold_max_ge [of i k ks] by simp
    then show ?thesis unfolding next_segment_index_def Cons by simp
  qed (use i in simp)
qed

lemma next_index_le: "next_segment_index segments \<le> u32_max"
  by (simp add: next_segment_index_def u32_max_def split: list.split)

subsection \<open>A fresh segment\<close>

lemma find_free_result:
  assumes "find_free can_create dir n = Some r" and "n \<le> u32_max"
  shows "\<exists>m \<ge> n. m \<le> u32_max \<and> dir (segment_name m) = None
    \<and> r = (if can_create (segment_name m) then Inr (segment_name m) else Inl CreateFailed)"
  using assms
proof (induction rule: find_free.raw_induct [rotated, consumes 1, case_names step])
  case (step f can_create dir n r)
  show ?case
  proof (cases "dir (segment_name n) = None")
    case True
    then show ?thesis using step(2,3) by (intro exI [of _ n]) (simp split: if_split_asm)
  next
    case False
    moreover have "min (n + 1) u32_max \<noteq> 0" by (simp add: u32_max_def)
    ultimately have "f can_create dir (min (n + 1) u32_max) = Some r" using step(2) by (simp split: if_split_asm)
    from step(1) [OF this] obtain m where m: "min (n + 1) u32_max \<le> m" "m \<le> u32_max"
      "dir (segment_name m) = None
       \<and> r = (if can_create (segment_name m) then Inr (segment_name m) else Inl CreateFailed)"
      by auto
    moreover have "n \<le> m" using m(1) step(3) by linarith
    ultimately show ?thesis by blast
  qed
qed

text \<open>Opening a fresh segment returns exactly when a number from the next one up to the largest is
  free; when none is, the loop runs for ever, the saturated number never becoming the zero it waits for.\<close>

theorem fresh_segment_returns_iff:
  assumes "n \<le> u32_max"
  shows "find_free can_create dir n \<noteq> None \<longleftrightarrow> (\<exists>m \<ge> n. m \<le> u32_max \<and> dir (segment_name m) = None)"
proof
  assume "\<exists>m \<ge> n. m \<le> u32_max \<and> dir (segment_name m) = None"
  then obtain m where "n \<le> m" "m \<le> u32_max" "dir (segment_name m) = None" by blast
  then show "find_free can_create dir n \<noteq> None"
  proof (induction "m - n" arbitrary: n)
    case (Suc d)
    then have "find_free can_create dir (min (n + 1) u32_max) \<noteq> None" by (intro Suc.hyps(1)) auto
    then show ?case by (subst find_free.simps) simp
  qed (subst find_free.simps; simp)
qed (use assms in \<open>auto dest!: find_free_result\<close>)

subsection \<open>The books\<close>

text \<open>What the writer knows of the directory: its segments with their lengths, and their sum.\<close>

definition segment_books :: "segment_meta list \<Rightarrow> nat \<Rightarrow> directory \<Rightarrow> bool" where
  "segment_books segments used dir \<longleftrightarrow>
     distinct (map sm_name segments) \<and> used = sum_list (map sm_bytes segments)
     \<and> (\<forall>s \<in> set segments. is_segment (sm_name s) \<and> map_option length (dir (sm_name s)) = Some (sm_bytes s))"

definition listed :: "segment_meta list \<Rightarrow> directory \<Rightarrow> bool" where
  "listed segments dir \<longleftrightarrow> (\<forall>name. is_segment name \<longrightarrow> dir name \<noteq> None \<longrightarrow> name \<in> sm_name ` set segments)"

lemma books_free: "segment_books segments used dir \<Longrightarrow> dir name = None \<Longrightarrow> name \<notin> sm_name ` set segments"
  by (auto simp: segment_books_def)

lemma books_snoc:
  assumes "segment_books segments used dir" and "dir name = None" and "is_segment name"
  shows "segment_books (segments @ [\<lparr>sm_name = name, sm_bytes = 0\<rparr>]) used (dir(name := Some []))"
  using assms books_free [OF assms(1,2)] by (auto simp: segment_books_def)

lemma books_grow:
  assumes "segment_books (older @ [s]) used dir" and "dir (sm_name s) = Some old" and "used + length bytes \<le> u64_max"
  shows "segment_books (older @ [s\<lparr>sm_bytes := sat_add64 (sm_bytes s) (length bytes)\<rparr>]) (sat_add64 used (length bytes))
    (dir(sm_name s := Some (old @ bytes)))"
proof -
  have "used = sum_list (map sm_bytes older) + sm_bytes s" using assms(1) by (simp add: segment_books_def)
  then have "sat_add64 (sm_bytes s) (length bytes) = sm_bytes s + length bytes"
    "sat_add64 used (length bytes) = used + length bytes"
    using assms(3) by (simp_all add: sat_add64_exact)
  moreover have "length old = sm_bytes s" using assms(1,2) by (simp add: segment_books_def)
  moreover have "\<forall>t \<in> set older. sm_name t \<noteq> sm_name s"
  proof -
    have "sm_name s \<notin> sm_name ` set older" using assms(1) by (simp add: segment_books_def)
    then show ?thesis by (metis image_eqI)
  qed
  ultimately show ?thesis using assms(1) by (auto simp: segment_books_def)
qed

lemma books_Cons:
  assumes "segment_books (s # segments) used dir"
  shows "\<forall>t \<in> set segments. sm_name t \<noteq> sm_name s" "is_segment (sm_name s)"
    "segment_books segments (used - sm_bytes s) dir" "segment_books segments (used - sm_bytes s) (dir(sm_name s := None))"
proof -
  have "sm_name s \<notin> sm_name ` set segments" using assms by (simp add: segment_books_def)
  then show other: "\<forall>t \<in> set segments. sm_name t \<noteq> sm_name s" by (metis image_eqI)
  then show "is_segment (sm_name s)" "segment_books segments (used - sm_bytes s) dir"
    "segment_books segments (used - sm_bytes s) (dir(sm_name s := None))"
    using assms by (simp_all add: segment_books_def)
qed

text \<open>What the quota does: it removes segments from the front, never the last one, until the sum fits
  or only the last is left.\<close>

lemma enforce_loop_spec:
  assumes "enforce_loop can_remove max_total target (Some (sm_name (last segments))) segments used dir = (segments', used', dir')"
    and "segments \<noteq> []" and "segment_books segments used dir" and "target \<le> max_total"
  shows "segment_books segments' used' dir' \<and> segments' \<noteq> [] \<and> last segments' = last segments
    \<and> used' \<le> used \<and> (used' \<le> max_total \<or> length segments' = 1)
    \<and> (\<forall>name. dir' name = dir name \<or> is_segment name \<and> name \<noteq> sm_name (last segments) \<and> dir' name = None)
    \<and> ((\<forall>name. can_remove name) \<longrightarrow> listed segments dir \<longrightarrow> listed segments' dir')"
  using assms
proof (induction segments arbitrary: used dir)
  case (Cons oldest segments)
  let ?current = "Some (sm_name (last (oldest # segments)))"
  show ?case
  proof (cases "used \<le> max_total \<or> ?current = Some (sm_name oldest)")
    case True
    have alone: "segments = []" if "?current = Some (sm_name oldest)"
    proof (rule ccontr)
      assume "segments \<noteq> []"
      then show False using that books_Cons(1) [OF Cons.prems(3)] last_in_set [of segments] by simp
    qed
    have same: "segments' = oldest # segments" "used' = used" "dir' = dir"
      using True Cons.prems(1) by (auto simp del: last.simps)
    have "used \<le> max_total \<or> segments = []" using True alone by blast
    then show ?thesis unfolding same using Cons.prems(3) by (auto simp del: last.simps)
  next
    case False
    define dir1 where "dir1 = (if can_remove (sm_name oldest) then dir(sm_name oldest := None) else dir)"
    have more: "segments \<noteq> []" "last (oldest # segments) = last segments"
      using False Cons.prems by (auto split: if_split_asm)
    have kept: "segment_books segments (used - sm_bytes oldest) dir1"
      using books_Cons(3,4) [OF Cons.prems(3)] by (simp add: dir1_def)
    have listed1: "(\<forall>name. can_remove name) \<longrightarrow> listed (oldest # segments) dir \<longrightarrow> listed segments dir1"
      by (auto simp: listed_def dir1_def)
    have dir1: "\<forall>name. dir1 name = dir name \<or> is_segment name \<and> name \<noteq> sm_name (last segments) \<and> dir1 name = None"
      using books_Cons(1,2) [OF Cons.prems(3)] last_in_set [OF more(1)] by (auto simp: dir1_def)
    show ?thesis
    proof (cases "used - sm_bytes oldest \<le> target")
      case True
      then have "segments' = segments" "used' = used - sm_bytes oldest" "dir' = dir1"
        using Cons.prems(1) False by (simp_all add: dir1_def Let_def)
      then show ?thesis using kept listed1 dir1 more True Cons.prems(4) by auto
    next
      case big: False
      then have "enforce_loop can_remove max_total target (Some (sm_name (last segments))) segments
          (used - sm_bytes oldest) dir1 = (segments', used', dir')"
        using Cons.prems(1) False more by (simp add: dir1_def Let_def)
      from Cons.IH [OF this more(1) kept Cons.prems(4)] show ?thesis
        using listed1 dir1 more(2) by (metis diff_le_self le_trans)
    qed
  qed
qed simp

text \<open>The cleanup watermark is never reached: any watermark below the quota does the same.\<close>

lemma watermark_never_reached:
  "target \<le> max_total \<Longrightarrow> target' \<le> max_total \<Longrightarrow>
     enforce_loop can_remove max_total target current segments used dir
       = enforce_loop can_remove max_total target' current segments used dir"
proof (induction segments arbitrary: used dir)
  case (Cons oldest segments)
  have stop: "enforce_loop can_remove max_total t current segments s d = (segments, s, d)" if "s \<le> max_total" for t s d
    using that by (cases segments) simp_all
  show ?case using Cons stop by (simp add: Let_def)
qed simp

subsection \<open>The writer\<close>

text \<open>What a run may do to the files it found: remove segments, nothing else.\<close>

definition kept :: "directory \<Rightarrow> directory \<Rightarrow> bool" where
  "kept dir0 dir \<longleftrightarrow>
     (\<forall>name content. dir0 name = Some content \<longrightarrow> dir name = Some content \<or> is_segment name \<and> dir name = None)"

definition unused_from :: "directory \<Rightarrow> nat \<Rightarrow> bool" where
  "unused_from dir0 k \<longleftrightarrow> k \<le> u32_max \<and> (\<forall>m. k \<le> m \<longrightarrow> m \<le> u32_max \<longrightarrow> dir0 (segment_name m) = None)"

text \<open>A writer at work: its books are right, and the file it appends to is one it has created.\<close>

definition at_work :: "directory \<Rightarrow> file_writer \<Rightarrow> directory \<Rightarrow> bool" where
  "at_work dir0 w dir \<longleftrightarrow>
     kept dir0 dir \<and> fw_open w \<and> segment_books (fw_segments w) (fw_total w) dir \<and> fw_segments w \<noteq> []
     \<and> fw_active w = Some (sm_name (last (fw_segments w)))
     \<and> (\<exists>k. sm_name (last (fw_segments w)) = segment_name k \<and> unused_from dir0 k)"

lemma opened_at_work:
  assumes "open_fresh_segment io (w, dir) = Some (Inr (w', dir'))"
    and "segment_books (fw_segments w) (fw_total w) dir" and "unused_from dir0 k"
    and "k \<le> next_segment_index (fw_segments w)" and "kept dir0 dir"
  shows "at_work dir0 w' dir' \<and> fw_total w' = fw_total w \<and> fw_max_total w' = fw_max_total w
    \<and> fw_cleanup_target w' = fw_cleanup_target w \<and> fw_degraded w' = fw_degraded w
    \<and> (listed (fw_segments w) dir \<longrightarrow> listed (fw_segments w') dir')"
proof -
  obtain name where found: "find_free (io_create io) dir (next_segment_index (fw_segments w)) = Some (Inr name)"
    and w': "w' = w\<lparr>fw_segments := fw_segments w @ [\<lparr>sm_name = name, sm_bytes = 0\<rparr>], fw_open := True, fw_active := Some name\<rparr>"
    and dir': "dir' = dir(name := Some [])"
    using assms(1) by (auto simp: open_fresh_segment_def split: option.splits sum.splits)
  obtain m where m: "next_segment_index (fw_segments w) \<le> m" "m \<le> u32_max" "dir name = None" "name = segment_name m"
    using find_free_result [OF found next_index_le] by (auto split: if_split_asm)
  have unused: "unused_from dir0 m" using assms(3,4) m(1,2) by (auto simp: unused_from_def)
  then have "dir0 name = None" using m by (simp add: unused_from_def)
  then have "kept dir0 dir'" using assms(5) by (auto simp: kept_def dir')
  moreover have "segment_books (fw_segments w') (fw_total w') dir'"
    using books_snoc [OF assms(2) m(3)] by (simp add: w' dir' m(4) segment_name_fields)
  ultimately show ?thesis using unused m(4) by (auto simp: at_work_def w' dir' listed_def)
qed

lemma rotated_at_work:
  assumes "rotate_if_needed io (w, dir) = Some (None, w', dir')" and "at_work dir0 w dir"
  shows "at_work dir0 w' dir' \<and> fw_total w' = fw_total w \<and> fw_max_total w' = fw_max_total w
    \<and> fw_cleanup_target w' = fw_cleanup_target w \<and> fw_degraded w' = fw_degraded w
    \<and> (listed (fw_segments w) dir \<longrightarrow> listed (fw_segments w') dir')"
proof (cases "\<not> fw_open w \<or> active_full w")
  case True
  let ?w1 = "w\<lparr>fw_open := False, fw_active := None\<rparr>"
  have opened: "open_fresh_segment io (?w1, dir) = Some (Inr (w', dir'))"
    using assms(1) True by (auto simp: rotate_if_needed_def Let_def split: option.splits sum.splits)
  obtain k where k: "sm_name (last (fw_segments w)) = segment_name k" "unused_from dir0 k"
    using assms(2) by (auto simp: at_work_def)
  have "k \<le> u32_max" using k(2) by (simp add: unused_from_def)
  then have "k \<le> next_segment_index (fw_segments w)"
    using next_index_above [of "last (fw_segments w)" "fw_segments w" k] segment_name_fields(2) [of k] assms(2) k(1)
    by (simp add: at_work_def)
  moreover have "segment_books (fw_segments ?w1) (fw_total ?w1) dir" "kept dir0 dir"
    using assms(2) by (simp_all add: at_work_def)
  ultimately show ?thesis using opened_at_work [OF opened _ k(2)] by simp
qed (use assms in \<open>auto simp: rotate_if_needed_def\<close>)

lemma rotate_keeps:
  assumes "rotate_if_needed io (w, dir) = Some (Some e, w', dir')"
  shows "dir' = dir"
  using assms by (auto simp: rotate_if_needed_def Let_def split: if_split_asm option.splits sum.splits)

lemma appended_keeps:
  assumes "at_work dir0 w dir"
  shows "kept dir0 (append_active bytes w dir)"
proof -
  have "dir0 (sm_name (last (fw_segments w))) = None"
    using assms by (auto simp: at_work_def unused_from_def)
  then show ?thesis using assms
    by (auto simp: at_work_def append_active_def kept_def split: option.splits)
qed

lemma line_at_work:
  assumes "at_work dir0 w dir" and "fw_total w + length bytes \<le> u64_max"
    and "w1 = w\<lparr>fw_segments := grow_last (length bytes) (fw_segments w), fw_total := sat_add64 (fw_total w) (length bytes)\<rparr>"
    and "dir1 = append_active bytes w dir"
  shows "at_work dir0 w1 dir1" and "fw_total w1 = fw_total w + length bytes"
    and "listed (fw_segments w) dir \<Longrightarrow> listed (fw_segments w1) dir1"
    and "\<exists>old. dir1 (sm_name (last (fw_segments w1))) = Some (old @ bytes)"
proof -
  obtain older s where s: "fw_segments w = older @ [s]"
    using assms(1) by (auto simp: at_work_def) (metis append_butlast_last_id)
  have active: "fw_active w = Some (sm_name s)" "segment_books (older @ [s]) (fw_total w) dir"
    using assms(1) by (simp_all add: at_work_def s)
  then obtain old where old: "dir (sm_name s) = Some old" by (auto simp: segment_books_def)
  let ?s = "s\<lparr>sm_bytes := sat_add64 (sm_bytes s) (length bytes)\<rparr>"
  have new: "fw_segments w1 = older @ [?s]" "dir1 = dir(sm_name s := Some (old @ bytes))"
    using active(1) old by (simp_all add: assms(3,4) s grow_last_def append_active_def)
  show total: "fw_total w1 = fw_total w + length bytes" using assms(2) by (simp add: assms(3) sat_add64_exact)
  have "segment_books (fw_segments w1) (fw_total w1) dir1"
    using books_grow [OF active(2) old assms(2)] unfolding new by (simp add: assms(3))
  then show "at_work dir0 w1 dir1"
    using assms(1) appended_keeps [OF assms(1), of bytes] by (simp add: at_work_def new(1) s) (simp add: assms(3,4))
  show "listed (fw_segments w) dir \<Longrightarrow> listed (fw_segments w1) dir1"
    by (auto simp: listed_def new s)
  show "\<exists>old. dir1 (sm_name (last (fw_segments w1))) = Some (old @ bytes)" by (simp add: new)
qed

text \<open>The invariant of a run; \<open>removes\<close> says that every removal succeeded.\<close>

definition within_quota :: "file_writer \<Rightarrow> bool" where
  "within_quota w \<longleftrightarrow> fw_total w \<le> fw_max_total w \<or> length (fw_segments w) = 1"

definition writer_ok :: "directory \<Rightarrow> bool \<Rightarrow> file_writer \<times> directory \<Rightarrow> bool" where
  "writer_ok dir0 removes = (\<lambda>(w, dir).
     kept dir0 dir \<and> fw_cleanup_target w \<le> fw_max_total w
     \<and> (\<not> fw_degraded w \<longrightarrow>
          at_work dir0 w dir \<and> within_quota w \<and> (removes \<longrightarrow> listed (fw_segments w) dir)))"

lemma enforced_at_work:
  assumes "enforce_quota io (w, dir) = (w', dir')" and "at_work dir0 w dir"
    and "fw_cleanup_target w \<le> fw_max_total w"
  shows "at_work dir0 w' dir'" and "within_quota w'" and "fw_total w' \<le> fw_total w"
    and "last (fw_segments w') = last (fw_segments w)"
    and "dir' (sm_name (last (fw_segments w))) = dir (sm_name (last (fw_segments w)))"
    and "(\<forall>name. io_remove io name) \<Longrightarrow> listed (fw_segments w) dir \<Longrightarrow> listed (fw_segments w') dir'"
proof -
  obtain segments' used' where loop: "enforce_loop (io_remove io) (fw_max_total w) (fw_cleanup_target w)
      (Some (sm_name (last (fw_segments w)))) (fw_segments w) (fw_total w) dir = (segments', used', dir')"
    and w': "w' = w\<lparr>fw_segments := segments', fw_total := used'\<rparr>"
    using assms(1,2) by (auto simp: enforce_quota_def at_work_def split: prod.splits)
  note spec = enforce_loop_spec [OF loop _ _ assms(3)]
  have facts: "fw_segments w \<noteq> []" "segment_books (fw_segments w) (fw_total w) dir" "kept dir0 dir"
    using assms(2) by (simp_all add: at_work_def)
  have same: "last segments' = last (fw_segments w)" "segments' \<noteq> []" "segment_books segments' used' dir'"
    using spec [OF facts(1,2)] by simp_all
  have "kept dir0 dir'" using spec [OF facts(1,2)] facts(3) unfolding kept_def by metis
  then show "at_work dir0 w' dir'" using assms(2) same by (simp add: at_work_def w')
  show "within_quota w'" "fw_total w' \<le> fw_total w" "last (fw_segments w') = last (fw_segments w)"
    using spec [OF facts(1,2)] by (simp_all add: within_quota_def w')
  show "dir' (sm_name (last (fw_segments w))) = dir (sm_name (last (fw_segments w)))"
    using spec [OF facts(1,2)] by blast
  show "(\<forall>name. io_remove io name) \<Longrightarrow> listed (fw_segments w) dir \<Longrightarrow> listed (fw_segments w') dir'"
    using spec [OF facts(1,2)] by (simp add: w')
qed

lemma write_line_ok:
  assumes "write_line io bytes (w, dir) = Some (w', dir')" and "writer_ok dir0 removes (w, dir)"
    and "removes \<longrightarrow> (\<forall>name. io_remove io name)" and "fw_total w + (length bytes + 1) \<le> u64_max"
  shows "writer_ok dir0 removes (w', dir')"
    and "\<not> fw_degraded w' \<Longrightarrow> \<not> fw_degraded w \<and> fw_total w' \<le> fw_total w + (length bytes + 1)
      \<and> (\<exists>old. dir' (sm_name (last (fw_segments w'))) = Some (old @ bytes @ [newline]))"
proof -
  have "writer_ok dir0 removes (w', dir') \<and> (\<not> fw_degraded w' \<longrightarrow> \<not> fw_degraded w
      \<and> fw_total w' \<le> fw_total w + (length bytes + 1)
      \<and> (\<exists>old. dir' (sm_name (last (fw_segments w'))) = Some (old @ bytes @ [newline])))"
  proof (cases "fw_degraded w")
    case True
    then show ?thesis using assms by (simp add: write_line_def)
  next
    case False
    then have work: "at_work dir0 w dir" and target: "fw_cleanup_target w \<le> fw_max_total w"
      and lists: "removes \<longrightarrow> listed (fw_segments w) dir"
      using assms(2) by (simp_all add: writer_ok_def)
    obtain err w1 dir1 where rotate: "rotate_if_needed io (w, dir) = Some (err, w1, dir1)"
      using assms(1) False by (auto simp: write_line_def split: option.splits)
    show ?thesis
    proof (cases err)
      case (Some e)
      have "dir1 = dir" using rotate_keeps rotate Some by blast
      moreover have "fw_cleanup_target w1 = fw_cleanup_target w" "fw_max_total w1 = fw_max_total w"
        using rotate Some by (auto simp: rotate_if_needed_def Let_def split: if_split_asm option.splits sum.splits)
      ultimately show ?thesis
        using assms(1,2) False rotate Some by (auto simp: write_line_def writer_ok_def)
    next
      case None
      note rotated = rotated_at_work [OF rotate [unfolded None] work]
      then have rwork: "at_work dir0 w1 dir1" and rsame: "fw_total w1 = fw_total w"
        "fw_cleanup_target w1 \<le> fw_max_total w1" "removes \<longrightarrow> listed (fw_segments w1) dir1" "\<not> fw_degraded w1"
        using target lists False by simp_all
      have open1: "fw_open w1" using rwork by (simp add: at_work_def)
      show ?thesis
      proof (cases "io_breaks io")
        case (Some n)
        then show ?thesis using assms(1) False rotate None open1 rsame(2) appended_keeps [OF rwork]
          by (auto simp: write_line_def writer_ok_def)
      next
        case noBreak: None
        let ?line = "bytes @ [newline]"
        define w2 where "w2 = w1\<lparr>fw_segments := grow_last (length ?line) (fw_segments w1),
          fw_total := sat_add64 (fw_total w1) (length ?line)\<rparr>"
        define dir2 where "dir2 = append_active ?line w1 dir1"
        have step: "enforce_quota io (w2, dir2) = (w', dir')"
          using assms(1) False rotate None open1 noBreak by (simp add: write_line_def w2_def dir2_def)
        have fits: "fw_total w1 + length ?line \<le> u64_max" using assms(4) rsame(1) by simp
        note grown = line_at_work [OF rwork fits w2_def dir2_def]
        have target2: "fw_cleanup_target w2 \<le> fw_max_total w2" using rsame(2) by (simp add: w2_def)
        note done_ = enforced_at_work [OF step grown(1) target2]
        have fields: "fw_cleanup_target w' \<le> fw_max_total w'" "\<not> fw_degraded w'"
          using step target2 rsame(4) by (auto simp: enforce_quota_def w2_def split: prod.splits)
        have "removes \<longrightarrow> listed (fw_segments w') dir'"
          using done_(6) grown(3) rsame(3) assms(3) by blast
        moreover have "\<exists>old. dir' (sm_name (last (fw_segments w'))) = Some (old @ bytes @ [newline])"
          using grown(4) done_(4,5) by simp
        moreover have "fw_total w' \<le> fw_total w + (length bytes + 1)"
          using done_(3) grown(2) rsame(1) by simp
        ultimately show ?thesis
          using done_(1,2) fields False by (simp add: writer_ok_def) (simp add: at_work_def)
      qed
    qed
  qed
  then show "writer_ok dir0 removes (w', dir')"
    "\<not> fw_degraded w' \<Longrightarrow> \<not> fw_degraded w \<and> fw_total w' \<le> fw_total w + (length bytes + 1)
      \<and> (\<exists>old. dir' (sm_name (last (fw_segments w'))) = Some (old @ bytes @ [newline]))"
    by simp_all
qed

lemma write_line_limit:
  assumes "write_line io bytes (w, dir) = Some (w', dir')"
  shows "fw_max_total w' = fw_max_total w"
  using assms
  by (auto simp: write_line_def rotate_if_needed_def open_fresh_segment_def enforce_quota_def Let_def
      split: if_split_asm option.splits sum.splits prod.splits)

lemma write_lines_ok:
  assumes "write_lines ops (w, dir) = Some (w', dir')" and "writer_ok dir0 removes (w, dir)"
    and "removes \<longrightarrow> (\<forall>op \<in> set ops. \<forall>name. io_remove (fst op) name)"
    and "\<not> fw_degraded w \<Longrightarrow> fw_total w + sum_list (map (\<lambda>op. length (snd op) + 1) ops) \<le> u64_max"
  shows "writer_ok dir0 removes (w', dir') \<and> fw_max_total w' = fw_max_total w"
  using assms
proof (induction ops arbitrary: w dir)
  case (Cons op ops)
  obtain io bytes where op: "op = (io, bytes)" by (cases op)
  obtain w1 dir1 where one: "write_line io bytes (w, dir) = Some (w1, dir1)"
    and rest: "write_lines ops (w1, dir1) = Some (w', dir')"
    using Cons.prems(1) by (auto simp: op split: option.splits)
  show ?case
  proof (cases "fw_degraded w")
    case True
    then have "w1 = w" "dir1 = dir" using one by (simp_all add: write_line_def)
    then show ?thesis using Cons.IH [OF rest] Cons.prems(2,3) True by simp
  next
    case False
    then have fits: "fw_total w + (length bytes + 1) \<le> u64_max"
      and removes: "removes \<longrightarrow> (\<forall>name. io_remove io name)"
      using Cons.prems(3,4) by (simp_all add: op)
    note ok = write_line_ok [OF one Cons.prems(2) removes fits]
    have "fw_total w1 + sum_list (map (\<lambda>op. length (snd op) + 1) ops) \<le> u64_max" if "\<not> fw_degraded w1"
      using ok(2) [OF that] Cons.prems(4) False by (simp add: op)
    then show ?thesis using Cons.IH [OF rest ok(1)] Cons.prems(3) write_line_limit [OF one] by simp
  qed
qed simp

lemma sum_list_sort: "sum_list (map f (sort_key k xs)) = (sum_list (map f xs) :: nat)"
proof -
  have "sum_list (map f (insort_key k x ys)) = f x + sum_list (map f ys)" for x ys
    by (induction ys) simp_all
  then show ?thesis by (induction xs) simp_all
qed

lemma scan_books:
  assumes "distinct (map fst listing)" and "\<forall>name. map_of listing name = map_option length (dir name)"
  shows "segment_books (fw_segments (scan_writer listing max_file)) (fw_total (scan_writer listing max_file)) dir"
    and "listed (fw_segments (scan_writer listing max_file)) dir"
    and "fw_total (scan_writer listing max_file) \<le> sum_list (map snd listing)"
proof -
  let ?found = "filter (\<lambda>(name, bytes). is_segment name) listing"
  let ?sorted = "sort_key fst ?found"
  have segments: "fw_segments (scan_writer listing max_file) = map (\<lambda>(name, bytes). \<lparr>sm_name = name, sm_bytes = bytes\<rparr>) ?sorted"
    by (simp add: scan_writer_def Let_def)
  have named: "map sm_name (fw_segments (scan_writer listing max_file)) = map fst ?sorted"
    by (simp add: segments comp_def case_prod_beta)
  have entries: "(name, bytes) \<in> set listing \<longleftrightarrow> map_option length (dir name) = Some bytes" for name bytes
    using assms by (metis map_of_eq_Some_iff)
  have "distinct (map fst ?found)" using assms(1) by (rule distinct_map_filter)
  then have "distinct (map fst ?sorted)" by (simp add: distinct_map)
  then show "segment_books (fw_segments (scan_writer listing max_file)) (fw_total (scan_writer listing max_file)) dir"
    using entries unfolding segment_books_def named by (auto simp: segments) (auto simp: scan_writer_def Let_def)
  show "listed (fw_segments (scan_writer listing max_file)) dir"
  proof (unfold listed_def, intro allI impI)
    fix name assume "is_segment name" "dir name \<noteq> None"
    then obtain bytes where "(name, bytes) \<in> set ?sorted" using entries by auto
    then show "name \<in> sm_name ` set (fw_segments (scan_writer listing max_file))" by (force simp: segments)
  qed
  have "fw_total (scan_writer listing max_file) = sum_list (map snd ?sorted)"
    by (simp add: scan_writer_def Let_def comp_def case_prod_beta)
  also have "\<dots> = sum_list (map snd ?found)"
    by (rule sum_list_sort)
  also have "\<dots> \<le> sum_list (map snd listing)" by (induction listing) auto
  finally show "fw_total (scan_writer listing max_file) \<le> sum_list (map snd listing)" .
qed

lemma scan_unused:
  assumes "listed segments dir" and "find_free can_create dir (next_segment_index segments) = Some (Inr name)"
  shows "unused_from dir (next_segment_index segments)"
  unfolding unused_from_def
proof (intro conjI allI impI)
  show "next_segment_index segments \<le> u32_max" by (rule next_index_le)
  fix m assume m: "next_segment_index segments \<le> m" "m \<le> u32_max"
  show "dir (segment_name m) = None"
  proof (rule ccontr)
    assume used: "dir (segment_name m) \<noteq> None"
    then have "segment_name m \<in> sm_name ` set segments"
      using assms(1) segment_name_fields(1) by (simp add: listed_def)
    then obtain s where "s \<in> set segments" "sm_name s = segment_name m" by auto
    then have "min (m + 1) u32_max \<le> next_segment_index segments"
      using next_index_above segment_name_fields(2) [OF m(2)] by metis
    then have "next_segment_index segments = m" "m = u32_max" using m by auto
    then show False using find_free_result [OF assms(2) next_index_le] used by (auto split: if_split_asm)
  qed
qed

lemma opened_ok:
  assumes "distinct (map fst listing)" and "\<forall>name. map_of listing name = map_option length (dir0 name)"
    and "open_writer io config listing dir0 = Some (Inr (w, dir))"
    and "removes \<longrightarrow> (\<forall>name. io_remove io name)"
  shows "writer_ok dir0 removes (w, dir)" and "fw_total w \<le> sum_list (map snd listing)"
    and "fw_max_total w = sat_mul64 (wr_max_total_mb config) (1024 * 1024)"
proof -
  let ?w0 = "scan_writer listing (sat_mul64 (wr_max_file_mb config) (1024 * 1024))"
  let ?max = "sat_mul64 (wr_max_total_mb config) (1024 * 1024)"
  note scan = scan_books [OF assms(1,2), of "sat_mul64 (wr_max_file_mb config) (1024 * 1024)"]
  obtain w1 dir1 where opened: "open_fresh_segment io (?w0, dir0) = Some (Inr (w1, dir1))"
    using assms(3) by (auto simp: open_writer_def split: option.splits sum.splits)
  then obtain name where "find_free (io_create io) dir0 (next_segment_index (fw_segments ?w0)) = Some (Inr name)"
    by (auto simp: open_fresh_segment_def split: option.splits sum.splits)
  then have unused: "unused_from dir0 (next_segment_index (fw_segments ?w0))" using scan_unused scan(2) by blast
  note fresh = opened_at_work [OF opened scan(1) unused order_refl]
  define w2 where "w2 = w1\<lparr>fw_max_total := ?max, fw_cleanup_target := sat_mul64 ?max (min (wr_cleanup_percent config) 100) div 100\<rparr>"
  have "at_work dir0 w1 dir1" using fresh by (simp add: kept_def)
  then have work: "at_work dir0 w2 dir1" by (simp add: w2_def at_work_def)
  have "sat_mul64 ?max (min (wr_cleanup_percent config) 100) \<le> ?max * 100"
    by (simp add: sat_mul64_def min.coboundedI1)
  then have target: "fw_cleanup_target w2 \<le> fw_max_total w2" unfolding w2_def by simp
  have rest: "fw_total w2 \<le> sum_list (map snd listing)" "\<not> fw_degraded w2" "removes \<longrightarrow> listed (fw_segments w2) dir1"
    using fresh scan(2,3) by (simp_all add: w2_def kept_def) (simp add: scan_writer_def Let_def)
  have result: "(w, dir) = (if fw_max_total w2 < fw_total w2 then enforce_quota io (w2, dir1) else (w2, dir1))"
    using assms(3) opened by (simp add: open_writer_def w2_def Let_def split: if_split_asm)
  have "writer_ok dir0 removes (w, dir) \<and> fw_total w \<le> sum_list (map snd listing) \<and> fw_max_total w = ?max"
  proof (cases "fw_max_total w2 < fw_total w2")
    case True
    then have step: "enforce_quota io (w2, dir1) = (w, dir)" using result by simp
    then have "fw_cleanup_target w = fw_cleanup_target w2 \<and> fw_max_total w = ?max \<and> fw_degraded w = fw_degraded w2"
      by (auto simp: enforce_quota_def w2_def split: prod.splits)
    then show ?thesis using enforced_at_work [OF step work target] rest target assms(4)
      by (simp add: writer_ok_def at_work_def w2_def)
  next
    case False
    then have "w = w2" "dir = dir1" using result by simp_all
    moreover have "fw_max_total w2 = ?max" by (simp add: w2_def)
    ultimately show ?thesis using False work target rest
      by (simp add: writer_ok_def within_quota_def at_work_def)
  qed
  then show "writer_ok dir0 removes (w, dir)" "fw_total w \<le> sum_list (map snd listing)" "fw_max_total w = ?max"
    by simp_all
qed

definition directory_usage :: "directory \<Rightarrow> string list \<Rightarrow> nat" where
  "directory_usage dir files = sum_list (map (\<lambda>name. case dir name of None \<Rightarrow> 0 | Some content \<Rightarrow> length content) files)"

text \<open>The log stays within its quota and touches no file but its own. From any directory, whatever
  lines are written and whichever operations of the file system fail: a file that was there is either
  as it was or, if it is a segment, removed; and while no write has failed the segments on disk (all of
  them, when every removal succeeded) use no more than the configured total, or only the current
  segment is left.\<close>

theorem log_writer_contained:
  assumes "distinct (map fst listing)" and "\<forall>name. map_of listing name = map_option length (dir0 name)"
    and "open_writer io config listing dir0 = Some (Inr start)" and "write_lines ops start = Some (w, dir)"
    and "sum_list (map snd listing) + sum_list (map (\<lambda>op. length (snd op) + 1) ops) \<le> u64_max"
  shows "(\<forall>name content. dir0 name = Some content \<longrightarrow> dir name = Some content \<or> is_segment name \<and> dir name = None)
    \<and> (\<not> fw_degraded w \<longrightarrow> (\<exists>files. distinct files
         \<and> ((\<forall>name. io_remove io name) \<and> (\<forall>op \<in> set ops. \<forall>name. io_remove (fst op) name) \<longrightarrow>
              (\<forall>name. is_segment name \<and> dir name \<noteq> None \<longrightarrow> name \<in> set files))
         \<and> (directory_usage dir files \<le> sat_mul64 (wr_max_total_mb config) (1024 * 1024) \<or> length files = 1)))"
proof -
  obtain w0 dir1 where start: "start = (w0, dir1)" by (cases start)
  define removes where "removes \<longleftrightarrow> (\<forall>name. io_remove io name) \<and> (\<forall>op \<in> set ops. \<forall>name. io_remove (fst op) name)"
  have "removes \<longrightarrow> (\<forall>name. io_remove io name)" "removes \<longrightarrow> (\<forall>op \<in> set ops. \<forall>name. io_remove (fst op) name)"
    by (simp_all add: removes_def)
  note opened = opened_ok [OF assms(1,2) assms(3) [unfolded start] this(1)]
  have "writer_ok dir0 removes (w, dir) \<and> fw_max_total w = fw_max_total w0"
    using write_lines_ok [OF assms(4) [unfolded start] opened(1)] opened(2) assms(5)
      \<open>removes \<longrightarrow> (\<forall>op \<in> set ops. _ op)\<close> by simp
  then have ok: "writer_ok dir0 removes (w, dir)" and limit: "fw_max_total w = sat_mul64 (wr_max_total_mb config) (1024 * 1024)"
    using opened(3) by simp_all
  have "directory_usage dir (map sm_name (fw_segments w)) = fw_total w" if "segment_books (fw_segments w) (fw_total w) dir"
  proof -
    have "map (\<lambda>s. case dir (sm_name s) of None \<Rightarrow> 0 | Some content \<Rightarrow> length content) (fw_segments w)
        = map sm_bytes (fw_segments w)" using that by (auto simp: segment_books_def)
    then have "directory_usage dir (map sm_name (fw_segments w)) = sum_list (map sm_bytes (fw_segments w))"
      unfolding directory_usage_def map_map comp_def by (rule arg_cong)
    then show ?thesis using that by (simp add: segment_books_def)
  qed
  then show ?thesis using ok limit
    by (auto simp: writer_ok_def kept_def at_work_def within_quota_def listed_def segment_books_def removes_def
        intro!: exI [of _ "map sm_name (fw_segments w)"])
qed

definition demo_io :: file_io where
  "demo_io = \<lparr>io_create = (\<lambda>name. True), io_remove = (\<lambda>name. True), io_breaks = None\<rparr>"

definition demo_log_config :: writer_config where
  "demo_log_config = \<lparr>wr_max_file_mb = 1, wr_max_total_mb = 0, wr_cleanup_percent = 85\<rparr>"

definition demo_listing :: "(string \<times> nat) list" where
  "demo_listing = [(''events-000007.jsonl'', 3), (''notes.txt'', 2)]"

definition demo_directory :: directory where
  "demo_directory = [''events-000007.jsonl'' \<mapsto> ''abc'', ''notes.txt'' \<mapsto> ''hi'']"

text \<open>With no quota at all the old segment goes when the writer opens, the new one stays.\<close>

lemma demo_scan:
  "fw_segments (scan_writer demo_listing n) = [\<lparr>sm_name = ''events-000007.jsonl'', sm_bytes = 3\<rparr>]"
  "fw_total (scan_writer demo_listing n) = 3"
  by (simp_all add: scan_writer_def demo_listing_def is_segment_def file_extension_def last_dot_def)

lemma demo_next: "next_segment_index [\<lparr>sm_name = ''events-000007.jsonl'', sm_bytes = 3\<rparr>] = 8"
  by (simp add: next_segment_index_def List.map_filter_def segment_index_def file_stem_def last_dot_def rust_simps)

lemma demo_free: "find_free (\<lambda>name. True) demo_directory 8 = Some (Inr (segment_name 8))"
proof -
  have "demo_directory (segment_name 8) = None" by code_simp
  then show ?thesis by (subst find_free.simps) simp
qed

lemma demo_log_runs:
  obtains start w dir where "open_writer demo_io demo_log_config demo_listing demo_directory = Some (Inr start)"
    and "write_lines [(demo_io, ''x'')] start = Some (w, dir)" and "\<not> fw_degraded w"
proof -
  have "\<exists>start w dir. open_writer demo_io demo_log_config demo_listing demo_directory = Some (Inr start)
      \<and> write_lines [(demo_io, ''x'')] start = Some (w, dir) \<and> \<not> fw_degraded w"
    by (simp add: open_writer_def open_fresh_segment_def demo_scan demo_next demo_free demo_io_def demo_log_config_def
        sat_mul64_def enforce_quota_def write_line_def rotate_if_needed_def active_full_def u64_max_def Let_def
        grow_last_def) (simp add: scan_writer_def Let_def)
  then show thesis using that by blast
qed

lemma log_writer_contained_witness:
  "\<exists>start w dir. open_writer demo_io demo_log_config demo_listing demo_directory = Some (Inr start)
     \<and> write_lines [(demo_io, ''x'')] start = Some (w, dir)
     \<and> (\<exists>files. distinct files \<and> (\<forall>name. is_segment name \<and> dir name \<noteq> None \<longrightarrow> name \<in> set files)
          \<and> (directory_usage dir files = 0 \<or> length files = 1))"
proof -
  obtain start w dir where run: "open_writer demo_io demo_log_config demo_listing demo_directory = Some (Inr start)"
    "write_lines [(demo_io, ''x'')] start = Some (w, dir)" "\<not> fw_degraded w" by (rule demo_log_runs)
  have listing: "distinct (map fst demo_listing)" "\<forall>name. map_of demo_listing name = map_option length (demo_directory name)"
    by (simp_all add: demo_listing_def demo_directory_def)
  have "sum_list (map snd demo_listing) + sum_list (map (\<lambda>op. length (snd op) + 1) [(demo_io, ''x'')]) \<le> u64_max"
    by (simp add: demo_listing_def u64_max_def)
  from log_writer_contained [OF listing run(1,2) this] show ?thesis
    using run by (fastforce simp: demo_io_def demo_log_config_def sat_mul64_def)
qed

lemma fresh_segment_returns_iff_witness: "find_free (\<lambda>name. True) (\<lambda>name. None) 1 \<noteq> None"
  using fresh_segment_returns_iff [of 1 "\<lambda>name. True" "\<lambda>name. None"] by (auto simp: u32_max_def)

text \<open>A segment with the largest number makes the next start hang.\<close>

lemma last_number_hangs:
  "next_segment_index [\<lparr>sm_name = segment_name u32_max, sm_bytes = 0\<rparr>] = u32_max"
  "dir (segment_name u32_max) \<noteq> None \<Longrightarrow> find_free can_create dir u32_max = None"
proof -
  show "next_segment_index [\<lparr>sm_name = segment_name u32_max, sm_bytes = 0\<rparr>] = u32_max"
    by (simp add: next_segment_index_def List.map_filter_def segment_name_fields(2) u32_max_def)
  assume "dir (segment_name u32_max) \<noteq> None"
  then show "find_free can_create dir u32_max = None"
    using find_free_result [of can_create dir u32_max] by (cases "find_free can_create dir u32_max") auto
qed

subsection \<open>Bounded records\<close>

lemma flight_recorder_capped:
  "length (fr_events (fold (\<lambda>(at_ms, kind). record_event at_ms kind) es new_recorder)) = min (length es) 32
   \<and> fr_dropped (fold (\<lambda>(at_ms, kind). record_event at_ms kind) es new_recorder) = min (length es - 32) 255"
proof (induction es rule: rev_induct)
  case (snoc e es)
  then show ?case by (cases e) (auto simp: record_event_def)
qed (simp add: new_recorder_def)

lemma queue_capped:
  "length (ls_queue sink) \<le> QUEUE_CAPACITY \<Longrightarrow>
     length (ls_queue (emit_record r sink)) \<le> QUEUE_CAPACITY
     \<and> ls_emitted (emit_record r sink) + ls_dropped (emit_record r sink) = ls_emitted sink + ls_dropped sink + 1"
  by (simp add: emit_record_def)

end
