(* ===== verification/Http_Types.thy ===== *)
theory Http_Types
  imports Json_Value Rust_Result
begin

text \<open>
  Requests, responses and header maps as the gateway uses them. A header map lists its names in lower
  case with their values; \<open>he_text\<close> and \<open>he_valid\<close> stand for \<open>HeaderValue::to_str\<close> and
  \<open>HeaderValue::try_from\<close>, \<open>he_name\<close> for \<open>HeaderName::try_from\<close>, of the \<open>http\<close> crate.
\<close>

type_synonym headers = "(string \<times> string) list"

record http_env =
  he_text :: "string \<Rightarrow> string option"
  he_valid :: "string \<Rightarrow> bool"
  he_name :: "string \<Rightarrow> string option"

definition header_get :: "string \<Rightarrow> headers \<Rightarrow> string option" where
  "header_get name h = map_of h name"

definition header_insert :: "string \<Rightarrow> string \<Rightarrow> headers \<Rightarrow> headers" where
  "header_insert name v h = filter (\<lambda>(n, _). n \<noteq> name) h @ [(name, v)]"

text \<open>A value that is no header value is left out.\<close>

definition header_try_insert :: "http_env \<Rightarrow> string \<Rightarrow> string \<Rightarrow> headers \<Rightarrow> headers" where
  "header_try_insert env name v h = (if he_valid env v then header_insert name v h else h)"

definition header_str :: "http_env \<Rightarrow> string \<Rightarrow> headers \<Rightarrow> string option" where
  "header_str env name h = Option.bind (header_get name h) (he_text env)"

datatype response_body = JsonBody json | TextBody string | StreamBody

record http_response =
  rs_status :: nat
  rs_headers :: headers
  rs_body :: response_body

record http_request =
  rq_method :: string
  rq_path :: string
  rq_headers :: headers
  rq_body :: "string option"

lemma map_of_filter_neq: "map_of (filter (\<lambda>(n, _). n \<noteq> name) h) m = (if m = name then None else map_of h m)"
  by (induction h) auto

lemma header_get_insert: "header_get m (header_insert name v h) = (if m = name then Some v else header_get m h)"
  by (simp add: header_get_def header_insert_def map_of_filter_neq map_add_def split: option.split)

lemma header_get_try_insert:
  "header_get m (header_try_insert env name v h) = (if m = name \<and> he_valid env v then Some v else header_get m h)"
  by (simp add: header_try_insert_def header_get_insert)

lemma header_names_insert [simp]: "fst ` set (header_insert name v h) = insert name (fst ` set h)"
  by (auto simp: header_insert_def image_iff)

lemma header_names_try_insert: "fst ` set (header_try_insert env name v h) \<subseteq> insert name (fst ` set h)"
  by (auto simp: header_try_insert_def)

lemma header_get_names: "header_get m h \<noteq> None \<longleftrightarrow> m \<in> fst ` set h"
  by (auto simp: header_get_def map_of_eq_None_iff)

end
