(* ===== verification/Gateway_Config.thy ===== *)
theory Gateway_Config
  imports Key_Pool Optimize Stream_Watch Context_Guard Log_Writer Http_Types
begin

text \<open>
  \<open>src/config.rs\<close> and \<open>src/proxy_route.rs\<close>: the configuration, its validation and what is derived
  from it, and the start of the gateway (\<open>AppState::with_log_sink\<close>). The parsers of addresses, URLs
  and log filters are parameters. Of the error texts the constructor remains.
\<close>

subsection \<open>The outbound route\<close>

text \<open>A parsed URL: what the code asks of it, its text, and its text without credentials.\<close>

record parsed_url =
  url_scheme :: string
  url_host :: "string option"
  url_query :: "string option"
  url_fragment :: "string option"
  url_username :: string
  url_password :: "string option"
  url_text :: string
  url_bare :: string

record proxy_target =
  pt_wire :: string
  pt_display :: string

datatype proxy_route = Direct | Socks5 proxy_target | Socks5h proxy_target

datatype config_error =
    BadBind | EmptyGatewayKey | GatewayKeyUnsafe | BadBaseUrl | BaseUrlNotHttp | BaseUrlQuery
  | BaseUrlCredentials | BadChatPath | ZeroTimeout | BadProxyUrl | ProxyQuery | ProxyNoHost
  | ProxyScheme string | BadHeaderName string | BadHeaderValue string | ReservedHeader string | NoKeys
  | EmptyKeyName nat | EmptyKey nat | KeyUnsafe nat | DuplicateKeyName nat | NoEnabledKey
  | EmptyDefaultModel | EmptyAlias | ZeroRuntimeLimit | BadLogFilter | ZeroLogFile | LogTotalBelowFile
  | BadCleanupPercent | BadFlushInterval | BadMaxOutput | MaxDefaultEffort | ZeroMinOutput | WindowTooSmall

definition target_from_url :: "parsed_url \<Rightarrow> proxy_target" where
  "target_from_url url =
     \<lparr>pt_wire = url_text url, pt_display = trim_end_matches (\<lambda>c. c = CHR ''/'') (url_bare url)\<rparr>"

definition has_credentials :: "proxy_target \<Rightarrow> bool" where
  "has_credentials t \<longleftrightarrow> pt_wire t \<noteq> pt_display t"

definition require :: "bool \<Rightarrow> 'e \<Rightarrow> 'e + unit" where
  "require b e = (if b then Inr () else Inl e)"

definition nonblank :: "string option \<Rightarrow> string option" where
  "nonblank raw =
     (case raw of None \<Rightarrow> None | Some s \<Rightarrow> (if trim s = [] then None else Some (trim s)))"

definition parse_route :: "(string \<Rightarrow> parsed_url option) \<Rightarrow> string option \<Rightarrow> config_error + proxy_route" where
  "parse_route parse_url given =
     (case nonblank given of
        None \<Rightarrow> Inr Direct
      | Some raw \<Rightarrow>
          (if to_ascii_lowercase raw \<in> {''direct'', ''none''} then Inr Direct
           else
             and_then (ok_or BadProxyUrl (parse_url raw)) (\<lambda>url.
             and_then (require (url_query url = None \<and> url_fragment url = None) ProxyQuery) (\<lambda>_.
             and_then (require (url_host url \<noteq> None) ProxyNoHost) (\<lambda>_.
               if url_scheme url = ''socks5'' then Inr (Socks5 (target_from_url url))
               else if url_scheme url = ''socks5h'' then Inr (Socks5h (target_from_url url))
               else Inl (ProxyScheme (url_scheme url)))))))"

fun route_kind :: "proxy_route \<Rightarrow> string" where
  "route_kind Direct = ''direct''"
| "route_kind (Socks5 t) = ''socks5''"
| "route_kind (Socks5h t) = ''socks5h''"

fun route_display :: "proxy_route \<Rightarrow> string" where
  "route_display Direct = ''direct''"
| "route_display (Socks5 t) = pt_display t"
| "route_display (Socks5h t) = pt_display t"

fun credential_secret :: "proxy_route \<Rightarrow> string option" where
  "credential_secret Direct = None"
| "credential_secret (Socks5 t) = (if has_credentials t then Some (pt_wire t) else None)"
| "credential_secret (Socks5h t) = (if has_credentials t then Some (pt_wire t) else None)"

subsection \<open>The configuration\<close>

record logging_config =
  lc_directory :: "string option"
  lc_writer :: writer_config
  lc_flush_interval_ms :: nat

record gateway_config =
  g_bind :: string
  g_api_key :: string
  g_base_url :: string
  g_chat_path :: string
  g_timeout_secs :: nat
  g_connect_timeout_secs :: nat
  g_first_event_secs :: nat
  g_first_semantic_secs :: nat
  g_stream_idle_secs :: nat
  g_semantic_idle_secs :: nat
  g_fallback_cooldown_secs :: nat
  g_proxy :: "string option"
  g_headers :: "(string \<times> string) list"
  g_keys :: "cline_key_config list"
  g_default_model :: string
  g_aliases :: "(string \<times> string) list"
  g_max_request_bytes :: nat
  g_log_level :: string
  g_shutdown_secs :: nat
  g_state_file :: "string option"
  g_logging :: logging_config
  g_glm :: glm_config
  g_shadow :: bool
  g_strip_billing :: bool
  g_canonical :: bool
  g_window :: "nat option"
  g_margin :: nat
  g_min_output :: nat
  g_exact_tokens :: bool
  g_token_counts :: nat

record config_env =
  ce_http :: http_env
  ce_addr_ok :: "string \<Rightarrow> bool"
  ce_parse_url :: "string \<Rightarrow> parsed_url option"
  ce_filter_ok :: "string \<Rightarrow> bool"

definition CLIENT_PROFILE_VERSION :: string where "CLIENT_PROFILE_VERSION = ''4.1.18''"

definition profile_headers :: "string \<Rightarrow> (string \<times> string) list" where
  "profile_headers version =
     [(''http-referer'', ''https://cline.bot''), (''user-agent'', ''Cline/'' @ version),
      (''x-client-type'', ''cline-vscode''), (''x-client-version'', version),
      (''x-core-version'', version), (''x-platform'', ''vscode''), (''x-platform-version'', ''1.106.0''),
      (''x-title'', ''Cline'')]"

definition default_cline_headers :: "(string \<times> string) list" where
  "default_cline_headers = profile_headers CLIENT_PROFILE_VERSION"

definition legacy_default_cline_headers :: "(string \<times> string) list" where
  "legacy_default_cline_headers = profile_headers ''4.1.16''"

definition migrate_legacy_headers :: "gateway_config \<Rightarrow> gateway_config \<times> bool" where
  "migrate_legacy_headers c =
     (if g_headers c = legacy_default_cline_headers then (c\<lparr>g_headers := default_cline_headers\<rparr>, True)
      else (c, False))"

definition stream_timeouts_of :: "gateway_config \<Rightarrow> stream_timeouts" where
  "stream_timeouts_of c =
     timeouts_from_secs (g_first_event_secs c) (g_first_semantic_secs c) (g_stream_idle_secs c)
       (g_semantic_idle_secs c)"

definition logging_enabled :: "logging_config \<Rightarrow> bool" where
  "logging_enabled l \<longleftrightarrow> nonblank (lc_directory l) \<noteq> None"

definition reserved_headers :: "string list" where
  "reserved_headers =
     [''authorization'', ''host'', ''content-length'', ''transfer-encoding'', ''connection'', ''accept'',
      ''content-type'', ''accept-encoding'', ''cookie'', ''x-api-key'', ''x-task-id'', ''x-request-id'']"

fun validate_headers :: "http_env \<Rightarrow> (string \<times> string) list \<Rightarrow> config_error + unit" where
  "validate_headers env [] = Inr ()"
| "validate_headers env ((name, v) # rest) =
     and_then (ok_or (BadHeaderName name) (he_name env name)) (\<lambda>parsed.
     and_then (require (he_valid env v) (BadHeaderValue name)) (\<lambda>_.
     and_then (require (to_ascii_lowercase parsed \<notin> set reserved_headers) (ReservedHeader name)) (\<lambda>_.
       validate_headers env rest)))"

definition bearer :: "string \<Rightarrow> string" where "bearer key = ''Bearer '' @ key"

fun validate_keys :: "http_env \<Rightarrow> nat \<Rightarrow> string set \<Rightarrow> cline_key_config list \<Rightarrow> config_error + unit" where
  "validate_keys env i seen [] = Inr ()"
| "validate_keys env i seen (key # rest) =
     and_then (require (trim (cfg_name key) \<noteq> []) (EmptyKeyName i)) (\<lambda>_.
     and_then (require (trim (cfg_api_key key) \<noteq> []) (EmptyKey i)) (\<lambda>_.
     and_then (require (he_valid env (bearer (cfg_api_key key))) (KeyUnsafe i)) (\<lambda>_.
     and_then (require (cfg_name key \<notin> seen) (DuplicateKeyName i)) (\<lambda>_.
       validate_keys env (Suc i) (insert (cfg_name key) seen) rest))))"

definition validate_base_url :: "(string \<Rightarrow> parsed_url option) \<Rightarrow> string \<Rightarrow> config_error + unit" where
  "validate_base_url parse_url text =
     and_then (ok_or BadBaseUrl (parse_url text)) (\<lambda>url.
     and_then (require (url_scheme url \<in> {''http'', ''https''} \<and> url_host url \<noteq> None) BaseUrlNotHttp) (\<lambda>_.
     and_then (require (url_query url = None \<and> url_fragment url = None) BaseUrlQuery) (\<lambda>_.
       require (url_username url = [] \<and> url_password url = None) BaseUrlCredentials)))"

definition chat_path_ok :: "string \<Rightarrow> bool" where
  "chat_path_ok path \<longleftrightarrow>
     starts_with path ''/'' \<and> \<not> str_contains path ''?'' \<and> \<not> str_contains path ''#''"

definition validate_logging :: "logging_config \<Rightarrow> config_error + unit" where
  "validate_logging l =
     (if \<not> logging_enabled l then Inr ()
      else
        and_then (require (wr_max_file_mb (lc_writer l) \<noteq> 0) ZeroLogFile) (\<lambda>_.
        and_then (require (wr_max_file_mb (lc_writer l) \<le> wr_max_total_mb (lc_writer l)) LogTotalBelowFile) (\<lambda>_.
        and_then (require (0 < wr_cleanup_percent (lc_writer l) \<and> wr_cleanup_percent (lc_writer l) \<le> 100)
            BadCleanupPercent) (\<lambda>_.
          require (50 \<le> lc_flush_interval_ms l \<and> lc_flush_interval_ms l \<le> 60000) BadFlushInterval))))"

definition validate_glm :: "gateway_config \<Rightarrow> config_error + unit" where
  "validate_glm c =
     and_then (require (1024 \<le> gc_max_output_tokens (g_glm c) \<and> gc_max_output_tokens (g_glm c) \<le> 131072)
         BadMaxOutput) (\<lambda>_.
     and_then (require (gc_default_effort (g_glm c) \<noteq> Max \<and> gc_adaptive_effort (g_glm c) \<noteq> Max)
         MaxDefaultEffort) (\<lambda>_.
     and_then (require (g_min_output c \<noteq> 0) ZeroMinOutput) (\<lambda>_.
       case g_window c of
         None \<Rightarrow> Inr ()
       | Some window \<Rightarrow> require (sat_add64 (g_margin c) (g_min_output c) < window) WindowTooSmall)))"

definition validate :: "config_env \<Rightarrow> gateway_config \<Rightarrow> config_error + unit" where
  "validate env c =
     and_then (require (ce_addr_ok env (g_bind c)) BadBind) (\<lambda>_.
     and_then (require (trim (g_api_key c) \<noteq> []) EmptyGatewayKey) (\<lambda>_.
     and_then (require (he_valid (ce_http env) (bearer (g_api_key c))) GatewayKeyUnsafe) (\<lambda>_.
     and_then (validate_base_url (ce_parse_url env) (g_base_url c)) (\<lambda>_.
     and_then (require (chat_path_ok (g_chat_path c)) BadChatPath) (\<lambda>_.
     and_then (require (g_timeout_secs c \<noteq> 0 \<and> g_connect_timeout_secs c \<noteq> 0
         \<and> g_fallback_cooldown_secs c \<noteq> 0) ZeroTimeout) (\<lambda>_.
     and_then (parse_route (ce_parse_url env) (g_proxy c)) (\<lambda>_.
     and_then (validate_headers (ce_http env) (g_headers c)) (\<lambda>_.
     and_then (require (g_keys c \<noteq> []) NoKeys) (\<lambda>_.
     and_then (validate_keys (ce_http env) 0 {} (g_keys c)) (\<lambda>_.
     and_then (require (list_ex cfg_enabled (g_keys c)) NoEnabledKey) (\<lambda>_.
     and_then (require (trim (g_default_model c) \<noteq> []) EmptyDefaultModel) (\<lambda>_.
     and_then (require (list_all (\<lambda>(alias, model). trim alias \<noteq> [] \<and> trim model \<noteq> []) (g_aliases c))
         EmptyAlias) (\<lambda>_.
     and_then (require (g_max_request_bytes c \<noteq> 0 \<and> g_shutdown_secs c \<noteq> 0) ZeroRuntimeLimit) (\<lambda>_.
     and_then (require (ce_filter_ok env (g_log_level c)) BadLogFilter) (\<lambda>_.
     and_then (validate_logging (g_logging c)) (\<lambda>_. validate_glm c))))))))))))))))"

definition resolve_model :: "gateway_config \<Rightarrow> string \<Rightarrow> string" where
  "resolve_model c requested = (case map_of (g_aliases c) requested of Some m \<Rightarrow> m | None \<Rightarrow> requested)"

definition model_ids :: "gateway_config \<Rightarrow> string list" where
  "model_ids c = remdups_adj (sort (g_default_model c # map fst (g_aliases c) @ map snd (g_aliases c)))"

definition state_file_path :: "gateway_config \<Rightarrow> string option" where
  "state_file_path c = nonblank (g_state_file c)"

text \<open>\<open>Config::load\<close>: the parsed document, the migration of its headers, and the validation.\<close>

definition load_config :: "config_env \<Rightarrow> gateway_config \<Rightarrow> config_error + gateway_config" where
  "load_config env parsed =
     (let c = fst (migrate_legacy_headers parsed) in and_then (validate env c) (\<lambda>_. Inr c))"

subsection \<open>The start\<close>

record app_state =
  as_pool :: key_pool
  as_route :: proxy_route
  as_secrets :: "string list"
  as_state_file :: "string option"
  as_permits :: "nat option"
  as_shadow :: bool

definition exact_secrets :: "gateway_config \<Rightarrow> proxy_route \<Rightarrow> string list" where
  "exact_secrets c route =
     map cfg_api_key (g_keys c) @ [g_api_key c]
     @ (case credential_secret route of Some secret \<Rightarrow> [secret] | None \<Rightarrow> [])"

definition start_gateway ::
  "config_env \<Rightarrow> (string \<Rightarrow> persisted_state option) \<Rightarrow> (string \<Rightarrow> file_read) \<Rightarrow> systime \<Rightarrow> instant
   \<Rightarrow> gateway_config \<Rightarrow> config_error + app_state" where
  "start_gateway env decode read wall now c =
     and_then (validate env c) (\<lambda>_.
       let pool = new_pool wall (g_keys c) in
       if pool_len pool = 0 then Inl NoEnabledKey
       else
         (let pool1 =
            (case state_file_path c of
               None \<Rightarrow> pool
             | Some path \<Rightarrow>
                 (case load_state decode (read path) of
                    Loaded persisted \<Rightarrow> fst (restore now wall persisted pool) | _ \<Rightarrow> pool))
          in and_then (parse_route (ce_parse_url env) (g_proxy c)) (\<lambda>route.
               Inr \<lparr>as_pool = pool1, as_route = route, as_secrets = exact_secrets c route,
                    as_state_file = state_file_path c,
                    as_permits = (if g_exact_tokens c then Some (max (g_token_counts c) 1) else None),
                    as_shadow = g_shadow c\<rparr>)))"

subsection \<open>What a valid configuration gives the components\<close>

lemma require_Inr [simp]: "require b e = Inr u \<longleftrightarrow> b"
  by (simp add: require_def)

lemma validate_keys_Inr:
  "validate_keys env i seen ks = Inr () \<longleftrightarrow>
     (\<forall>key \<in> set ks. trim (cfg_name key) \<noteq> [] \<and> trim (cfg_api_key key) \<noteq> []
        \<and> he_valid env (bearer (cfg_api_key key)))
     \<and> distinct (map cfg_name ks) \<and> cfg_name ` set ks \<inter> seen = {}"
  by (induction ks arbitrary: i seen) (auto simp: and_then_Inr)

lemma validate_headers_Inr:
  "validate_headers env hs = Inr () \<longleftrightarrow>
     (\<forall>(name, v) \<in> set hs. he_valid env v
        \<and> (\<exists>parsed. he_name env name = Some parsed \<and> to_ascii_lowercase parsed \<notin> set reserved_headers))"
  by (induction hs rule: induct_list012) (auto simp: and_then_Inr)

text \<open>A slash at the end of a proxy URL without credentials counts as a credential: the address is then
  treated as a secret.\<close>

lemma trailing_slash_counts_as_credentials:
  "url_text url = s @ ''/'' \<Longrightarrow> url_bare url = url_text url \<Longrightarrow> has_credentials (target_from_url url)"
proof -
  assume "url_text url = s @ ''/''" "url_bare url = url_text url"
  moreover have "length (trim_end_matches (\<lambda>c. c = CHR ''/'') (s @ ''/'')) \<le> length s"
    using length_dropWhile_le [of "\<lambda>c. c = CHR ''/''" "rev s"] by (simp add: trim_end_matches_def)
  ultimately show ?thesis by (auto simp: has_credentials_def target_from_url_def)
qed

lemma names_new_pool: "names (new_pool wall ks) = map cfg_name (filter cfg_enabled ks)"
proof -
  have "map cfg_name (map snd (filter (\<lambda>(i, key). cfg_enabled key) (enumerate n ks))) = map cfg_name (filter cfg_enabled ks)" for n
    by (induction ks arbitrary: n) simp_all
  then show ?thesis by (simp add: names_def new_pool_def comp_def case_prod_beta)
qed

lemma pool_ok_restore_entry: "pool_ok (fst st) \<Longrightarrow> pool_ok (fst (restore_entry now wall e st))"
  by (auto simp: restore_entry_def probe_ok_def restore_runtime_def Let_def
      intro!: pool_ok_update_key split: option.splits)

text \<open>A restored pool: its entries folded in, then perhaps another active key.\<close>

definition restored_entries :: "instant \<Rightarrow> systime \<Rightarrow> persisted_state \<Rightarrow> key_pool \<Rightarrow> key_pool" where
  "restored_entries now wall state p =
     fst (fold (restore_entry now wall) (ps_keys state) (p, \<lparr>restored_cooldowns = 0, expired_entries = 0,
       unknown_entries = 0, restored_active_key = None\<rparr>))"

lemma restore_result:
  "fst (restore now wall state p) = restored_entries now wall state p
   \<or> (\<exists>name i t. key_position (restored_entries now wall state p) name = Some i
        \<and> fst (restore now wall state p) = (restored_entries now wall state p)\<lparr>active := i, active_since_unix := t\<rparr>)"
proof -
  obtain q summary where q: "fold (restore_entry now wall) (ps_keys state) (p, \<lparr>restored_cooldowns = 0,
      expired_entries = 0, unknown_entries = 0, restored_active_key = None\<rparr>) = (q, summary)" by force
  then have eq: "restored_entries now wall state p = q" by (simp add: restored_entries_def)
  show ?thesis
  proof (cases "ps_active_key state")
    case (Some name)
    then show ?thesis using q by (cases "key_position q name") (auto simp: restore_def eq)
  qed (use q in \<open>simp add: restore_def eq\<close>)
qed

lemma pool_ok_restore: "pool_ok p \<Longrightarrow> pool_ok (fst (restore now wall state p))"
proof -
  assume ok: "pool_ok p"
  have "pool_ok (fst st) \<Longrightarrow> pool_ok (fst (fold (restore_entry now wall) m st))" for m st
    by (induction m arbitrary: st) (simp_all add: pool_ok_restore_entry)
  then have "pool_ok (restored_entries now wall state p)" using ok by (simp add: restored_entries_def)
  then show ?thesis
    using restore_result [of now wall state p] key_position_Some(1) by (fastforce simp: pool_ok_def pool_len_def)
qed

lemma names_restore: "names (fst (restore now wall state p)) = names p"
proof -
  have "names (restored_entries now wall state p) = names p" by (simp add: restored_entries_def)
  then show ?thesis using restore_result [of now wall state p] by (auto simp: names_def)
qed

definition secrets_of_pool :: "key_pool \<Rightarrow> string set" where
  "secrets_of_pool p = api_key ` set (keys p)"

lemma secrets_restore: "secrets_of_pool (fst (restore now wall state p)) = secrets_of_pool p"
proof -
  have one: "secrets_of_pool (fst (restore_entry now wall e st)) = secrets_of_pool (fst st)" for e st
  proof (cases "key_position (fst st) (fst e)")
    case (Some i)
    then have "i < length (keys (fst st))" using key_position_Some(1) by (simp add: pool_len_def)
    then have "api_key ` set ((keys (fst st))[i := (keys (fst st) ! i)\<lparr>runtime := r\<rparr>]) = api_key ` set (keys (fst st))" for r
      by (metis (no_types, lifting) key_entry.select_convs(3) key_entry.surjective key_entry.update_convs(4)
          list_update_id map_update set_map)
    then show ?thesis using Some by (simp add: restore_entry_def secrets_of_pool_def update_key_def pool_len_def)
  qed (simp add: restore_entry_def)
  have folded: "secrets_of_pool (fst (fold (restore_entry now wall) m st)) = secrets_of_pool (fst st)" for m st
    by (induction m arbitrary: st) (simp_all add: one)
  then have "secrets_of_pool (restored_entries now wall state p) = secrets_of_pool p"
    by (simp add: restored_entries_def)
  then show ?thesis using restore_result [of now wall state p] by (auto simp: secrets_of_pool_def)
qed

text \<open>The start in terms of the pool it ends with.\<close>

definition ready :: "gateway_config \<Rightarrow> app_state \<Rightarrow> bool" where
  "ready c app \<longleftrightarrow>
     pool_ok (as_pool app) \<and> 0 < pool_len (as_pool app)
     \<and> names (as_pool app) = map cfg_name (filter cfg_enabled (g_keys c)) \<and> distinct (names (as_pool app))
     \<and> list_all (\<lambda>name. trim name \<noteq> []) (names (as_pool app))
     \<and> secrets_of_pool (as_pool app) \<subseteq> set (as_secrets app) \<and> g_api_key c \<in> set (as_secrets app)"

lemma new_pool_ready:
  assumes "validate env c = Inr ()"
  shows "0 < pool_len (new_pool wall (g_keys c))" and "distinct (names (new_pool wall (g_keys c)))"
    and "list_all (\<lambda>name. trim name \<noteq> []) (names (new_pool wall (g_keys c)))"
    and "secrets_of_pool (new_pool wall (g_keys c)) \<subseteq> cfg_api_key ` set (g_keys c)"
proof -
  have keys: "validate_keys (ce_http env) 0 {} (g_keys c) = Inr ()" "list_ex cfg_enabled (g_keys c)"
    using assms by (auto simp: validate_def and_then_Inr)
  then show "0 < pool_len (new_pool wall (g_keys c))"
    by (auto simp: pool_len_names names_new_pool list_ex_iff filter_empty_conv)
  show "distinct (names (new_pool wall (g_keys c)))"
    using keys(1) by (auto simp: validate_keys_Inr names_new_pool distinct_map_filter)
  show "list_all (\<lambda>name. trim name \<noteq> []) (names (new_pool wall (g_keys c)))"
    using keys(1) by (auto simp: validate_keys_Inr names_new_pool list_all_iff)
  have "snd ` set (enumerate n ks) \<subseteq> set ks" for n and ks :: "cline_key_config list"
    by (metis eq_refl list.set_map map_snd_enumerate)
  then show "secrets_of_pool (new_pool wall (g_keys c)) \<subseteq> cfg_api_key ` set (g_keys c)"
    by (fastforce simp: secrets_of_pool_def new_pool_def)
qed

text \<open>A valid configuration starts, whatever the state file holds (missing, unreadable, corrupt or
  written for other keys), and an invalid one is refused with the error of its validation. The pool
  that starts holds exactly the enabled keys under distinct names, with an active key and every probe
  accounted for, as all the laws of the pool assume; and every credential in it, and the gateway's own,
  is among the secrets the redaction removes.\<close>

theorem valid_config_starts:
  "case start_gateway env decode read wall now c of
     Inl e \<Rightarrow> validate env c = Inl e
   | Inr app \<Rightarrow> validate env c = Inr () \<and> ready c app"
proof (cases "validate env c")
  case (Inl e)
  then show ?thesis by (simp add: start_gateway_def)
next
  case (Inr u)
  then have valid: "validate env c = Inr ()" by simp
  let ?pool = "new_pool wall (g_keys c)"
  define pool1 where "pool1 = (case state_file_path c of None \<Rightarrow> ?pool
    | Some path \<Rightarrow> (case load_state decode (read path) of
        Loaded persisted \<Rightarrow> fst (restore now wall persisted ?pool) | _ \<Rightarrow> ?pool))"
  obtain route where route: "parse_route (ce_parse_url env) (g_proxy c) = Inr route"
    using valid by (auto simp: validate_def and_then_Inr)
  have "pool_ok pool1" "names pool1 = names ?pool" "secrets_of_pool pool1 = secrets_of_pool ?pool"
    by (simp_all add: pool1_def pool_ok_restore pool_ok_new names_restore secrets_restore
        split: option.split load_outcome.split)
  moreover have "cfg_api_key ` set (g_keys c) \<subseteq> set (exact_secrets c route)" "g_api_key c \<in> set (exact_secrets c route)"
    by (auto simp: exact_secrets_def)
  ultimately show ?thesis
    using new_pool_ready [OF valid, of wall] names_new_pool [of wall "g_keys c"] valid route
    by (auto simp: start_gateway_def Let_def ready_def pool1_def [symmetric] pool_len_names)
qed

end
