(* ===== verification/Upstream_Client.thy ===== *)
theory Upstream_Client
  imports Gateway_Config Upstream Cache
begin

text \<open>
  What the gateway sends to Cline besides the chat body, and the catalog of free models: the headers of
  \<open>send_once\<close> and \<open>credential_headers\<close>, \<open>fetch_free_models\<close> of
  \<open>src/upstream.rs\<close>, and \<open>src/model_catalog.rs\<close>. The HMAC is the parameter \<open>hmac\<close>. A time-out, a
  connection failure and headers that cannot be built are \<open>SearchTransportFailure\<close> and
  \<open>HeadersInvalid\<close> of a reply.
\<close>

subsection \<open>Outgoing headers\<close>

text \<open>The headers configured for every request, under their parsed names, and the fixed ones.\<close>

fun configured_headers :: "http_env \<Rightarrow> (string \<times> string) list \<Rightarrow> headers \<Rightarrow> headers option" where
  "configured_headers env [] h = Some h"
| "configured_headers env ((name, v) # rest) h =
     (case he_name env name of
        None \<Rightarrow> None
      | Some parsed \<Rightarrow>
          (if he_valid env v then configured_headers env rest (header_insert parsed v h) else None))"

definition static_headers :: "http_env \<Rightarrow> gateway_config \<Rightarrow> headers option" where
  "static_headers env c =
     map_option (\<lambda>h. header_insert ''accept-encoding'' ''gzip''
                       (header_insert ''content-type'' ''application/json'' h))
       (configured_headers env (g_headers c) [])"

definition add_task_id ::
  "http_env \<Rightarrow> (string \<Rightarrow> string \<Rightarrow> string) \<Rightarrow> string \<Rightarrow> string option \<Rightarrow> string \<Rightarrow> headers \<Rightarrow> headers" where
  "add_task_id env hmac secret session_fp key h =
     (case session_fp of
        None \<Rightarrow> h
      | Some fp \<Rightarrow> header_try_insert env ''x-task-id'' (upstream_task_id hmac secret fp key) h)"

definition credential_headers ::
  "http_env \<Rightarrow> (string \<Rightarrow> string \<Rightarrow> string) \<Rightarrow> string \<Rightarrow> headers \<Rightarrow> string \<Rightarrow> string \<Rightarrow> string option
   \<Rightarrow> string \<Rightarrow> headers option" where
  "credential_headers env hmac secret statics key request_id session_fp accept =
     (let h = add_task_id env hmac secret session_fp key (header_insert ''accept'' accept statics)
      in if he_valid env (bearer key)
         then Some (header_try_insert env ''x-request-id'' request_id
                      (header_insert ''authorization'' (bearer key) h))
         else None)"

text \<open>\<open>send_once\<close>: the headers of a chat request; None is the request that fails to build.\<close>

definition chat_headers ::
  "http_env \<Rightarrow> (string \<Rightarrow> string \<Rightarrow> string) \<Rightarrow> string \<Rightarrow> headers \<Rightarrow> string \<Rightarrow> string \<Rightarrow> string option
   \<Rightarrow> bool \<Rightarrow> headers option" where
  "chat_headers env hmac secret statics key request_id session_fp stream =
     credential_headers env hmac secret statics key request_id session_fp
       (if stream then ''text/event-stream'' else ''application/json'')"

subsection \<open>Free models\<close>

definition MAX_MODELS_RESPONSE_BYTES :: nat where "MAX_MODELS_RESPONSE_BYTES = 256 * 1024"

definition fetch_free_models :: "(string \<Rightarrow> json option) \<Rightarrow> search_reply \<Rightarrow> string list option" where
  "fetch_free_models parse reply =
     (case reply of
        SearchHttp status chunks \<Rightarrow>
          (if status \<noteq> 200 then None
           else map_option parse_free_model_ids (parse (read_limited chunks MAX_MODELS_RESPONSE_BYTES)))
      | _ \<Rightarrow> None)"

subsection \<open>The catalog\<close>

text \<open>The time of the last refresh may lie before the start of the clock: after an empty answer it is
  set back. \<open>now\<close> is read before a fetch and \<open>later\<close> after it. A fetch ends with an answer, or the
  handler is dropped at its await because the client went away: the lock is released then, and what was
  written before the await stays.\<close>

datatype fetch_end = FetchAnswered instant "string list option" | HandlerDropped

record model_catalog =
  mc_ids :: "string list"
  mc_fetched_at :: "int option"
  mc_in_flight :: bool
  mc_refreshes :: nat
  mc_refresh_failures :: nat
  mc_served_from_cache :: nat

record catalog_limits =
  cl_refresh_ttl :: duration
  cl_max_entries :: nat

definition default_catalog_limits :: catalog_limits where
  "default_catalog_limits = \<lparr>cl_refresh_ttl = from_secs (6 * 60 * 60), cl_max_entries = MAX_FREE_MODEL_IDS\<rparr>"

definition new_catalog :: model_catalog where
  "new_catalog = \<lparr>mc_ids = [], mc_fetched_at = None, mc_in_flight = False, mc_refreshes = 0, mc_refresh_failures = 0,
     mc_served_from_cache = 0\<rparr>"

definition catalog_fresh :: "catalog_limits \<Rightarrow> instant \<Rightarrow> model_catalog \<Rightarrow> bool" where
  "catalog_fresh limits now cat =
     (case mc_fetched_at cat of
        None \<Rightarrow> False | Some at \<Rightarrow> max 0 (int now - at) < int (cl_refresh_ttl limits))"

definition note_fetch :: "catalog_limits \<Rightarrow> instant \<Rightarrow> string list option \<Rightarrow> model_catalog \<Rightarrow> model_catalog" where
  "note_fetch limits later fetched cat =
     (let cat1 = cat\<lparr>mc_refreshes := mc_refreshes cat + 1\<rparr> in
      case fetched of
        None \<Rightarrow> cat1\<lparr>mc_refresh_failures := mc_refresh_failures cat1 + 1, mc_fetched_at := Some (int later)\<rparr>
      | Some ids \<Rightarrow>
          (if ids \<noteq> []
           then cat1\<lparr>mc_ids := take (cl_max_entries limits) ids, mc_fetched_at := Some (int later)\<rparr>
           else cat1\<lparr>mc_ids := [],
                     mc_fetched_at := Some (int later - int (cl_refresh_ttl limits - from_secs (15 * 60)))\<rparr>))"

text \<open>\<open>free_model_ids\<close>: the ids served, none for a dropped handler, and whether the endpoint was
  asked.\<close>

definition free_model_ids ::
  "catalog_limits \<Rightarrow> instant \<Rightarrow> fetch_end \<Rightarrow> model_catalog \<Rightarrow> (string list option \<times> bool) \<times> model_catalog" where
  "free_model_ids limits now fetch cat =
     (if catalog_fresh limits now cat \<or> mc_in_flight cat
      then ((Some (mc_ids cat), False), cat\<lparr>mc_served_from_cache := mc_served_from_cache cat + 1\<rparr>)
      else (let cat1 = cat\<lparr>mc_in_flight := True\<rparr> in
            case fetch of
              HandlerDropped \<Rightarrow> ((None, True), cat1)
            | FetchAnswered later fetched \<Rightarrow>
                (let cat2 = note_fetch limits later fetched (cat1\<lparr>mc_in_flight := False\<rparr>)
                 in ((Some (mc_ids cat2), True), cat2))))"

text \<open>The ids that \<open>/v1/models\<close> lists.\<close>

definition listed_models :: "gateway_config \<Rightarrow> string list \<Rightarrow> string list" where
  "listed_models c free =
     remdups_adj (sort (model_ids c @ fold (\<lambda>i new. if i \<in> set (model_ids c) \<or> i \<in> set new then new else new @ [i]) free []))"

definition models_body :: "bool \<Rightarrow> string list \<Rightarrow> json" where
  "models_body anthropic ids =
     (if anthropic
      then JObj [(''data'', JArr (map (\<lambda>i. JObj [(''type'', JStr ''model''), (''id'', JStr i),
                    (''display_name'', JStr i), (''created_at'', JStr ''1970-01-01T00:00:00Z'')]) ids)),
                 (''has_more'', JBool False),
                 (''first_id'', case ids of [] \<Rightarrow> JNull | i # _ \<Rightarrow> JStr i),
                 (''last_id'', case rev ids of [] \<Rightarrow> JNull | i # _ \<Rightarrow> JStr i)]
      else JObj [(''object'', JStr ''list''),
                 (''data'', JArr (map (\<lambda>i. JObj [(''id'', JStr i), (''object'', JStr ''model''),
                    (''created'', JNum (PosInt 0)), (''owned_by'', JStr ''cline-proxy'')]) ids))])"

subsection \<open>What the catalog does\<close>

lemma note_fetch_ids: "length (mc_ids cat) \<le> cl_max_entries limits \<Longrightarrow>
    length (mc_ids (note_fetch limits later fetched cat)) \<le> cl_max_entries limits"
  by (simp add: note_fetch_def Let_def split: option.split)

lemma catalog_bounded: "length (mc_ids cat) \<le> cl_max_entries limits \<Longrightarrow>
    length (mc_ids (snd (free_model_ids limits now fetch cat))) \<le> cl_max_entries limits"
  by (auto simp: free_model_ids_def Let_def split: fetch_end.splits intro!: note_fetch_ids)

text \<open>After a refresh that was answered, the endpoint is left alone for a quarter of an hour, or for the
  refresh period where that is shorter, whatever the answer was.\<close>

lemma note_fetch_fresh:
  "now < later + min (cl_refresh_ttl limits) (from_secs (15 * 60)) \<Longrightarrow> 0 < cl_refresh_ttl limits \<Longrightarrow>
     catalog_fresh limits now (note_fetch limits later fetched cat)"
  by (auto simp: catalog_fresh_def note_fetch_def Let_def from_secs_def split: option.split)

text \<open>A handler dropped during the refresh leaves the mark that a refresh is in flight: no later call
  asks the endpoint again, and the list stays what it was.\<close>

lemma in_flight_sticks:
  assumes "mc_in_flight cat"
  shows "fst (free_model_ids limits now fetch cat) = (Some (mc_ids cat), False)
    \<and> mc_in_flight (snd (free_model_ids limits now fetch cat))
    \<and> mc_ids (snd (free_model_ids limits now fetch cat)) = mc_ids cat"
  using assms by (simp add: free_model_ids_def)

lemma dropped_handler_marks:
  "\<not> catalog_fresh limits now cat \<Longrightarrow> mc_in_flight (snd (free_model_ids limits now HandlerDropped cat))"
  by (simp add: free_model_ids_def)

fun catalog_calls :: "catalog_limits \<Rightarrow> (instant \<times> fetch_end) list \<Rightarrow> model_catalog \<Rightarrow> (string list option \<times> bool) list" where
  "catalog_calls limits [] cat = []"
| "catalog_calls limits ((now, fetch) # rest) cat =
     (let (out, cat') = free_model_ids limits now fetch cat in out # catalog_calls limits rest cat')"

lemma catalog_calls_stuck:
  "mc_in_flight cat \<Longrightarrow> catalog_calls limits calls' cat = replicate (length calls') (Some (mc_ids cat), False)"
proof (induction calls' arbitrary: cat)
  case (Cons call calls')
  obtain now fetch where "call = (now, fetch)" by (cases call)
  then show ?case using in_flight_sticks [OF Cons.prems, of limits now fetch] Cons.IH
    by (auto simp: case_prod_beta)
qed simp

text \<open>Once one client leaves during a refresh, the free models listed are those of that moment for as
  long as the gateway runs.\<close>

lemma dropped_handler_ends_refreshing:
  assumes "\<not> catalog_fresh limits now cat"
  shows "catalog_calls limits ((now, HandlerDropped) # calls') cat
    = (if mc_in_flight cat then (Some (mc_ids cat), False) else (None, True))
      # replicate (length calls') (Some (mc_ids cat), False)"
  using assms by (simp add: free_model_ids_def catalog_calls_stuck)

subsection \<open>What the headers carry\<close>

lemma configured_headers_names:
  "configured_headers env hs h = Some h' \<Longrightarrow>
     fst ` set h' \<subseteq> fst ` set h \<union> {parsed. \<exists>(name, v) \<in> set hs. he_name env name = Some parsed}"
proof (induction hs arbitrary: h)
  case (Cons nv hs)
  obtain name v where nv: "nv = (name, v)" by (cases nv)
  obtain parsed where parsed: "he_name env name = Some parsed"
    and rest: "configured_headers env hs (header_insert parsed v h) = Some h'"
    using Cons.prems by (auto simp: nv split: option.splits if_split_asm)
  show ?case using Cons.IH [OF rest] parsed by (auto simp: nv)
qed simp

lemma configured_headers_valid:
  "validate_headers env hs = Inr () \<Longrightarrow> configured_headers env hs h \<noteq> None"
  by (induction hs arbitrary: h rule: induct_list012) (auto simp: and_then_Inr)

lemma header_get_task:
  "header_get name (add_task_id env hmac secret session_fp key h) =
     (case session_fp of
        None \<Rightarrow> header_get name h
      | Some fp \<Rightarrow> if name = ''x-task-id'' \<and> he_valid env (upstream_task_id hmac secret fp key)
                   then Some (upstream_task_id hmac secret fp key) else header_get name h)"
  by (simp add: add_task_id_def header_get_try_insert split: option.split)


definition demo_gateway_env :: config_env where
  "demo_gateway_env = \<lparr>ce_http = \<lparr>he_text = Some, he_valid = (\<lambda>v. True), he_name = (\<lambda>n. Some (to_ascii_lowercase n))\<rparr>,
     ce_addr_ok = (\<lambda>a. True),
     ce_parse_url = (\<lambda>u. Some \<lparr>url_scheme = ''https'', url_host = Some u, url_query = None, url_fragment = None,
        url_username = [], url_password = None, url_text = u, url_bare = u\<rparr>),
     ce_filter_ok = (\<lambda>f. True)\<rparr>"

definition demo_gateway :: gateway_config where
  "demo_gateway = \<lparr>g_bind = ''b'', g_api_key = ''local'', g_base_url = ''u'', g_chat_path = ''/c'', g_timeout_secs = 1,
     g_connect_timeout_secs = 1, g_first_event_secs = 0, g_first_semantic_secs = 0, g_stream_idle_secs = 0,
     g_semantic_idle_secs = 0, g_fallback_cooldown_secs = 1, g_proxy = None,
     g_headers = [(''X-Client'', ''cli'')],
     g_keys = [\<lparr>cfg_name = ''a'', cfg_api_key = ''ka'', cfg_enabled = True\<rparr>,
               \<lparr>cfg_name = ''b'', cfg_api_key = ''kb'', cfg_enabled = True\<rparr>],
     g_default_model = ''m'', g_aliases = [], g_max_request_bytes = 1, g_log_level = ''info'', g_shutdown_secs = 1,
     g_state_file = None,
     g_logging = \<lparr>lc_directory = None, lc_writer = \<lparr>wr_max_file_mb = 1, wr_max_total_mb = 1,
        wr_cleanup_percent = 1\<rparr>, lc_flush_interval_ms = 50\<rparr>,
     g_glm = \<lparr>gc_default_effort = High, gc_adaptive_effort = High, gc_expose = Never, gc_strip = False,
        gc_max_output_tokens = 1024, gc_compaction = False\<rparr>,
     g_shadow = False, g_strip_billing = False, g_canonical = False, g_window = None, g_margin = 0,
     g_min_output = 1, g_exact_tokens = False, g_token_counts = 1\<rparr>"

lemma demo_words: "trim ''local'' \<noteq> []" "trim ''a'' \<noteq> []" "trim ''b'' \<noteq> []" "trim ''ka'' \<noteq> []" "trim ''kb'' \<noteq> []"
    "trim ''m'' \<noteq> []" "to_ascii_lowercase ''X-Client'' = ''x-client''"
    "to_ascii_lowercase ''x-client'' = ''x-client''"
  by (code_simp)+

lemma demo_path: "chat_path_ok ''/c''"
  by code_simp

lemma demo_valid: "validate demo_gateway_env demo_gateway = Inr ()"
  by (simp add: validate_def demo_gateway_env_def demo_gateway_def validate_base_url_def parse_route_def nonblank_def
      validate_headers_Inr validate_keys_Inr validate_logging_def validate_glm_def logging_enabled_def
      and_then_Inr reserved_headers_def demo_words demo_path)


end
