(* ===== verification/Gateway_Http.thy ===== *)
theory Gateway_Http
  imports Upstream_Client Anthropic_Response Sse_Decoder
begin

text \<open>
  The HTTP surface of \<open>src/server.rs\<close>: the routes, the middleware, the error bodies, and what of an
  upstream answer is passed on. A request whose body was refused as too large has no body. The answers
  of the HTTP library to unknown paths are the parameter \<open>fallback\<close>.
\<close>

unbundle bit_operations_syntax

subsection \<open>Comparing credentials\<close>

definition constant_time_eq :: "string \<Rightarrow> string \<Rightarrow> bool" where
  "constant_time_eq left right \<longleftrightarrow>
     fold (\<lambda>i difference. difference OR (byte_at left i XOR byte_at right i))
       [0..<max (length left) (length right)] (length left XOR length right) = 0"

subsection \<open>Responses\<close>

definition MAX_UPSTREAM_BODY_BYTES :: nat where "MAX_UPSTREAM_BODY_BYTES = 16 * 1024 * 1024"

definition insert_request_id :: "http_env \<Rightarrow> string \<Rightarrow> headers \<Rightarrow> headers" where
  "insert_request_id env i h = header_try_insert env ''x-request-id'' i h"

definition request_id :: "http_env \<Rightarrow> headers \<Rightarrow> string" where
  "request_id env h = str_or ''req_unknown'' (header_str env ''x-request-id'' h)"

definition json_response :: "http_env \<Rightarrow> nat \<Rightarrow> json \<Rightarrow> string \<Rightarrow> http_response" where
  "json_response env status v i =
     \<lparr>rs_status = status,
      rs_headers = insert_request_id env i [(''content-type'', ''application/json'')],
      rs_body = JsonBody v\<rparr>"

definition openai_error :: "http_env \<Rightarrow> nat \<Rightarrow> string \<Rightarrow> string \<Rightarrow> http_response" where
  "openai_error env status message i =
     json_response env status
       (JObj [(''error'', JObj [(''type'', JStr ''proxy_error''), (''message'', JStr message)])]) i"

definition anthropic_error :: "http_env \<Rightarrow> nat \<Rightarrow> string \<Rightarrow> string \<Rightarrow> string \<Rightarrow> http_response" where
  "anthropic_error env status error_type message i =
     json_response env status (error_envelope error_type message i) i"

definition responses_error :: "http_env \<Rightarrow> nat \<Rightarrow> string \<Rightarrow> string \<Rightarrow> http_response" where
  "responses_error env status message i =
     json_response env status
       (JObj [(''error'', JObj [(''message'', JStr message), (''type'', JStr ''invalid_request_error''),
                             (''code'', JStr ''invalid_request_error'')])]) i"

definition request_body :: "http_env \<Rightarrow> bool \<Rightarrow> string \<Rightarrow> string option \<Rightarrow> http_response + string" where
  "request_body env anthropic i body =
     (case body of
        Some bytes \<Rightarrow> Inr bytes
      | None \<Rightarrow>
          Inl (if anthropic
               then anthropic_error env 413 ''request_too_large'' ''request body exceeds the configured limit'' i
               else openai_error env 413 ''request body exceeds the configured limit'' i))"

subsection \<open>Middleware\<close>

definition ascii_graphic :: "char \<Rightarrow> bool" where
  "ascii_graphic c \<longleftrightarrow> 33 \<le> byte c \<and> byte c \<le> 126"

text \<open>\<open>request_id_middleware\<close>: the client's id where it is short and graphic, a \<open>fresh\<close> one otherwise.\<close>

definition chosen_id :: "http_env \<Rightarrow> string \<Rightarrow> http_request \<Rightarrow> string" where
  "chosen_id env fresh req =
     (case header_str env ''x-request-id'' (rq_headers req) of
        Some v \<Rightarrow> (if v \<noteq> [] \<and> length v \<le> 128 \<and> list_all ascii_graphic v then v else ''req_'' @ fresh)
      | None \<Rightarrow> ''req_'' @ fresh)"

definition identified :: "http_env \<Rightarrow> string \<Rightarrow> http_request \<Rightarrow> http_request" where
  "identified env fresh req =
     req\<lparr>rq_headers := header_try_insert env ''x-request-id'' (chosen_id env fresh req) (rq_headers req)\<rparr>"

definition request_id_middleware ::
  "http_env \<Rightarrow> string \<Rightarrow> (http_request \<Rightarrow> http_response) \<Rightarrow> http_request \<Rightarrow> http_response" where
  "request_id_middleware env fresh inner req =
     (let response = inner (identified env fresh req)
      in response\<lparr>rs_headers := insert_request_id env (chosen_id env fresh req) (rs_headers response)\<rparr>)"

definition offered_key :: "http_env \<Rightarrow> headers \<Rightarrow> string option" where
  "offered_key env h =
     (case Option.bind (header_str env ''authorization'' h) (strip_prefix ''Bearer '') of
        Some key \<Rightarrow> Some key
      | None \<Rightarrow> header_str env ''x-api-key'' h)"

definition is_anthropic :: "http_request \<Rightarrow> bool" where
  "is_anthropic req \<longleftrightarrow>
     starts_with (rq_path req) ''/v1/messages'' \<or> header_get ''anthropic-version'' (rq_headers req) \<noteq> None"

definition auth_middleware ::
  "http_env \<Rightarrow> string \<Rightarrow> (http_request \<Rightarrow> http_response) \<Rightarrow> http_request \<Rightarrow> http_response" where
  "auth_middleware env key inner req =
     (if (case offered_key env (rq_headers req) of
            Some offer \<Rightarrow> constant_time_eq offer key | None \<Rightarrow> False)
      then inner req
      else if is_anthropic req
      then anthropic_error env 401 ''authentication_error'' ''invalid gateway API key''
             (request_id env (rq_headers req))
      else openai_error env 401 ''invalid gateway API key'' (request_id env (rq_headers req)))"

subsection \<open>Routes\<close>

datatype endpoint =
    Messages | CountTokens | ChatCompletions | ResponsesApi | Models | AdminStatus | Healthz | Readyz

definition endpoint_of :: "string \<Rightarrow> string \<Rightarrow> endpoint option" where
  "endpoint_of method path =
     (if method = ''POST'' then
        map_of [(''/v1/messages'', Messages), (''/v1/messages/count_tokens'', CountTokens),
                (''/v1/chat/completions'', ChatCompletions), (''/v1/responses'', ResponsesApi)] path
      else if method = ''GET'' then
        map_of [(''/v1/models'', Models), (''/admin/status'', AdminStatus), (''/healthz'', Healthz),
                (''/readyz'', Readyz)] path
      else None)"

definition healthz :: http_response where
  "healthz = \<lparr>rs_status = 200, rs_headers = [], rs_body = TextBody (''ok'' @ [newline])\<rparr>"

definition readyz :: "key_pool \<Rightarrow> http_response" where
  "readyz p =
     (if pool_len p = 0 then \<lparr>rs_status = 503, rs_headers = [], rs_body = TextBody (''not ready'' @ [newline])\<rparr>
      else \<lparr>rs_status = 200, rs_headers = [], rs_body = TextBody (''ready'' @ [newline])\<rparr>)"

text \<open>\<open>router\<close>: \<open>handle\<close> are the handlers behind the key.\<close>

definition gateway ::
  "http_env \<Rightarrow> string \<Rightarrow> key_pool \<Rightarrow> (endpoint \<Rightarrow> http_request \<Rightarrow> http_response)
   \<Rightarrow> (http_request \<Rightarrow> http_response) \<Rightarrow> string \<Rightarrow> http_request \<Rightarrow> http_response" where
  "gateway env key p handle fallback fresh =
     request_id_middleware env fresh (\<lambda>req.
       case endpoint_of (rq_method req) (rq_path req) of
         None \<Rightarrow> fallback req
       | Some Healthz \<Rightarrow> healthz
       | Some Readyz \<Rightarrow> readyz p
       | Some e \<Rightarrow> auth_middleware env key (handle e) req)"

text \<open>\<open>models\<close>, with the ids of the catalog.\<close>

definition models :: "http_env \<Rightarrow> gateway_config \<Rightarrow> string list \<Rightarrow> http_request \<Rightarrow> http_response" where
  "models env c free req =
     json_response env 200
       (models_body (header_get ''anthropic-version'' (rq_headers req) \<noteq> None) (listed_models c free))
       (request_id env (rq_headers req))"

subsection \<open>What of an upstream answer is passed on\<close>

definition safe_upstream_header :: "string \<Rightarrow> bool" where
  "safe_upstream_header name \<longleftrightarrow>
     name = ''retry-after'' \<or> name = ''cache-control'' \<or> starts_with name ''x-ratelimit-''
     \<or> starts_with name ''anthropic-ratelimit-''"

definition copy_safe_upstream_headers :: "headers \<Rightarrow> headers \<Rightarrow> headers" where
  "copy_safe_upstream_headers target source =
     fold (\<lambda>(name, v) h. if safe_upstream_header name then header_insert name v h else h) source target"

definition upstream_error_type :: "nat \<Rightarrow> string" where
  "upstream_error_type status =
     (if status = 400 \<or> status = 422 then ''invalid_request_error''
      else if status = 401 then ''authentication_error''
      else if status = 403 then ''permission_error''
      else if status = 404 then ''not_found_error''
      else if status = 413 then ''request_too_large''
      else if status = 429 then ''rate_limit_error''
      else ''api_error'')"

definition public_message :: "json \<Rightarrow> string" where
  "public_message sanitized =
     (let found = Option.bind (json_get sanitized ''error'') (\<lambda>error.
            case json_get error ''message'' of
              Some m \<Rightarrow> Some m
            | None \<Rightarrow> (if as_str error \<noteq> None then Some error else None))
      in case Option.bind found as_str of
           Some m \<Rightarrow> m
         | None \<Rightarrow> str_or ''upstream request failed'' (get_str sanitized ''message''))"

definition sanitized_body :: "(string \<Rightarrow> json option) \<Rightarrow> string list \<Rightarrow> string \<Rightarrow> json" where
  "sanitized_body parse secrets body =
     (case parse body of
        Some v \<Rightarrow> sanitize_json v secrets
      | None \<Rightarrow> JObj [(''error'', JObj [(''type'', JStr ''upstream_error''),
                   (''message'', JStr (sanitize_text (from_utf8_lossy body) secrets))])])"

definition raw_upstream_error ::
  "http_env \<Rightarrow> (string \<Rightarrow> json option) \<Rightarrow> string list \<Rightarrow> bool \<Rightarrow> string \<Rightarrow> nat \<Rightarrow> headers \<Rightarrow> string
   \<Rightarrow> http_response" where
  "raw_upstream_error env parse secrets anthropic i status upstream_headers body =
     (let sanitized = sanitized_body parse secrets body;
          result = (if anthropic
            then anthropic_error env status (upstream_error_type status) (public_message sanitized) i
            else json_response env status sanitized i)
      in result\<lparr>rs_headers := copy_safe_upstream_headers (rs_headers result) upstream_headers\<rparr>)"

datatype failure_class = TimedOut | ConnectFailed | OtherFailure

datatype upstream_error = TransportGone failure_class | EveryKeyLimited "duration option"

fun failure_text :: "failure_class \<Rightarrow> string" where
  "failure_text TimedOut = ''upstream request timed out''"
| "failure_text ConnectFailed = ''could not connect to upstream''"
| "failure_text OtherFailure = ''upstream request failed''"

definition retry_seconds :: "duration \<Rightarrow> nat" where
  "retry_seconds d = max (as_secs d) (if d mod ns_per_sec > 0 then 1 else 0)"

definition upstream_failure :: "http_env \<Rightarrow> bool \<Rightarrow> string \<Rightarrow> upstream_error \<Rightarrow> http_response" where
  "upstream_failure env anthropic i error =
     (case error of
        TransportGone f \<Rightarrow>
          (if anthropic then anthropic_error env 502 ''api_error'' (failure_text f) i
           else openai_error env 502 (failure_text f) i)
      | EveryKeyLimited retry_after \<Rightarrow>
          (let message = ''all Cline API keys are currently rate-limited'';
               response = (if anthropic then anthropic_error env 429 ''rate_limit_error'' message i
                           else openai_error env 429 message i)
           in case retry_after of
                None \<Rightarrow> response
              | Some d \<Rightarrow>
                  response\<lparr>rs_headers := header_try_insert env ''retry-after'' (show_nat (retry_seconds d))
                     (rs_headers response)\<rparr>))"

text \<open>\<open>read_response_limited\<close>: the chunks as they come, a failed read in their place.\<close>

fun read_chunks :: "nat \<Rightarrow> string \<Rightarrow> string option list \<Rightarrow> string + string" where
  "read_chunks limit out [] = Inr out"
| "read_chunks limit out (None # rest) = Inl ''failed to read upstream response''"
| "read_chunks limit out (Some chunk # rest) =
     (if limit < sat_add64 (length out) (length chunk) then Inl ''upstream response was too large''
      else read_chunks limit (out @ chunk) rest)"

definition read_response_limited :: "nat \<Rightarrow> nat option \<Rightarrow> string option list \<Rightarrow> string + string" where
  "read_response_limited limit content_length chunks =
     (if (case content_length of Some n \<Rightarrow> limit < n | None \<Rightarrow> False)
      then Inl ''upstream response was too large'' else read_chunks limit [] chunks)"

text \<open>\<open>openai_stream_body\<close>: the chunks of the upstream are relayed; an interruption becomes an event.\<close>

definition interrupted_event :: string where
  "interrupted_event =
     ''data: {\"error\":{\"type\":\"upstream_error\",\"message\":\"upstream stream was interrupted\"}}''
     @ [newline, newline]"

fun openai_stream_body :: "string option list \<Rightarrow> string list" where
  "openai_stream_body [] = []"
| "openai_stream_body (Some chunk # rest) = chunk # openai_stream_body rest"
| "openai_stream_body (None # rest) = [interrupted_event]"

subsection \<open>The comparison is equality\<close>

lemma xor_eq_0_nat: "(a XOR b = 0) = (a = b)" for a b :: nat
proof
  assume zero: "a XOR b = 0"
  show "a = b"
  proof (rule bit_eqI)
    fix n
    have "\<not> bit (a XOR b) n" using zero by simp
    then show "bit a n = bit b n" by (simp add: bit_xor_iff)
  qed
qed simp

lemma or_eq_0_nat: "(a OR b = 0) = (a = 0 \<and> b = 0)" for a b :: nat
proof
  assume zero: "a OR b = 0"
  have "\<not> bit a n" "\<not> bit b n" for n
  proof -
    have "\<not> bit (a OR b) n" using zero by simp
    then show "\<not> bit a n" "\<not> bit b n" by (simp_all add: bit_or_iff)
  qed
  then show "a = 0 \<and> b = 0" by (auto intro!: bit_eqI)
qed simp

lemma fold_or_eq_0: "(fold (\<lambda>i d. d OR f i) is d = 0) = (d = 0 \<and> (\<forall>i \<in> set is. f i = 0))" for d :: nat
  by (induction "is" arbitrary: d) (auto simp: or_eq_0_nat)

lemma byte_inject: "(byte a = byte b) = (a = b)"
  by (simp add: byte_def)

lemma constant_time_eq_iff: "constant_time_eq left right \<longleftrightarrow> left = right"
proof
  assume "constant_time_eq left right"
  then have len: "length left = length right"
    and same: "\<forall>i < max (length left) (length right). byte_at left i = byte_at right i"
    by (auto simp: constant_time_eq_def fold_or_eq_0 xor_eq_0_nat)
  show "left = right"
    using len same by (intro nth_equalityI) (auto simp: byte_at_def byte_inject)
next
  assume "left = right"
  then show "constant_time_eq left right" unfolding constant_time_eq_def fold_or_eq_0 by simp
qed

subsection \<open>Nothing without the key\<close>

lemma header_str_other: "name \<noteq> ''x-request-id'' \<Longrightarrow> header_str env name (header_try_insert env ''x-request-id'' v h) = header_str env name h"
  by (simp add: header_str_def header_get_try_insert)

lemma offered_key_identified [simp]:
  "offered_key env (rq_headers (identified env fresh req)) = offered_key env (rq_headers req)"
  by (simp add: offered_key_def identified_def header_str_other split: option.split)

lemma auth_middleware_key:
  "offered_key env (rq_headers req) = Some key \<Longrightarrow> auth_middleware env key inner req = inner req"
  by (simp add: auth_middleware_def constant_time_eq_iff)

lemma auth_middleware_no_key:
  assumes "offered_key env (rq_headers req) \<noteq> Some key"
  shows "rs_status (auth_middleware env key inner req) = 401"
    and "auth_middleware env key inner req = auth_middleware env key inner' req"
  using assms
  by (auto simp: auth_middleware_def constant_time_eq_iff anthropic_error_def openai_error_def json_response_def
      split: option.splits)

text \<open>C25. Every endpoint but the two probes answers only to the configured key: with it the handler
  runs, on the request with its id; without it the answer is 401 and is the same whatever the handlers
  are, so nothing of them is reached. The key is what follows \<open>Bearer\<close> in the authorization header, and the API key
  header where there is none such. Every answer carries the id of the request, which is the client's if
  that is 1 to 128 graphic ASCII characters, and a fresh one if not.\<close>

theorem gateway_authenticates:
  assumes "endpoint_of (rq_method req) (rq_path req) = Some e" and "rq_path req \<notin> {''/healthz'', ''/readyz''}"
  shows "(let response = gateway env key p handle fallback fresh req;
        offered = (case Option.bind (header_str env ''authorization'' (rq_headers req)) (strip_prefix ''Bearer '') of
            Some offer \<Rightarrow> Some offer
          | None \<Rightarrow> header_str env ''x-api-key'' (rq_headers req));
        i = (case header_str env ''x-request-id'' (rq_headers req) of
            Some v \<Rightarrow> (if v \<noteq> [] \<and> length v \<le> 128 \<and> (\<forall>c \<in> set v. 33 \<le> byte c \<and> byte c \<le> 126) then v
                       else ''req_'' @ fresh)
          | None \<Rightarrow> ''req_'' @ fresh);
        received = req\<lparr>rq_headers := header_try_insert env ''x-request-id'' i (rq_headers req)\<rparr>
      in (if offered = Some key
          then response = (handle e received)
            \<lparr>rs_headers := header_try_insert env ''x-request-id'' i (rs_headers (handle e received))\<rparr>
          else rs_status response = 401 \<and> (\<forall>handle'. gateway env key p handle' fallback fresh req = response))
         \<and> (he_valid env i \<longrightarrow> header_get ''x-request-id'' (rs_headers response) = Some i))"
proof -
  have probes: "e \<noteq> Healthz" "e \<noteq> Readyz" using assms by (auto simp: endpoint_of_def split: if_splits)
  let ?req = "identified env fresh req"
  have offered: "offered_key env (rq_headers req) =
      (case Option.bind (header_str env ''authorization'' (rq_headers req)) (strip_prefix ''Bearer '') of
         Some offer \<Rightarrow> Some offer
       | None \<Rightarrow> header_str env ''x-api-key'' (rq_headers req))" by (simp add: offered_key_def)
  have chosen: "chosen_id env fresh req = (case header_str env ''x-request-id'' (rq_headers req) of
      Some v \<Rightarrow> (if v \<noteq> [] \<and> length v \<le> 128 \<and> (\<forall>c \<in> set v. 33 \<le> byte c \<and> byte c \<le> 126) then v
                 else ''req_'' @ fresh)
    | None \<Rightarrow> ''req_'' @ fresh)"
    by (simp add: chosen_id_def list_all_iff ascii_graphic_def split: option.split)
  have received: "req\<lparr>rq_headers := insert_request_id env (chosen_id env fresh req) (rq_headers req)\<rparr> = ?req"
    by (simp add: identified_def insert_request_id_def)
  note spec = Let_def offered [symmetric] chosen [symmetric] insert_request_id_def [symmetric] received
  have route: "gateway env key p h fallback fresh req =
      (let response = auth_middleware env key (h e) ?req
       in response\<lparr>rs_headers := insert_request_id env (chosen_id env fresh req) (rs_headers response)\<rparr>)" for h
    using assms(1) probes by (cases e) (simp_all add: gateway_def request_id_middleware_def identified_def)
  have key: "auth_middleware env key (handle e) ?req = handle e ?req" if "offered_key env (rq_headers req) = Some key"
    using that by (intro auth_middleware_key) simp
  have refused: "rs_status (auth_middleware env key (handle e) ?req) = 401"
    if "offered_key env (rq_headers req) \<noteq> Some key"
    by (rule auth_middleware_no_key(1)) (simp add: that)
  have unreached: "auth_middleware env key (handle' e) ?req = auth_middleware env key (handle e) ?req"
    if "offered_key env (rq_headers req) \<noteq> Some key" for handle'
    by (rule auth_middleware_no_key(2)) (simp add: that)
  have stamped: "he_valid env (chosen_id env fresh req) \<longrightarrow>
      header_get ''x-request-id'' (rs_headers (gateway env key p handle fallback fresh req)) = Some (chosen_id env fresh req)"
    by (simp add: route Let_def insert_request_id_def header_get_try_insert)
  show ?thesis
  proof (cases "offered_key env (rq_headers req) = Some key")
    case True
    have "gateway env key p handle fallback fresh req = (handle e ?req)
        \<lparr>rs_headers := insert_request_id env (chosen_id env fresh req) (rs_headers (handle e ?req))\<rparr>"
      by (simp add: route Let_def key [OF True])
    then show ?thesis unfolding spec if_P [OF True] using stamped by blast
  next
    case False
    have "rs_status (gateway env key p handle fallback fresh req) = 401"
      by (simp add: route Let_def refused [OF False])
    moreover have "\<forall>handle'. gateway env key p handle' fallback fresh req = gateway env key p handle fallback fresh req"
    proof
      show "gateway env key p handle' fallback fresh req = gateway env key p handle fallback fresh req" for handle'
        using unreached [OF False, of handle'] by (simp only: route)
    qed
    ultimately show ?thesis unfolding spec if_not_P [OF False] using stamped by blast
  qed
qed

definition plain_http :: http_env where
  "plain_http = \<lparr>he_text = Some, he_valid = (\<lambda>v. True), he_name = Some\<rparr>"

definition demo_http_request :: http_request where
  "demo_http_request = \<lparr>rq_method = ''POST'', rq_path = ''/v1/responses'',
     rq_headers = [(''x-api-key'', ''k'')], rq_body = None\<rparr>"

theorem gateway_authenticates_witness:
  "rs_status (gateway plain_http ''other'' (new_pool 0 []) (\<lambda>e req. healthz) (\<lambda>req. healthz) ''1'' demo_http_request) = 401
   \<and> gateway plain_http ''k'' (new_pool 0 []) (\<lambda>e req. healthz) (\<lambda>req. healthz) ''1'' demo_http_request
       = healthz\<lparr>rs_headers := header_try_insert plain_http ''x-request-id'' ''req_1'' (rs_headers healthz)\<rparr>"
proof -
  have route: "endpoint_of (rq_method demo_http_request) (rq_path demo_http_request) = Some ResponsesApi"
    "rq_path demo_http_request \<notin> {''/healthz'', ''/readyz''}"
    by (simp_all add: demo_http_request_def endpoint_of_def)
  have headers: "header_str plain_http ''authorization'' (rq_headers demo_http_request) = None"
    "header_str plain_http ''x-api-key'' (rq_headers demo_http_request) = Some ''k''"
    "header_str plain_http ''x-request-id'' (rq_headers demo_http_request) = None"
    by (simp_all add: demo_http_request_def plain_http_def header_str_def header_get_def)
  show ?thesis
    using gateway_authenticates [OF route, of plain_http "''other''" "new_pool 0 []" "\<lambda>e req. healthz" "\<lambda>req. healthz" "''1''"]
      gateway_authenticates [OF route, of plain_http "''k''" "new_pool 0 []" "\<lambda>e req. healthz" "\<lambda>req. healthz" "''1''"]
    by (simp add: Let_def headers)
qed

end
