(* ===== verification/Glm_Messages.thy ===== *)
theory Glm_Messages
  imports Anthropic_History Reasoning_Policy
begin

text \<open>
  \<open>src/glm53/messages.rs\<close> and \<open>src/glm53/count.rs\<close>: the second reading of an Anthropic request, for
  the exact token count, and the count. The chat template and the tokenizer, embedded files that two
  libraries interpret, are the parameters of \<open>count_env\<close>. The property conversation that this reading and
  \<open>Anthropic_Request\<close>, which produces what is sent, tell the same conversation.
\<close>

datatype count_error =
    CountInvalid string
  | CountUnsupported string "string option" string
  | CountDeclaration declaration_error
  | CountReasoning reasoning_error
  | CountPanic
  | CountApi string

subsection \<open>Blocks\<close>

definition at_block :: "nat \<Rightarrow> nat \<Rightarrow> string" where
  "at_block m b = ''messages['' @ show_nat m @ '']['' @ show_nat b @ '']''"

definition glm_text_block :: "jmap \<Rightarrow> nat \<Rightarrow> nat \<Rightarrow> count_error + json" where
  "glm_text_block obj m b =
     and_then (ok_or (CountInvalid (at_block m b @ '' text block needs a string text'')) (obj_str obj ''text''))
       (\<lambda>s. Inr (text_json s))"

definition image_json :: json where "image_json = JObj [(''type'', JStr ''image'')]"

definition glm_document_block :: "jmap \<Rightarrow> nat \<Rightarrow> nat \<Rightarrow> count_error + json" where
  "glm_document_block obj m b =
     and_then (ok_or (CountInvalid (at_block m b @ '' document needs a source object''))
       (Option.bind (map_of obj ''source'') as_object)) (\<lambda>source.
     case obj_str source ''type'' of
       None \<Rightarrow> Inl (CountInvalid (at_block m b @ '' document source needs a type''))
     | Some kind \<Rightarrow>
         (if kind = ''text'' then
            and_then (ok_or (CountInvalid (at_block m b @ '' text document needs string data''))
              (obj_str source ''data'')) (\<lambda>s. Inr (text_json s))
          else Inl (CountUnsupported (at_block m b @ '' document source '') (Some kind)
                 '' cannot be counted exactly; use a text document'')))"

definition glm_result_block :: "nat \<Rightarrow> nat \<Rightarrow> nat \<Rightarrow> json \<Rightarrow> count_error + json" where
  "glm_result_block m b item block =
     (let here = at_block m b @ '' content['' @ show_nat item @ '']'' in
      and_then (ok_or (CountInvalid (here @ '' must be an object'')) (as_object block)) (\<lambda>obj.
        if obj_str obj ''type'' = Some ''text'' then glm_text_block obj m b
        else if obj_str obj ''type'' = Some ''image'' then Inr image_json
        else if obj_str obj ''type'' = Some ''document'' then glm_document_block obj m b
        else if obj_str obj ''type'' = Some ''tool_reference''
        then Inr (text_json (''[tool reference: '' @ str_or ''?'' (obj_str obj ''tool_name'') @ '']''))
        else if obj_str obj ''type'' = Some ''search_result'' then Inr (text_json (search_result_text obj))
        else Inl (CountUnsupported (here @ '' has unsupported type '') (obj_str obj ''type'') [])))"

definition glm_result_content :: "jmap \<Rightarrow> nat \<Rightarrow> nat \<Rightarrow> count_error + json" where
  "glm_result_content obj m b =
     (case map_of obj ''content'' of
        None \<Rightarrow> Inr (JStr [])
      | Some JNull \<Rightarrow> Inr (JStr [])
      | Some (JStr s) \<Rightarrow> Inr (JStr s)
      | Some (JArr blocks) \<Rightarrow>
          and_then (try_map (glm_result_block m b) 0 blocks) (\<lambda>converted. Inr (JArr converted))
      | Some _ \<Rightarrow> Inl (CountInvalid (at_block m b @ '' tool_result content must be a string or array'')))"

definition glm_tool_message :: "string \<Rightarrow> json \<Rightarrow> json" where
  "glm_tool_message i content =
     JObj [(''role'', JStr ''tool''), (''tool_call_id'', JStr i), (''content'', content)]"

definition nonempty_str :: "jmap \<Rightarrow> string \<Rightarrow> string option" where
  "nonempty_str obj k = (case obj_str obj k of Some s \<Rightarrow> (if s = [] then None else Some s) | None \<Rightarrow> None)"

definition glm_tool_result :: "jmap \<Rightarrow> nat \<Rightarrow> nat \<Rightarrow> count_error + json" where
  "glm_tool_result obj m b =
     and_then (ok_or (CountInvalid (at_block m b @ '' tool_result needs a tool_use_id''))
       (nonempty_str obj ''tool_use_id'')) (\<lambda>i.
     and_then (glm_result_content obj m b) (\<lambda>content. Inr (glm_tool_message i content)))"

subsection \<open>Assistant turns\<close>

record glm_turn =
  gt_output :: "json list"
  gt_text :: string
  gt_reasoning :: string
  gt_calls :: "json list"
  gt_server_calls :: "json list"

definition assistant_message :: "string \<Rightarrow> string \<Rightarrow> json list \<Rightarrow> json" where
  "assistant_message s reasoning calls' =
     JObj ([(''role'', JStr ''assistant''), (''content'', JStr s)]
       @ (if reasoning = [] then [] else [(''reasoning_content'', JStr reasoning)])
       @ (if calls' = [] then [] else [(''tool_calls'', JArr calls')]))"

definition glm_flush :: "glm_turn \<Rightarrow> glm_turn" where
  "glm_flush st =
     (if gt_text st = [] \<and> gt_reasoning st = [] \<and> gt_calls st = [] then st
      else st\<lparr>gt_output := gt_output st @ [assistant_message (gt_text st) (gt_reasoning st) (gt_calls st)],
              gt_text := [], gt_reasoning := [], gt_calls := []\<rparr>)"

definition glm_flush_server :: "glm_turn \<Rightarrow> glm_turn" where
  "glm_flush_server st =
     (if gt_server_calls st = [] then st
      else st\<lparr>gt_output := gt_output st @ [assistant_message [] [] (gt_server_calls st)],
              gt_server_calls := []\<rparr>)"

definition glm_call_json :: "string \<Rightarrow> json \<Rightarrow> json" where
  "glm_call_json name input = JObj [(''function'', JObj [(''name'', JStr name), (''arguments'', input)])]"

definition glm_tool_use :: "jmap \<Rightarrow> nat \<Rightarrow> nat \<Rightarrow> glm_turn \<Rightarrow> count_error + glm_turn" where
  "glm_tool_use obj m b st =
     and_then (ok_or (CountInvalid (at_block m b @ '' tool_use needs a name'')) (obj_str obj ''name'')) (\<lambda>name.
       if \<not> is_object (tool_input obj)
       then Inl (CountInvalid (at_block m b @ '' tool_use input must be an object''))
       else if obj_str obj ''type'' = Some ''server_tool_use''
       then Inr ((glm_flush st)\<lparr>gt_server_calls := gt_server_calls (glm_flush st) @ [glm_call_json name (tool_input obj)]\<rparr>)
       else Inr (st\<lparr>gt_calls := gt_calls st @ [glm_call_json name (tool_input obj)]\<rparr>))"

definition glm_search_result :: "json \<Rightarrow> jmap \<Rightarrow> glm_turn \<Rightarrow> count_error + glm_turn" where
  "glm_search_result block obj st =
     (let st1 = glm_flush_server st in
      and_then (ok_or CountPanic (replayed_result_text block)) (\<lambda>s.
        Inr (st1\<lparr>gt_output := gt_output st1
               @ [glm_tool_message (str_or ''srvtoolu_unknown'' (obj_str obj ''tool_use_id'')) (JStr s)]\<rparr>)))"

definition glm_assistant_block :: "nat \<Rightarrow> nat \<times> json \<Rightarrow> glm_turn \<Rightarrow> count_error + glm_turn" where
  "glm_assistant_block m = (\<lambda>(b, block) st.
     and_then (ok_or (CountInvalid (at_block m b @ '' must be an object'')) (as_object block)) (\<lambda>obj.
       if obj_str obj ''type'' = Some ''text'' then
         and_then (ok_or (CountInvalid (at_block m b @ '' text block needs a string text'')) (obj_str obj ''text''))
           (\<lambda>s. Inr (st\<lparr>gt_text := gt_text st @ s\<rparr>))
       else if obj_str obj ''type'' = Some ''thinking'' then
         Inr (case obj_str obj ''thinking'' of
                Some s \<Rightarrow> st\<lparr>gt_reasoning := gt_reasoning st @ s\<rparr> | None \<Rightarrow> st)
       else if obj_str obj ''type'' = Some ''redacted_thinking'' then Inr st
       else if obj_str obj ''type'' \<in> {Some ''tool_use'', Some ''server_tool_use''} then glm_tool_use obj m b st
       else if obj_str obj ''type'' = Some ''web_search_tool_result'' then glm_search_result block obj st
       else Inl (CountUnsupported (at_block m b @ '' has unsupported assistant block type '')
              (obj_str obj ''type'') [])))"

definition glm_assistant_blocks :: "json list \<Rightarrow> nat \<Rightarrow> count_error + json list" where
  "glm_assistant_blocks blocks m =
     and_then
       (try_fold (glm_assistant_block m) (List.enumerate 0 blocks)
          \<lparr>gt_output = [], gt_text = [], gt_reasoning = [], gt_calls = [], gt_server_calls = []\<rparr>) (\<lambda>st.
       let output = gt_output (glm_flush (glm_flush_server st))
       in Inr (if output = [] then [assistant_message [] [] []] else output))"

definition glm_assistant :: "json \<Rightarrow> nat \<Rightarrow> count_error + json list" where
  "glm_assistant content m =
     (case content of
        JStr s \<Rightarrow> Inr [assistant_message s [] []]
      | JNull \<Rightarrow> Inr [assistant_message [] [] []]
      | JArr blocks \<Rightarrow> glm_assistant_blocks blocks m
      | _ \<Rightarrow> Inl (CountInvalid (''messages['' @ show_nat m @ ''] assistant content must be a string or array'')))"

subsection \<open>User and system turns\<close>

definition glm_role_message :: "string \<Rightarrow> json \<Rightarrow> json" where
  "glm_role_message role content = JObj [(''role'', JStr role), (''content'', content)]"

text \<open>The state of the loop: the messages so far and the ordinary blocks not yet in one.\<close>

definition flush_user :: "json list \<times> json list \<Rightarrow> json list \<times> json list" where
  "flush_user = (\<lambda>(output, ordinary).
     if ordinary = [] then (output, []) else (output @ [glm_role_message ''user'' (JArr ordinary)], []))"

definition glm_user_block :: "nat \<Rightarrow> nat \<times> json \<Rightarrow> json list \<times> json list \<Rightarrow> count_error + (json list \<times> json list)" where
  "glm_user_block m = (\<lambda>(b, block) (output, ordinary).
     and_then (ok_or (CountInvalid (at_block m b @ '' must be an object'')) (as_object block)) (\<lambda>obj.
       if obj_str obj ''type'' = Some ''text''
       then and_then (glm_text_block obj m b) (\<lambda>v. Inr (output, ordinary @ [v]))
       else if obj_str obj ''type'' = Some ''image'' then Inr (output, ordinary @ [image_json])
       else if obj_str obj ''type'' = Some ''document''
       then and_then (glm_document_block obj m b) (\<lambda>v. Inr (output, ordinary @ [v]))
       else if obj_str obj ''type'' = Some ''tool_result''
       then and_then (glm_tool_result obj m b) (\<lambda>v.
              Inr (fst (flush_user (output, ordinary)) @ [v], []))
       else Inl (CountUnsupported (at_block m b @ '' has unsupported block type '') (obj_str obj ''type'') [])))"

definition glm_display_block :: "string \<Rightarrow> nat \<Rightarrow> json \<Rightarrow> count_error + json" where
  "glm_display_block label index block =
     and_then (ok_or (CountInvalid (label @ ''['' @ show_nat index @ ''] must be an object'')) (as_object block)) (\<lambda>obj.
       if obj_str obj ''type'' = Some ''text'' then glm_text_block obj 0 index
       else if obj_str obj ''type'' = Some ''image'' then Inr image_json
       else if obj_str obj ''type'' = Some ''document'' then glm_document_block obj 0 index
       else Inl (CountUnsupported (label @ ''['' @ show_nat index @ ''] has unsupported block type '')
              (obj_str obj ''type'') []))"

definition convert_display_content :: "json \<Rightarrow> string \<Rightarrow> count_error + json" where
  "convert_display_content content label =
     (case content of
        JStr s \<Rightarrow> Inr (JStr s)
      | JArr blocks \<Rightarrow> and_then (try_map (glm_display_block label) 0 blocks) (\<lambda>converted. Inr (JArr converted))
      | _ \<Rightarrow> Inl (CountInvalid (label @ '' content must be a string or array'')))"

definition glm_user :: "json \<Rightarrow> nat \<Rightarrow> json list \<Rightarrow> count_error + json list" where
  "glm_user content m output =
     (if as_str content \<noteq> None then Inr (output @ [glm_role_message ''user'' content])
      else
        and_then (ok_or (CountInvalid (''messages['' @ show_nat m @ ''] content must be a string or array''))
          (as_array content)) (\<lambda>blocks.
        and_then (try_fold (glm_user_block m) (List.enumerate 0 blocks) (output, [])) (\<lambda>st.
          Inr (fst (flush_user st)))))"

definition glm_message :: "nat \<times> json \<Rightarrow> json list \<Rightarrow> count_error + json list" where
  "glm_message = (\<lambda>(m, message) output.
     let here = ''messages['' @ show_nat m @ '']'' in
     and_then (ok_or (CountInvalid (here @ '' must be an object'')) (as_object message)) (\<lambda>obj.
     and_then (ok_or (CountInvalid (here @ ''.role must be a string'')) (obj_str obj ''role'')) (\<lambda>role.
     and_then (ok_or (CountInvalid (here @ '' content is required'')) (map_of obj ''content'')) (\<lambda>content.
       if role = ''system''
       then and_then (convert_display_content content here) (\<lambda>c. Inr (output @ [glm_role_message ''system'' c]))
       else if role = ''user'' then glm_user content m output
       else if role = ''assistant'' then and_then (glm_assistant content m) (\<lambda>ms. Inr (output @ ms))
       else Inl (CountUnsupported (here @ ''.role '') (Some role) '' is not supported by the GLM template'')))))"

subsection \<open>The request and its count\<close>

record glm_conversion =
  gm_messages :: "json list"
  gm_tools :: "json list option"
  gm_effort :: "glm_effort option"

definition glm_tool :: "nat \<Rightarrow> json \<Rightarrow> count_error + json" where
  "glm_tool index tool =
     (if \<not> is_object tool then Inl (CountInvalid (''tools['' @ show_nat index @ ''] must be an object''))
      else case convert_declaration tool of
          Inl e \<Rightarrow> Inl (CountDeclaration e)
        | Inr (Some function_json) \<Rightarrow> Inr function_json
        | Inr None \<Rightarrow> Inr tool)"

definition glm_tools :: "jmap \<Rightarrow> count_error + json list option" where
  "glm_tools obj =
     (case map_of obj ''tools'' of
        None \<Rightarrow> Inr None
      | Some (JArr []) \<Rightarrow> Inr None
      | Some (JArr tools) \<Rightarrow> and_then (try_map glm_tool 0 tools) (\<lambda>ts. Inr (Some ts))
      | Some _ \<Rightarrow> Inl (CountInvalid ''tools must be an array''))"

definition lift_reasoning :: "reasoning_error + 'a \<Rightarrow> count_error + 'a" where
  "lift_reasoning r = (case r of Inl e \<Rightarrow> Inl (CountReasoning e) | Inr x \<Rightarrow> Inr x)"

definition glm_effort_of :: "jmap \<Rightarrow> count_error + glm_effort option" where
  "glm_effort_of obj =
     and_then
       (case map_of obj ''thinking'' of
          None \<Rightarrow> Inr None
        | Some thinking \<Rightarrow>
            lift_reasoning (from_thinking thinking
              (case obj_u64 obj ''max_tokens'' of Some n \<Rightarrow> n | None \<Rightarrow> u64_max))) (\<lambda>first.
     case Option.bind (map_of obj ''output_config'') (\<lambda>config. get_str config ''effort'') of
       None \<Rightarrow> Inr first
     | Some e \<Rightarrow> and_then (lift_reasoning (from_output_effort e)) (\<lambda>x. Inr (Some x)))"

definition glm_messages_of :: "jmap \<Rightarrow> count_error + json list" where
  "glm_messages_of obj =
     and_then (ok_or (CountInvalid ''messages must be an array'')
       (Option.bind (map_of obj ''messages'') as_array)) (\<lambda>input_messages.
     and_then
       (case map_of obj ''system'' of
          None \<Rightarrow> Inr []
        | Some system \<Rightarrow>
            and_then (convert_display_content system ''system'') (\<lambda>c. Inr [glm_role_message ''system'' c])) (\<lambda>start.
       try_fold glm_message (List.enumerate 0 input_messages) start))"

definition convert_anthropic_to_glm :: "json \<Rightarrow> count_error + glm_conversion" where
  "convert_anthropic_to_glm request =
     and_then (ok_or (CountInvalid ''request body must be a JSON object'') (as_object request)) (\<lambda>obj.
     and_then (ok_or (CountInvalid ''model must be a non-empty string'') (nonempty_str obj ''model'')) (\<lambda>_.
     and_then (glm_messages_of obj) (\<lambda>messages.
     and_then (glm_tools obj) (\<lambda>tools.
     and_then (glm_effort_of obj) (\<lambda>effort'.
       Inr \<lparr>gm_messages = messages, gm_tools = tools, gm_effort = effort'\<rparr>)))))"

record count_env =
  cn_render :: "(string \<times> json) list \<Rightarrow> string option"
  cn_encode :: "string \<Rightarrow> nat list option"

definition template_context :: "glm_conversion \<Rightarrow> (string \<times> json) list" where
  "template_context conv =
     [(''messages'', JArr (gm_messages conv))]
     @ (case gm_tools conv of None \<Rightarrow> [] | Some ts \<Rightarrow> [(''tools'', JArr ts)])
     @ [(''clear_thinking'', JBool False), (''add_generation_prompt'', JBool True)]
     @ (case gm_effort conv of None \<Rightarrow> [] | Some e \<Rightarrow> [(''reasoning_effort'', JStr (effort_as_str e))])"

definition count_input_tokens :: "count_env \<Rightarrow> json \<Rightarrow> count_error + nat" where
  "count_input_tokens env request =
     and_then (convert_anthropic_to_glm request) (\<lambda>conv.
     and_then (ok_or (CountApi ''chat template rendering failed'') (cn_render env (template_context conv))) (\<lambda>rendered.
     and_then (ok_or (CountApi ''tokenization failed'') (cn_encode env rendered)) (\<lambda>ids.
       if length ids \<le> u32_max then Inr (length ids) else Inl (CountApi ''token count overflowed''))))"

subsection \<open>One conversation\<close>

text \<open>What a message says, on either side: its text, its reasoning, the names of its calls, the call it
  answers. An empty user message, which the counted conversation leaves out, says nothing.\<close>

datatype utterance =
    SystemSays string
  | UserSays string
  | AssistantSays string string "string list"
  | ToolSays string string

definition words_of :: "json \<Rightarrow> string" where "words_of b = str_or [] (get_str b ''text'')"

fun visible :: "json \<Rightarrow> string" where
  "visible (JStr s) = s"
| "visible (JArr bs) = concat (map words_of bs)"
| "visible _ = []"

definition called :: "json \<Rightarrow> string" where
  "called c = str_or [] (Option.bind (json_get c ''function'') (\<lambda>f. get_str f ''name''))"

fun wire_says :: "wire_message \<Rightarrow> utterance list" where
  "wire_says (WireSystem c) = [SystemSays (visible c)]"
| "wire_says (WireUser role c) =
     (if role = ''assistant'' then [AssistantSays (visible c) [] []]
      else if c = JArr [] then [] else [UserSays (visible c)])"
| "wire_says (WireAssistant content calls' reasoning) =
     [AssistantSays (visible (JArr content)) reasoning (map called calls')]"
| "wire_says (WireTool i c e) = [ToolSays i (visible c)]"

definition member_or_null :: "json \<Rightarrow> string \<Rightarrow> json" where
  "member_or_null v k = value_or_null (json_get v k)"

definition glm_says :: "json \<Rightarrow> utterance" where
  "glm_says v =
     (let role = str_or [] (get_str v ''role''); content = visible (member_or_null v ''content'') in
      if role = ''system'' then SystemSays content
      else if role = ''user'' then UserSays content
      else if role = ''tool'' then ToolSays (str_or [] (get_str v ''tool_call_id'')) content
      else AssistantSays content (str_or [] (get_str v ''reasoning_content''))
        (map called (case member_or_null v ''tool_calls'' of JArr cs \<Rightarrow> cs | _ \<Rightarrow> [])))"

definition conversation :: "wire_message list \<Rightarrow> utterance list" where
  "conversation ws = concat (map wire_says ws)"

lemma conversation_simps [simp]: "conversation [] = []" "conversation (w # ws) = wire_says w @ conversation ws" "conversation (xs @ ys) = conversation xs @ conversation ys"
  by (simp_all add: conversation_def)

lemma words_of_simps [simp]: "words_of (text_json s) = s" "words_of image_json = []"
  "called (function_call_json i n a) = n" "called (glm_call_json n v) = n"
  by (simp_all add: words_of_def text_json_def image_json_def called_def function_call_json_def glm_call_json_def get_str_def str_or_def)

lemma glm_says_simps [simp]:
  "glm_says (glm_tool_message i c) = ToolSays i (visible c)"
  "glm_says (assistant_message s r cs) = AssistantSays s r (map called cs)"
  "glm_says (glm_role_message ''user'' c) = UserSays (visible c)"
  "glm_says (glm_role_message ''system'' c) = SystemSays (visible c)"
  by (simp_all add: glm_says_def glm_tool_message_def assistant_message_def glm_role_message_def member_or_null_def
      value_or_null_def get_str_def str_or_def Let_def)

lemma try_map_same_text:
  assumes "try_map f i xs = Inr ys" and "try_map g j xs = Inr zs"
    and "\<And>i j x y z. f i x = Inr y \<Longrightarrow> g j x = Inr z \<Longrightarrow> words_of y = words_of z"
  shows "visible (JArr ys) = visible (JArr zs)"
proof -
  have "words_of (ys ! k) = words_of (zs ! k)" if "k < length xs" for k
    using assms(1,2) that by (intro assms(3) [of "i + k" "xs ! k" _ "j + k"]) (auto simp: try_map_Inr)
  moreover have "length ys = length xs" "length zs = length xs" using assms(1,2) by (auto simp: try_map_Inr)
  ultimately have "map words_of ys = map words_of zs" by (intro nth_equalityI) auto
  then show ?thesis by simp
qed

lemma text_block_same: "convert_text_block obj = Inr y \<Longrightarrow> glm_text_block obj m b = Inr z \<Longrightarrow> words_of y = words_of z"
  by (auto simp: convert_text_block_def glm_text_block_def and_then_Inr required_string_Inr)

lemma image_block_text: "convert_image_block obj = Inr y \<Longrightarrow> words_of y = []"
  by (auto simp: convert_image_block_def and_then_Inr words_of_def get_str_def str_or_def)

lemma glm_document_text:
  assumes "glm_document_block obj m b = Inr z"
  obtains source s where "Option.bind (map_of obj ''source'') as_object = Some source"
    "obj_str source ''type'' = Some ''text''" "obj_str source ''data'' = Some s" "z = text_json s"
proof -
  obtain source where source: "Option.bind (map_of obj ''source'') as_object = Some source"
    using assms by (cases "Option.bind (map_of obj ''source'') as_object") (simp_all add: glm_document_block_def)
  show ?thesis
  proof (cases "obj_str source ''type'' = Some ''text''")
    case True
    then show ?thesis using assms source that
      by (cases "obj_str source ''data''") (simp_all add: glm_document_block_def)
  qed (use assms source in \<open>simp add: glm_document_block_def split: option.splits if_split_asm\<close>)
qed

lemma document_block_same:
  assumes "convert_document_block obj = Inr y" and "glm_document_block obj m b = Inr z"
  shows "words_of y = words_of z"
proof -
  obtain source s where "Option.bind (map_of obj ''source'') as_object = Some source"
    "obj_str source ''type'' = Some ''text''" "obj_str source ''data'' = Some s" "z = text_json s"
    using assms(2) by (rule glm_document_text)
  then show ?thesis using assms(1)
    by (auto simp: convert_document_block_def required_string_def split: if_split_asm)
qed

lemma system_same:
  assumes "convert_system v = Inr c" and "convert_display_content v label = Inr d"
  shows "visible c = visible d"
proof (cases v)
  case (JArr blocks)
  then obtain ys zs where "try_map convert_system_block 0 blocks = Inr ys" "c = JArr ys"
    "try_map (glm_display_block label) 0 blocks = Inr zs" "d = JArr zs"
    using assms by (auto simp: convert_system_def convert_display_content_def and_then_Inr)
  then show ?thesis
    by (auto intro!: try_map_same_text dest: text_block_same
        simp del: visible.simps simp: convert_system_block_def glm_display_block_def and_then_Inr required_string_Inr split: if_split_asm)
next
  case (JStr s)
  then show ?thesis using assms by (auto simp: convert_system_def convert_display_content_def)
qed (use assms in \<open>simp_all add: convert_system_def convert_display_content_def\<close>)

lemma result_block_same:
  assumes "convert_tool_result_content_block i block = Inr y" and "glm_result_block m b j block = Inr z"
  shows "words_of y = words_of z"
  using assms
  by (auto simp: convert_tool_result_content_block_def glm_result_block_def and_then_Inr required_string_Inr Let_def
      image_block_text dest: text_block_same document_block_same split: if_split_asm)

lemma result_content_same:
  assumes "tool_result_content obj = Inr c" and "glm_result_content obj m b = Inr d"
  shows "visible c = visible d"
proof (cases "map_of obj ''content''")
  case (Some v)
  show ?thesis
  proof (cases v)
    case (JArr blocks)
    then obtain ys zs where "try_map convert_tool_result_content_block 0 blocks = Inr ys" "c = JArr ys"
      "try_map (glm_result_block m b) 0 blocks = Inr zs" "d = JArr zs"
      using assms Some by (auto simp: tool_result_content_def glm_result_content_def and_then_Inr)
    then show ?thesis by (simp del: visible.simps) (erule (1) try_map_same_text, erule (1) result_block_same)
  next
    case (JStr s)
    then show ?thesis using assms Some by (auto simp: tool_result_content_def glm_result_content_def)
  qed (use assms Some in \<open>simp_all add: tool_result_content_def glm_result_content_def\<close>)
qed (use assms in \<open>simp_all add: tool_result_content_def glm_result_content_def\<close>)

text \<open>The two loops over the blocks of an assistant turn, in step: \<open>new\<close> are the messages the turn added.\<close>

definition same_turn :: "wire_message list \<Rightarrow> assistant_turn \<Rightarrow> glm_turn \<Rightarrow> bool" where
  "same_turn base st g \<longleftrightarrow>
     (\<exists>new. at_output st = base @ new \<and> conversation new = map glm_says (gt_output g) \<and> (new = [] \<longleftrightarrow> gt_output g = []))
     \<and> visible (JArr (at_content st)) = gt_text g \<and> (at_content st = [] \<longleftrightarrow> gt_text g = [])
     \<and> at_reasoning st = gt_reasoning g
     \<and> map called (at_calls st) = map called (gt_calls g)
     \<and> map called (at_server_calls st) = map called (gt_server_calls g)"

lemma same_turn_start:
  "same_turn base (start_turn base)
     \<lparr>gt_output = [], gt_text = [], gt_reasoning = [], gt_calls = [], gt_server_calls = []\<rparr>"
  by (simp add: same_turn_def start_turn_def)

lemma map_empty_iff: "map f xs = map f ys \<Longrightarrow> xs = [] \<longleftrightarrow> ys = []"
  by (metis map_is_Nil_conv)

lemma same_turn_add:
  assumes "same_turn base st g" and "wire_says w = [glm_says v]"
  shows "same_turn base (st\<lparr>at_output := at_output st @ [w]\<rparr>) (g\<lparr>gt_output := gt_output g @ [v]\<rparr>)"
  using assms by (auto simp: same_turn_def)

lemma same_turn_flush:
  assumes "same_turn base st g"
  shows "same_turn base (flush_segment st) (glm_flush g)"
proof (cases "at_content st = [] \<and> at_calls st = [] \<and> at_reasoning st = []")
  case True
  then have "glm_flush g = g" using assms by (auto simp: same_turn_def glm_flush_def)
  then show ?thesis using True assms by (simp add: flush_segment_def)
next
  case False
  then have "glm_flush g = (g\<lparr>gt_output := gt_output g @ [assistant_message (gt_text g) (gt_reasoning g) (gt_calls g)],
      gt_text := [], gt_reasoning := [], gt_calls := []\<rparr>)"
    using assms by (auto simp: same_turn_def glm_flush_def)
  then show ?thesis using False assms by (auto simp: same_turn_def flush_segment_def)
qed

lemma same_turn_flush_server:
  assumes "same_turn base st g"
  shows "same_turn base (flush_server_calls st) (glm_flush_server g)"
proof (cases "at_server_calls st = []")
  case True
  then show ?thesis using assms by (auto simp: same_turn_def flush_server_calls_def glm_flush_server_def)
next
  case False
  then have "gt_server_calls g \<noteq> []" using assms by (auto simp: same_turn_def)
  then show ?thesis using False assms by (auto simp: same_turn_def flush_server_calls_def glm_flush_server_def)
qed

lemma same_turn_block:
  assumes same: "same_turn base st g"
    and wire: "assistant_block json_text block st = Inr st'"
    and glm: "glm_assistant_block m (b, block) g = Inr g'"
  shows "same_turn base st' g'"
proof -
  obtain obj where obj: "as_object block = Some obj" using wire by (auto simp: assistant_block_def and_then_Inr)
  obtain kind where kind: "obj_str obj ''type'' = Some kind" "kind \<noteq> []"
    using wire obj by (auto simp: assistant_block_def and_then_Inr required_string_Inr)
  consider (words) "kind = ''text''" | (thinking) "kind \<in> {''thinking'', ''redacted_thinking''}"
    | (tool) "kind = ''tool_use''" | (server) "kind = ''server_tool_use''" | (result) "kind = ''web_search_tool_result''"
    using wire obj kind by (auto simp: assistant_block_def required_string_def split: if_split_asm)
  then show ?thesis
  proof cases
    case words
    then obtain s where "s \<noteq> []" "st' = st\<lparr>at_content := at_content st @ [text_json s]\<rparr>" "g' = g\<lparr>gt_text := gt_text g @ s\<rparr>"
      using wire glm obj kind
      by (auto simp: assistant_block_def glm_assistant_block_def and_then_Inr required_string_Inr convert_text_block_def
          split: if_split_asm)
    then show ?thesis using same by (auto simp: same_turn_def)
  next
    case thinking
    then show ?thesis using same wire glm obj kind
      by (auto simp: same_turn_def assistant_block_def glm_assistant_block_def required_string_def split: option.splits)
  next
    case tool
    then obtain i name where "st' = st\<lparr>at_tool_ids := insert i (at_tool_ids st),
        at_calls := at_calls st @ [function_call_json i name (json_text (tool_input obj))]\<rparr>" "obj_str obj ''name'' = Some name"
      using wire obj kind
      by (auto simp: assistant_block_def tool_use_block_def and_then_Inr required_string_Inr split: if_split_asm)
    moreover from this tool have "g' = g\<lparr>gt_calls := gt_calls g @ [glm_call_json name (tool_input obj)]\<rparr>"
      using glm obj kind by (auto simp: glm_assistant_block_def glm_tool_use_def split: if_split_asm)
    ultimately show ?thesis using same by (simp add: same_turn_def)
  next
    case server
    then obtain i name where "st' = (flush_segment st)\<lparr>at_server_ids := i # at_server_ids (flush_segment st),
        at_server_calls := at_server_calls (flush_segment st) @ [function_call_json i name (json_text (tool_input obj))]\<rparr>"
      "obj_str obj ''name'' = Some name"
      using wire obj kind
      by (auto simp: assistant_block_def server_tool_use_block_def and_then_Inr required_string_Inr Let_def split: if_split_asm)
    moreover from this server
    have "g' = (glm_flush g)\<lparr>gt_server_calls := gt_server_calls (glm_flush g) @ [glm_call_json name (tool_input obj)]\<rparr>"
      using glm obj kind by (auto simp: glm_assistant_block_def glm_tool_use_def split: if_split_asm)
    ultimately show ?thesis using same_turn_flush [OF same] by (simp add: same_turn_def)
  next
    case result
    then obtain i s where i: "obj_str obj ''tool_use_id'' = Some i" and s: "replayed_result_text block = Some s"
      and st': "st' = (flush_server_calls (st\<lparr>at_seen := i # at_seen st\<rparr>))\<lparr>at_output :=
        at_output (flush_server_calls (st\<lparr>at_seen := i # at_seen st\<rparr>)) @ [WireTool i (JStr s) None]\<rparr>"
      using wire obj kind
      by (auto simp: assistant_block_def web_search_result_block_def and_then_Inr required_string_Inr Let_def split: if_split_asm)
    then have "g' = (glm_flush_server g)\<lparr>gt_output := gt_output (glm_flush_server g) @ [glm_tool_message i (JStr s)]\<rparr>"
      using glm obj kind result
      by (auto simp: glm_assistant_block_def glm_search_result_def and_then_Inr Let_def str_or_def)
    moreover have "same_turn base (st\<lparr>at_seen := i # at_seen st\<rparr>) g" using same by (simp add: same_turn_def)
    ultimately show ?thesis unfolding st' by (auto intro!: same_turn_add same_turn_flush_server)
  qed
qed

lemma enumerate_Cons: "List.enumerate n (x # xs) = (n, x) # List.enumerate (Suc n) xs"
  by simp

lemma same_turn_fold:
  "try_fold (assistant_block json_text) blocks st = Inr st' \<Longrightarrow>
   try_fold (glm_assistant_block m) (List.enumerate n blocks) g = Inr g' \<Longrightarrow>
   same_turn base st g \<Longrightarrow> same_turn base st' g'"
proof (induction blocks arbitrary: n st g)
  case (Cons block blocks)
  obtain st1 where st1: "assistant_block json_text block st = Inr st1"
    and st': "try_fold (assistant_block json_text) blocks st1 = Inr st'"
    using Cons.prems(1) by (auto simp: and_then_Inr)
  obtain g1 where g1: "glm_assistant_block m (n, block) g = Inr g1"
    and g': "try_fold (glm_assistant_block m) (List.enumerate (Suc n) blocks) g1 = Inr g'"
    using Cons.prems(2) by (auto simp: and_then_Inr)
  show ?case by (rule Cons.IH [OF st' g' same_turn_block [OF Cons.prems(3) st1 g1]])
qed simp

lemma assistant_blocks_same:
  assumes "convert_assistant_blocks json_text blocks base = Inr (outs, ids)"
    and "glm_assistant_blocks blocks m = Inr ms"
  shows "\<exists>new. outs = base @ new \<and> conversation new = map glm_says ms"
proof -
  obtain st where st: "try_fold (assistant_block json_text) blocks (start_turn base) = Inr st"
    and flushed: "at_server_calls st = []"
    and out: "outs = (if length (at_output (flush_segment st)) = length base
       then at_output (flush_segment st) @ [WireAssistant [] [] []] else at_output (flush_segment st))"
    using assms(1) by (auto simp: convert_assistant_blocks_def and_then_Inr Let_def split: if_split_asm)
  obtain g where g: "try_fold (glm_assistant_block m) (List.enumerate 0 blocks)
      \<lparr>gt_output = [], gt_text = [], gt_reasoning = [], gt_calls = [], gt_server_calls = []\<rparr> = Inr g"
    and ms: "ms = (if gt_output (glm_flush (glm_flush_server g)) = [] then [assistant_message [] [] []]
       else gt_output (glm_flush (glm_flush_server g)))"
    using assms(2) by (auto simp: glm_assistant_blocks_def and_then_Inr Let_def)
  have same: "same_turn base st g" by (rule same_turn_fold [OF st g same_turn_start])
  then have "glm_flush_server g = g" using flushed by (auto simp: same_turn_def glm_flush_server_def)
  then have "same_turn base (flush_segment st) (glm_flush (glm_flush_server g))"
    using same_turn_flush [OF same] by simp
  then show ?thesis unfolding out ms by (auto simp: same_turn_def)
qed

definition same_user :: "user_turn \<Rightarrow> json list \<times> json list \<Rightarrow> bool" where
  "same_user st g \<longleftrightarrow>
     conversation (ut_output st) = map glm_says (fst g)
     \<and> visible (JArr (ut_ordinary st)) = visible (JArr (snd g))
     \<and> (ut_ordinary st = [] \<longleftrightarrow> snd g = []) \<and> (ut_saw_ordinary st \<or> snd g = [])"

lemma same_user_ordinary:
  assumes "same_user st g" and "ordinary_block convert obj st = Inr st'"
    and "\<And>y. convert obj = Inr y \<Longrightarrow> words_of y = words_of v"
  shows "same_user st' (fst g, snd g @ [v])"
  using assms by (auto simp: same_user_def ordinary_block_def and_then_Inr)

lemma same_user_block:
  assumes same: "same_user st g"
    and wire: "user_block pending block st = Inr st'"
    and glm: "glm_user_block m (b, block) g = Inr g'"
  shows "same_user st' g'"
proof -
  obtain outs ordinary where g: "g = (outs, ordinary)" by (cases g)
  obtain obj where obj: "as_object block = Some obj" using wire by (auto simp: user_block_def and_then_Inr)
  obtain kind where kind: "obj_str obj ''type'' = Some kind" "kind \<noteq> []"
    using wire obj by (auto simp: user_block_def and_then_Inr required_string_Inr)
  consider (words) "kind = ''text''" | (image) "kind = ''image''" | (document) "kind = ''document''"
    | (result) "kind = ''tool_result''"
    using wire obj kind by (auto simp: user_block_def required_string_def split: if_split_asm)
  then show ?thesis
  proof cases
    case words
    then obtain v where "ordinary_block convert_text_block obj st = Inr st'" "glm_text_block obj m b = Inr v"
      "g' = (fst g, snd g @ [v])"
      using wire glm obj kind g by (auto simp: user_block_def glm_user_block_def required_string_def and_then_Inr)
    then show ?thesis using same text_block_same by (auto intro: same_user_ordinary)
  next
    case image
    then have "ordinary_block convert_image_block obj st = Inr st'" "g' = (fst g, snd g @ [image_json])"
      using wire glm obj kind g by (auto simp: user_block_def glm_user_block_def required_string_def)
    then show ?thesis using same image_block_text by (auto intro: same_user_ordinary)
  next
    case document
    then obtain v where "ordinary_block convert_document_block obj st = Inr st'" "glm_document_block obj m b = Inr v"
      "g' = (fst g, snd g @ [v])"
      using wire glm obj kind g by (auto simp: user_block_def glm_user_block_def required_string_def and_then_Inr)
    then show ?thesis using same document_block_same by (auto intro: same_user_ordinary)
  next
    case result
    then obtain call_id w v where saw: "\<not> ut_saw_ordinary st" and w: "convert_tool_result obj pending = Inr w"
      and st': "st' = st\<lparr>ut_seen := call_id # ut_seen st, ut_output := ut_output st @ [w]\<rparr>"
      and v: "glm_tool_result obj m b = Inr v" and g': "g' = (fst (flush_user (outs, ordinary)) @ [v], [])"
      using wire glm obj kind g
      by (auto simp: user_block_def glm_user_block_def required_string_Inr and_then_Inr split: if_split_asm)
    then have "flush_user (outs, ordinary) = (outs, [])" using same g by (simp add: same_user_def flush_user_def)
    moreover have "wire_says w = [glm_says v]"
      using w v result_content_same
      by (auto simp: convert_tool_result_def glm_tool_result_def and_then_Inr required_string_Inr nonempty_str_def
          split: option.splits if_split_asm)
    ultimately show ?thesis using same saw unfolding st' g' by (auto simp: same_user_def g)
  qed
qed

lemma same_user_fold:
  "try_fold (user_block pending) blocks st = Inr st' \<Longrightarrow>
   try_fold (glm_user_block m) (List.enumerate n blocks) g = Inr g' \<Longrightarrow> same_user st g \<Longrightarrow> same_user st' g'"
proof (induction blocks arbitrary: n st g)
  case (Cons block blocks)
  obtain st1 where st1: "user_block pending block st = Inr st1"
    and st': "try_fold (user_block pending) blocks st1 = Inr st'"
    using Cons.prems(1) by (auto simp: and_then_Inr)
  obtain g1 where g1: "glm_user_block m (n, block) g = Inr g1"
    and g': "try_fold (glm_user_block m) (List.enumerate (Suc n) blocks) g1 = Inr g'"
    using Cons.prems(2) by (auto simp: and_then_Inr)
  show ?case by (rule Cons.IH [OF st' g' same_user_block [OF Cons.prems(3) st1 g1]])
qed simp

lemma user_blocks_same:
  assumes "convert_user_blocks blocks outs pending = Inr outs'"
    and "glm_user (JArr blocks) m base = Inr ms" and "conversation outs = map glm_says base"
  shows "conversation outs' = map glm_says ms"
proof -
  obtain st where st: "try_fold (user_block pending) blocks
      \<lparr>ut_output = outs, ut_ordinary = [], ut_saw_ordinary = False, ut_seen = []\<rparr> = Inr st"
    and outs': "outs' = ut_output st
         @ (if ut_ordinary st = [] then [] else [WireUser ''user'' (JArr (ut_ordinary st))])
         @ (if blocks = [] then [WireUser ''user'' (JArr [])] else [])"
    using assms(1) by (auto simp: convert_user_blocks_def and_then_Inr)
  obtain g where g: "try_fold (glm_user_block m) (List.enumerate 0 blocks) (base, []) = Inr g" and ms: "ms = fst (flush_user g)"
    using assms(2) by (auto simp: glm_user_def and_then_Inr)
  have "same_user st g"
    by (rule same_user_fold [OF st g]) (simp add: same_user_def assms(3))
  then show ?thesis unfolding outs' ms
    by (cases g) (auto simp: same_user_def flush_user_def simp del: visible.simps)
qed

lemma convert_message_step:
  assumes "convert_message json_text (i, v) (outs, pending) = Inr st'"
  obtains obj role content where "as_object v = Some obj" "obj_str obj ''role'' = Some role"
    "role \<in> {''user'', ''assistant'', ''system''}" "map_of obj ''content'' = Some content"
    "(if role = ''system'' then and_then (convert_system content) (\<lambda>c. Inr (outs @ [WireSystem c], {}))
      else if as_str content \<noteq> None
      then Inr (outs @ [WireUser (if role = ''assistant'' then ''assistant'' else ''user'') content], {})
      else and_then (ok_or (Invalid ''message content must be a string or array'') (as_array content))
        (\<lambda>blocks. if role = ''assistant'' then convert_assistant_blocks json_text blocks outs
                  else and_then (convert_user_blocks blocks outs pending) (\<lambda>ms. Inr (ms, {})))) = Inr st'"
proof -
  obtain obj where obj: "as_object v = Some obj"
    using assms by (cases "as_object v") (simp_all add: convert_message_def)
  obtain role where role: "required_string obj ''role'' = Inr role"
    using assms by (cases "required_string obj ''role''") (simp_all add: convert_message_def obj)
  have named: "role \<in> {''user'', ''assistant'', ''system''}"
    using assms by (rule contrapos_pp) (simp add: convert_message_def obj role del: insert_iff)
  obtain content where content: "map_of obj ''content'' = Some content"
    using assms named by (cases "map_of obj ''content''") (simp_all add: convert_message_def obj role del: insert_iff)
  have "obj_str obj ''role'' = Some role" using role by (simp add: required_string_Inr)
  then show ?thesis
    using that [OF obj _ named content] assms named
    by (simp add: convert_message_def obj role content del: insert_iff)
qed

lemma message_same:
  assumes wire: "convert_message json_text (i, v) (outs, pending) = Inr (outs', pending')"
    and glm: "glm_message (j, v) base = Inr ms" and same: "conversation outs = map glm_says base"
  shows "conversation outs' = map glm_says ms"
  using wire
proof (rule convert_message_step)
  fix obj role content
  assume obj: "as_object v = Some obj" and role: "obj_str obj ''role'' = Some role"
    and roles: "role \<in> {''user'', ''assistant'', ''system''}" and content: "map_of obj ''content'' = Some content"
    and step: "(if role = ''system'' then and_then (convert_system content) (\<lambda>c. Inr (outs @ [WireSystem c], {}))
      else if as_str content \<noteq> None
      then Inr (outs @ [WireUser (if role = ''assistant'' then ''assistant'' else ''user'') content], {})
      else and_then (ok_or (Invalid ''message content must be a string or array'') (as_array content))
        (\<lambda>blocks. if role = ''assistant'' then convert_assistant_blocks json_text blocks outs
                  else and_then (convert_user_blocks blocks outs pending) (\<lambda>ms. Inr (ms, {})))) = Inr (outs', pending')"
  note read = glm_message_def obj role content Let_def
  consider (system) "role = ''system''" | (words) s where "role \<noteq> ''system''" "content = JStr s"
    | (blocks) bs where "role \<noteq> ''system''" "content = JArr bs"
    using step by (cases content) (auto split: if_split_asm)
  then show ?thesis
  proof cases
    case system
    then obtain c where c: "convert_system content = Inr c" "outs' = outs @ [WireSystem c]"
      using step by (auto simp: and_then_Inr)
    obtain d where "convert_display_content content (''messages['' @ show_nat j @ '']'') = Inr d"
      "ms = base @ [glm_role_message ''system'' d]"
      using glm system by (auto simp: read and_then_Inr)
    then show ?thesis using c same system_same by auto
  next
    case words
    then have outs: "outs' = outs @ [WireUser (if role = ''assistant'' then ''assistant'' else ''user'') content]"
      using step by simp
    show ?thesis
    proof (cases "role = ''assistant''")
      case True
      then show ?thesis using glm words outs same by (auto simp: read glm_assistant_def)
    next
      case False
      then have "role = ''user''" using roles words by auto
      then show ?thesis using glm words outs same by (auto simp: read glm_user_def)
    qed
  next
    case blocks
    show ?thesis
    proof (cases "role = ''assistant''")
      case True
      then have "convert_assistant_blocks json_text bs outs = Inr (outs', pending')" using step blocks by simp
      moreover obtain new where "glm_assistant_blocks bs j = Inr new" "ms = base @ new"
        using glm True blocks by (auto simp: read glm_assistant_def and_then_Inr)
      ultimately show ?thesis using assistant_blocks_same [of json_text bs outs outs' pending' j new] same by auto
    next
      case False
      then have user: "role = ''user''" using roles blocks by auto
      have "convert_user_blocks bs outs pending = Inr outs'" using step blocks user by (auto simp: and_then_Inr)
      moreover have "glm_user (JArr bs) j base = Inr ms" using glm user blocks by (auto simp: read)
      ultimately show ?thesis using same by (rule user_blocks_same)
    qed
  qed
qed

lemma messages_same:
  "try_fold (convert_message json_text) (List.enumerate n vs) (outs, pending) = Inr (outs', pending') \<Longrightarrow>
   try_fold glm_message (List.enumerate n vs) base = Inr ms \<Longrightarrow> conversation outs = map glm_says base \<Longrightarrow>
   conversation outs' = map glm_says ms"
proof (induction vs arbitrary: n outs pending base)
  case (Cons v vs)
  obtain o1 p1 where o1: "convert_message json_text (n, v) (outs, pending) = Inr (o1, p1)"
    and o': "try_fold (convert_message json_text) (List.enumerate (Suc n) vs) (o1, p1) = Inr (outs', pending')"
    using Cons.prems(1) by (auto simp: and_then_Inr)
  obtain b1 where b1: "glm_message (n, v) base = Inr b1"
    and ms: "try_fold glm_message (List.enumerate (Suc n) vs) b1 = Inr ms"
    using Cons.prems(2) by (auto simp: and_then_Inr)
  show ?case by (rule Cons.IH [OF o' ms message_same [OF o1 b1 Cons.prems(3)]])
qed simp

subsection \<open>What cannot be counted\<close>

lemma glm_message_role:
  assumes "glm_message (j, v) base = Inr ms"
  shows "get_str v ''role'' \<in> {Some ''system'', Some ''user'', Some ''assistant''}"
  using assms by (cases v) (auto simp: glm_message_def and_then_Inr Let_def obj_str_def get_str_def split: if_split_asm)

lemma glm_fold_roles:
  "try_fold glm_message (List.enumerate n vs) base = Inr ms \<Longrightarrow> v \<in> set vs \<Longrightarrow>
     get_str v ''role'' \<in> {Some ''system'', Some ''user'', Some ''assistant''}"
proof (induction vs arbitrary: n base)
  case (Cons w vs)
  then obtain b1 where b1: "glm_message (n, w) base = Inr b1"
    and ms: "try_fold glm_message (List.enumerate (Suc n) vs) b1 = Inr ms"
    by (auto simp: and_then_Inr)
  show ?case
  proof (cases "v = w")
    case True
    then show ?thesis using glm_message_role [OF b1] by simp
  next
    case False
    then show ?thesis using Cons.IH [OF ms] Cons.prems(2) by simp
  qed
qed simp

lemma counted_roles:
  assumes "count_input_tokens env (JObj obj) = Inr n" and "map_of obj ''messages'' = Some (JArr vs)" and "v \<in> set vs"
  shows "get_str v ''role'' \<in> {Some ''system'', Some ''user'', Some ''assistant''}"
proof -
  obtain start ms where "try_fold glm_message (List.enumerate 0 vs) start = Inr ms"
    using assms(1,2) by (auto simp: count_input_tokens_def convert_anthropic_to_glm_def glm_messages_of_def and_then_Inr)
  then show ?thesis using assms(3) by (rule glm_fold_roles)
qed

text \<open>The body that is sent, which is in the upstream's format, is not in the format the counter reads: a
  body with the result of a tool is never counted.\<close>

lemma tool_result_never_counted:
  assumes "map_of obj ''messages'' = Some (JArr (map into_wire ws))" and "WireTool i c e \<in> set ws"
  shows "count_input_tokens env (JObj obj) \<noteq> Inr n"
proof
  assume "count_input_tokens env (JObj obj) = Inr n"
  moreover have "into_wire (WireTool i c e) \<in> set (map into_wire ws)" using assms(2) by (simp del: into_wire.simps)
  ultimately have "get_str (into_wire (WireTool i c e)) ''role'' \<in> {Some ''system'', Some ''user'', Some ''assistant''}"
    using assms(1) counted_roles by blast
  then show False by (simp add: get_str_def)
qed

text \<open>Where a request can be both sent and counted, the counted conversation is the one sent: the
  same system, user, assistant and tool messages in the same order, with the same text, the same
  reasoning, the same calls by name and the same call ids answered. Only a user message without any
  block, which is sent, is not counted.\<close>

theorem counted_conversation_is_sent:
  assumes "wire_messages json_text obj = Inr ws" and "convert_anthropic_to_glm (JObj obj) = Inr conv"
  shows "map glm_says (gm_messages conv) = conversation ws"
proof -
  have glm: "glm_messages_of obj = Inr (gm_messages conv)"
    using assms(2) by (auto simp: convert_anthropic_to_glm_def and_then_Inr)
  obtain vs where vs: "Option.bind (map_of obj ''messages'') as_array = Some vs"
    using glm by (auto simp: glm_messages_of_def and_then_Inr)
  obtain start st where start: "(case map_of obj ''system'' of None \<Rightarrow> Inr []
      | Some system \<Rightarrow> and_then (convert_system system) (\<lambda>c. Inr [WireSystem c])) = Inr start"
    and st: "try_fold (convert_message json_text) (List.enumerate 0 vs) (start, {}) = Inr st" and ws: "ws = fst st"
    using assms(1) vs by (auto simp: wire_messages_def convert_messages_def and_then_Inr)
  obtain base where base: "(case map_of obj ''system'' of None \<Rightarrow> Inr []
      | Some system \<Rightarrow> and_then (convert_display_content system ''system'') (\<lambda>c. Inr [glm_role_message ''system'' c])) = Inr base"
    and ms: "try_fold glm_message (List.enumerate 0 vs) base = Inr (gm_messages conv)"
    using glm vs by (auto simp: glm_messages_of_def and_then_Inr)
  have "conversation start = map glm_says base"
    using start base system_same by (auto simp: and_then_Inr split: option.splits)
  moreover obtain outs pending where "st = (outs, pending)" by (cases st)
  ultimately show ?thesis using messages_same [of json_text 0 vs start "{}" outs pending base "gm_messages conv"] st ms ws
    by simp
qed

definition one_call_request :: jmap where
  "one_call_request = [(''model'', JStr ''m''), (''messages'', JArr one_call_history)]"

lemma one_call_request_counts:
  "\<exists>conv. convert_anthropic_to_glm (JObj one_call_request) = Inr conv"
  by (simp add: convert_anthropic_to_glm_def one_call_request_def glm_messages_of_def one_call_history_def turn_json_def
      tool_use_json_def tool_result_json_def glm_message_def glm_user_def glm_assistant_def glm_assistant_blocks_def
      glm_assistant_block_def glm_user_block_def glm_tool_use_def glm_tool_result_def glm_result_content_def
      glm_tools_def glm_effort_of_def nonempty_str_def obj_str_def obj_u64_def tool_input_def is_object_def Let_def)

theorem counted_conversation_is_sent_witness:
  "\<exists>ws conv. wire_messages brief_text one_call_request = Inr ws
     \<and> convert_anthropic_to_glm (JObj one_call_request) = Inr conv \<and> map glm_says (gm_messages conv) = conversation ws"
proof -
  obtain ws where ws: "wire_messages brief_text one_call_request = Inr ws"
    using one_call_history_converts by (auto simp: wire_messages_def one_call_request_def)
  obtain conv where conv: "convert_anthropic_to_glm (JObj one_call_request) = Inr conv"
    using one_call_request_counts by blast
  show ?thesis using ws conv counted_conversation_is_sent [OF ws conv] by blast
qed

end
