(* ===== verification/Spec2Isabelle.thy ===== *)
theory Spec2Isabelle
  imports Search_Loop Stream_Watch Context_Guard Reasoning_Shadow Optimize Cache Responses_Outcome Anthropic_Agreement
    Log_Writer Gateway_Http Glm_Messages
begin

text \<open>
  Verification of cline-proxy, a gateway between coding agents and an OpenAI-compatible upstream (Cline).
  A client speaks Anthropic Messages, OpenAI chat completions or OpenAI Responses; the gateway checks its
  key, converts the request to a chat body, rewrites the body, chooses one of several upstream keys, sends,
  and converts the answer back, as one object or as a stream. All paths below are under \<open>src/src\<close> of the
  repository; the tests, the benchmarks and the Python tools beside them are not modelled.

  The parts and how they meet, in the order of a request.

  Start and surface. \<open>Gateway_Config\<close> is \<open>config.rs\<close> and \<open>proxy_route.rs\<close>: the configuration, every check of
  its validation, and the state \<open>AppState\<close> starts with. \<open>Http_Types\<close> and \<open>Gateway_Http\<close> are the routes, the
  middleware, the error bodies and the passing on of upstream errors in \<open>server.rs\<close>. \<open>Log_Writer\<close> holds
  the bounded parts of \<open>obs.rs\<close>: flight recorder, queue, rolling files with their quota.

  Requests in. \<open>Anthropic_Request\<close> is the first part of \<open>anthropic.rs\<close>, \<open>Responses_Request\<close> is
  \<open>responses/request.rs\<close>; both give a chat body. \<open>Anthropic_History\<close> holds the theorems on tool calls and
  their answers. \<open>Reasoning_Policy\<close> (\<open>glm53/reasoning.rs\<close>), \<open>Optimize\<close> (\<open>optimize.rs\<close>), \<open>Cache\<close>
  (\<open>cache.rs\<close>), \<open>Reasoning_Shadow\<close> (\<open>reasoning_shadow.rs\<close>) and \<open>Context_Guard\<close> (\<open>context_guard.rs\<close>) rewrite
  or refuse that body; \<open>Glm_Messages\<close> (\<open>glm53/messages.rs\<close>, \<open>glm53/count.rs\<close>) reads the request a second
  time, to count its tokens.

  Keys and the upstream. \<open>Key_Pool\<close> is \<open>pool.rs\<close>, \<open>Runtime_State\<close> is \<open>state.rs\<close>, which keeps the
  cooldowns over a restart, \<open>Rate_Limit\<close> is \<open>rate_limit.rs\<close>, which decides what counts as a 429 and for how
  long. \<open>Upstream\<close> is the failover loop of \<open>upstream.rs\<close>, once as the function \<open>send_chat\<close> and once as the step
  relation \<open>chat_step\<close> of any number of requests on one pool. \<open>Upstream_Client\<close> is what else \<open>upstream.rs\<close>
  sends, with \<open>model_catalog.rs\<close>. \<open>Redaction\<close> is \<open>redaction.rs\<close>.

  Answers out. \<open>Sse_Decoder\<close>, \<open>Anthropic_Response\<close>, \<open>Anthropic_Aggregate\<close>, \<open>Anthropic_Stream\<close> and
  \<open>Anthropic_Pump\<close> are the rest of \<open>anthropic.rs\<close>: the event decoder, complete answers, aggregated streams, the
  converter \<open>StreamState\<close> and the task \<open>stream_body\<close> around it. \<open>Responses_Types\<close>, \<open>Responses_Stream\<close> and
  \<open>Responses_Pump\<close> are the same for the Responses protocol (\<open>responses/types.rs\<close>, \<open>responses/stream.rs\<close>,
  \<open>responses_pump.rs\<close>). \<open>Stream_Watch\<close> (\<open>stream_watch.rs\<close>) finds stalls. \<open>Web_Search\<close> (\<open>websearch.rs\<close>) and
  \<open>Search_Loop\<close> run searches between two generations.

  How state is modelled. A struct is a record, an enum a datatype, each operation one definition in the order
  of the code; a \<open>Result\<close> is a sum with the error on the left (\<open>Rust_Result\<close>), a panic a value of its own. JSON
  (\<open>Json_Value\<close>) keeps the members of an object in order, as the feature \<open>preserve_order\<close> does. A Rust string is
  its list of bytes (\<open>Rust_Prelude\<close>). Unsigned integers are \<open>nat\<close> with the saturation or the check of
  the code written out; clocks are read by the caller and passed in. A task with a \<open>select\<close> is a step function on
  events, run over any list of events. Shared state changes in atomic steps, one per lock.

  Interfaces. \<open>Machine_Interfaces\<close> has the locales for stateful parts (an invariant every allowed operation
  keeps; a frame that no operation changes; a loop that spends a fresh resource in each round; an emitter of
  numbered frames). \<open>pump_invariant\<close> and \<open>pump_law\<close> are the contracts between the Responses task and its
  handlers, \<open>output_law\<close> that of the converter's output list, \<open>stream_law\<close> that of the Anthropic converter towards
  its task. Each is interpreted on the model of the code, and the properties rest on those facts.

  What the lemmas show. Keys: the active key is left only for an effective 429, a cooldown or a running probe, each request
  tries every key at most once and ends, cooldowns are respected and survive a restart (\<open>Upstream\<close>, \<open>Key_Pool\<close>,
  \<open>Runtime_State\<close>, \<open>Rate_Limit\<close>). Secrets: only the gateway key opens an endpoint, only the selected key leaves
  in a header, no configured secret is left in a published text (\<open>Gateway_Http\<close>, \<open>Upstream_Client\<close>,
  \<open>Redaction\<close>). Requests: what reaches the upstream, that tool calls and answers stay paired, that rewriting
  keeps the meaning. Answers: a reader of the protocol accepts every stream, streams and aggregations carry the
  same, chunk borders do not matter, every announced call is in the final output, which can be sent back as history. Bounds:
  stores, logs, rounds and searches. Where the code does not do what it means to, or a comment says otherwise, a
  lemma states what it does.

  Bounds and recursion. Loops are structural recursion, or \<open>function\<close> with a measure: the chat loop on the keys not
  yet tried, the search loop on its 8 generations, the pump on the length of its buffer. The one loop that can
  run for ever, the search for a free segment number, is a \<open>partial_function\<close>, and the lemma
  \<open>fresh_segment_returns_iff\<close> says exactly when it returns. No definition has fuel.

  Parameters. The JSON parser and printer, URL and header syntax, the HMAC, fresh ids, the clocks, the
  chat template, the tokenizer and the network are arguments of the definitions that use them; a theorem that
  relies on their documented behaviour says so in a hypothesis, for the values concerned where that is enough.

  What is not modelled: the bodies of the chat handlers of \<open>server.rs\<close>, which call the parts above around awaits and
  log records; log summaries and console lines (\<open>obs.rs\<close>, \<open>console.rs\<close>); the embedded template and tokenizer;
  \<open>main.rs\<close>; and the libraries, among them HTTP, TLS and the async runtime. Durability after a power failure and
  memory limits are out of scope too.
\<close>

end
